(* ===== verification/Waypipe_Prelude.thy ===== *)
theory Waypipe_Prelude
  imports Main "HOL-Library.Word"
begin

text \<open>
  Shared vocabulary of the development: the machine integers and byte buffers of the Rust
  program, its \<open>Result\<close>/panic outcomes, the arithmetic operations of the Rust standard library
  that the sources use (\<open>checked_add\<close>, \<open>saturating_mul\<close>, \<open>checked_next_multiple_of\<close>, \<open>div_ceil\<close>,
  \<open>to_le_bytes\<close>, slicing), and the generic lemmas the component theories rest on.

  Conventions. A \<open>usize\<close> is a \<open>nat\<close> together with the bound \<open>USIZE_MAX\<close> (64-bit targets); an
  arithmetic operation that overflows is a panic, which is what a build with overflow checks
  does, so a theorem that an operation does not panic also shows that a build without the
  checks computes the same value. Values that travel over a wire are \<open>w word\<close>.
\<close>

unbundle bit_operations_syntax

named_theorems res_simps \<open>evaluation of results\<close>
named_theorems wire_simps \<open>little-endian encodings and their inverses\<close>
named_theorems slice_simps \<open>slices of byte buffers\<close>

type_synonym u8 = "8 word"
type_synonym u16 = "16 word"
type_synonym u32 = "32 word"
type_synonym u64 = "64 word"
type_synonym bytes = "u8 list"

section \<open>Outcomes: \<open>Result\<close> values and panics\<close>

text \<open>
  A Rust function returns a value, returns an \<open>Err\<close>, or panics. An operation of an \<open>unsafe\<close>
  block outside its preconditions (an access out of the bounds of an allocation, a read of
  memory that was not initialised) is \<open>UB\<close>.
\<close>

datatype failure = Err string | Panic | UB

type_synonym 'a res = "failure + 'a"

abbreviation Ok :: "'a \<Rightarrow> 'a res" where
  "Ok x \<equiv> Inr x"

abbreviation panic :: "'a res" where
  "panic \<equiv> Inl Panic"

abbreviation fail :: "string \<Rightarrow> 'a res" where
  "fail s \<equiv> Inl (Err s)"

definition rbind :: "'a res \<Rightarrow> ('a \<Rightarrow> 'b res) \<Rightarrow> 'b res" where
  "rbind r f = (case r of Inl e \<Rightarrow> Inl e | Inr x \<Rightarrow> f x)"

definition assert_that :: "bool \<Rightarrow> unit res" where
  "assert_that b = (if b then Ok () else panic)"

definition ok_or :: "'a option \<Rightarrow> failure \<Rightarrow> 'a res" where
  "ok_or x e = (case x of None \<Rightarrow> Inl e | Some v \<Rightarrow> Inr v)"

lemma rbind_Inr [simp]: "rbind (Inr x) f = f x"
  by (simp add: rbind_def)

lemma rbind_Inl [simp]: "rbind (Inl e) f = Inl e"
  by (simp add: rbind_def)

lemma rbind_cong [fundef_cong]:
  assumes "r = r'" and "\<And>x. r' = Inr x \<Longrightarrow> f x = g x"
  shows "rbind r f = rbind r' g"
  using assms by (cases r') auto

lemma rbind_eq_Inr_iff [res_simps]:
  "rbind r f = Inr y \<longleftrightarrow> (\<exists>x. r = Inr x \<and> f x = Inr y)"
  by (cases r) auto

lemma rbind_eq_Inl_iff [res_simps]:
  "rbind r f = Inl e \<longleftrightarrow> r = Inl e \<or> (\<exists>x. r = Inr x \<and> f x = Inl e)"
  by (cases r) auto

lemma assert_that_True [simp]: "assert_that True = Inr ()"
  by (simp add: assert_that_def)

lemma assert_that_False [simp]: "assert_that False = panic"
  by (simp add: assert_that_def)

lemma assert_that_eq_Inr [simp]: "assert_that b = Inr u \<longleftrightarrow> b"
  by (simp add: assert_that_def)

lemma assert_that_eq_Inl [simp]: "assert_that b = Inl e \<longleftrightarrow> \<not> b \<and> e = Panic"
  by (auto simp: assert_that_def)

lemma rbind_assert [simp]: "rbind (assert_that b) f = (if b then f () else panic)"
  by (simp add: assert_that_def)

lemma ok_or_simps [simp]:
  "ok_or None e = Inl e"
  "ok_or (Some v) e = Inr v"
  by (simp_all add: ok_or_def)

section \<open>Machine integers\<close>

definition USIZE_MAX :: nat where "USIZE_MAX = 2 ^ 64 - 1"
definition ISIZE_MAX :: nat where "ISIZE_MAX = 2 ^ 63 - 1"
definition U32_MAX :: nat where "U32_MAX = 2 ^ 32 - 1"
definition I32_MAX :: int where "I32_MAX = 2 ^ 31 - 1"
definition I32_MIN :: int where "I32_MIN = - (2 ^ 31)"

lemmas machine_bounds = USIZE_MAX_def ISIZE_MAX_def U32_MAX_def I32_MAX_def I32_MIN_def

definition usize :: "nat \<Rightarrow> nat res" where
  "usize n = (if n \<le> USIZE_MAX then Ok n else panic)"

definition u32_nat :: "nat \<Rightarrow> nat res" where
  "u32_nat n = (if n \<le> U32_MAX then Ok n else panic)"

definition usize_sub :: "nat \<Rightarrow> nat \<Rightarrow> nat res" where
  "usize_sub a b = (if b \<le> a then Ok (a - b) else panic)"

definition usize_add :: "nat \<Rightarrow> nat \<Rightarrow> nat res" where
  "usize_add a b = usize (a + b)"

definition usize_mul :: "nat \<Rightarrow> nat \<Rightarrow> nat res" where
  "usize_mul a b = usize (a * b)"

definition checked_add :: "nat \<Rightarrow> nat \<Rightarrow> nat option" where
  "checked_add a b = (if a + b \<le> USIZE_MAX then Some (a + b) else None)"

definition checked_mul :: "nat \<Rightarrow> nat \<Rightarrow> nat option" where
  "checked_mul a b = (if a * b \<le> USIZE_MAX then Some (a * b) else None)"

definition saturating_add :: "nat \<Rightarrow> nat \<Rightarrow> nat" where
  "saturating_add a b = min (a + b) USIZE_MAX"

definition saturating_mul :: "nat \<Rightarrow> nat \<Rightarrow> nat" where
  "saturating_mul a b = min (a * b) USIZE_MAX"

definition div_ceil :: "nat \<Rightarrow> nat \<Rightarrow> nat" where
  "div_ceil a b = (a + b - 1) div b"

definition next_multiple_of :: "nat \<Rightarrow> nat \<Rightarrow> nat" where
  "next_multiple_of a b = b * div_ceil a b"

definition checked_next_multiple_of :: "nat \<Rightarrow> nat \<Rightarrow> nat option" where
  "checked_next_multiple_of a b =
     (if b = 0 then None
      else if next_multiple_of a b \<le> USIZE_MAX then Some (next_multiple_of a b) else None)"

lemma usize_eq_Inr [simp]: "usize n = Inr m \<longleftrightarrow> m = n \<and> n \<le> USIZE_MAX"
  by (auto simp: usize_def)

lemma usize_ok [simp]: "n \<le> USIZE_MAX \<Longrightarrow> usize n = Inr n"
  by (simp add: usize_def)

lemma usize_add_ok [simp]: "a + b \<le> USIZE_MAX \<Longrightarrow> usize_add a b = Inr (a + b)"
  by (simp add: usize_add_def)

lemma usize_mul_ok [simp]: "a * b \<le> USIZE_MAX \<Longrightarrow> usize_mul a b = Inr (a * b)"
  by (simp add: usize_mul_def)

lemma usize_sub_ok [simp]: "b \<le> a \<Longrightarrow> usize_sub a b = Inr (a - b)"
  by (simp add: usize_sub_def)

lemma saturating_add_id [simp]: "a + b \<le> USIZE_MAX \<Longrightarrow> saturating_add a b = a + b"
  by (simp add: saturating_add_def)

lemma saturating_mul_id [simp]: "a * b \<le> USIZE_MAX \<Longrightarrow> saturating_mul a b = a * b"
  by (simp add: saturating_mul_def)

lemma div_ceil_le_iff: "0 < b \<Longrightarrow> div_ceil a b \<le> c \<longleftrightarrow> a \<le> c * b"
proof -
  assume b: "0 < b"
  have "div_ceil a b \<le> c \<longleftrightarrow> (a + b - 1) div b < c + 1"
    by (auto simp: div_ceil_def)
  also have "\<dots> \<longleftrightarrow> a + b - 1 < (c + 1) * b"
    using b by (simp only: less_mult_imp_div_less div_less_iff_less_mult)
  also have "\<dots> \<longleftrightarrow> a \<le> c * b"
    using b by (auto simp: add_mult_distrib)
  finally show ?thesis .
qed

lemma div_ceil_ge: "0 < b \<Longrightarrow> a \<le> div_ceil a b * b"
  using div_ceil_le_iff [of b a "div_ceil a b"] by simp

lemma div_ceil_mono: "a \<le> a' \<Longrightarrow> div_ceil a b \<le> div_ceil a' b"
  by (simp add: div_ceil_def div_le_mono)

lemma div_ceil_mult [simp]: "0 < b \<Longrightarrow> div_ceil (a * b) b = a"
  by (rule antisym) (simp add: div_ceil_le_iff, metis div_ceil_ge mult_le_cancel2)

lemma div_ceil_0 [simp]: "0 < b \<Longrightarrow> div_ceil 0 b = 0"
  using div_ceil_mult [of b 0] by simp

lemma div_ceil_less_add: "0 < b \<Longrightarrow> div_ceil a b * b < a + b"
proof -
  assume "0 < b"
  moreover have "div_ceil a b * b \<le> a + b - 1"
    unfolding div_ceil_def by (rule div_times_less_eq_dividend)
  ultimately show ?thesis by linarith
qed

lemma div_le_div_ceil: "a div b \<le> div_ceil a b"
  by (cases "b = 0") (simp_all add: div_ceil_def div_le_mono)

lemma div_less_div_ceil: "0 < b \<Longrightarrow> a < a' \<Longrightarrow> a div b < div_ceil a' b"
proof -
  assume b: "0 < b" and lt: "a < a'"
  have "a div b * b \<le> a" by simp
  with lt have "\<not> a' \<le> a div b * b" by linarith
  with b show ?thesis using div_ceil_le_iff [of b a' "a div b"] by simp
qed

lemma next_multiple_of_ge: "0 < b \<Longrightarrow> a \<le> next_multiple_of a b"
  using div_ceil_ge [of b a] by (simp add: next_multiple_of_def mult.commute)

lemma next_multiple_of_less: "0 < b \<Longrightarrow> next_multiple_of a b < a + b"
  using div_ceil_less_add [of b a] by (simp add: next_multiple_of_def mult.commute)

lemma dvd_next_multiple_of [simp]: "b dvd next_multiple_of a b"
  by (simp add: next_multiple_of_def)

lemma next_multiple_of_id: "b dvd a \<Longrightarrow> 0 < b \<Longrightarrow> next_multiple_of a b = a"
  by (auto simp: next_multiple_of_def elim!: dvdE) (metis div_ceil_mult mult.commute)

lemma next_multiple_of_le: "0 < b \<Longrightarrow> a \<le> c \<Longrightarrow> b dvd c \<Longrightarrow> next_multiple_of a b \<le> c"
  by (auto simp: next_multiple_of_def elim!: dvdE)
    (metis div_ceil_le_iff mult.commute)


section \<open>Little-endian byte encodings\<close>

primrec to_le :: "nat \<Rightarrow> 'a::len word \<Rightarrow> bytes" where
  "to_le 0 w = []"
| "to_le (Suc n) w = ucast w # to_le n (drop_bit 8 w)"

primrec from_le :: "bytes \<Rightarrow> 'a::len word" where
  "from_le [] = 0"
| "from_le (b # bs) = ucast b OR push_bit 8 (from_le bs)"

definition u32_to_le_bytes :: "u32 \<Rightarrow> bytes" where
  "u32_to_le_bytes w = to_le 4 w"

definition u32_from_le_bytes :: "bytes \<Rightarrow> u32" where
  "u32_from_le_bytes bs = from_le bs"

text \<open>An \<open>i32\<close> is an \<open>int\<close>, with the two's complement encoding of the 32-bit word.\<close>

definition i32_to_le_bytes :: "int \<Rightarrow> bytes" where
  "i32_to_le_bytes i = u32_to_le_bytes (word_of_int i)"

definition i32_from_le_bytes :: "bytes \<Rightarrow> int" where
  "i32_from_le_bytes bs = sint (u32_from_le_bytes bs)"

definition is_i32 :: "int \<Rightarrow> bool" where
  "is_i32 i \<longleftrightarrow> I32_MIN \<le> i \<and> i \<le> I32_MAX"

definition u64_to_le_bytes :: "u64 \<Rightarrow> bytes" where
  "u64_to_le_bytes w = to_le 8 w"

definition u64_from_le_bytes :: "bytes \<Rightarrow> u64" where
  "u64_from_le_bytes bs = from_le bs"

lemma length_to_le [simp, wire_simps]: "length (to_le n w) = n"
  by (induction n arbitrary: w) simp_all

lemma from_le_to_le: "from_le (to_le n w) = take_bit (8 * n) w"
proof (induction n arbitrary: w)
  case 0
  then show ?case by simp
next
  case (Suc n)
  show ?case
    unfolding to_le.simps from_le.simps Suc.IH
    by (rule bit_word_eqI) (auto simp: bit_simps)
qed

lemma bit_from_le:
  "bit (from_le bs :: 'a::len word) i \<longleftrightarrow>
     i < LENGTH('a) \<and> i < 8 * length bs \<and> bit (bs ! (i div 8)) (i mod 8)"
proof (induction bs arbitrary: i)
  case Nil
  then show ?case by simp
next
  case (Cons b bs)
  show ?case
  proof (cases "i < 8")
    case True
    then show ?thesis by (auto simp: bit_simps)
  next
    case False
    then have "i div 8 = Suc ((i - 8) div 8)" and "i mod 8 = (i - 8) mod 8"
      by (simp_all add: div_if mod_if)
    with False show ?thesis
      by (auto simp: bit_simps Cons.IH dest: bit_imp_le_length)
  qed
qed

lemma to_le_from_le:
  assumes "8 * length bs \<le> LENGTH('a)"
  shows "to_le (length bs) (from_le bs :: 'a::len word) = bs"
  using assms
proof (induction bs)
  case Nil
  then show ?case by simp
next
  case (Cons b bs)
  have hd: "ucast (from_le (b # bs) :: 'a word) = b"
    by (rule bit_word_eqI) (use Cons.prems in \<open>auto simp: bit_simps\<close>)
  have tl: "drop_bit 8 (from_le (b # bs) :: 'a word) = from_le bs"
    by (rule bit_word_eqI)
      (use Cons.prems in \<open>auto simp: bit_simps bit_from_le dest: bit_imp_le_length\<close>)
  show ?case
    using Cons by (simp only: list.size to_le.simps add_0_right add_Suc_right hd tl) simp
qed

lemma length_u32_to_le_bytes [simp, wire_simps]: "length (u32_to_le_bytes w) = 4"
  by (simp add: u32_to_le_bytes_def)

lemma u32_from_to_le_bytes [simp, wire_simps]: "u32_from_le_bytes (u32_to_le_bytes w) = w"
  unfolding u32_from_le_bytes_def u32_to_le_bytes_def from_le_to_le
  by (rule bit_word_eqI) (auto simp: bit_simps)

lemma u32_to_from_le_bytes: "length bs = 4 \<Longrightarrow> u32_to_le_bytes (u32_from_le_bytes bs) = bs"
  using to_le_from_le [of bs, where 'a = 32] by (simp add: u32_to_le_bytes_def u32_from_le_bytes_def)

lemma length_i32_to_le_bytes [simp, wire_simps]: "length (i32_to_le_bytes i) = 4"
  by (simp add: i32_to_le_bytes_def)

lemma i32_from_to_le_bytes [simp, wire_simps]:
  "is_i32 i \<Longrightarrow> i32_from_le_bytes (i32_to_le_bytes i) = i"
  by (simp add: i32_to_le_bytes_def i32_from_le_bytes_def is_i32_def I32_MIN_def I32_MAX_def
      sint_word_ariths signed_of_int signed_take_bit_int_eq_self)

lemma is_i32_from_le_bytes [simp]: "is_i32 (i32_from_le_bytes bs)"
  using sint_range_size [of "u32_from_le_bytes bs"]
  by (simp add: i32_from_le_bytes_def is_i32_def I32_MIN_def I32_MAX_def word_size)

lemma length_u64_to_le_bytes [simp, wire_simps]: "length (u64_to_le_bytes w) = 8"
  by (simp add: u64_to_le_bytes_def)

lemma u64_from_to_le_bytes [simp, wire_simps]: "u64_from_le_bytes (u64_to_le_bytes w) = w"
  unfolding u64_from_le_bytes_def u64_to_le_bytes_def from_le_to_le
  by (rule bit_word_eqI) (auto simp: bit_simps)

lemma u64_to_from_le_bytes: "length bs = 8 \<Longrightarrow> u64_to_le_bytes (u64_from_le_bytes bs) = bs"
  using to_le_from_le [of bs, where 'a = 64] by (simp add: u64_to_le_bytes_def u64_from_le_bytes_def)

lemma unat_u32_less [simp]: "unat (w :: u32) < 2 ^ 32"
  using unsigned_less [of w, where 'a = nat] by simp

lemma unat_u32_le_USIZE_MAX [simp]: "unat (w :: u32) \<le> USIZE_MAX"
  using unat_u32_less [of w] by (simp add: USIZE_MAX_def)

section \<open>Bit fields of a word\<close>

lemma bit_nat_less: "(c::nat) < 2 ^ n \<Longrightarrow> bit c i \<Longrightarrow> i < n"
  by (metis bit_take_bit_iff take_bit_nat_eq_self)

lemma nat_shift_or:
  assumes "(c::nat) < 2 ^ n"
  shows "a * 2 ^ n OR c = a * 2 ^ n + c"
proof (rule disjunctive_add [symmetric])
  fix i
  show "\<not> bit (a * 2 ^ n) i \<or> \<not> bit c i"
    using assms bit_nat_less [of c n i]
    by (auto simp: bit_push_bit_iff_nat simp flip: push_bit_eq_mult)
qed

lemma word_shift_or:
  "c < 2 ^ n \<Longrightarrow>
     (word_of_nat (a * 2 ^ n) OR word_of_nat c :: 'a::len word) = word_of_nat (a * 2 ^ n + c)"
  by (simp only: nat_shift_or [symmetric] of_nat_or_eq)

lemma unat_and_mask: "unat (w AND (2 ^ n - 1) :: 'a::len word) = unat w mod 2 ^ n"
proof -
  have "w AND (2 ^ n - 1) = take_bit n w"
    by (simp add: take_bit_eq_mask mask_eq_exp_minus_1)
  then show ?thesis unfolding take_bit_eq_mod [of n "unat w", symmetric] by (metis unsigned_take_bit_eq)
qed

lemma unat_word_of_nat: "n < 2 ^ LENGTH('a) \<Longrightarrow> unat (word_of_nat n :: 'a::len word) = n"
  by (simp only: unat_of_nat mod_less)

lemma unat_drop_bit: "unat (drop_bit n w) = unat w div 2 ^ n"
  unfolding unat_drop_bit_eq by (rule drop_bit_eq_div)

section \<open>Slices of byte buffers\<close>

text \<open>
  \<open>sub_slice xs a b\<close> is the Rust slice \<open>xs[a..b]\<close> where the range is in bounds; \<open>slice_res\<close> panics
  as the indexing operation does. \<open>write_at xs a ys\<close> is the buffer after
  \<open>xs[a..a + ys.len()].copy_from_slice(ys)\<close>.
\<close>

definition sub_slice :: "'a list \<Rightarrow> nat \<Rightarrow> nat \<Rightarrow> 'a list" where
  "sub_slice xs a b = take (b - a) (drop a xs)"

definition slice_res :: "'a list \<Rightarrow> nat \<Rightarrow> nat \<Rightarrow> 'a list res" where
  "slice_res xs a b = (if a \<le> b \<and> b \<le> length xs then Ok (sub_slice xs a b) else panic)"

definition write_at :: "'a list \<Rightarrow> nat \<Rightarrow> 'a list \<Rightarrow> 'a list" where
  "write_at xs a ys = take a xs @ ys @ drop (a + length ys) xs"

definition write_at_res :: "'a list \<Rightarrow> nat \<Rightarrow> 'a list \<Rightarrow> 'a list res" where
  "write_at_res xs a ys = (if a + length ys \<le> length xs then Ok (write_at xs a ys) else panic)"

lemma sub_slice_drop_take: "sub_slice xs a b = drop a (take b xs)"
  by (simp add: sub_slice_def drop_take)

lemma sub_slice_cong_drop: "drop a xs = drop a ys \<Longrightarrow> sub_slice xs a b = sub_slice ys a b"
  by (simp add: sub_slice_def)

lemma sub_slice_cong_take: "take b xs = take b ys \<Longrightarrow> sub_slice xs a b = sub_slice ys a b"
  by (simp add: sub_slice_drop_take)

lemma length_slice [simp, slice_simps]:
  "a \<le> b \<Longrightarrow> b \<le> length xs \<Longrightarrow> length (sub_slice xs a b) = b - a"
  by (simp add: sub_slice_def)

lemma slice_res_ok [simp, slice_simps]:
  "a \<le> b \<Longrightarrow> b \<le> length xs \<Longrightarrow> slice_res xs a b = Inr (sub_slice xs a b)"
  by (simp add: slice_res_def)

lemma write_at_res_ok [simp, slice_simps]:
  "a + length ys \<le> length xs \<Longrightarrow> write_at_res xs a ys = Inr (write_at xs a ys)"
  by (simp add: write_at_res_def)

lemma length_write_at [simp, slice_simps]:
  "a + length ys \<le> length xs \<Longrightarrow> length (write_at xs a ys) = length xs"
  by (simp add: write_at_def)

lemma nth_slice [slice_simps]:
  "a \<le> b \<Longrightarrow> b \<le> length xs \<Longrightarrow> i < b - a \<Longrightarrow> sub_slice xs a b ! i = xs ! (a + i)"
  by (simp add: sub_slice_def)

lemma nth_write_at [slice_simps]:
  "a + length ys \<le> length xs \<Longrightarrow> i < length xs \<Longrightarrow>
     write_at xs a ys ! i = (if a \<le> i \<and> i < a + length ys then ys ! (i - a) else xs ! i)"
  by (auto simp: write_at_def nth_append min_def)

lemma slice_append [slice_simps]: "sub_slice (xs @ ys) 0 (length xs) = xs"
  by (simp add: sub_slice_def)

lemma slice_full [simp, slice_simps]: "sub_slice xs 0 (length xs) = xs"
  by (simp add: sub_slice_def)

lemma slice_nil [simp, slice_simps]: "sub_slice xs a a = []"
  by (simp add: sub_slice_def)

lemma slice_concat:
  assumes "a \<le> b" and "b \<le> c"
  shows "sub_slice xs a b @ sub_slice xs b c = sub_slice xs a c"
proof -
  have "take (b - a) (drop a xs) @ take (c - b) (drop (b - a) (drop a xs)) =
      take ((b - a) + (c - b)) (drop a xs)"
    by (rule take_add [symmetric])
  then show ?thesis using assms by (simp add: sub_slice_def)
qed

lemma slice_write_at_same [simp, slice_simps]:
  "a + length ys \<le> length xs \<Longrightarrow> sub_slice (write_at xs a ys) a (a + length ys) = ys"
  by (simp add: sub_slice_def write_at_def)

lemma slice_write_at_before [slice_simps]:
  "b \<le> a' \<Longrightarrow> a' + length ys \<le> length xs \<Longrightarrow> sub_slice (write_at xs a' ys) a b = sub_slice xs a b"
  by (auto simp: sub_slice_def write_at_def take_drop min_def)

lemma slice_write_at_after [slice_simps]:
  "a' + length ys \<le> a \<Longrightarrow> a' \<le> length xs \<Longrightarrow> sub_slice (write_at xs a' ys) a b = sub_slice xs a b"
  by (simp add: sub_slice_def write_at_def drop_append)

end
