(* ===== verification/Util.thy ===== *)
theory Util
  imports Waypipe_Prelude
begin

text \<open>
  The helpers of \<open>src/util.rs\<close> that the rest of the program rests on: alignment, the packing
  of fixed-size byte blocks, the partition of an index range into shards, 64-bit words as two
  32-bit halves, and the message header of the channel between the two waypipe processes.
\<close>

section \<open>Alignment, packing, partitioning\<close>

definition align :: "nat \<Rightarrow> nat \<Rightarrow> nat res" where
  "align x y =
     rbind (usize_sub y 1) (\<lambda>y1.
     rbind (ok_or (checked_add x y1) Panic) (\<lambda>s.
       if y = 0 then panic else usize (y * (s div y))))"

definition align4 :: "nat \<Rightarrow> nat res" where
  "align4 x = align x 4"

definition cat2x4 :: "bytes \<Rightarrow> bytes \<Rightarrow> bytes" where
  "cat2x4 x y = [x ! 0, x ! 1, x ! 2, x ! 3, y ! 0, y ! 1, y ! 2, y ! 3]"

definition cat3x4 :: "bytes \<Rightarrow> bytes \<Rightarrow> bytes \<Rightarrow> bytes" where
  "cat3x4 x y z = cat2x4 x y @ [z ! 0, z ! 1, z ! 2, z ! 3]"

definition cat4x4 :: "bytes \<Rightarrow> bytes \<Rightarrow> bytes \<Rightarrow> bytes \<Rightarrow> bytes" where
  "cat4x4 x y z a = cat3x4 x y z @ [a ! 0, a ! 1, a ! 2, a ! 3]"

definition split_interval :: "nat \<Rightarrow> nat \<Rightarrow> nat \<Rightarrow> nat \<Rightarrow> nat res" where
  "split_interval lo hi nparts index =
     rbind (assert_that (nparts < 2 ^ 15)) (\<lambda>_.
     rbind (usize_sub hi lo) (\<lambda>len.
     rbind (assert_that (len < 2 ^ 31)) (\<lambda>_.
     rbind (assert_that (nparts \<noteq> 0)) (\<lambda>_.
     rbind (u32_nat (index * (len div nparts))) (\<lambda>a.
     rbind (u32_nat (lo + a)) (\<lambda>b.
     rbind (u32_nat (index * (len mod nparts))) (\<lambda>c.
       u32_nat (b + c div nparts))))))))"

definition ceildiv :: "nat \<Rightarrow> nat \<Rightarrow> nat res" where
  "ceildiv v u = (if u = 0 then panic else Ok (div_ceil v u))"

definition split_u64 :: "u64 \<Rightarrow> u32 \<times> u32" where
  "split_u64 x = (ucast (drop_bit 32 x), ucast x)"

definition join_u64 :: "u32 \<Rightarrow> u32 \<Rightarrow> u64" where
  "join_u64 hi lo = push_bit 32 (ucast hi) OR ucast lo"

section \<open>Channel message types and headers\<close>

datatype WmsgType =
    Protocol | InjectRIDs | OpenFile | ExtendFile | OpenDMABUF | BufferFill | BufferDiff
  | OpenIRPipe | OpenIWPipe | OpenRWPipe | PipeTransfer | PipeShutdownR | PipeShutdownW
  | OpenDMAVidSrc | OpenDMAVidDst | SendDMAVidPacket | AckNblocks | Restart | Close
  | OpenDMAVidSrcV2 | OpenDMAVidDstV2 | OpenTimeline | SignalTimeline | Version

text \<open>The discriminant of the enumeration, \<open>typ as u32\<close>.\<close>

fun wmsg_code :: "WmsgType \<Rightarrow> nat" where
  "wmsg_code Protocol = 0"
| "wmsg_code InjectRIDs = 1"
| "wmsg_code OpenFile = 2"
| "wmsg_code ExtendFile = 3"
| "wmsg_code OpenDMABUF = 4"
| "wmsg_code BufferFill = 5"
| "wmsg_code BufferDiff = 6"
| "wmsg_code OpenIRPipe = 7"
| "wmsg_code OpenIWPipe = 8"
| "wmsg_code OpenRWPipe = 9"
| "wmsg_code PipeTransfer = 10"
| "wmsg_code PipeShutdownR = 11"
| "wmsg_code PipeShutdownW = 12"
| "wmsg_code OpenDMAVidSrc = 13"
| "wmsg_code OpenDMAVidDst = 14"
| "wmsg_code SendDMAVidPacket = 15"
| "wmsg_code AckNblocks = 16"
| "wmsg_code Restart = 17"
| "wmsg_code Close = 18"
| "wmsg_code OpenDMAVidSrcV2 = 19"
| "wmsg_code OpenDMAVidDstV2 = 20"
| "wmsg_code OpenTimeline = 21"
| "wmsg_code SignalTimeline = 22"
| "wmsg_code Version = 23"

definition wmsg_type_of :: "nat \<Rightarrow> WmsgType option" where
  "wmsg_type_of code =
     (if code = 0 then Some Protocol else if code = 1 then Some InjectRIDs
      else if code = 2 then Some OpenFile else if code = 3 then Some ExtendFile
      else if code = 4 then Some OpenDMABUF else if code = 5 then Some BufferFill
      else if code = 6 then Some BufferDiff else if code = 7 then Some OpenIRPipe
      else if code = 8 then Some OpenIWPipe else if code = 9 then Some OpenRWPipe
      else if code = 10 then Some PipeTransfer else if code = 11 then Some PipeShutdownR
      else if code = 12 then Some PipeShutdownW else if code = 13 then Some OpenDMAVidSrc
      else if code = 14 then Some OpenDMAVidDst else if code = 15 then Some SendDMAVidPacket
      else if code = 16 then Some AckNblocks else if code = 17 then Some Restart
      else if code = 18 then Some Close else if code = 19 then Some OpenDMAVidSrcV2
      else if code = 20 then Some OpenDMAVidDstV2 else if code = 21 then Some OpenTimeline
      else if code = 22 then Some SignalTimeline else if code = 23 then Some Version
      else None)"

definition build_wmsg_header :: "WmsgType \<Rightarrow> nat \<Rightarrow> u32 res" where
  "build_wmsg_header typ len =
     (if len \<le> U32_MAX \<and> len * 2 ^ 5 \<le> U32_MAX
      then Ok (word_of_nat (len * 2 ^ 5) OR word_of_nat (wmsg_code typ))
      else panic)"

definition parse_wmsg_header :: "u32 \<Rightarrow> (nat \<times> WmsgType) option" where
  "parse_wmsg_header header =
     (let code = unat (header AND (2 ^ 5 - 1)); len = unat (drop_bit 5 header)
      in case wmsg_type_of code of None \<Rightarrow> None | Some t \<Rightarrow> Some (len, t))"

section \<open>Lemmas\<close>

lemma align_ok:
  assumes "0 < y" and "x + y \<le> USIZE_MAX"
  shows "align x y = Inr (next_multiple_of x y)"
proof -
  have "y * div_ceil x y \<le> USIZE_MAX"
    using next_multiple_of_less [of y x] assms by (simp add: next_multiple_of_def)
  with assms show ?thesis
    by (simp add: align_def checked_add_def next_multiple_of_def div_ceil_def)
qed

lemma align4_ok: "x + 4 \<le> USIZE_MAX \<Longrightarrow> align4 x = Inr (next_multiple_of x 4)"
  by (simp add: align4_def align_ok)

lemma list4_nth: "length x = 4 \<Longrightarrow> [x ! 0, x ! 1, x ! 2, x ! 3] = x"
  by (auto simp: numeral_eq_Suc length_Suc_conv)

lemma cat2x4_append:
  assumes "length x = 4" and "length y = 4"
  shows "cat2x4 x y = x @ y"
proof -
  have "cat2x4 x y = [x ! 0, x ! 1, x ! 2, x ! 3] @ [y ! 0, y ! 1, y ! 2, y ! 3]"
    by (simp add: cat2x4_def)
  then show ?thesis by (simp only: list4_nth assms)
qed

lemma cat3x4_append:
  "length x = 4 \<Longrightarrow> length y = 4 \<Longrightarrow> length z = 4 \<Longrightarrow> cat3x4 x y z = x @ y @ z"
  by (simp only: cat3x4_def cat2x4_append list4_nth append_assoc)

lemma cat4x4_append:
  "length x = 4 \<Longrightarrow> length y = 4 \<Longrightarrow> length z = 4 \<Longrightarrow> length a = 4 \<Longrightarrow>
     cat4x4 x y z a = x @ y @ z @ a"
  by (simp only: cat4x4_def cat3x4_append list4_nth append_assoc)

lemma index_split: "(i * q + (i * r) div n) = (i * (q * n + r)) div n" if "0 < n" for i q r n :: nat
proof -
  have "i * (q * n + r) = i * r + (i * q) * n"
    by (simp add: algebra_simps)
  with that show ?thesis by simp
qed

lemma split_interval_ok:
  assumes "lo \<le> hi" and "hi \<le> U32_MAX" and "hi - lo < 2 ^ 31"
    and "0 < nparts" and "nparts < 2 ^ 15" and "index \<le> nparts"
  shows "split_interval lo hi nparts index = Inr (lo + (index * (hi - lo)) div nparts)"
proof -
  let ?l = "hi - lo"
  have a: "index * (?l div nparts) \<le> ?l"
    by (rule order_trans [OF mult_le_mono1 [OF assms(6)]]) simp
  have c: "index * (?l mod nparts) \<le> 2 ^ 15 * 2 ^ 15"
    by (rule mult_le_mono) (use assms in \<open>auto intro: less_imp_le less_trans [OF mod_less_divisor]\<close>)
  have eq: "index * (?l div nparts) + (index * (?l mod nparts)) div nparts =
      (index * ?l) div nparts"
    using index_split [OF assms(4), of index "?l div nparts" "?l mod nparts"] by simp
  have "(index * ?l) div nparts \<le> (nparts * ?l) div nparts"
    by (intro div_le_mono mult_le_mono1 assms)
  then have "(index * ?l) div nparts \<le> ?l" using assms(4) by simp
  with a c eq assms show ?thesis
    by (simp add: split_interval_def u32_nat_def U32_MAX_def)
qed

lemma wmsg_type_of_code [simp]: "wmsg_type_of (wmsg_code t) = Some t"
  by (cases t) (simp_all add: wmsg_type_of_def)

lemma wmsg_code_less: "wmsg_code t < 24"
  by (cases t) simp_all

lemma wmsg_type_of_Some: "wmsg_type_of c = Some t \<Longrightarrow> c = wmsg_code t"
  by (auto simp: wmsg_type_of_def split: if_splits)

text \<open>
  The header word is \<open>32 * len + code\<close>: its two fields are recovered by division, which is
  what the mask and the shift of the source compute.
\<close>

lemma header_word:
  "(word_of_nat (len * 2 ^ 5) OR word_of_nat (wmsg_code t) :: u32) =
    word_of_nat (len * 2 ^ 5 + wmsg_code t)"
  by (rule word_shift_or) (use wmsg_code_less [of t] in simp)

lemma unat_header_word:
  assumes "len < 2 ^ 27"
  shows "unat (word_of_nat (len * 2 ^ 5 + wmsg_code t) :: u32) = len * 2 ^ 5 + wmsg_code t"
  by (rule unat_word_of_nat) (use assms wmsg_code_less [of t] in simp)

lemma parse_header_word:
  assumes "len < 2 ^ 27"
  shows "parse_wmsg_header (word_of_nat (len * 2 ^ 5 + wmsg_code t)) = Some (len, t)"
proof -
  have c: "wmsg_code t < 2 ^ 5" using wmsg_code_less [of t] by simp
  have "unat (word_of_nat (len * 2 ^ 5 + wmsg_code t) AND (2 ^ 5 - 1) :: u32) = wmsg_code t"
    unfolding unat_and_mask unat_header_word [OF assms] using c by simp
  moreover have "unat (drop_bit 5 (word_of_nat (len * 2 ^ 5 + wmsg_code t) :: u32)) = len"
    unfolding unat_drop_bit unat_header_word [OF assms] using c by simp
  ultimately show ?thesis by (simp only: parse_wmsg_header_def Let_def) simp
qed

lemma build_wmsg_header_ok:
  "len < 2 ^ 27 \<Longrightarrow> build_wmsg_header t len = Inr (word_of_nat (len * 2 ^ 5 + wmsg_code t))"
  unfolding build_wmsg_header_def header_word by (simp add: U32_MAX_def)

lemma build_wmsg_header_panic: "2 ^ 27 \<le> len \<Longrightarrow> build_wmsg_header t len = panic"
  by (simp add: build_wmsg_header_def U32_MAX_def)

lemma parse_wmsg_header_Some:
  assumes "parse_wmsg_header h = Some (len, t)"
  shows "len < 2 ^ 27 \<and> unat h = len * 2 ^ 5 + wmsg_code t"
proof -
  from assms have len: "len = unat h div 2 ^ 5" and t: "wmsg_type_of (unat h mod 2 ^ 5) = Some t"
    unfolding parse_wmsg_header_def Let_def unat_and_mask unat_drop_bit
    by (auto split: option.splits)
  from t have "unat h mod 2 ^ 5 = wmsg_code t" by (rule wmsg_type_of_Some)
  moreover have "unat h div 2 ^ 5 < 2 ^ 27" using unat_u32_less [of h] by simp
  ultimately show ?thesis using len div_mult_mod_eq [of "unat h" "2 ^ 5"] by simp
qed

section \<open>Properties\<close>

text \<open>
  C13: a channel message header and its fields determine each other. Building a header from a
  type and a payload length gives the word that parses back to exactly this length and type,
  and every word that parses is the one that would be built from what was parsed; in
  particular no length is silently truncated (an oversized one never gives a header).
\<close>

theorem wmsg_header_roundtrip:
  "build_wmsg_header t len = Inr h \<longleftrightarrow> parse_wmsg_header h = Some (len, t)"
proof
  assume b: "build_wmsg_header t len = Inr h"
  then have "len < 2 ^ 27"
    using build_wmsg_header_panic [of len t] by (cases "len < 2 ^ 27") simp_all
  with b show "parse_wmsg_header h = Some (len, t)"
    using build_wmsg_header_ok [of len t] parse_header_word [of len t] by simp
next
  assume "parse_wmsg_header h = Some (len, t)"
  note f = parse_wmsg_header_Some [OF this]
  then have "word_of_nat (len * 2 ^ 5 + wmsg_code t) = h"
    by (intro word_unat_eq_iff [THEN iffD2]) (simp only: unat_header_word)
  with f have "len < 2 ^ 27" and "word_of_nat (len * 2 ^ 5 + wmsg_code t) = h" by simp_all
  then show "build_wmsg_header t len = Inr h"
    using build_wmsg_header_ok [of len t] by simp
qed

text \<open>
  C14: the boundaries that the shards of a parallel operation use. Inside the bounds that the
  source asserts, \<open>split_interval\<close> never overflows a 32-bit integer and returns exactly
  \<open>lo + floor (index * (hi - lo) / nparts)\<close>; the first boundary is \<open>lo\<close>, the last is \<open>hi\<close>, and
  boundaries are monotone in the index, so consecutive shards partition the interval.
\<close>

theorem split_interval_partition:
  assumes "lo \<le> hi" and "hi \<le> U32_MAX" and "hi - lo < 2 ^ 31"
    and "0 < nparts" and "nparts < 2 ^ 15" and "i \<le> j" and "j \<le> nparts"
  shows "split_interval lo hi nparts 0 = Inr lo \<and> split_interval lo hi nparts nparts = Inr hi \<and>
    (\<exists>a b. split_interval lo hi nparts i = Inr a \<and> split_interval lo hi nparts j = Inr b \<and>
       a = lo + i * (hi - lo) div nparts \<and> b = lo + j * (hi - lo) div nparts \<and>
       lo \<le> a \<and> a \<le> b \<and> b \<le> hi)"
proof -
  have "j * (hi - lo) div nparts \<le> nparts * (hi - lo) div nparts"
    by (intro div_le_mono mult_le_mono1 assms)
  with assms have "lo + j * (hi - lo) div nparts \<le> hi" by simp
  with assms show ?thesis by (simp add: split_interval_ok div_le_mono)
qed

theorem split_interval_partition_witness:
  "split_interval 10 110 7 0 = Inr 10 \<and> split_interval 10 110 7 7 = Inr 110 \<and>
   (\<exists>a b. split_interval 10 110 7 3 = Inr a \<and> split_interval 10 110 7 4 = Inr b \<and>
      a = 52 \<and> b = 67 \<and> 10 \<le> a \<and> a \<le> b \<and> b \<le> 110)"
  using split_interval_partition [of 10 110 7 3 4] by (simp add: U32_MAX_def)

end
