(* ===== verification/Read_Buffer.thy ===== *)
theory Read_Buffer
  imports Util
begin

text \<open>
  The receive buffer of \<open>src/read.rs\<close>: it reads the byte stream of the channel with \<open>readv\<close> into
  large chunks and hands out views of complete messages that stay in place.

  The allocator is a list of chunks, addressed by their index, and is a field of the buffer;
  chunks are never reused (an \<open>Arc\<close> keeps a chunk alive while a view refers to it). A chunk has
  a size and the bytes written so far, which form a prefix. Reading past that prefix, or
  writing past the size or leaving a hole, is \<open>UB\<close>. The socket is the sequence of bytes that the
  peer has sent and will send; a \<open>readv\<close> call transfers some prefix of it, as many bytes as the
  kernel likes up to the space offered, or fails.
\<close>

section \<open>Chunks and views\<close>

record ReadBufferChunk =
  chunk_data :: bytes
  chunk_size :: nat

type_synonym heap = "ReadBufferChunk list"

record ReadBufferView =
  base :: nat
  data :: nat
  data_len :: nat

record ReadBuffer =
  chunks :: heap
  old :: "nat option"
  current :: nat
  last_msg_start :: nat
  buf_end :: nat
  msg_queue :: "ReadBufferView list"

definition MAX_NORMAL_MSG_SIZE :: nat where
  "MAX_NORMAL_MSG_SIZE = 2 ^ 18"

definition alloc_chunk :: "heap \<Rightarrow> nat \<Rightarrow> (heap \<times> nat) res" where
  "alloc_chunk h len =
     rbind (assert_that (len \<le> ISIZE_MAX - 3)) (\<lambda>_.
     rbind (assert_that (0 < len)) (\<lambda>_.
       Ok (h @ [\<lparr>chunk_data = [], chunk_size = len\<rparr>], length h)))"

definition mem_read :: "heap \<Rightarrow> nat \<Rightarrow> nat \<Rightarrow> nat \<Rightarrow> bytes res" where
  "mem_read h i a n =
     (if i < length h \<and> a + n \<le> length (chunk_data (h ! i))
      then Ok (sub_slice (chunk_data (h ! i)) a (a + n)) else Inl UB)"

definition mem_write :: "heap \<Rightarrow> nat \<Rightarrow> nat \<Rightarrow> bytes \<Rightarrow> heap res" where
  "mem_write h i a bs =
     (if i < length h \<and> a \<le> length (chunk_data (h ! i)) \<and> a + length bs \<le> chunk_size (h ! i)
      then Ok (h[i := (h ! i)\<lparr>chunk_data := write_at (chunk_data (h ! i)) a bs\<rparr>])
      else Inl UB)"

section \<open>The socket\<close>

datatype Errno = ECONNRESET | EINTR | EAGAIN | EOther

datatype readv_ret = Ready nat | Failed Errno

text \<open>
  An entry of \<open>iovs\<close> is a chunk, an offset and a length; \<open>readv\<close> fills them in order.
\<close>

type_synonym iovec = "nat \<times> nat \<times> nat"

definition iov_total :: "iovec list \<Rightarrow> nat" where
  "iov_total iovs = sum_list (map (\<lambda>(_, _, l). l) iovs)"

fun scatter :: "heap \<Rightarrow> iovec list \<Rightarrow> bytes \<Rightarrow> heap res" where
  "scatter h [] ds = Ok h"
| "scatter h ((i, a, l) # iovs) ds =
     (if ds = [] then Ok h
      else rbind (mem_write h i a (take l ds)) (\<lambda>h. scatter h iovs (drop l ds)))"

section \<open>Reading\<close>

definition ReadBuffer_new :: "ReadBuffer res" where
  "ReadBuffer_new =
     rbind (alloc_chunk [] (4 * MAX_NORMAL_MSG_SIZE)) (\<lambda>(h, i).
       Ok \<lparr>chunks = h, old = None, current = i, last_msg_start = 0, buf_end = 0, msg_queue = []\<rparr>)"

definition msg_padded_len :: "bytes \<Rightarrow> nat res" where
  "msg_padded_len header_slice =
     (let header = u32_from_le_bytes header_slice in
      rbind (ok_or (parse_wmsg_header header) (Err ''Failed to parse wmsg header'')) (\<lambda>(msg_len, _).
        if msg_len < 4 then fail ''Message lengths must be at least 4'' else align4 msg_len))"

definition get_message_padded_len :: "heap \<Rightarrow> nat \<Rightarrow> nat \<Rightarrow> nat res" where
  "get_message_padded_len h i start = rbind (mem_read h i start 4) msg_padded_len"

definition read_inner ::
  "heap \<Rightarrow> iovec list \<Rightarrow> readv_ret \<Rightarrow> bytes \<Rightarrow> (heap \<times> bytes \<times> bool \<times> nat) res" where
  "read_inner h iovs ret sock =
     rbind (assert_that (iov_total iovs > 0)) (\<lambda>_.
       case ret of
         Failed ECONNRESET \<Rightarrow> Ok (h, sock, True, 0)
       | Failed EINTR \<Rightarrow> Ok (h, sock, False, 0)
       | Failed EAGAIN \<Rightarrow> Ok (h, sock, False, 0)
       | Failed EOther \<Rightarrow> fail ''Error reading from channel socket''
       | Ready k \<Rightarrow>
           let n = min k (min (iov_total iovs) (length sock)) in
           rbind (scatter h iovs (take n sock)) (\<lambda>h. Ok (h, drop n sock, n = 0, n)))"

definition move_tail_to_new :: "ReadBuffer \<Rightarrow> nat \<Rightarrow> ReadBuffer res" where
  "move_tail_to_new rb new_size =
     rbind (alloc_chunk (chunks rb) new_size) (\<lambda>(h, nxt).
     rbind (usize_sub (buf_end rb) (last_msg_start rb)) (\<lambda>n.
     rbind (assert_that (new_size \<ge> n)) (\<lambda>_.
     rbind (mem_read h (current rb) (last_msg_start rb) n) (\<lambda>src.
     rbind (mem_write h nxt 0 src) (\<lambda>h.
       Ok (rb\<lparr>chunks := h, current := nxt, buf_end := n, last_msg_start := 0\<rparr>))))))"

text \<open>
  The loop of \<open>extract_messages\<close>: a complete message is at least four bytes long, so the rest
  gets shorter.
\<close>

definition push_msg :: "ReadBuffer \<Rightarrow> nat \<Rightarrow> nat \<Rightarrow> ReadBuffer" where
  "push_msg rb i len =
     rb\<lparr>msg_queue := msg_queue rb @ [\<lparr>base = i, data = last_msg_start rb, data_len = len\<rparr>]\<rparr>"

lemma align4_Inr: "align4 x = Inr y \<Longrightarrow> x \<le> y"
  by (auto simp: align4_def align_def res_simps checked_add_def ok_or_def usize_def
      split: option.splits if_splits)

lemma msg_padded_len_ge: "msg_padded_len bs = Inr n \<Longrightarrow> 4 \<le> n"
  by (auto simp: msg_padded_len_def Let_def res_simps split: if_splits dest: align4_Inr)

lemma get_message_padded_len_ge: "get_message_padded_len h i a = Inr n \<Longrightarrow> 4 \<le> n"
  by (auto simp: get_message_padded_len_def res_simps dest: msg_padded_len_ge)

function extract_messages :: "ReadBuffer \<Rightarrow> ReadBuffer res" where
  "extract_messages rb =
     rbind (usize_sub (buf_end rb) (last_msg_start rb)) (\<lambda>avail.
       if 4 \<le> avail then
         rbind (get_message_padded_len (chunks rb) (current rb) (last_msg_start rb)) (\<lambda>msg_len.
           if msg_len \<le> avail then
             extract_messages
               ((push_msg rb (current rb) msg_len)\<lparr>last_msg_start := last_msg_start rb + msg_len\<rparr>)
           else Ok rb)
       else Ok rb)"
  by pat_completeness auto
termination
  by (relation "measure (\<lambda>rb. buf_end rb - last_msg_start rb)")
    (auto simp: push_msg_def usize_sub_def split: if_splits dest: get_message_padded_len_ge)

declare extract_messages.simps [simp del]

definition read_with_old ::
  "ReadBuffer \<Rightarrow> readv_ret \<Rightarrow> bytes \<Rightarrow> (ReadBuffer \<times> bytes \<times> bool) res" where
  "read_with_old rb ret sock =
     rbind (ok_or (old rb) Panic) (\<lambda>od.
     rbind (usize_sub (buf_end rb) (last_msg_start rb)) (\<lambda>avail.
     rbind (assert_that (avail \<ge> 4)) (\<lambda>_.
     rbind (get_message_padded_len (chunks rb) od (last_msg_start rb)) (\<lambda>msg_len.
       let msg_end = last_msg_start rb + msg_len in
     rbind (usize_sub msg_end (buf_end rb)) (\<lambda>missing.
     rbind (usize_sub (chunk_size (chunks rb ! current rb)) MAX_NORMAL_MSG_SIZE) (\<lambda>space.
     rbind (read_inner (chunks rb) [(od, buf_end rb, missing), (current rb, 0, space)] ret sock)
       (\<lambda>(h, sock, eof, nread).
       if nread < missing then Ok (rb\<lparr>chunks := h, buf_end := buf_end rb + nread\<rparr>, sock, eof)
       else
         let rb = push_msg (rb\<lparr>chunks := h, old := None\<rparr>) od msg_len in
         rbind (extract_messages (rb\<lparr>last_msg_start := 0, buf_end := nread - missing\<rparr>)) (\<lambda>rb.
           Ok (rb, sock, eof)))))))))"

definition swap_to_old :: "ReadBuffer \<Rightarrow> ReadBuffer res" where
  "swap_to_old rb =
     rbind (alloc_chunk (chunks rb) (4 * MAX_NORMAL_MSG_SIZE)) (\<lambda>(h, nxt).
       Ok (rb\<lparr>chunks := h, current := nxt, old := Some (current rb)\<rparr>))"

text \<open>The end of \<open>read_more\<close>: read up to the space kept for one more message.\<close>

definition read_current ::
  "ReadBuffer \<Rightarrow> readv_ret \<Rightarrow> bytes \<Rightarrow> (ReadBuffer \<times> bytes \<times> bool) res" where
  "read_current rb ret sock =
     (let size = chunk_size (chunks rb ! current rb) in
     rbind (usize_sub size (buf_end rb)) (\<lambda>left.
     rbind (assert_that (left \<ge> MAX_NORMAL_MSG_SIZE)) (\<lambda>_.
     rbind (read_inner (chunks rb)
         [(current rb, buf_end rb, size - MAX_NORMAL_MSG_SIZE - buf_end rb)] ret sock)
       (\<lambda>(h, sock, eof, nread).
     rbind (extract_messages (rb\<lparr>chunks := h, buf_end := buf_end rb + nread\<rparr>)) (\<lambda>rb.
       Ok (rb, sock, eof))))))"

definition read_more ::
  "ReadBuffer \<Rightarrow> readv_ret \<Rightarrow> bytes \<Rightarrow> (ReadBuffer \<times> bytes \<times> bool) res" where
  "read_more rb ret sock =
     (if old rb \<noteq> None then read_with_old rb ret sock
      else
        let cap = chunk_size (chunks rb ! current rb) in
        rbind (usize_sub (buf_end rb) (last_msg_start rb)) (\<lambda>avail.
        if avail \<ge> 4 then
          rbind (get_message_padded_len (chunks rb) (current rb) (last_msg_start rb)) (\<lambda>msg_len.
            let msg_end = last_msg_start rb + msg_len in
            if msg_end > cap then
              let new_size = max (2 * msg_len) (4 * MAX_NORMAL_MSG_SIZE) in
              rbind (assert_that (new_size > msg_len + MAX_NORMAL_MSG_SIZE)) (\<lambda>_.
              rbind (move_tail_to_new rb new_size) (\<lambda>rb. read_current rb ret sock))
            else if cap - msg_end \<le> MAX_NORMAL_MSG_SIZE then
              rbind (swap_to_old rb) (\<lambda>rb. read_with_old rb ret sock)
            else read_current rb ret sock)
        else
          let msg_end = last_msg_start rb in
          rbind (assert_that (msg_end \<le> cap)) (\<lambda>_.
          if cap - msg_end \<le> MAX_NORMAL_MSG_SIZE then
            rbind (move_tail_to_new rb (4 * MAX_NORMAL_MSG_SIZE)) (\<lambda>rb. read_current rb ret sock)
          else read_current rb ret sock)))"

definition pop_next_msg :: "ReadBuffer \<Rightarrow> ReadBufferView option \<times> ReadBuffer" where
  "pop_next_msg rb =
     (case msg_queue rb of
        [] \<Rightarrow> (None, rb)
      | v # vs \<Rightarrow> (Some v, rb\<lparr>msg_queue := vs\<rparr>))"

text \<open>Accessors of a view; \<open>view_set\<close> is a write through the slice that \<open>get_mut\<close> returns.\<close>

definition view_get :: "heap \<Rightarrow> ReadBufferView \<Rightarrow> bytes res" where
  "view_get h v = mem_read h (base v) (data v) (data_len v)"

definition view_set :: "heap \<Rightarrow> ReadBufferView \<Rightarrow> nat \<Rightarrow> u8 \<Rightarrow> heap res" where
  "view_set h v k b =
     (if k < data_len v then mem_write h (base v) (data v + k) [b] else panic)"

definition view_advance :: "ReadBufferView \<Rightarrow> nat \<Rightarrow> ReadBufferView res" where
  "view_advance v skip =
     rbind (assert_that (skip mod 4 = 0)) (\<lambda>_.
     rbind (assert_that (skip \<le> data_len v)) (\<lambda>_.
       Ok (v\<lparr>data := data v + skip, data_len := data_len v - skip\<rparr>)))"

section \<open>Specification: the messages of a byte stream\<close>

function split_frames :: "bytes \<Rightarrow> (bytes list \<times> bytes) res" where
  "split_frames bs =
     (if length bs < 4 then Ok ([], bs)
      else rbind (msg_padded_len (take 4 bs)) (\<lambda>n.
        if n \<le> length bs then
          rbind (split_frames (drop n bs)) (\<lambda>(fs, rest). Ok (take n bs # fs, rest))
        else Ok ([], bs)))"
  by pat_completeness auto
termination
  by (relation "measure length") (auto dest: msg_padded_len_ge)

declare split_frames.simps [simp del]

lemma msg_padded_len_bounds:
  assumes "msg_padded_len bs = Inr n"
  shows "4 \<le> n \<and> 4 dvd n \<and> n \<le> 2 ^ 27"
proof -
  from assms obtain len t where h: "parse_wmsg_header (u32_from_le_bytes bs) = Some (len, t)"
    and n: "4 \<le> len" "align4 len = Inr n"
    by (auto simp: msg_padded_len_def Let_def res_simps ok_or_def split: if_splits option.splits)
  from parse_wmsg_header_Some [OF h] have l: "len < 2 ^ 27" by simp
  with n have eq: "n = next_multiple_of len 4" by (simp add: align4_ok USIZE_MAX_def)
  moreover have "len \<le> next_multiple_of len 4" by (rule next_multiple_of_ge) simp
  moreover have "next_multiple_of len 4 \<le> 2 ^ 27"
    by (rule next_multiple_of_le) (use l in auto)
  ultimately show ?thesis using n(1) by simp
qed

lemma msg_padded_len_Inl:
  assumes "msg_padded_len bs = Inl e"
  shows "\<exists>s. e = Err s"
proof (cases "parse_wmsg_header (u32_from_le_bytes bs)")
  case None
  with assms show ?thesis by (auto simp: msg_padded_len_def Let_def)
next
  case (Some lt)
  with parse_wmsg_header_Some [of "u32_from_le_bytes bs" "fst lt" "snd lt"] assms show ?thesis
    by (auto simp: msg_padded_len_def Let_def align4_ok USIZE_MAX_def split: if_splits prod.splits)
qed

lemma split_frames_short [simp]: "length bs < 4 \<Longrightarrow> split_frames bs = Inr ([], bs)"
  by (simp add: split_frames.simps)

lemma split_frames_append:
  "split_frames (a @ b) =
     rbind (split_frames a) (\<lambda>(fs, r). rbind (split_frames (r @ b)) (\<lambda>(gs, r'). Ok (fs @ gs, r')))"
proof (induction a rule: split_frames.induct)
  case (1 a)
  show ?case
  proof (cases "length a < 4 \<or> (\<exists>n. msg_padded_len (take 4 a) = Inr n \<and> length a < n)")
    case True
    then have "split_frames a = Inr ([], a)"
      by (auto simp: split_frames.simps [of a])
    then show ?thesis by (cases "split_frames (a @ b)") auto
  next
    case long: False
    show ?thesis
    proof (cases "msg_padded_len (take 4 a)")
      case (Inl e)
      with long show ?thesis by (simp add: split_frames.simps [of a] split_frames.simps [of "a @ b"])
    next
      case (Inr n)
      with long have n: "n \<le> length a" "\<not> length a < 4" by auto
      show ?thesis
        unfolding split_frames.simps [of a] split_frames.simps [of "a @ b"]
        using n Inr 1 [of n]
        by (cases "split_frames (drop n a)") (auto simp: rbind_def split: sum.splits)
    qed
  qed
qed

lemma split_frames_Inr:
  "split_frames bs = Inr (fs, r) \<Longrightarrow>
     concat fs @ r = bs \<and> split_frames r = Inr ([], r) \<and> (\<forall>f\<in>set fs. 4 \<le> length f \<and> 4 dvd length f)"
proof (induction bs arbitrary: fs r rule: split_frames.induct)
  case (1 bs)
  show ?case
  proof (cases "length bs < 4 \<or> (\<exists>n. msg_padded_len (take 4 bs) = Inr n \<and> length bs < n)")
    case True
    then have "split_frames bs = Inr ([], bs)" by (auto simp: split_frames.simps [of bs])
    with "1.prems" show ?thesis by simp
  next
    case False
    with "1.prems" obtain n gs where n: "msg_padded_len (take 4 bs) = Inr n" "n \<le> length bs"
      and gs: "split_frames (drop n bs) = Inr (gs, r)" "fs = take n bs # gs"
      by (auto simp: split_frames.simps [of bs] res_simps split: if_splits)
    from "1.IH" [OF _ n gs(1)] False msg_padded_len_bounds [OF n(1)] n(2) gs(2) show ?thesis by auto
  qed
qed

lemma split_frames_Inl: "split_frames bs = Inl e \<Longrightarrow> \<exists>s. e = Err s"
proof (induction bs rule: split_frames.induct)
  case (1 bs)
  then show ?case
    by (auto simp: split_frames.simps [of bs] res_simps split: if_splits dest: msg_padded_len_Inl)
qed

section \<open>Invariant\<close>

text \<open>
  The chunk that holds the message in progress is \<open>source\<close>. Everything before
  \<open>last_msg_start\<close> in it, and everything in the other chunks, has been given up to views
  (\<open>owned\<close>); what remains is the message in progress (\<open>pending\<close>).
\<close>

definition source :: "ReadBuffer \<Rightarrow> nat" where
  "source rb = (case old rb of None \<Rightarrow> current rb | Some od \<Rightarrow> od)"

lemma source_update [simp]:
  "source (rb\<lparr>msg_queue := q\<rparr>) = source rb"
  "source (rb\<lparr>chunks := h\<rparr>) = source rb"
  by (simp_all add: source_def split: option.splits)

definition pending :: "ReadBuffer \<Rightarrow> bytes" where
  "pending rb = drop (last_msg_start rb) (chunk_data (chunks rb ! source rb))"

definition owned :: "ReadBuffer \<Rightarrow> nat \<Rightarrow> nat" where
  "owned rb i =
     (if length (chunks rb) \<le> i then 0
      else if i = source rb then last_msg_start rb
      else length (chunk_data (chunks rb ! i)))"

definition current_ok :: "ReadBuffer \<Rightarrow> bool" where
  "current_ok rb \<longleftrightarrow>
     current rb < length (chunks rb) \<and> source rb < length (chunks rb) \<and>
     last_msg_start rb \<le> buf_end rb \<and> 4 dvd last_msg_start rb \<and>
     length (chunk_data (chunks rb ! source rb)) = buf_end rb \<and>
     4 dvd chunk_size (chunks rb ! current rb) \<and>
     split_frames (pending rb) = Inr ([], pending rb)"

definition rb_inv :: "ReadBuffer \<Rightarrow> bool" where
  "rb_inv rb \<longleftrightarrow> current_ok rb \<and>
     (case old rb of
        None \<Rightarrow> buf_end rb + MAX_NORMAL_MSG_SIZE \<le> chunk_size (chunks rb ! current rb)
      | Some od \<Rightarrow> od \<noteq> current rb \<and> chunk_data (chunks rb ! current rb) = [] \<and>
          chunk_size (chunks rb ! current rb) = 4 * MAX_NORMAL_MSG_SIZE \<and> 4 \<le> length (pending rb) \<and>
          last_msg_start rb + projr (msg_padded_len (take 4 (pending rb))) \<le> chunk_size (chunks rb ! od))"

text \<open>What an operation may do to memory: given-up bytes stay, and stay as they are.\<close>

definition keeps :: "ReadBuffer \<Rightarrow> ReadBuffer \<Rightarrow> bool" where
  "keeps rb rb' \<longleftrightarrow> length (chunks rb) \<le> length (chunks rb') \<and>
     (\<forall>i. owned rb i \<le> owned rb' i \<and>
        take (owned rb i) (chunk_data (chunks rb' ! i)) = take (owned rb i) (chunk_data (chunks rb ! i)))"

definition view_ok :: "ReadBuffer \<Rightarrow> ReadBufferView \<Rightarrow> bool" where
  "view_ok rb v \<longleftrightarrow> base v < length (chunks rb) \<and> data v + data_len v \<le> owned rb (base v) \<and>
     owned rb (base v) \<le> length (chunk_data (chunks rb ! base v))"

definition views_disjoint :: "ReadBufferView \<Rightarrow> ReadBufferView \<Rightarrow> bool" where
  "views_disjoint v w \<longleftrightarrow> base v \<noteq> base w \<or> data v + data_len v \<le> data w \<or> data w + data_len w \<le> data v"

definition append_chunk :: "heap \<Rightarrow> nat \<Rightarrow> bytes \<Rightarrow> heap" where
  "append_chunk h i ds = h[i := (h ! i)\<lparr>chunk_data := chunk_data (h ! i) @ ds\<rparr>]"

lemma length_append_chunk [simp]: "length (append_chunk h i ds) = length h"
  by (simp add: append_chunk_def)

lemma append_chunk_nth [simp]:
  "i < length h \<Longrightarrow> append_chunk h i ds ! i = (h ! i)\<lparr>chunk_data := chunk_data (h ! i) @ ds\<rparr>"
  "j \<noteq> i \<Longrightarrow> append_chunk h i ds ! j = h ! j"
  by (simp_all add: append_chunk_def)

lemma append_chunk_size [simp]: "chunk_size (append_chunk h i ds ! j) = chunk_size (h ! j)"
  by (cases "i < length h"; cases "i = j") (simp_all add: append_chunk_def list_update_beyond)

lemma append_chunk_nil [simp]: "append_chunk h i [] = h"
  by (simp add: append_chunk_def)

lemma mem_write_end:
  assumes "i < length h" and "a = length (chunk_data (h ! i))" and "a + length bs \<le> chunk_size (h ! i)"
  shows "mem_write h i a bs = Inr (append_chunk h i bs)"
  using assms by (simp add: mem_write_def append_chunk_def write_at_def)

lemma scatter_one:
  assumes "i < length h" and "a = length (chunk_data (h ! i))" and "a + l \<le> chunk_size (h ! i)"
    and "length ds \<le> l"
  shows "scatter h [(i, a, l)] ds = Inr (append_chunk h i ds)"
  using assms by (simp add: mem_write_end)

lemma scatter_two:
  assumes "i < length h" and "a = length (chunk_data (h ! i))" and "a + l \<le> chunk_size (h ! i)"
    and "j < length h" and "chunk_data (h ! j) = []" and "m \<le> chunk_size (h ! j)"
    and "i \<noteq> j" and "length ds \<le> l + m"
  shows "scatter h [(i, a, l), (j, 0, m)] ds = Inr (append_chunk (append_chunk h i (take l ds)) j (drop l ds))"
  using assms by (auto simp: mem_write_end)

lemma keeps_refl [simp]: "keeps rb rb"
  by (simp add: keeps_def)

lemma keeps_trans:
  assumes "keeps a b" and "keeps b c"
  shows "keeps a c"
  unfolding keeps_def
proof (intro conjI allI)
  fix i
  show "owned a i \<le> owned c i"
    using assms le_trans unfolding keeps_def by blast
  have "owned a i \<le> owned b i" using assms by (simp add: keeps_def)
  then have "take (owned a i) (take (owned b i) xs) = take (owned a i) xs" for xs :: bytes
    by (simp add: min_def)
  then show "take (owned a i) (chunk_data (chunks c ! i)) = take (owned a i) (chunk_data (chunks a ! i))"
    using assms unfolding keeps_def by metis
qed (use assms in \<open>auto simp: keeps_def\<close>)

lemma keeps_view:
  assumes "keeps rb rb'" and "view_ok rb v" and "owned rb' (base v) \<le> length (chunk_data (chunks rb' ! base v))"
  shows "view_ok rb' v \<and> view_get (chunks rb') v = view_get (chunks rb) v"
proof -
  let ?o = "owned rb (base v)"
  have t: "take ?o (chunk_data (chunks rb' ! base v)) = take ?o (chunk_data (chunks rb ! base v))"
    and ok: "view_ok rb' v"
    using assms by (auto simp: keeps_def view_ok_def intro: le_trans)
  have "take (data_len v) (drop (data v) (take ?o xs)) = take (data_len v) (drop (data v) xs)" for xs :: bytes
    using assms(2) by (auto simp: view_ok_def drop_take min_def)
  with t have "sub_slice (chunk_data (chunks rb' ! base v)) (data v) (data v + data_len v) =
      sub_slice (chunk_data (chunks rb ! base v)) (data v) (data v + data_len v)"
    unfolding sub_slice_def by (metis add_diff_cancel_left')
  with ok assms(2) show ?thesis by (auto simp: view_get_def mem_read_def view_ok_def)
qed

section \<open>Extracting messages\<close>

definition mk_view :: "nat \<Rightarrow> nat \<Rightarrow> nat \<Rightarrow> ReadBufferView" where
  "mk_view i a n = \<lparr>base = i, data = a, data_len = n\<rparr>"

fun mk_views :: "nat \<Rightarrow> nat \<Rightarrow> bytes list \<Rightarrow> ReadBufferView list" where
  "mk_views i a [] = []"
| "mk_views i a (f # fs) = mk_view i a (length f) # mk_views i (a + length f) fs"

lemma mk_view_sel [simp]:
  "base (mk_view i a n) = i" "data (mk_view i a n) = a" "data_len (mk_view i a n) = n"
  by (simp_all add: mk_view_def)

lemma mk_views_range:
  "v \<in> set (mk_views i a fs) \<Longrightarrow>
     base v = i \<and> a \<le> data v \<and> data v + data_len v \<le> a + length (concat fs)"
  by (induction fs arbitrary: a) fastforce+

lemma mk_views_disjoint: "sorted_wrt views_disjoint (mk_views i a fs)"
  by (induction fs arbitrary: a) (auto simp: views_disjoint_def dest: mk_views_range)

lemma mk_views_get:
  assumes "i < length h" and "drop a (chunk_data (h ! i)) = concat fs @ r"
    and "a \<le> length (chunk_data (h ! i))"
  shows "map (view_get h) (mk_views i a fs) = map Inr fs"
  using assms(2,3)
proof (induction fs arbitrary: a)
  case Nil
  then show ?case by simp
next
  case (Cons f fs)
  let ?d = "chunk_data (h ! i)"
  have len: "length ?d - a = length (f @ concat fs @ r)"
    by (metis Cons.prems(1) append_assoc concat.simps(2) length_drop)
  then have "drop (a + length f) ?d = concat fs @ r"
    by (metis Cons.prems(1) add.commute append.assoc append_eq_conv_conj concat.simps(2) drop_drop)
  moreover have "a + length f \<le> length ?d" using len Cons.prems(2) by simp
  moreover have "view_get h (mk_view i a (length f)) = Inr f"
    using assms(1) len Cons.prems by (simp add: view_get_def mem_read_def sub_slice_def)
  ultimately show ?case using Cons.IH by simp
qed

lemma get_padded_len_pending:
  assumes "source rb < length (chunks rb)" and "4 \<le> length (pending rb)"
  shows "get_message_padded_len (chunks rb) (source rb) (last_msg_start rb) =
    msg_padded_len (take 4 (pending rb))"
  using assms by (auto simp: get_message_padded_len_def mem_read_def sub_slice_def pending_def)

lemma extract_messages_spec:
  assumes "current rb < length (chunks rb)" and "old rb = None"
    and "last_msg_start rb \<le> buf_end rb" and "length (chunk_data (chunks rb ! current rb)) = buf_end rb"
  shows "extract_messages rb =
    rbind (split_frames (pending rb)) (\<lambda>(fs, r).
      Ok (rb\<lparr>msg_queue := msg_queue rb @ mk_views (current rb) (last_msg_start rb) fs,
             last_msg_start := last_msg_start rb + length (concat fs)\<rparr>))"
  using assms
proof (induction rb rule: extract_messages.induct)
  case (1 rb)
  let ?d = "chunk_data (chunks rb ! current rb)"
  let ?avail = "buf_end rb - last_msg_start rb"
  have p: "pending rb = drop (last_msg_start rb) ?d" "length (pending rb) = ?avail"
    using "1.prems" by (simp_all add: pending_def source_def)
  have sub: "usize_sub (buf_end rb) (last_msg_start rb) = Inr ?avail"
    using "1.prems" by simp
  show ?case
  proof (cases "4 \<le> ?avail")
    case False
    then show ?thesis
      using p by (simp add: extract_messages.simps [of rb] sub)
  next
    case True
    then have g: "get_message_padded_len (chunks rb) (current rb) (last_msg_start rb) =
        msg_padded_len (take 4 (pending rb))"
      using "1.prems" p get_padded_len_pending [of rb] by (simp add: source_def)
    show ?thesis
    proof (cases "msg_padded_len (take 4 (pending rb))")
      case (Inl e)
      then show ?thesis
        using True g sub p(2) by (simp add: extract_messages.simps [of rb] split_frames.simps [of "pending rb"])
    next
      case (Inr n)
      let ?rb = "(push_msg rb (current rb) n)\<lparr>last_msg_start := last_msg_start rb + n\<rparr>"
      show ?thesis
      proof (cases "n \<le> ?avail")
        case False
        then show ?thesis
          using True g sub p(2) Inr
          by (simp add: extract_messages.simps [of rb] split_frames.simps [of "pending rb"])
      next
        case n: True
        have "extract_messages rb = extract_messages ?rb"
          using True g sub Inr n by (simp add: extract_messages.simps [of rb])
        also have "\<dots> = rbind (split_frames (pending ?rb)) (\<lambda>(fs, r).
            Ok (?rb\<lparr>msg_queue := msg_queue ?rb @ mk_views (current ?rb) (last_msg_start ?rb) fs,
                  last_msg_start := last_msg_start ?rb + length (concat fs)\<rparr>))"
          by (rule "1.IH" [OF sub True g [unfolded Inr] n])
            (use "1.prems" n in \<open>auto simp: push_msg_def\<close>)
        also have "pending ?rb = drop n (pending rb)"
          using "1.prems" by (simp add: pending_def source_def push_msg_def add.commute)
        finally show ?thesis
          using True n p(2) Inr "1.prems"(3)
          by (simp add: split_frames.simps [of "pending rb"] push_msg_def mk_view_def rbind_def
              min_def split: sum.splits)
      qed
    qed
  qed
qed

section \<open>One call of \<open>read_more\<close>\<close>

text \<open>
  What a read may do: it takes some bytes \<open>ds\<close> off the socket (at least one if the kernel has
  some), and the messages completed by them are exactly those of the specification, queued
  behind the earlier ones as fresh views; the call fails exactly when the specification does,
  or when the kernel reports an error.
\<close>

definition progress :: "readv_ret \<Rightarrow> bytes \<Rightarrow> bytes \<Rightarrow> bool" where
  "progress ret sock ds \<longleftrightarrow> (ds = [] \<longrightarrow> (\<forall>k. ret = Ready k \<longrightarrow> k = 0 \<or> sock = []))"

definition read_delivers ::
  "ReadBuffer \<Rightarrow> bytes \<Rightarrow> bytes \<Rightarrow> (ReadBuffer \<times> bytes \<times> bool) res \<Rightarrow> bool" where
  "read_delivers rb ds rest r \<longleftrightarrow>
     (case split_frames (pending rb @ ds) of
        Inl e \<Rightarrow> r = Inl e
      | Inr (fs, p) \<Rightarrow>
          \<exists>rb' vs eof. r = Inr (rb', rest, eof) \<and> rb_inv rb' \<and> keeps rb rb' \<and> pending rb' = p \<and>
            msg_queue rb' = msg_queue rb @ vs \<and> map (view_get (chunks rb')) vs = map Inr fs \<and>
            sorted_wrt views_disjoint vs \<and>
            (\<forall>v\<in>set vs. view_ok rb' v \<and> owned rb (base v) \<le> data v))"

definition read_outcome ::
  "ReadBuffer \<Rightarrow> readv_ret \<Rightarrow> bytes \<Rightarrow> (ReadBuffer \<times> bytes \<times> bool) res \<Rightarrow> bool" where
  "read_outcome rb ret sock r \<longleftrightarrow>
     (ret = Failed EOther \<and> r = fail ''Error reading from channel socket'') \<or>
     (\<exists>ds rest. sock = ds @ rest \<and> progress ret sock ds \<and> read_delivers rb ds rest r)"

lemma read_outcome_failed:
  "ret = Failed EOther \<Longrightarrow> r = fail ''Error reading from channel socket'' \<Longrightarrow> read_outcome rb ret sock r"
  by (simp add: read_outcome_def)

lemma read_outcome_Inl:
  "sock = ds @ rest \<Longrightarrow> progress ret sock ds \<Longrightarrow> split_frames (pending rb @ ds) = Inl e \<Longrightarrow> r = Inl e \<Longrightarrow>
     read_outcome rb ret sock r"
  unfolding read_outcome_def
  by (rule disjI2, rule exI [of _ ds], rule exI [of _ rest]) (simp add: read_delivers_def)

lemma read_outcome_Inr:
  "sock = ds @ rest \<Longrightarrow> progress ret sock ds \<Longrightarrow> split_frames (pending rb @ ds) = Inr (fs, pending rb') \<Longrightarrow>
     r = Inr (rb', rest, eof) \<Longrightarrow> rb_inv rb' \<Longrightarrow> keeps rb rb' \<Longrightarrow> msg_queue rb' = msg_queue rb @ vs \<Longrightarrow>
     map (view_get (chunks rb')) vs = map Inr fs \<Longrightarrow> sorted_wrt views_disjoint vs \<Longrightarrow>
     (\<And>v. v \<in> set vs \<Longrightarrow> view_ok rb' v \<and> owned rb (base v) \<le> data v) \<Longrightarrow>
     read_outcome rb ret sock r"
  unfolding read_outcome_def
  by (rule disjI2, rule exI [of _ ds], rule exI [of _ rest]) (simp add: read_delivers_def)

lemma read_outcome_InrE:
  assumes "read_outcome rb ret sock (Inr (rb', rest, eof))"
  obtains ds fs vs where "sock = ds @ rest" "progress ret sock ds"
    "split_frames (pending rb @ ds) = Inr (fs, pending rb')" "rb_inv rb'" "keeps rb rb'"
    "msg_queue rb' = msg_queue rb @ vs" "map (view_get (chunks rb')) vs = map Inr fs"
    "sorted_wrt views_disjoint vs" "\<forall>v\<in>set vs. view_ok rb' v \<and> owned rb (base v) \<le> data v"
proof -
  from assms obtain ds rest' where d: "sock = ds @ rest'" "progress ret sock ds"
    and c: "read_delivers rb ds rest' (Inr (rb', rest, eof))"
    by (auto simp: read_outcome_def)
  show thesis
  proof (cases "split_frames (pending rb @ ds)")
    case (Inl e)
    with c show thesis by (simp add: read_delivers_def)
  next
    case (Inr fp)
    obtain fs p where fp: "fp = (fs, p)" by (cases fp)
    with Inr c obtain vs where r: "rest' = rest" "p = pending rb'" "rb_inv rb'" "keeps rb rb'"
        "msg_queue rb' = msg_queue rb @ vs" "map (view_get (chunks rb')) vs = map Inr fs"
        "sorted_wrt views_disjoint vs" "\<forall>v\<in>set vs. view_ok rb' v \<and> owned rb (base v) \<le> data v"
      by (auto simp: read_delivers_def)
    show thesis
      by (rule that [OF _ d(2) _ r(3-8)]) (use d(1) r(1,2) Inr fp in simp_all)
  qed
qed

lemma read_outcome_keeps:
  assumes "keeps rb0 rb" and "pending rb0 = pending rb" and "msg_queue rb0 = msg_queue rb"
    and "read_outcome rb ret sock r"
  shows "read_outcome rb0 ret sock r"
proof -
  have *: "owned rb0 i \<le> owned rb i" for i using assms(1) by (simp add: keeps_def)
  show ?thesis
    using assms(4) unfolding read_outcome_def read_delivers_def assms(2,3)
    by (fastforce split: sum.splits intro: keeps_trans [OF assms(1)] le_trans [OF *])
qed

lemma rb_inv_owned_le:
  "rb_inv rb \<Longrightarrow> i < length (chunks rb) \<Longrightarrow> owned rb i \<le> length (chunk_data (chunks rb ! i))"
  by (auto simp: rb_inv_def current_ok_def owned_def)

text \<open>The outcome of the system call, with the bytes \<open>ds\<close> it transferred.\<close>

lemma read_inner_cases:
  assumes "0 < iov_total iovs"
    and "\<And>ds. length ds \<le> iov_total iovs \<Longrightarrow> scatter h iovs ds = Inr (f ds)" and "f [] = h"
  shows "(ret = Failed EOther \<and> read_inner h iovs ret sock = fail ''Error reading from channel socket'') \<or>
    (\<exists>ds rest eof. sock = ds @ rest \<and> progress ret sock ds \<and>
       length ds \<le> iov_total iovs \<and> read_inner h iovs ret sock = Inr (f ds, rest, eof, length ds))"
proof (cases ret)
  case (Failed e)
  then show ?thesis
    by (cases e) (use assms in \<open>auto simp: read_inner_def progress_def exI [of _ "[]"]\<close>)
next
  case (Ready k)
  let ?n = "min k (min (iov_total iovs) (length sock))"
  have "sock = take ?n sock @ drop ?n sock" by simp
  moreover have "read_inner h iovs ret sock =
      Inr (f (take ?n sock), drop ?n sock, ?n = 0, length (take ?n sock))"
    using assms Ready by (simp add: read_inner_def Let_def)
  moreover have "length (take ?n sock) \<le> iov_total iovs" by simp
  moreover have "progress ret sock (take ?n sock)"
    using assms(1) Ready by (auto simp: progress_def min_def split: if_splits)
  ultimately show ?thesis by blast
qed

definition fresh_ok :: "ReadBuffer \<Rightarrow> bool" where
  "fresh_ok rb \<longleftrightarrow> current rb < length (chunks rb) \<and> old rb = None \<and>
     last_msg_start rb \<le> buf_end rb \<and> 4 dvd last_msg_start rb \<and>
     length (chunk_data (chunks rb ! current rb)) = buf_end rb \<and>
     4 dvd chunk_size (chunks rb ! current rb) \<and>
     buf_end rb + MAX_NORMAL_MSG_SIZE \<le> chunk_size (chunks rb ! current rb)"

lemma dvd_length_concat: "\<forall>f\<in>set fs. (4::nat) dvd length f \<Longrightarrow> 4 dvd length (concat fs)"
  by (induction fs) auto

lemma extract_ok:
  assumes "fresh_ok rb" and "split_frames (pending rb) = Inr (fs, p)"
  defines "vs \<equiv> mk_views (current rb) (last_msg_start rb) fs"
  shows "\<exists>rb'. extract_messages rb = Inr rb' \<and> rb_inv rb' \<and> keeps rb rb' \<and> pending rb' = p \<and>
    msg_queue rb' = msg_queue rb @ vs \<and> map (view_get (chunks rb')) vs = map Inr fs \<and>
    (\<forall>v\<in>set vs. view_ok rb' v \<and> owned rb (base v) \<le> data v)"
proof -
  let ?l = "last_msg_start rb + length (concat fs)"
  let ?d = "chunk_data (chunks rb ! current rb)"
  define rb' where "rb' = rb\<lparr>msg_queue := msg_queue rb @ vs, last_msg_start := ?l\<rparr>"
  note f = assms(1) [unfolded fresh_ok_def]
  note sp = split_frames_Inr [OF assms(2)]
  have pd: "pending rb = drop (last_msg_start rb) ?d" using f by (simp add: pending_def source_def)
  with sp have d: "drop (last_msg_start rb) ?d = concat fs @ p" by simp
  then have len: "?l + length p = buf_end rb"
    using f by (metis add.assoc le_add_diff_inverse length_append length_drop)
  have "drop ?l ?d = drop (length (concat fs)) (drop (last_msg_start rb) ?d)"
    by (simp add: add.commute)
  with d have p': "pending rb' = p"
    using f by (simp add: pending_def source_def rb'_def del: drop_drop)
  have ex: "extract_messages rb = Inr rb'"
    using extract_messages_spec [of rb] f assms(2) by (simp add: rb'_def vs_def)
  have inv: "rb_inv rb'"
    using f sp len p' dvd_length_concat [of fs]
    by (simp add: rb_inv_def current_ok_def) (simp add: rb'_def source_def)
  have own: "owned rb' (current rb) = ?l" "owned rb (current rb) = last_msg_start rb"
    using f by (simp_all add: owned_def source_def rb'_def)
  have "keeps rb rb'"
    using f by (simp add: keeps_def rb'_def owned_def source_def)
  moreover have "map (view_get (chunks rb')) vs = map Inr fs"
    using mk_views_get [of "current rb" "chunks rb" "last_msg_start rb" fs p] f d
    by (simp add: rb'_def vs_def)
  moreover have "\<forall>v\<in>set vs. view_ok rb' v \<and> owned rb (base v) \<le> data v"
    using f len own mk_views_range [of _ "current rb" "last_msg_start rb" fs]
    by (fastforce simp: view_ok_def vs_def rb'_def)
  ultimately show ?thesis
    using ex inv p' by (intro exI [of _ rb']) (simp add: rb'_def)
qed

lemma extract_fails:
  "fresh_ok rb \<Longrightarrow> split_frames (pending rb) = Inl e \<Longrightarrow> extract_messages rb = Inl e"
  using extract_messages_spec [of rb] by (simp add: fresh_ok_def)

lemma read_current_spec:
  assumes "fresh_ok rb" and "buf_end rb + MAX_NORMAL_MSG_SIZE < chunk_size (chunks rb ! current rb)"
  shows "read_outcome rb ret sock (read_current rb ret sock)"
proof -
  let ?i = "current rb" and ?sz = "chunk_size (chunks rb ! current rb)"
  let ?iovs = "[(?i, buf_end rb, ?sz - MAX_NORMAL_MSG_SIZE - buf_end rb)]"
  note f = assms(1) [unfolded fresh_ok_def]
  have "(ret = Failed EOther \<and>
       read_inner (chunks rb) ?iovs ret sock = fail ''Error reading from channel socket'') \<or>
    (\<exists>ds rest eof. sock = ds @ rest \<and> progress ret sock ds \<and>
       length ds \<le> iov_total ?iovs \<and>
       read_inner (chunks rb) ?iovs ret sock = Inr (append_chunk (chunks rb) ?i ds, rest, eof, length ds))"
    by (rule read_inner_cases) (use f assms(2) in \<open>auto simp: iov_total_def simp del: scatter.simps intro!: scatter_one\<close>)
  then show ?thesis
  proof (elim disjE conjE exE)
    assume "ret = Failed EOther"
      and "read_inner (chunks rb) ?iovs ret sock = fail ''Error reading from channel socket''"
    then show ?thesis
      using f assms(2) by (intro read_outcome_failed) (auto simp: read_current_def Let_def)
  next
    fix ds rest eof
    assume s: "sock = ds @ rest" "progress ret sock ds"
      and l: "length ds \<le> iov_total ?iovs"
      and r: "read_inner (chunks rb) ?iovs ret sock =
        Inr (append_chunk (chunks rb) ?i ds, rest, eof, length ds)"
    define rb1 where "rb1 = rb\<lparr>chunks := append_chunk (chunks rb) ?i ds, buf_end := buf_end rb + length ds\<rparr>"
    have 1: "read_current rb ret sock = rbind (extract_messages rb1) (\<lambda>rb. Ok (rb, rest, eof))"
      using f assms(2) r by (auto simp: read_current_def Let_def rb1_def)
    have 2: "fresh_ok rb1" using f l assms(2) by (auto simp: fresh_ok_def rb1_def iov_total_def)
    have 3: "pending rb1 = pending rb @ ds" using f by (simp add: pending_def source_def rb1_def)
    have 4: "keeps rb rb1" using f by (auto simp: keeps_def owned_def source_def rb1_def append_chunk_def nth_list_update)
    have 5: "owned rb1 i = owned rb i" for i using f by (auto simp: owned_def source_def rb1_def append_chunk_def nth_list_update)
    show ?thesis
    proof (cases "split_frames (pending rb @ ds)")
      case (Inl e)
      with s 1 3 extract_fails [OF 2] show ?thesis by (auto intro: read_outcome_Inl)
    next
      case (Inr fp)
      obtain fs p where fp: "fp = (fs, p)" by (cases fp)
      with Inr obtain rb' where rb': "extract_messages rb1 = Inr rb'" "rb_inv rb'" "keeps rb1 rb'"
          "pending rb' = p" "msg_queue rb' = msg_queue rb1 @ mk_views (current rb1) (last_msg_start rb1) fs"
          "map (view_get (chunks rb')) (mk_views (current rb1) (last_msg_start rb1) fs) = map Inr fs"
          "\<forall>v\<in>set (mk_views (current rb1) (last_msg_start rb1) fs). view_ok rb' v \<and> owned rb1 (base v) \<le> data v"
        using extract_ok [OF 2, unfolded 3] by auto
      have q: "msg_queue rb1 = msg_queue rb" by (simp add: rb1_def)
      show ?thesis
        by (rule read_outcome_Inr [OF s])
          (use 1 Inr fp keeps_trans [OF 4 rb'(3)] rb' mk_views_disjoint in \<open>auto simp: q simp flip: 5\<close>)
    qed
  qed
qed

lemma move_tail_spec:
  assumes "rb_inv rb" and "old rb = None" and "4 dvd new_size" and "new_size \<le> 2 ^ 60"
    and "length (pending rb) + MAX_NORMAL_MSG_SIZE < new_size"
  shows "\<exists>rb1. move_tail_to_new rb new_size = Inr rb1 \<and> fresh_ok rb1 \<and> pending rb1 = pending rb \<and>
    buf_end rb1 + MAX_NORMAL_MSG_SIZE < chunk_size (chunks rb1 ! current rb1) \<and>
    keeps rb rb1 \<and> msg_queue rb1 = msg_queue rb"
proof -
  let ?h = "chunks rb @ [\<lparr>chunk_data = [], chunk_size = new_size\<rparr>]" and ?n = "length (chunks rb)"
  note f = assms(1) [unfolded rb_inv_def current_ok_def]
  define rb1 where "rb1 = rb\<lparr>chunks := append_chunk ?h ?n (pending rb), current := ?n,
    buf_end := length (pending rb), last_msg_start := 0\<rparr>"
  have len: "length (pending rb) = buf_end rb - last_msg_start rb"
    using f assms(2) by (simp add: pending_def source_def)
  have al: "alloc_chunk (chunks rb) new_size = Inr (?h, ?n)"
    using assms(4,5) by (simp add: alloc_chunk_def ISIZE_MAX_def)
  have rd: "mem_read ?h (current rb) (last_msg_start rb) (length (pending rb)) = Inr (pending rb)"
    using f assms(2) len by (simp add: mem_read_def sub_slice_def nth_append pending_def source_def)
  have wr: "mem_write ?h ?n 0 (pending rb) = Inr (append_chunk ?h ?n (pending rb))"
    using assms(5) by (intro mem_write_end) auto
  have "move_tail_to_new rb new_size = Inr rb1"
    using f al rd wr assms(5) by (simp add: move_tail_to_new_def rb1_def flip: len)
  moreover have "fresh_ok rb1"
    using assms(2,3,5) by (simp add: fresh_ok_def rb1_def)
  moreover have "pending rb1 = pending rb"
    unfolding pending_def [of rb1] using assms(2) by (simp add: source_def rb1_def)
  moreover have "keeps rb rb1"
    using f assms(2) by (auto simp: keeps_def owned_def source_def rb1_def nth_append)
  ultimately show ?thesis
    using assms(5) by (intro exI [of _ rb1]) (simp add: rb1_def)
qed

lemma pending_msg:
  assumes "rb_inv rb" and "4 \<le> length (pending rb)"
  shows "(\<exists>n. msg_padded_len (take 4 (pending rb)) = Inr n \<and> length (pending rb) < n)"
proof -
  have "split_frames (pending rb) = Inr ([], pending rb)"
    using assms(1) by (simp add: rb_inv_def current_ok_def)
  with assms(2) show ?thesis
    by (auto simp: split_frames.simps [of "pending rb"] res_simps split: if_splits)
qed

lemma swap_to_old_spec:
  assumes "rb_inv rb" and "old rb = None" and "4 \<le> length (pending rb)"
    and "msg_padded_len (take 4 (pending rb)) = Inr n"
    and "last_msg_start rb + n \<le> chunk_size (chunks rb ! current rb)"
  shows "\<exists>rb1. swap_to_old rb = Inr rb1 \<and> rb_inv rb1 \<and> old rb1 \<noteq> None \<and> pending rb1 = pending rb \<and>
    keeps rb rb1 \<and> msg_queue rb1 = msg_queue rb"
proof -
  let ?h = "chunks rb @ [\<lparr>chunk_data = [], chunk_size = 4 * MAX_NORMAL_MSG_SIZE\<rparr>]"
  note f = assms(1) [unfolded rb_inv_def current_ok_def]
  define rb1 where "rb1 = rb\<lparr>chunks := ?h, current := length (chunks rb), old := Some (current rb)\<rparr>"
  have "swap_to_old rb = Inr rb1"
    by (simp add: swap_to_old_def alloc_chunk_def rb1_def MAX_NORMAL_MSG_SIZE_def ISIZE_MAX_def)
  moreover have p: "pending rb1 = pending rb"
    using f assms(2) by (simp add: pending_def source_def rb1_def nth_append)
  moreover have "rb_inv rb1"
    using f assms(2-) unfolding rb_inv_def current_ok_def p
    by (simp add: source_def rb1_def nth_append)
  moreover have "keeps rb rb1"
    using f assms(2) by (auto simp: keeps_def owned_def source_def rb1_def nth_append)
  ultimately show ?thesis by (intro exI [of _ rb1]) (simp add: rb1_def)
qed

lemma split_frames_complete:
  assumes "4 \<le> length a" and "msg_padded_len (take 4 a) = Inr (length a)"
  shows "split_frames (a @ b) = rbind (split_frames b) (\<lambda>(fs, r). Ok (a # fs, r))"
  using assms by (simp add: split_frames.simps [of "a @ b"])

lemma split_frames_incomplete:
  "msg_padded_len (take 4 a) = Inr n \<Longrightarrow> length a < n \<Longrightarrow> split_frames a = Inr ([], a)"
  by (simp add: split_frames.simps [of a])

text \<open>
  The two outcomes of a read while a message in the old chunk is being completed: it is still
  incomplete, or it is complete and the rest of the data is at the start of the new chunk.
\<close>

lemma old_still_incomplete:
  assumes "rb_inv rb" and "old rb = Some od"
    and "msg_padded_len (take 4 (pending rb)) = Inr n" and "length (pending rb) + length ds < n"
  defines "rb' \<equiv> rb\<lparr>chunks := append_chunk (chunks rb) od ds, buf_end := buf_end rb + length ds\<rparr>"
  shows "rb_inv rb' \<and> keeps rb rb' \<and> pending rb' = pending rb @ ds \<and>
    split_frames (pending rb @ ds) = Inr ([], pending rb @ ds)"
proof -
  note f = assms(1) [unfolded rb_inv_def current_ok_def] and o = assms(2)
  have p: "pending rb' = pending rb @ ds"
    using f o by (simp add: pending_def source_def rb'_def)
  have sp: "split_frames (pending rb @ ds) = Inr ([], pending rb @ ds)"
    by (rule split_frames_incomplete [where n = n]) (use f o assms(3,4) in auto)
  have "rb_inv rb'"
    unfolding rb_inv_def current_ok_def p sp using f o by (simp add: rb'_def source_def)
  moreover have "keeps rb rb'"
    using f o by (auto simp: keeps_def owned_def source_def rb'_def append_chunk_def nth_list_update)
  ultimately show ?thesis using p sp by simp
qed

lemma old_completed:
  assumes "rb_inv rb" and "old rb = Some od"
    and "msg_padded_len (take 4 (pending rb)) = Inr n" and "length (pending rb) + length a = n"
    and "length b \<le> 3 * MAX_NORMAL_MSG_SIZE"
  defines "rb1 \<equiv> (push_msg (rb\<lparr>chunks := append_chunk (append_chunk (chunks rb) od a) (current rb) b,
      old := None\<rparr>) od n)\<lparr>last_msg_start := 0, buf_end := length b\<rparr>"
  shows "fresh_ok rb1 \<and> keeps rb rb1 \<and> pending rb1 = b \<and>
    msg_queue rb1 = msg_queue rb @ [mk_view od (last_msg_start rb) n] \<and>
    view_get (chunks rb1) (mk_view od (last_msg_start rb) n) = Inr (pending rb @ a) \<and>
    view_ok rb1 (mk_view od (last_msg_start rb) n) \<and>
    split_frames (pending rb @ a @ b) = rbind (split_frames b) (\<lambda>(fs, r). Ok ((pending rb @ a) # fs, r))"
proof -
  note f = assms(1) [unfolded rb_inv_def current_ok_def] and o = assms(2)
  have d: "length (chunk_data (chunks rb ! od)) = buf_end rb" "od < length (chunks rb)"
      "pending rb = drop (last_msg_start rb) (chunk_data (chunks rb ! od))" "od \<noteq> current rb"
    using f o by (simp_all add: pending_def source_def)
  have e: "last_msg_start rb + n = buf_end rb + length a"
    using assms(4) d f by auto
  have "fresh_ok rb1"
    using f o assms(5) d by (simp add: fresh_ok_def rb1_def push_msg_def)
  moreover have "keeps rb rb1"
    using f o by (auto simp: keeps_def owned_def source_def rb1_def push_msg_def append_chunk_def nth_list_update)
  moreover have "pending rb1 = b"
    using f o d by (simp add: pending_def source_def rb1_def push_msg_def)
  moreover have "view_get (chunks rb1) (mk_view od (last_msg_start rb) n) = Inr (pending rb @ a)"
    using d e assms(4) f
    by (simp add: view_get_def mem_read_def sub_slice_def rb1_def push_msg_def)
  moreover have "view_ok rb1 (mk_view od (last_msg_start rb) n)"
    using d e by (simp add: view_ok_def owned_def source_def rb1_def push_msg_def)
  moreover have "split_frames ((pending rb @ a) @ b) = rbind (split_frames b) (\<lambda>(fs, r). Ok ((pending rb @ a) # fs, r))"
    by (rule split_frames_complete) (use f o assms(3,4) in auto)
  ultimately show ?thesis by (simp add: rb1_def push_msg_def mk_view_def)
qed

lemma old_read_done:
  assumes "rb_inv rb" and "old rb = Some od" and "msg_padded_len (take 4 (pending rb)) = Inr n"
    and "length (pending rb) + length a = n" and "length b \<le> 3 * MAX_NORMAL_MSG_SIZE"
    and "sock = (a @ b) @ rest" and "progress ret sock (a @ b)"
    and "r = rbind (extract_messages ((push_msg (rb\<lparr>chunks := append_chunk (append_chunk (chunks rb) od a)
      (current rb) b, old := None\<rparr>) od n)\<lparr>last_msg_start := 0, buf_end := length b\<rparr>))
      (\<lambda>rb. Ok (rb, rest, eof))"
  shows "read_outcome rb ret sock r"
proof -
  define rb1 where "rb1 = (push_msg (rb\<lparr>chunks := append_chunk (append_chunk (chunks rb) od a) (current rb) b,
      old := None\<rparr>) od n)\<lparr>last_msg_start := 0, buf_end := length b\<rparr>"
  let ?v = "mk_view od (last_msg_start rb) n"
  note c = old_completed [OF assms(1-5), folded rb1_def]
  show ?thesis
  proof (cases "split_frames b")
    case (Inl e)
    with c assms(8) extract_fails [of rb1 e] show ?thesis
      by (auto simp: rb1_def intro!: read_outcome_Inl [OF assms(6,7)])
  next
    case (Inr fp)
    obtain fs p where fp: "fp = (fs, p)" by (cases fp)
    define vs where "vs = mk_views (current rb1) (last_msg_start rb1) fs"
    have "fresh_ok rb1" and "split_frames (pending rb1) = Inr (fs, p)" using c Inr fp by simp_all
    from extract_ok [OF this] obtain rb' where rb': "extract_messages rb1 = Inr rb'" "rb_inv rb'" "keeps rb1 rb'"
        "pending rb' = p" "msg_queue rb' = msg_queue rb1 @ vs" "map (view_get (chunks rb')) vs = map Inr fs"
        "\<forall>v\<in>set vs. view_ok rb' v \<and> owned rb1 (base v) \<le> data v"
      unfolding vs_def by blast
    have k: "keeps rb rb'" using c rb'(3) keeps_trans by blast
    have ol: "owned rb i \<le> owned rb1 i" for i using c by (simp add: keeps_def)
    have "base ?v < length (chunks rb')"
      using c rb'(3) by (auto simp: view_ok_def keeps_def)
    then have v: "view_ok rb' ?v \<and> view_get (chunks rb') ?v = view_get (chunks rb1) ?v"
      using c keeps_view [OF rb'(3), of ?v] rb_inv_owned_le [OF rb'(2)] by blast
    have "current rb1 \<noteq> od"
      using assms(1,2) by (auto simp: rb_inv_def rb1_def push_msg_def)
    then have dj: "sorted_wrt views_disjoint (?v # vs)"
      using mk_views_disjoint mk_views_range unfolding vs_def by (fastforce simp: views_disjoint_def)
    have own: "owned rb od = last_msg_start rb"
      using assms(1,2) by (auto simp: owned_def source_def rb_inv_def current_ok_def)
    show ?thesis
      by (rule read_outcome_Inr [OF assms(6,7), of _ "(pending rb @ a) # fs" rb' _ eof "?v # vs"])
        (use c Inr fp rb' k v dj own ol assms(8) in \<open>auto simp: rb1_def intro: le_trans [OF ol]\<close>)
  qed
qed

lemma read_with_old_spec:
  assumes "rb_inv rb" and "old rb \<noteq> None"
  shows "read_outcome rb ret sock (read_with_old rb ret sock)"
proof -
  from assms(2) obtain od where o: "old rb = Some od" by auto
  note f = assms(1) [unfolded rb_inv_def current_ok_def]
  have src: "source rb = od" using o by (simp add: source_def)
  have p4: "4 \<le> length (pending rb)" and sz: "chunk_size (chunks rb ! current rb) = 4 * MAX_NORMAL_MSG_SIZE"
    and len: "length (pending rb) = buf_end rb - last_msg_start rb"
    using f o by (auto simp: source_def pending_def)
  obtain n where n: "msg_padded_len (take 4 (pending rb)) = Inr n" "length (pending rb) < n"
    using pending_msg [OF assms(1) p4] by blast
  let ?m = "last_msg_start rb + n - buf_end rb"
  let ?h = "\<lambda>ds. append_chunk (append_chunk (chunks rb) od (take ?m ds)) (current rb) (drop ?m ds)"
  let ?iovs = "[(od, buf_end rb, ?m), (current rb, 0, 3 * MAX_NORMAL_MSG_SIZE)]"
  have m: "0 < ?m" "buf_end rb \<le> last_msg_start rb + n" "length (pending rb) + ?m = n"
    using n(2) len f by auto
  have g: "get_message_padded_len (chunks rb) od (last_msg_start rb) = Inr n"
    using get_padded_len_pending [of rb] p4 n f src by simp
  have ri: "read_with_old rb ret sock = rbind (read_inner (chunks rb) ?iovs ret sock) (\<lambda>(h, sock, eof, nread).
       if nread < ?m then Ok (rb\<lparr>chunks := h, buf_end := buf_end rb + nread\<rparr>, sock, eof)
       else rbind (extract_messages ((push_msg (rb\<lparr>chunks := h, old := None\<rparr>) od n)\<lparr>last_msg_start := 0,
         buf_end := nread - ?m\<rparr>)) (\<lambda>rb. Ok (rb, sock, eof)))"
    unfolding read_with_old_def Let_def using o f p4 g m sz len by simp
  have "(ret = Failed EOther \<and>
       read_inner (chunks rb) ?iovs ret sock = fail ''Error reading from channel socket'') \<or>
    (\<exists>ds rest eof. sock = ds @ rest \<and> progress ret sock ds \<and> length ds \<le> iov_total ?iovs \<and>
       read_inner (chunks rb) ?iovs ret sock = Inr (?h ds, rest, eof, length ds))"
    by (rule read_inner_cases)
      (use f o m n src sz in \<open>auto simp: iov_total_def simp del: scatter.simps intro!: scatter_two\<close>)
  then show ?thesis
  proof (elim disjE conjE exE)
    assume "ret = Failed EOther"
      and "read_inner (chunks rb) ?iovs ret sock = fail ''Error reading from channel socket''"
    then show ?thesis unfolding ri by (intro read_outcome_failed) simp_all
  next
    fix ds rest eof
    assume s: "sock = ds @ rest" "progress ret sock ds" and l: "length ds \<le> iov_total ?iovs"
      and r: "read_inner (chunks rb) ?iovs ret sock = Inr (?h ds, rest, eof, length ds)"
    show ?thesis
    proof (cases "length ds < ?m")
      case True
      then have "length (pending rb) + length ds < n" using m by linarith
      note i = old_still_incomplete [OF assms(1) o n(1) this]
      from True r have "read_with_old rb ret sock =
          Inr (rb\<lparr>chunks := append_chunk (chunks rb) od ds, buf_end := buf_end rb + length ds\<rparr>, rest, eof)"
        by (simp add: ri)
      with i show ?thesis
        by (intro read_outcome_Inr [OF s, where vs = "[]" and fs = "[]" and eof = eof and
            rb' = "rb\<lparr>chunks := append_chunk (chunks rb) od ds, buf_end := buf_end rb + length ds\<rparr>"])
          simp_all
    next
      case False
      then have rw: "read_with_old rb ret sock = rbind (extract_messages ((push_msg (rb\<lparr>chunks := ?h ds,
          old := None\<rparr>) od n)\<lparr>last_msg_start := 0, buf_end := length (drop ?m ds)\<rparr>)) (\<lambda>rb. Ok (rb, rest, eof))"
        unfolding ri r by simp
      show ?thesis
        by (rule old_read_done [OF assms(1) o n(1) _ _ _ _ rw])
          (use False m s l in \<open>simp_all add: iov_total_def\<close>)
    qed
  qed
qed

lemma fresh_ok_of_inv: "rb_inv rb \<Longrightarrow> old rb = None \<Longrightarrow> fresh_ok rb"
  by (simp add: rb_inv_def current_ok_def fresh_ok_def source_def)

text \<open>
  A partial header never fills a chunk up to the reserve: message starts and the reserve are
  multiples of four.
\<close>

lemma partial_header_space:
  assumes "rb_inv rb" and "old rb = None" and "length (pending rb) < 4"
    and "MAX_NORMAL_MSG_SIZE < chunk_size (chunks rb ! current rb) - last_msg_start rb"
  shows "buf_end rb + MAX_NORMAL_MSG_SIZE < chunk_size (chunks rb ! current rb)"
proof (rule ccontr)
  let ?c = "chunk_size (chunks rb ! current rb)"
  note f = fresh_ok_of_inv [OF assms(1,2), unfolded fresh_ok_def]
  assume "\<not> ?thesis"
  with f have e: "buf_end rb = ?c - MAX_NORMAL_MSG_SIZE" by linarith
  have "4 dvd MAX_NORMAL_MSG_SIZE" by (simp add: MAX_NORMAL_MSG_SIZE_def)
  with f e have "4 dvd buf_end rb - last_msg_start rb" by (simp add: dvd_diff_nat)
  moreover have "length (pending rb) = buf_end rb - last_msg_start rb"
    using f assms(2) by (simp add: pending_def source_def)
  ultimately have "buf_end rb - last_msg_start rb = 0"
    using assms(3) by (metis dvd_imp_le not_le zero_less_iff_neq_zero)
  with e assms(4) f show False by linarith
qed

lemma new_chunk_size:
  assumes "4 dvd n" and "n \<le> 2 ^ 27"
  defines "new_size \<equiv> max (2 * n) (4 * MAX_NORMAL_MSG_SIZE)"
  shows "4 dvd new_size \<and> new_size \<le> 2 ^ 60 \<and> n + MAX_NORMAL_MSG_SIZE < new_size"
  using assms(1,2) by (auto simp: new_size_def MAX_NORMAL_MSG_SIZE_def max_def)

lemma read_moved:
  assumes "rb_inv rb" and "old rb = None" and "4 dvd new_size" and "new_size \<le> 2 ^ 60"
    and "length (pending rb) + MAX_NORMAL_MSG_SIZE < new_size"
  shows "read_outcome rb ret sock (rbind (move_tail_to_new rb new_size) (\<lambda>rb. read_current rb ret sock))"
  using move_tail_spec [OF assms]
  by (auto intro!: read_current_spec intro: read_outcome_keeps)

theorem read_more_spec:
  assumes "rb_inv rb"
  shows "read_outcome rb ret sock (read_more rb ret sock)"
proof (cases "old rb")
  case (Some od)
  with read_with_old_spec [OF assms, of ret sock] show ?thesis by (simp add: read_more_def)
next
  case None
  let ?cap = "chunk_size (chunks rb ! current rb)"
  note f = fresh_ok_of_inv [OF assms None] and f' = fresh_ok_of_inv [OF assms None, unfolded fresh_ok_def]
  have len: "length (pending rb) = buf_end rb - last_msg_start rb" and src: "source rb = current rb"
    using f' None by (auto simp: pending_def source_def)
  show ?thesis
  proof (cases "4 \<le> length (pending rb)")
    case True
    obtain n where n: "msg_padded_len (take 4 (pending rb)) = Inr n" "length (pending rb) < n"
      using pending_msg [OF assms True] by blast
    have g: "get_message_padded_len (chunks rb) (current rb) (last_msg_start rb) = Inr n"
      using get_padded_len_pending [of rb] True n f' src by simp
    note b = msg_padded_len_bounds [OF n(1)] and ns = new_chunk_size [of n]
    consider "?cap < last_msg_start rb + n"
      | "last_msg_start rb + n \<le> ?cap" "?cap - (last_msg_start rb + n) \<le> MAX_NORMAL_MSG_SIZE"
      | "last_msg_start rb + n + MAX_NORMAL_MSG_SIZE < ?cap" by linarith
    then show ?thesis
    proof cases
      case 1
      have "read_outcome rb ret sock (rbind (move_tail_to_new rb (max (2 * n) (4 * MAX_NORMAL_MSG_SIZE)))
          (\<lambda>rb. read_current rb ret sock))"
        by (rule read_moved) (use assms None b ns n in auto)
      with 1 None f' True g ns b len show ?thesis by (simp add: read_more_def Let_def)
    next
      case 2
      from swap_to_old_spec [OF assms None True n(1) 2(1)] obtain rb1
        where rb1: "swap_to_old rb = Inr rb1" "rb_inv rb1" "old rb1 \<noteq> None" "pending rb1 = pending rb"
          "keeps rb rb1" "msg_queue rb1 = msg_queue rb" by blast
      then have "read_outcome rb ret sock (read_with_old rb1 ret sock)"
        using read_outcome_keeps [OF rb1(5)] read_with_old_spec [OF rb1(2,3)] by simp
      with 2 None f' True g len rb1(1) show ?thesis by (simp add: read_more_def Let_def)
    next
      case 3
      have "read_outcome rb ret sock (read_current rb ret sock)"
        by (rule read_current_spec [OF f]) (use 3 n len in linarith)
      with 3 None f' True g len show ?thesis by (auto simp: read_more_def Let_def)
    qed
  next
    case short: False
    show ?thesis
    proof (cases "?cap - last_msg_start rb \<le> MAX_NORMAL_MSG_SIZE")
      case True
      have "read_outcome rb ret sock (rbind (move_tail_to_new rb (4 * MAX_NORMAL_MSG_SIZE))
          (\<lambda>rb. read_current rb ret sock))"
        by (rule read_moved) (use assms None short in \<open>auto simp: MAX_NORMAL_MSG_SIZE_def\<close>)
      with True None f' short len show ?thesis by (simp add: read_more_def Let_def)
    next
      case False
      have "read_outcome rb ret sock (read_current rb ret sock)"
        by (rule read_current_spec [OF f]) (use partial_header_space [OF assms None] short False in auto)
      with False None f' short len show ?thesis by (simp add: read_more_def Let_def)
    qed
  qed
qed

section \<open>Runs of the buffer\<close>

text \<open>
  A run on the stream \<open>S\<close>: the state is the buffer, the bytes still in the socket, the messages
  popped so far (as they were when popped) and the views on loan. The owner of a popped view
  may write to it at any time, in any order with reads and further pops.
\<close>

type_synonym run_state = "ReadBuffer \<times> bytes \<times> bytes list \<times> ReadBufferView list"

inductive rb_run :: "bytes \<Rightarrow> run_state \<Rightarrow> bool" for S where
  init: "ReadBuffer_new = Inr rb \<Longrightarrow> rb_run S (rb, S, [], [])"
| read: "rb_run S (rb, sock, ms, vs) \<Longrightarrow> read_more rb ret sock = Inr (rb', sock', eof) \<Longrightarrow>
    rb_run S (rb', sock', ms, vs)"
| pop: "rb_run S (rb, sock, ms, vs) \<Longrightarrow> pop_next_msg rb = (Some v, rb') \<Longrightarrow>
    view_get (chunks rb) v = Inr m \<Longrightarrow> rb_run S (rb', sock, ms @ [m], vs @ [v])"
| modify: "rb_run S (rb, sock, ms, vs) \<Longrightarrow> v \<in> set vs \<Longrightarrow> view_set (chunks rb) v k b = Inr h \<Longrightarrow>
    rb_run S (rb\<lparr>chunks := h\<rparr>, sock, ms, vs)"

definition run_inv :: "bytes \<Rightarrow> run_state \<Rightarrow> bool" where
  "run_inv S st \<longleftrightarrow> (case st of (rb, sock, ms, vs) \<Rightarrow>
     rb_inv rb \<and> (\<forall>v\<in>set (vs @ msg_queue rb). view_ok rb v) \<and>
     sorted_wrt views_disjoint (vs @ msg_queue rb) \<and>
     (\<exists>consumed qs. S = consumed @ sock \<and> map (view_get (chunks rb)) (msg_queue rb) = map Inr qs \<and>
        split_frames consumed = Inr (ms @ qs, pending rb)))"

lemma keeps_views:
  assumes "keeps rb rb'" and "rb_inv rb'" and "\<forall>v\<in>set vs. view_ok rb v"
  shows "(\<forall>v\<in>set vs. view_ok rb' v) \<and> map (view_get (chunks rb')) vs = map (view_get (chunks rb)) vs"
proof -
  have "view_ok rb' v \<and> view_get (chunks rb') v = view_get (chunks rb) v" if "v \<in> set vs" for v
  proof -
    have ok: "view_ok rb v" using that assms(3) by blast
    with assms(1) have "base v < length (chunks rb')" by (auto simp: view_ok_def keeps_def)
    then show ?thesis using keeps_view [OF assms(1) ok] rb_inv_owned_le [OF assms(2)] by blast
  qed
  then show ?thesis by simp
qed

lemma views_disjoint_new:
  "view_ok rb v \<Longrightarrow> owned rb (base w) \<le> data w \<Longrightarrow> views_disjoint v w"
  by (auto simp: views_disjoint_def view_ok_def)

lemma run_inv_read:
  assumes "run_inv S (rb, sock, ms, vs)" and "read_more rb ret sock = Inr (rb', sock', eof)"
  shows "run_inv S (rb', sock', ms, vs)"
proof -
  from assms(1) have inv: "rb_inv rb" and ok: "\<forall>v\<in>set (vs @ msg_queue rb). view_ok rb v"
    and dj: "sorted_wrt views_disjoint (vs @ msg_queue rb)" by (simp_all add: run_inv_def)
  from assms(1) obtain consumed qs where c: "S = consumed @ sock"
      "map (view_get (chunks rb)) (msg_queue rb) = map Inr qs" "split_frames consumed = Inr (ms @ qs, pending rb)"
    by (auto simp: run_inv_def)
  from read_more_spec [OF inv, of ret sock, unfolded assms(2)] obtain ds fs us
    where d: "sock = ds @ sock'" "split_frames (pending rb @ ds) = Inr (fs, pending rb')"
      and r: "rb_inv rb'" "keeps rb rb'" "msg_queue rb' = msg_queue rb @ us"
        "map (view_get (chunks rb')) us = map Inr fs" "sorted_wrt views_disjoint us"
        "\<forall>v\<in>set us. view_ok rb' v \<and> owned rb (base v) \<le> data v"
    by (rule read_outcome_InrE)
  have k: "(\<forall>v\<in>set (vs @ msg_queue rb). view_ok rb' v) \<and>
      map (view_get (chunks rb')) (vs @ msg_queue rb) = map (view_get (chunks rb)) (vs @ msg_queue rb)"
    by (rule keeps_views [OF r(2,1) ok])
  have "split_frames (consumed @ ds) = Inr (ms @ qs @ fs, pending rb')"
    using c(3) d(2) by (simp add: split_frames_append [of consumed])
  moreover have "S = (consumed @ ds) @ sock'" using c d by simp
  moreover have "map (view_get (chunks rb')) (msg_queue rb') = map Inr (qs @ fs)"
    using k c(2) r(3,4) by simp
  ultimately have "\<exists>consumed qs. S = consumed @ sock' \<and>
      map (view_get (chunks rb')) (msg_queue rb') = map Inr qs \<and>
      split_frames consumed = Inr (ms @ qs, pending rb')" by blast
  moreover have "sorted_wrt views_disjoint (vs @ msg_queue rb')"
    using dj r(3,5,6) ok views_disjoint_new by (fastforce simp: sorted_wrt_append)
  ultimately show ?thesis using r k by (auto simp: run_inv_def)
qed

lemma run_inv_pop:
  assumes "run_inv S (rb, sock, ms, vs)" and "pop_next_msg rb = (Some v, rb')"
    and "view_get (chunks rb) v = Inr m"
  shows "run_inv S (rb', sock, ms @ [m], vs @ [v])"
proof -
  from assms(2) obtain q where q: "msg_queue rb = v # q" "rb' = rb\<lparr>msg_queue := q\<rparr>"
    by (auto simp: pop_next_msg_def split: list.splits)
  have same: "pending rb' = pending rb" "rb_inv rb' = rb_inv rb" "view_ok rb' = view_ok rb" "chunks rb' = chunks rb"
    unfolding q(2) by (simp_all add: fun_eq_iff pending_def rb_inv_def current_ok_def view_ok_def owned_def split: option.splits)
  from assms(1) obtain consumed qs where c: "S = consumed @ sock"
      "map (view_get (chunks rb)) (msg_queue rb) = map Inr qs" "split_frames consumed = Inr (ms @ qs, pending rb)"
    by (auto simp: run_inv_def)
  with q assms(3) obtain qs' where qs: "qs = m # qs'" by (cases qs) auto
  have "\<exists>consumed qs. S = consumed @ sock \<and> map (view_get (chunks rb')) (msg_queue rb') = map Inr qs \<and>
      split_frames consumed = Inr ((ms @ [m]) @ qs, pending rb')"
    by (rule exI [of _ consumed], rule exI [of _ qs']) (use c q same qs in simp)
  moreover have "rb_inv rb'" "\<forall>w\<in>set ((vs @ [v]) @ msg_queue rb'). view_ok rb' w"
      "sorted_wrt views_disjoint ((vs @ [v]) @ msg_queue rb')"
    using assms(1) q same by (simp_all add: run_inv_def)
  ultimately show ?thesis by (simp add: run_inv_def)
qed

text \<open>A write through a loaned view touches neither the message in progress nor a queued message.\<close>

lemma mem_write_byte:
  assumes "mem_write h i a [b] = Inr h'" and "a < length (chunk_data (h ! i))"
  shows "length h' = length h \<and> i < length h \<and> chunk_size (h' ! j) = chunk_size (h ! j) \<and>
    length (chunk_data (h' ! j)) = length (chunk_data (h ! j)) \<and>
    (j \<noteq> i \<or> a < l \<longrightarrow> drop l (chunk_data (h' ! j)) = drop l (chunk_data (h ! j))) \<and>
    (j \<noteq> i \<or> l \<le> a \<longrightarrow> take l (chunk_data (h' ! j)) = take l (chunk_data (h ! j)))"
proof (cases "i = j")
  case True
  have "drop (l - a) (b # drop (Suc a) (chunk_data (h ! i))) = drop l (chunk_data (h ! i))" if "a < l"
  proof -
    from that obtain k where "l = Suc (a + k)" using less_imp_Suc_add by blast
    then show ?thesis by (simp add: add.commute)
  qed
  with True assms show ?thesis
    by (auto simp: mem_write_def write_at_def split: if_splits)
next
  case False
  with assms show ?thesis by (auto simp: mem_write_def split: if_splits)
qed

lemma run_inv_modify:
  assumes "run_inv S (rb, sock, ms, vs)" and "v \<in> set vs" and "view_set (chunks rb) v k b = Inr h"
  shows "run_inv S (rb\<lparr>chunks := h\<rparr>, sock, ms, vs)"
proof -
  let ?rb = "rb\<lparr>chunks := h\<rparr>" and ?a = "data v + k"
  from assms(1) have inv: "rb_inv rb" and ok: "\<forall>v\<in>set (vs @ msg_queue rb). view_ok rb v"
    and dj: "sorted_wrt views_disjoint (vs @ msg_queue rb)" by (simp_all add: run_inv_def)
  from assms(3) have k: "k < data_len v" and w: "mem_write (chunks rb) (base v) ?a [b] = Inr h"
    by (auto simp: view_set_def split: if_splits)
  have v: "view_ok rb v" using ok assms(2) by simp
  with k have a: "?a < owned rb (base v)" "?a < length (chunk_data (chunks rb ! base v))"
    by (auto simp: view_ok_def)
  note m = mem_write_byte [OF w a(2)]
  have own: "owned ?rb = owned rb"
    using m by (auto simp: owned_def fun_eq_iff)
  have pd: "pending ?rb = pending rb"
    using m a(1) by (auto simp: pending_def owned_def split: if_splits)
  have "chunk_data (h ! current rb) = [] \<longleftrightarrow> chunk_data (chunks rb ! current rb) = []"
    using m by (metis length_0_conv)
  then have inv': "rb_inv ?rb"
    using inv m pd by (simp add: rb_inv_def current_ok_def split: option.splits)
  have ok': "view_ok ?rb = view_ok rb"
    using m own by (auto simp: view_ok_def fun_eq_iff)
  have same: "view_get h u = view_get (chunks rb) u" if "u \<in> set (msg_queue rb)" for u
  proof -
    have "views_disjoint v u" using dj that assms(2) by (auto simp: sorted_wrt_append)
    with k consider "base u \<noteq> base v \<or> ?a < data u" | "data u + data_len u \<le> ?a"
      by (force simp: views_disjoint_def)
    then have "sub_slice (chunk_data (h ! base u)) (data u) (data u + data_len u) =
        sub_slice (chunk_data (chunks rb ! base u)) (data u) (data u + data_len u)"
      by cases (use m in \<open>blast intro: sub_slice_cong_drop\<close>, use m in \<open>blast intro: sub_slice_cong_take\<close>)
    with m show ?thesis by (simp add: view_get_def mem_read_def)
  qed
  then have "map (view_get h) (msg_queue rb) = map (view_get (chunks rb)) (msg_queue rb)" by simp
  with assms(1) inv' ok' pd show ?thesis by (simp add: run_inv_def del: map_eq_conv)
qed

lemma run_inv_init: "ReadBuffer_new = Inr rb \<Longrightarrow> run_inv S (rb, S, [], [])"
  by (auto simp: ReadBuffer_new_def alloc_chunk_def ISIZE_MAX_def MAX_NORMAL_MSG_SIZE_def run_inv_def
      rb_inv_def current_ok_def pending_def source_def)

lemma rb_run_inv: "rb_run S st \<Longrightarrow> run_inv S st"
  by (induction rule: rb_run.induct) (auto intro: run_inv_init run_inv_read run_inv_pop run_inv_modify)

lemma read_more_Inl:
  assumes "run_inv S (rb, sock, ms, vs)" and "read_more rb ret sock = Inl e"
  shows "ret = Failed EOther \<and> e = Err ''Error reading from channel socket'' \<or>
    (\<exists>n. split_frames (take n S) = Inl e)"
proof -
  from assms(1) obtain consumed qs where c: "S = consumed @ sock" "rb_inv rb"
      "split_frames consumed = Inr (ms @ qs, pending rb)"
    by (auto simp: run_inv_def)
  from read_more_spec [OF c(2), of ret sock] assms(2) consider "ret = Failed EOther"
      "e = Err ''Error reading from channel socket''"
    | ds rest where "sock = ds @ rest" "read_delivers rb ds rest (Inl e)"
    by (auto simp: read_outcome_def)
  then show ?thesis
  proof cases
    case 2
    then have "split_frames (pending rb @ ds) = Inl e"
      by (auto simp: read_delivers_def split: sum.splits)
    with c(3) have "split_frames (consumed @ ds) = Inl e"
      by (simp add: split_frames_append [of consumed])
    moreover have "take (length (consumed @ ds)) S = consumed @ ds" using c(1) 2(1) by simp
    ultimately show ?thesis by metis
  qed simp
qed

lemma read_more_progress:
  assumes "run_inv S (rb, sock, ms, vs)" and "read_more rb (Ready k) sock = Inr (rb', sock', eof)"
    and "0 < k" and "sock \<noteq> []"
  shows "length sock' < length sock"
proof -
  from assms(1) have "rb_inv rb" by (simp add: run_inv_def)
  from read_more_spec [OF this, of "Ready k" sock, unfolded assms(2)] obtain ds
    where "sock = ds @ sock'" "progress (Ready k) sock ds" by (rule read_outcome_InrE)
  with assms(3,4) show ?thesis by (auto simp: progress_def)
qed

lemma split_frames_prefix: "split_frames S = Inr x \<Longrightarrow> split_frames (take n S) \<noteq> Inl e"
  using split_frames_append [of "take n S" "drop n S"] by auto

text \<open>Successive reads, the kernel offering \<open>k\<close> bytes at each.\<close>

fun read_loop :: "nat list \<Rightarrow> ReadBuffer \<Rightarrow> bytes \<Rightarrow> (ReadBuffer \<times> bytes) res" where
  "read_loop [] rb sock = Ok (rb, sock)"
| "read_loop (k # ks) rb sock =
     rbind (read_more rb (Ready k) sock) (\<lambda>(rb, sock, eof). read_loop ks rb sock)"

lemma read_loop_inv:
  assumes "run_inv S (rb, sock, ms, vs)" and "split_frames S = Inr (fs, r)" and "\<forall>k\<in>set ks. 0 < k"
    and "length sock \<le> length ks"
  shows "\<exists>rb'. read_loop ks rb sock = Inr (rb', []) \<and> run_inv S (rb', [], ms, vs)"
  using assms
proof (induction ks arbitrary: rb sock)
  case Nil
  then show ?case by simp
next
  case (Cons k ks)
  obtain rb1 sock1 eof where r: "read_more rb (Ready k) sock = Inr (rb1, sock1, eof)"
  proof (cases "read_more rb (Ready k) sock")
    case (Inl e)
    with read_more_Inl [OF Cons.prems(1) Inl] split_frames_prefix [OF Cons.prems(2)] show ?thesis by auto
  qed (auto intro: that)
  have i: "run_inv S (rb1, sock1, ms, vs)" by (rule run_inv_read [OF Cons.prems(1) r])
  have "sock = [] \<longrightarrow> sock1 = []"
    using Cons.prems(1) read_more_spec [of rb "Ready k" sock, unfolded r]
    by (auto simp: run_inv_def elim!: read_outcome_InrE)
  then have "length sock1 \<le> length ks"
    using read_more_progress [OF Cons.prems(1) r] Cons.prems(3,4) by (cases "sock = []") auto
  with Cons.IH [OF i Cons.prems(2)] Cons.prems(3) r show ?case by auto
qed

section \<open>Properties\<close>

text \<open>
  A concrete run for the properties below: an eight byte message and the first two bytes of the
  next header arrive in two pieces; the message is popped and then written to.
\<close>

definition ex_stream :: bytes where
  "ex_stream = [0, 1, 0, 0, 1, 2, 3, 4, 192, 0]"

definition ex_buf :: "bytes \<Rightarrow> nat \<Rightarrow> ReadBufferView list \<Rightarrow> ReadBuffer" where
  "ex_buf bs start q =
     \<lparr>chunks = [\<lparr>chunk_data = bs, chunk_size = 1048576\<rparr>], old = None, current = 0,
       last_msg_start = start, buf_end = length bs, msg_queue = q\<rparr>"

definition ex_view :: ReadBufferView where
  "ex_view = \<lparr>base = 0, data = 0, data_len = 8\<rparr>"

lemma ex_len: "msg_padded_len [0, 1, 0, 0] = Inr 8"
proof -
  have "parse_wmsg_header (u32_from_le_bytes [0, 1, 0, 0]) = Some (8, Protocol)" by code_simp
  then show ?thesis
    by (simp add: msg_padded_len_def align4_ok USIZE_MAX_def next_multiple_of_def div_ceil_def)
qed

lemmas ex_eval = read_more_def read_current_def read_inner_def ReadBuffer_new_def alloc_chunk_def
  ex_buf_def ex_stream_def ex_view_def MAX_NORMAL_MSG_SIZE_def ISIZE_MAX_def iov_total_def Let_def
  mem_write_def mem_read_def write_at_def sub_slice_def get_message_padded_len_def
  pop_next_msg_def view_get_def view_set_def extract_messages.simps push_msg_def ex_len

lemma ex_reads:
  "ReadBuffer_new = Inr (ex_buf [] 0 [])"
  "read_more (ex_buf [] 0 []) (Ready 3) ex_stream = Inr (ex_buf [0, 1, 0] 0 [], drop 3 ex_stream, False)"
  "read_more (ex_buf [0, 1, 0] 0 []) (Ready 20) (drop 3 ex_stream) = Inr (ex_buf ex_stream 8 [ex_view], [], False)"
  "pop_next_msg (ex_buf ex_stream 8 [ex_view]) = (Some ex_view, ex_buf ex_stream 8 [])"
  "view_get (chunks (ex_buf ex_stream 8 [ex_view])) ex_view = Inr (take 8 ex_stream)"
  "view_set (chunks (ex_buf ex_stream 8 [])) ex_view 5 99 = Inr (chunks (ex_buf (ex_stream[5 := 99]) 8 []))"
  by (simp_all add: ex_eval)

lemma ex_run1: "rb_run ex_stream (ex_buf ex_stream 8 [ex_view], [], [], [])"
  by (rule rb_run.read [OF rb_run.read [OF rb_run.init [OF ex_reads(1)] ex_reads(2)] ex_reads(3)])

lemma ex_run2:
  "rb_run ex_stream (ex_buf (ex_stream[5 := 99]) 8 [], [], [take 8 ex_stream], [ex_view])"
  using rb_run.modify [OF rb_run.pop [OF ex_run1 ex_reads(4,5)] _ ex_reads(6)]
  by (simp add: ex_buf_def ex_stream_def)

text \<open>
  C5: the messages received do not depend on how the bytes arrive. However the kernel splits
  the stream over the calls of \<open>read_more\<close>, whenever messages are popped, and whatever the
  owners of popped views write into them, the messages popped so far followed by those in the
  queue are exactly the messages of the bytes consumed so far, in order and unchanged, and the
  buffer holds exactly the incomplete rest.
\<close>

theorem read_buffer_frames:
  assumes "rb_run S (rb, sock, ms, vs)"
  shows "\<exists>consumed qs. S = consumed @ sock \<and>
    map (view_get (chunks rb)) (msg_queue rb) = map Inr qs \<and>
    split_frames consumed = Inr (ms @ qs, pending rb)"
  using rb_run_inv [OF assms] by (simp add: run_inv_def)

theorem read_buffer_frames_witness:
  "\<exists>consumed qs. ex_stream = consumed @ [] \<and>
     map (view_get (chunks (ex_buf (ex_stream[5 := 99]) 8 []))) [] = map Inr qs \<and>
     split_frames consumed = Inr ([take 8 ex_stream] @ qs, [192, 0])"
  using read_buffer_frames [OF ex_run2]
  by (simp add: pending_def source_def ex_buf_def ex_stream_def)

text \<open>
  C10: reading is safe and fails only for cause. From any state of a run, whatever the kernel
  returns, \<open>read_more\<close> never panics (none of its assertions fails, no length underflows) and
  never has undefined behaviour (no access outside a chunk or to bytes not yet received); it
  returns an error only if the kernel reports one or if the bytes received have a malformed
  message header, namely the error of the specification.
\<close>

theorem read_more_safe:
  assumes "rb_run S (rb, sock, ms, vs)" and "read_more rb ret sock = Inl e"
  shows "(\<exists>s. e = Err s) \<and>
    (ret = Failed EOther \<or> (\<exists>n. split_frames (take n S) = Inl e))"
  using read_more_Inl [OF rb_run_inv [OF assms(1)] assms(2)] by (auto dest: split_frames_Inl)

theorem read_more_safe_witness:
  "\<exists>e. rb_run [255, 0, 0, 0] (ex_buf [] 0 [], [255, 0, 0, 0], [], []) \<and>
     read_more (ex_buf [] 0 []) (Ready 4) [255, 0, 0, 0] = Inl e \<and>
     (\<exists>s. e = Err s) \<and> (\<exists>n. split_frames (take n [255, 0, 0, 0]) = Inl e)"
proof -
  have "parse_wmsg_header (u32_from_le_bytes [255, 0, 0, 0]) = None" by code_simp
  then have "\<exists>e. msg_padded_len [255, 0, 0, 0] = Inl e" by (simp add: msg_padded_len_def ok_or_def)
  then obtain e where e: "read_more (ex_buf [] 0 []) (Ready 4) [255, 0, 0, 0] = Inl e" by (auto simp: ex_eval)
  have r: "rb_run [255, 0, 0, 0] (ex_buf [] 0 [], [255, 0, 0, 0], [], [])" by (rule rb_run.init [OF ex_reads(1)])
  show ?thesis using read_more_safe [OF r e] r e by auto
qed

text \<open>
  C11: a well-formed stream is received completely. If the stream consists of the messages \<open>fs\<close>
  followed by an incomplete rest \<open>r\<close>, then reading it in any pieces, at least as many as it has
  bytes, ends with the socket empty, every message of \<open>fs\<close> in the queue with its contents, and
  \<open>r\<close> in progress.
\<close>

theorem read_loop_complete:
  assumes "ReadBuffer_new = Inr rb" and "split_frames S = Inr (fs, r)"
    and "\<forall>k\<in>set ks. 0 < k" and "length S \<le> length ks"
  shows "\<exists>rb'. read_loop ks rb S = Inr (rb', []) \<and>
    map (view_get (chunks rb')) (msg_queue rb') = map Inr fs \<and> pending rb' = r"
  using read_loop_inv [OF run_inv_init [OF assms(1)] assms(2-4)] assms(2)
  by (auto simp: run_inv_def)

theorem read_loop_complete_witness:
  "\<exists>rb'. read_loop (replicate 10 3) (ex_buf [] 0 []) ex_stream = Inr (rb', []) \<and>
     map (view_get (chunks rb')) (msg_queue rb') = [Inr (take 8 ex_stream)] \<and> pending rb' = [192, 0]"
proof -
  have "split_frames ex_stream = Inr ([take 8 ex_stream], [192, 0])"
    by (simp add: split_frames.simps ex_stream_def ex_len)
  from read_loop_complete [OF ex_reads(1) this, of "replicate 10 3"] show ?thesis
    by (simp add: ex_stream_def)
qed

text \<open>
  C12: views never alias. In any state of a run, all views on loan or in the queue refer to
  pairwise disjoint byte ranges of the chunks, all of them already received, and none reaches
  into the message in progress.
\<close>

theorem views_exclusive:
  assumes "rb_run S (rb, sock, ms, vs)"
  shows "sorted_wrt views_disjoint (vs @ msg_queue rb) \<and>
    (\<forall>v\<in>set (vs @ msg_queue rb). (\<exists>m. view_get (chunks rb) v = Inr m) \<and>
       (base v = source rb \<longrightarrow> data v + data_len v \<le> last_msg_start rb))"
proof -
  from rb_run_inv [OF assms] have d: "sorted_wrt views_disjoint (vs @ msg_queue rb)"
    and ok: "\<forall>v\<in>set (vs @ msg_queue rb). view_ok rb v" by (simp_all add: run_inv_def)
  have "(\<exists>m. view_get (chunks rb) v = Inr m) \<and> (base v = source rb \<longrightarrow> data v + data_len v \<le> last_msg_start rb)"
    if "view_ok rb v" for v
    using that by (simp add: view_ok_def view_get_def mem_read_def owned_def split: if_splits)
  with d ok show ?thesis by blast
qed

theorem views_exclusive_witness:
  "sorted_wrt views_disjoint [ex_view] \<and>
     (\<exists>m. view_get (chunks (ex_buf (ex_stream[5 := 99]) 8 [])) ex_view = Inr m) \<and>
     data ex_view + data_len ex_view \<le> 8"
  using views_exclusive [OF ex_run2] by (simp add: ex_buf_def source_def ex_view_def)

end
