(* ===== verification/Diff_Segments.thy ===== *)
theory Diff_Segments
  imports Waypipe_Prelude
begin

text \<open>
  What a diff means, independently of how it is computed: the segments of changed data of a
  list of cache lines, their encoding, and that replaying them over the old contents gives the
  new contents. Theory \<open>Diff_Kernel\<close> shows that the routines of kernel.rs implement this.
\<close>

section \<open>Specification: the segments of a diff\<close>

text \<open>
  A cache line is a pair of its current and its reference contents; a segment is its first
  block and its data. \<open>run\<close> extends a changed run until the input ends or until more than
  \<open>gap\<close> blocks at its end are unchanged, and drops the unchanged end.
\<close>

type_synonym line = "bytes \<times> bytes"
type_synonym segment = "nat \<times> bytes"

definition same :: "line \<Rightarrow> bool" where
  "same l \<longleftrightarrow> fst l = snd l"

fun run :: "nat \<Rightarrow> bytes \<Rightarrow> nat \<Rightarrow> line list \<Rightarrow> bytes \<times> line list option" where
  "run gap d trail [] = (take (length d - 4 * trail) d, None)"
| "run gap d trail (l # ls) =
     (let trail = (if same l then trail + 16 else 0); d = d @ fst l in
      if trail > gap then (take (length d - 4 * trail) d, Some ls) else run gap d trail ls)"

lemma run_length: "run gap d trail ls = (d', Some ls') \<Longrightarrow> length ls' < length ls"
  by (induction ls arbitrary: d trail) (auto simp: Let_def less_Suc_eq split: if_splits)

definition leading :: "line \<Rightarrow> nat" where
  "leading l = (if take 32 (fst l) = take 32 (snd l) then 8 else 0)"

function segs :: "nat \<Rightarrow> nat \<Rightarrow> nat \<Rightarrow> line list \<Rightarrow> segment list" where
  "segs gap blk i ls =
     (case dropWhile same ls of
        [] \<Rightarrow> []
      | l # ls' \<Rightarrow>
          let i' = i + length (takeWhile same ls); dr = run gap (drop (4 * leading l) (fst l)) 0 ls' in
          (blk + 16 * i' + leading l, fst dr) #
            (case snd dr of None \<Rightarrow> [] | Some ls'' \<Rightarrow> segs gap blk (i + (length ls - length ls'')) ls''))"
  by pat_completeness auto
termination
proof (relation "measure (\<lambda>(gap, blk, i, ls). length ls)", goal_cases)
  case (2 gap blk i ls l ls' i' dr ls'')
  then have "length ls'' < length ls'"
    using run_length [of gap "drop (4 * leading l) (fst l)" 0 ls' "fst dr" ls''] by (metis prod.collapse)
  moreover have "length (dropWhile same ls) \<le> length ls" by (rule length_dropWhile_le)
  ultimately show ?case using 2(1) by simp
qed simp

declare segs.simps [simp del]

lemma segs_Nil [simp]: "segs gap blk i [] = []"
  by (simp add: segs.simps)

definition enc_seg :: "segment \<Rightarrow> bytes" where
  "enc_seg sg = u32_to_le_bytes (word_of_nat (fst sg)) @
     u32_to_le_bytes (word_of_nat (fst sg + length (snd sg) div 4)) @ snd sg"

definition patch :: "nat \<Rightarrow> segment list \<Rightarrow> bytes \<Rightarrow> bytes" where
  "patch ms = fold (\<lambda>sg m. write_at m (4 * fst sg - ms) (snd sg))"

definition lines_ok :: "line list \<Rightarrow> bool" where
  "lines_ok ls \<longleftrightarrow> (\<forall>l\<in>set ls. length (fst l) = 64 \<and> length (snd l) = 64)"

lemma lines_ok_simps [simp]:
  "lines_ok []"
  "lines_ok (l # ls) \<longleftrightarrow> length (fst l) = 64 \<and> length (snd l) = 64 \<and> lines_ok ls"
  "lines_ok (ls @ ls') \<longleftrightarrow> lines_ok ls \<and> lines_ok ls'"
  by (auto simp: lines_ok_def)

lemma length_concat_lines:
  assumes "lines_ok ls"
  shows "length (concat (map fst ls)) = 64 * length ls" and "length (concat (map snd ls)) = 64 * length ls"
  using assms by (induction ls) auto

lemma concat_same: "\<forall>l\<in>set ls. same l \<Longrightarrow> concat (map fst ls) = concat (map snd ls)"
  by (induction ls) (auto simp: same_def)

lemma take_concat_lines:
  assumes "lines_ok ls" and "k \<le> length ls"
  shows "take (64 * k) (concat (map fst ls)) = concat (map fst (take k ls))"
proof -
  have l: "lines_ok (take k ls)" using assms(1) by (auto simp: lines_ok_def dest: in_set_takeD)
  have "concat (map fst ls) = concat (map fst (take k ls)) @ concat (map fst (drop k ls))"
    by (simp flip: concat_append map_append)
  with length_concat_lines(1) [OF l] assms(2) show ?thesis by simp
qed

lemma take_run:
  assumes "lines_ok ps" and "t \<le> length ps"
  shows "take (length (x @ concat (map fst ps)) - 4 * (16 * t)) (x @ concat (map fst ps)) =
    x @ concat (map fst (take (length ps - t) ps))"
proof -
  have "length (x @ concat (map fst ps)) - 4 * (16 * t) = length x + 64 * (length ps - t)"
    using assms(2) by (simp only: length_append length_concat_lines(1) [OF assms(1)])
  then show ?thesis using take_concat_lines [OF assms(1), of "length ps - t"] by simp
qed

text \<open>
  What a run amounts to: it takes some lines \<open>ps\<close>, the last \<open>t\<close> of which are unchanged, and its
  data are the lines before these.
\<close>

lemma run_spec:
  assumes "lines_ok ls" and "lines_ok ps" and "t \<le> length ps" and "\<forall>l\<in>set (drop (length ps - t) ps). same l"
    and "run gap (x @ concat (map fst ps)) (16 * t) ls = (d, rst)" and "16 \<le> gap"
  shows "\<exists>qs rest t'. ls = qs @ rest \<and> t' \<le> length (ps @ qs) \<and>
    (\<forall>l\<in>set (drop (length (ps @ qs) - t') (ps @ qs)). same l) \<and>
    d = x @ concat (map fst (take (length (ps @ qs) - t') (ps @ qs))) \<and>
    (rst = None \<and> rest = [] \<or> rst = Some rest \<and> 2 \<le> t')"
  using assms(1-5)
proof (induction ls arbitrary: ps t)
  case Nil
  with take_run [OF Nil.prems(2,3)] show ?case by (intro exI [of _ "[]"] exI [of _ t]) auto
next
  case (Cons l ls)
  let ?ps = "ps @ [l]"
  define u where "u = (if same l then Suc t else 0)"
  have l: "lines_ok ?ps" "lines_ok ls" using Cons.prems(1,2) by simp_all
  have t: "u \<le> length ?ps" using Cons.prems(3) by (simp add: u_def)
  have s: "\<forall>l\<in>set (drop (length ?ps - u) ?ps). same l"
    using Cons.prems(3,4) by (auto simp: Suc_diff_le u_def)
  have eq: "(x @ concat (map fst ps)) @ fst l = x @ concat (map fst ?ps)" by simp
  have tr: "(if same l then 16 * t + 16 else 0) = 16 * u" by (simp add: u_def)
  show ?case
  proof (cases "16 * u > gap")
    case True
    have tk: "take (length (x @ concat (map fst ?ps)) - 4 * (16 * u)) (x @ concat (map fst ?ps)) =
        x @ concat (map fst (take (length ?ps - u) ?ps))"
      by (rule take_run [OF l(1) t])
    have "run gap (x @ concat (map fst ps)) (16 * t) (l # ls) =
        (x @ concat (map fst (take (length ?ps - u) ?ps)), Some ls)"
      unfolding run.simps Let_def eq tr tk by (simp only: True if_True)
    moreover have "2 \<le> u" using True assms(6) by (auto split: if_splits)
    ultimately show ?thesis
      using Cons.prems(5) s t by (intro exI [of _ "[l]"] exI [of _ ls] exI [of _ u]) simp
  next
    case False
    then have "run gap (x @ concat (map fst ?ps)) (16 * u) ls = (d, rst)"
      using Cons.prems(5) unfolding run.simps Let_def eq tr by (simp only: False if_False)
    from Cons.IH [OF l(2,1) t s this] obtain qs rest t' where
      q: "ls = qs @ rest" "t' \<le> length (?ps @ qs)" "\<forall>l\<in>set (drop (length (?ps @ qs) - t') (?ps @ qs)). same l"
        "d = x @ concat (map fst (take (length (?ps @ qs) - t') (?ps @ qs)))"
        "rst = None \<and> rest = [] \<or> rst = Some rest \<and> 2 \<le> t'" by blast
    then show ?thesis by (intro exI [of _ "l # qs"] exI [of _ rest] exI [of _ t']) simp
  qed
qed

lemma segs_unfold:
  assumes "lines_ok ls" and "16 \<le> gap"
  obtains (same) "segs gap blk i ls = []" "\<forall>l\<in>set ls. same l"
  | (diff) us l qs t rest rst where
      "ls = us @ l # qs @ rest" and "\<forall>l\<in>set us. same l" and "\<not> same l"
      and "t \<le> length qs" and "\<forall>l\<in>set (drop (length qs - t) qs). same l"
      and "rst = None \<and> rest = [] \<or> rst = Some rest \<and> 2 \<le> t"
      and "segs gap blk i ls = (blk + 16 * (i + length us) + leading l,
        drop (4 * leading l) (fst l) @ concat (map fst (take (length qs - t) qs))) #
        segs gap blk (i + length us + 1 + length qs) rest"
      and "run gap (drop (4 * leading l) (fst l)) 0 (qs @ rest) =
        (drop (4 * leading l) (fst l) @ concat (map fst (take (length qs - t) qs)), rst)"
proof (cases "dropWhile same ls")
  case Nil
  show thesis
  proof (rule same)
    show "segs gap blk i ls = []" unfolding segs.simps [of gap blk i ls] Nil by simp
    show "\<forall>l\<in>set ls. same l" using Nil by simp
  qed
next
  case (Cons l ls')
  define us x where "us = takeWhile same ls" and "x = drop (4 * leading l) (fst l)"
  obtain d rst where r: "run gap x 0 ls' = (d, rst)" by fastforce
  have ls: "ls = us @ l # ls'" using Cons takeWhile_dropWhile_id [of same ls] by (simp add: us_def)
  have l: "lines_ok ls'" using assms(1) ls by simp
  obtain qs rest t where q: "ls' = qs @ rest" "t \<le> length qs" "\<forall>l\<in>set (drop (length qs - t) qs). same l"
    "d = x @ concat (map fst (take (length qs - t) qs))" "rst = None \<and> rest = [] \<or> rst = Some rest \<and> 2 \<le> t"
    using run_spec [OF l, of "[]" 0 gap x d rst] r assms(2) by auto
  have tl: "(case rst of None \<Rightarrow> [] | Some ls'' \<Rightarrow> segs gap blk (i + (length ls - length ls'')) ls'') =
      segs gap blk (i + length us + 1 + length qs) rest"
    using q(1,5) ls by (auto simp: add.assoc)
  have "segs gap blk i ls = (blk + 16 * (i + length us) + leading l, d) #
      segs gap blk (i + length us + 1 + length qs) rest"
    unfolding segs.simps [of gap blk i ls] Cons list.case Let_def us_def [symmetric] x_def [symmetric] r
    by (simp only: fst_conv snd_conv tl)
  moreover have "\<not> same l" using Cons by (metis dropWhile_eq_Cons_conv)
  moreover have "\<forall>l\<in>set us. same l" by (auto simp: us_def dest: set_takeWhileD)
  ultimately show thesis using ls q r x_def by (intro diff [of us l qs rest t rst]) auto
qed

lemma leading_take: "length (fst l) = 64 \<Longrightarrow> take (4 * leading l) (snd l) = take (4 * leading l) (fst l)"
  by (auto simp: leading_def)

lemma leading_le: "leading l \<le> 8"
  by (simp add: leading_def)

text \<open>Replaying the segments over the reference contents gives the current contents.\<close>

lemma patch_segs:
  assumes "lines_ok ls" and "16 \<le> gap" and "ms \<le> 4 * blk" and "length pre = 4 * blk + 64 * i - ms"
  shows "patch ms (segs gap blk i ls) (pre @ concat (map snd ls) @ post) = pre @ concat (map fst ls) @ post"
  using assms
proof (induction "length ls" arbitrary: ls i pre rule: less_induct)
  case less
  from less.prems(1,2) show ?case
  proof (cases rule: segs_unfold [where blk = blk and i = i])
    case same
    then show ?thesis by (simp add: patch_def concat_same)
  next
    case (diff us l qs t rest rst)
    define k where "k = length qs - t"
    let ?x = "concat (map fst us)" and ?q = "concat (map fst (take k qs))"
    let ?pre = "pre @ ?x @ take (4 * leading l) (fst l)"
    let ?d = "drop (4 * leading l) (fst l) @ ?q"
    let ?next = "pre @ ?x @ fst l @ concat (map fst qs)"
    have ok: "lines_ok us" "length (fst l) = 64" "length (snd l) = 64" "lines_ok qs" "lines_ok rest"
      using less.prems(1) diff(1) by simp_all
    have lk: "lines_ok (take k qs)" using ok(4) by (auto simp: lines_ok_def dest: in_set_takeD)
    have eq: "concat (map snd (drop k qs)) = concat (map fst (drop k qs))"
      using concat_same [of "drop k qs"] diff(5) by (simp add: k_def)
    have split: "concat (map fst qs) = ?q @ concat (map fst (drop k qs))"
      "concat (map snd qs) = concat (map snd (take k qs)) @ concat (map fst (drop k qs))"
      by (simp_all only: append_take_drop_id flip: eq concat_append map_append)
        (metis append_take_drop_id concat_append eq map_append)
    have sl: "snd l @ y = take (4 * leading l) (fst l) @ drop (4 * leading l) (snd l) @ y" for y
      using leading_take [OF ok(2)] by (metis append_assoc append_take_drop_id)
    have "pre @ concat (map snd ls) @ post = ?pre @ (drop (4 * leading l) (snd l) @
        concat (map snd (take k qs))) @ concat (map fst (drop k qs)) @ concat (map snd rest) @ post"
      using diff(2) concat_same [of us] by (simp add: diff(1) sl split(2))
    moreover have "4 * (blk + 16 * (i + length us) + leading l) - ms = length ?pre"
      using less.prems(3,4) length_concat_lines(1) [OF ok(1)] ok(2) leading_le [of l] by simp
    ultimately have "write_at (pre @ concat (map snd ls) @ post) (4 * (blk + 16 * (i + length us) + leading l) - ms) ?d =
        ?next @ concat (map snd rest) @ post"
      using length_concat_lines [OF lk] ok(2,3) leading_le [of l] by (simp add: write_at_def split(1) min_absorb2)
    moreover have "patch ms (segs gap blk (i + length us + 1 + length qs) rest) (?next @ concat (map snd rest) @ post)
        = ?next @ concat (map fst rest) @ post"
      using less.prems(3,4) ok diff(1) length_concat_lines(1) [OF ok(1)] length_concat_lines(1) [OF ok(4)]
      by (intro less.hyps less.prems(2)) simp_all
    ultimately show ?thesis
      unfolding diff(7) k_def [symmetric] by (simp add: patch_def diff(1))
  qed
qed

text \<open>The segments lie in the lines they describe, and their encoding is little longer than these.\<close>

definition seg_ok :: "nat \<Rightarrow> nat \<Rightarrow> segment \<Rightarrow> bool" where
  "seg_ok lo hi sg \<longleftrightarrow> snd sg \<noteq> [] \<and> 4 dvd length (snd sg) \<and> lo \<le> fst sg \<and> fst sg + length (snd sg) div 4 \<le> hi"

lemma seg_ok_mono: "seg_ok lo hi sg \<Longrightarrow> lo' \<le> lo \<Longrightarrow> hi \<le> hi' \<Longrightarrow> seg_ok lo' hi' sg"
  by (auto simp: seg_ok_def)

lemma length_enc_seg: "length (enc_seg sg) = 8 + length (snd sg)"
  by (simp add: enc_seg_def)

definition enc_segs :: "segment list \<Rightarrow> bytes" where
  "enc_segs sgs = concat (map enc_seg sgs)"

lemma enc_segs_simps [simp]: "enc_segs [] = []" "enc_segs (sg # sgs) = enc_seg sg @ enc_segs sgs"
  "enc_segs (sgs @ sgs') = enc_segs sgs @ enc_segs sgs'"
  by (simp_all add: enc_segs_def)

lemma segs_bounds:
  assumes "lines_ok ls" and "16 \<le> gap"
  shows "(\<forall>sg\<in>set (segs gap blk i ls). seg_ok (blk + 16 * i) (blk + 16 * (i + length ls)) sg) \<and>
    length (enc_segs (segs gap blk i ls)) \<le> 64 * length ls + 8"
  using assms
proof (induction "length ls" arbitrary: ls i rule: less_induct)
  case less
  from less.prems show ?case
  proof (cases rule: segs_unfold [where blk = blk and i = i])
    case same
    then show ?thesis by simp
  next
    case (diff us l qs t rest rst)
    let ?d = "drop (4 * leading l) (fst l) @ concat (map fst (take (length qs - t) qs))"
    let ?i = "i + length us + 1 + length qs"
    have ok: "length (fst l) = 64" "lines_ok qs" "lines_ok rest" using less.prems(1) diff(1) by simp_all
    have "lines_ok (take (length qs - t) qs)" using ok(2) by (auto simp: lines_ok_def dest: in_set_takeD)
    from length_concat_lines(1) [OF this] ok(1) leading_le [of l]
    have d: "length ?d = 4 * (16 - leading l + 16 * (length qs - t))" by simp
    then have sd: "seg_ok (blk + 16 * i) (blk + 16 * (i + length ls)) (blk + 16 * (i + length us) + leading l, ?d)"
      using ok(1) leading_le [of l] diff(1) unfolding seg_ok_def by simp
    have ih: "\<forall>sg\<in>set (segs gap blk ?i rest). seg_ok (blk + 16 * ?i) (blk + 16 * (?i + length rest)) sg"
      "length (enc_segs (segs gap blk ?i rest)) \<le> 64 * length rest + 8"
      using less.hyps [of rest ?i] diff(1) ok(3) less.prems(2) by simp_all
    have "length (enc_segs (segs gap blk i ls)) \<le> 64 * length ls + 8"
      unfolding diff(7) using ih(2) diff(1,4,6) d by (auto simp: length_enc_seg)
    moreover have "\<forall>sg\<in>set (segs gap blk ?i rest). seg_ok (blk + 16 * i) (blk + 16 * (i + length ls)) sg"
      using ih(1) diff(1) by (auto elim!: seg_ok_mono)
    ultimately show ?thesis using sd unfolding diff(7) by simp
  qed
qed

end
