(* ===== verification/Diff_Kernel.thy ===== *)
theory Diff_Kernel
  imports Diff_Segments "HOL-Library.Monad_Syntax"
begin

text \<open>
  Diffs of shared buffers, \<open>src/kernel.rs\<close>: constructing the diff of a buffer against its last
  known contents, cache line by cache line, and applying a diff on the other side.

  The construction is generic over an iterator on cache lines (the traits \<open>DiffIterator\<close> and
  \<open>DiffWriteback\<close>), and so is its model. As an iterator may be endless, the loops are partial
  functions into \<open>option\<close> (\<open>None\<close> is not returning) and the theorems show that they return.
  A mapping of an external file is the list of its bytes; for the iterator over shared memory
  it is the list of words that its loads return, each address being loaded once. Words are
  stored little-endian, as on the supported hosts. The alignment of pointers is not modelled.
\<close>

section \<open>Iterators over cache lines\<close>

type_synonym ('it, 'wb) diff_next = "'it \<Rightarrow> ('wb \<times> bytes \<times> bytes) option res"
type_synonym ('it, 'wb) diff_writeback = "'wb \<Rightarrow> bool \<Rightarrow> 'it res"

record LocalIterator =
  l_target :: bytes
  l_reference :: bytes
  l_pos :: nat

record LocalWriteback =
  lw_iter :: LocalIterator
  lw_values :: bytes

definition LocalIterator_new :: "bytes \<Rightarrow> bytes \<Rightarrow> LocalIterator res" where
  "LocalIterator_new target reference =
     rbind (assert_that (length target = length reference)) (\<lambda>_.
     rbind (assert_that (length target mod 64 = 0)) (\<lambda>_.
       Ok \<lparr>l_target = target, l_reference = reference, l_pos = 0\<rparr>))"

definition local_next :: "(LocalIterator, LocalWriteback) diff_next" where
  "local_next it =
     (if l_pos it \<ge> length (l_target it) then Ok None
      else
        rbind (slice_res (l_target it) (l_pos it) (l_pos it + 64)) (\<lambda>values.
        rbind (slice_res (l_reference it) (l_pos it) (l_pos it + 64)) (\<lambda>refvals.
          Ok (Some (\<lparr>lw_iter = it, lw_values = values\<rparr>, values, refvals)))))"

definition local_writeback :: "(LocalIterator, LocalWriteback) diff_writeback" where
  "local_writeback w store =
     (let it = lw_iter w in
      rbind (if store then write_at_res (l_reference it) (l_pos it) (lw_values w) else Ok (l_reference it)) (\<lambda>r.
        Ok (it\<lparr>l_reference := r, l_pos := l_pos it + 64\<rparr>)))"

record ShmIterator =
  s_target :: "u32 list"
  s_reference :: bytes
  s_pos :: nat

record ShmWriteback =
  sw_iter :: ShmIterator
  sw_values :: bytes

definition ShmIterator_new :: "u32 list \<Rightarrow> bytes \<Rightarrow> ShmIterator res" where
  "ShmIterator_new target reference =
     rbind (assert_that (length target * 4 = length reference)) (\<lambda>_.
     rbind (assert_that (length target mod 16 = 0)) (\<lambda>_.
       Ok \<lparr>s_target = target, s_reference = reference, s_pos = 0\<rparr>))"

definition shm_next :: "(ShmIterator, ShmWriteback) diff_next" where
  "shm_next it =
     (if s_pos it \<ge> length (s_target it) then Ok None
      else
        rbind (slice_res (s_target it) (s_pos it) (s_pos it + 16)) (\<lambda>ws.
          let values = concat (map u32_to_le_bytes ws) in
        rbind (slice_res (s_reference it) (4 * s_pos it) (4 * s_pos it + 64)) (\<lambda>refvals.
          Ok (Some (\<lparr>sw_iter = it, sw_values = values\<rparr>, values, refvals)))))"

definition shm_writeback :: "(ShmIterator, ShmWriteback) diff_writeback" where
  "shm_writeback w store =
     (let it = sw_iter w in
      rbind (if store then write_at_res (s_reference it) (4 * s_pos it) (sw_values w) else Ok (s_reference it)) (\<lambda>r.
        Ok (it\<lparr>s_reference := r, s_pos := s_pos it + 16\<rparr>)))"

section \<open>Constructing a diff\<close>

text \<open>
  The state of the construction: the whole output buffer, the offset in it where the slice
  \<open>diff\<close> of the source currently starts, the counter \<open>dc\<close> of 4-byte blocks, the iterator and the
  line number.
\<close>

record 'it dstate =
  buf :: bytes
  off :: nat
  dc :: nat
  iter :: 'it
  line_no :: nat

definition diff_put :: "'it dstate \<Rightarrow> nat \<Rightarrow> bytes \<Rightarrow> 'it dstate res" where
  "diff_put st a bs = rbind (write_at_res (buf st) (off st + a) bs) (\<lambda>b. Ok (st\<lparr>buf := b\<rparr>))"

text \<open>\<open>let (ctrl_blocks, x) = diff.split_at_mut(8); diff = x; dc += 2\<close>\<close>

definition split_ctrl :: "'it dstate \<Rightarrow> 'it dstate res" where
  "split_ctrl st =
     (if off st + 8 \<le> length (buf st) then Ok (st\<lparr>off := off st + 8, dc := dc st + 2\<rparr>) else panic)"

definition write_ctrl :: "'it dstate \<Rightarrow> nat \<Rightarrow> nat \<Rightarrow> 'it dstate res" where
  "write_ctrl st start e =
     rbind (write_at_res (buf st) (off st - 8)
       (u32_to_le_bytes (word_of_nat start) @ u32_to_le_bytes (word_of_nat e))) (\<lambda>b. Ok (st\<lparr>buf := b\<rparr>))"

text \<open>The first difference of a run: the start of the run, or nothing if the input ended.\<close>

partial_function (option) scan_unchanged ::
  "('it, 'wb) diff_next \<Rightarrow> ('it, 'wb) diff_writeback \<Rightarrow> nat \<Rightarrow> 'it dstate \<Rightarrow>
    (nat option \<times> 'it dstate) res option" where
  "scan_unchanged nxt wb refbase_block st =
     (case nxt (iter st) of
        Inl e \<Rightarrow> Some (Inl e)
      | Inr None \<Rightarrow> Some (Ok (None, st\<lparr>dc := dc st - 2\<rparr>))
      | Inr (Some (res, values, refvals)) \<Rightarrow>
          if values \<noteq> refvals then
            (let leading_unchanged = (if take 32 values = take 32 refvals then 8 else 0) in
             Some (
               rbind (diff_put st 0 (drop (4 * leading_unchanged) values)) (\<lambda>st.
               rbind (u32_nat (16 * (line_no st mod 2 ^ 32))) (\<lambda>a.
               rbind (u32_nat (a + leading_unchanged)) (\<lambda>a.
               rbind (u32_nat (a + refbase_block)) (\<lambda>start.
               rbind (wb res True) (\<lambda>it.
                 Ok (Some start, st\<lparr>dc := dc st + (16 - leading_unchanged), iter := it, line_no := line_no st + 1\<rparr>))))))))
          else
            (case wb res False of
               Inl e \<Rightarrow> Some (Inl e)
             | Inr it \<Rightarrow> scan_unchanged nxt wb refbase_block (st\<lparr>iter := it, line_no := line_no st + 1\<rparr>)))"

text \<open>
  The changed run: it ends with the input (\<open>True\<close>, leaving the outer loop) or after a long
  enough unchanged stretch (\<open>False\<close>).
\<close>

definition end_block :: "nat \<Rightarrow> nat \<Rightarrow> nat \<Rightarrow> nat res" where
  "end_block blocks trailing_unchanged refbase_block =
     rbind (usize_sub blocks trailing_unchanged) (\<lambda>n. u32_nat (n mod 2 ^ 32 + refbase_block))"

partial_function (option) scan_changed ::
  "('it, 'wb) diff_next \<Rightarrow> ('it, 'wb) diff_writeback \<Rightarrow> nat \<Rightarrow> nat \<Rightarrow> nat \<Rightarrow> nat \<Rightarrow> nat \<Rightarrow> 'it dstate \<Rightarrow>
    (bool \<times> 'it dstate) res option" where
  "scan_changed nxt wb refbase_block skip_gap_len idc start trailing_unchanged st =
     (case nxt (iter st) of
        Inl e \<Rightarrow> Some (Inl e)
      | Inr None \<Rightarrow>
          Some (
            rbind (usize_sub (dc st) trailing_unchanged) (\<lambda>d.
            rbind (end_block (16 * line_no st) trailing_unchanged refbase_block) (\<lambda>e.
            rbind (write_ctrl st start e) (\<lambda>st. Ok (True, st\<lparr>dc := d\<rparr>)))))
      | Inr (Some (res, values, refvals)) \<Rightarrow>
          (case wb res True of
             Inl e \<Rightarrow> Some (Inl e)
           | Inr it \<Rightarrow>
               (let clear = (if values = refvals then 1 else 0);
                    trailing_unchanged = trailing_unchanged * clear + clear * 16
                in
                case diff_put (st\<lparr>iter := it\<rparr>) (4 * (dc st - idc)) values of
                  Inl e \<Rightarrow> Some (Inl e)
                | Inr st \<Rightarrow>
                    (let st = st\<lparr>dc := dc st + 16\<rparr> in
                     if trailing_unchanged > skip_gap_len then
                       Some (
                         rbind (usize_sub (dc st) trailing_unchanged) (\<lambda>d.
                         rbind (end_block (16 + 16 * line_no st) trailing_unchanged refbase_block) (\<lambda>e.
                         rbind (write_ctrl st start e) (\<lambda>st.
                         rbind (usize_sub e start) (\<lambda>n.
                           if off st + 4 * n \<le> length (buf st)
                           then Ok (False, st\<lparr>dc := d, off := off st + 4 * n, line_no := line_no st + 1\<rparr>)
                           else panic)))))
                     else
                       scan_changed nxt wb refbase_block skip_gap_len idc start trailing_unchanged
                         (st\<lparr>line_no := line_no st + 1\<rparr>)))))"

partial_function (option) diff_outer ::
  "('it, 'wb) diff_next \<Rightarrow> ('it, 'wb) diff_writeback \<Rightarrow> nat \<Rightarrow> nat \<Rightarrow> 'it dstate \<Rightarrow> 'it dstate res option" where
  "diff_outer nxt wb refbase_block skip_gap_len st =
     (case split_ctrl st of
        Inl e \<Rightarrow> Some (Inl e)
      | Inr st \<Rightarrow>
          Option.bind (scan_unchanged nxt wb refbase_block st) (\<lambda>r1.
            case r1 of
              Inl e \<Rightarrow> Some (Inl e)
            | Inr (None, st') \<Rightarrow> Some (Inr st')
            | Inr (Some start, st') \<Rightarrow>
                Option.bind (scan_changed nxt wb refbase_block skip_gap_len (dc st) start 0 st') (\<lambda>r2.
                  case r2 of
                    Inl e \<Rightarrow> Some (Inl e)
                  | Inr (ended, st') \<Rightarrow>
                      if ended then Some (Inr st') else diff_outer nxt wb refbase_block skip_gap_len st')))"

definition construct_diff_segment_two_iter ::
  "('it, 'wb) diff_next \<Rightarrow> ('it, 'wb) diff_writeback \<Rightarrow> bytes \<Rightarrow> 'it \<Rightarrow> nat \<Rightarrow> nat \<Rightarrow>
    (nat \<times> bytes \<times> 'it) res option" where
  "construct_diff_segment_two_iter nxt wb diff it reference_base skip_gap_len =
     (if reference_base mod 4 = 0 \<and> skip_gap_len \<ge> 16 then
        Option.bind (diff_outer nxt wb (reference_base div 4) skip_gap_len
            \<lparr>buf = diff, off = 0, dc = 0, iter = it, line_no = 0\<rparr>) (\<lambda>r.
          Some (rbind r (\<lambda>st. rbind (u32_nat (dc st * 4)) (\<lambda>n. Ok (n, buf st, iter st)))))
      else Some panic)"

text \<open>The portable path, taken when the processor lacks AVX2, LZCNT or BMI1.\<close>

definition construct_diff_segment_two ::
  "bytes \<Rightarrow> bytes \<Rightarrow> bytes \<Rightarrow> nat \<Rightarrow> nat \<Rightarrow> (nat \<times> bytes \<times> bytes) res option" where
  "construct_diff_segment_two diff target reference reference_base skip_gap_len =
     (if length diff \<ge> length target + 8 then
        (case LocalIterator_new target reference of
           Inl e \<Rightarrow> Some (Inl e)
         | Inr it \<Rightarrow>
             Option.bind (construct_diff_segment_two_iter local_next local_writeback diff it
                reference_base skip_gap_len)
               (\<lambda>r. Some (rbind r (\<lambda>(n, d, it). Ok (n, d, l_reference it)))))
      else Some panic)"

text \<open>\<open>get_u32\<close>: the words of a mapping, its size rounded down.\<close>

fun words_of :: "bytes \<Rightarrow> u32 list" where
  "words_of (a # b # c # d # bs) = u32_from_le_bytes [a, b, c, d] # words_of bs"
| "words_of bs = []"

definition get_u32 :: "bytes \<Rightarrow> u32 list" where
  "get_u32 fd = words_of fd"

primrec construct_diff_loop ::
  "bytes \<Rightarrow> bytes \<Rightarrow> bytes \<Rightarrow> nat \<Rightarrow> nat \<Rightarrow> (nat \<times> nat) list \<Rightarrow> (nat \<times> bytes \<times> bytes) res option" where
  "construct_diff_loop diff fd reference reference_base output_len [] =
     Some (Ok (output_len, diff, reference))"
| "construct_diff_loop diff fd reference reference_base output_len (intv # intervals) =
     (let start = fst intv; e = snd intv;
          a = start - reference_base; b = e - reference_base in
      if start mod 64 = 0 \<and> e mod 64 = 0 \<and> reference_base \<le> start \<and> start < e \<and> output_len \<le> length diff then
        (case slice_res (get_u32 fd) (start div 4) (e div 4) of
           Inl x \<Rightarrow> Some (Inl x)
         | Inr target \<Rightarrow>
             (case slice_res reference a b of
                Inl x \<Rightarrow> Some (Inl x)
              | Inr r \<Rightarrow>
                  (case ShmIterator_new target r of
                     Inl x \<Rightarrow> Some (Inl x)
                   | Inr it \<Rightarrow>
                       Option.bind (construct_diff_segment_two_iter shm_next shm_writeback
                           (drop output_len diff) it start 16) (\<lambda>res.
                         case res of
                           Inl x \<Rightarrow> Some (Inl x)
                         | Inr (n, d, it) \<Rightarrow>
                             construct_diff_loop (take output_len diff @ d) fd
                               (write_at reference a (s_reference it)) reference_base
                               (output_len + n) intervals))))
      else Some panic)"

definition construct_diff ::
  "bytes \<Rightarrow> bytes \<Rightarrow> (nat \<times> nat) list \<Rightarrow> bytes \<Rightarrow> nat \<Rightarrow> (nat \<times> bytes \<times> bytes) res option" where
  "construct_diff diff fd intervals reference reference_base =
     construct_diff_loop diff fd reference reference_base 0 intervals"

section \<open>Byte-wise copies\<close>

definition copy_tail_if_diff :: "bytes \<Rightarrow> bytes \<Rightarrow> nat \<Rightarrow> bytes \<Rightarrow> (bool \<times> bytes \<times> bytes) res" where
  "copy_tail_if_diff diff_tail fd tail_len reference =
     rbind (assert_that (length reference = tail_len)) (\<lambda>_.
     rbind (usize_sub (length fd) tail_len) (\<lambda>start.
     rbind (write_at_res diff_tail 0 (drop start fd)) (\<lambda>d.
       Ok (drop start fd \<noteq> reference, d, drop start fd))))"

definition copy_from_mapping :: "nat \<Rightarrow> bytes \<Rightarrow> nat \<Rightarrow> bytes res" where
  "copy_from_mapping dest_len fd start = slice_res fd start (start + dest_len)"

definition copy_onto_mapping :: "bytes \<Rightarrow> bytes \<Rightarrow> nat \<Rightarrow> bytes res" where
  "copy_onto_mapping src fd start = write_at_res fd start src"

section \<open>Applying a diff\<close>

definition read_u32_at :: "bytes \<Rightarrow> nat \<Rightarrow> nat res" where
  "read_u32_at diff p = rbind (slice_res diff p (p + 4)) (\<lambda>b. Ok (unat (u32_from_le_bytes b)))"

definition mirror_write :: "bytes \<Rightarrow> nat \<Rightarrow> nat \<Rightarrow> nat \<Rightarrow> bytes \<Rightarrow> bytes res" where
  "mirror_write mirror mir_start start e bs =
     rbind (usize_sub (start * 4) mir_start) (\<lambda>a.
     rbind (usize_sub (e * 4) mir_start) (\<lambda>b.
     rbind (slice_res mirror a b) (\<lambda>_. Ok (write_at mirror a bs))))"

function apply_one_loop :: "bytes \<Rightarrow> nat \<Rightarrow> nat \<Rightarrow> nat \<Rightarrow> nat \<Rightarrow> bytes \<Rightarrow> bytes res" where
  "apply_one_loop diff nblocks buf_end mir_start pos mirror =
     (if pos < 4 * nblocks then
        rbind (read_u32_at diff pos) (\<lambda>start.
        rbind (read_u32_at diff (pos + 4)) (\<lambda>e.
          if e \<le> start \<or> e > buf_end \<or> pos + 4 * (e - start) > 4 * nblocks then fail ''copy interval invalid''
          else
            let pos = pos + 8 in
            rbind (slice_res diff pos (pos + 4 * (e - start))) (\<lambda>bs.
            rbind (mirror_write mirror mir_start start e bs) (\<lambda>mirror.
              apply_one_loop diff nblocks buf_end mir_start (pos + (e - start) * 4) mirror))))
      else Ok mirror)"
  by pat_completeness auto
termination by (relation "measure (\<lambda>(diff, nblocks, buf_end, mir_start, pos, mirror). 4 * nblocks - pos)") auto

declare apply_one_loop.simps [simp del]

definition apply_diff_one :: "bytes \<Rightarrow> nat \<Rightarrow> nat \<Rightarrow> bytes \<Rightarrow> bytes res" where
  "apply_diff_one diff ntrailing mir_start mirror =
     rbind (usize_sub (length diff) ntrailing) (\<lambda>len.
     rbind (assert_that (len mod 4 = 0)) (\<lambda>_.
       let nblocks = len div 4; buf_end = mir_start + length mirror in
     rbind (apply_one_loop diff nblocks buf_end mir_start 0 mirror) (\<lambda>mirror.
       if ntrailing > 0 then
         rbind (usize_sub (length mirror) ntrailing) (\<lambda>offset.
         rbind (slice_res diff (nblocks * 4) (nblocks * 4 + ntrailing)) (\<lambda>bs.
           write_at_res mirror offset bs))
       else Ok mirror)))"

function apply_loop :: "bytes \<Rightarrow> nat \<Rightarrow> nat \<Rightarrow> nat \<Rightarrow> nat \<Rightarrow> bytes \<Rightarrow> bytes \<Rightarrow> (bytes \<times> bytes) res" where
  "apply_loop diff nblocks buf_end mir_start pos fd mirror =
     (if pos < 4 * nblocks then
        rbind (read_u32_at diff pos) (\<lambda>start.
        rbind (read_u32_at diff (pos + 4)) (\<lambda>e.
          if e \<le> start \<or> e > buf_end \<or> pos + 8 + 4 * (e - start) > 4 * nblocks then fail ''Copy interval invalid''
          else
            let pos = pos + 8 in
            rbind (slice_res diff pos (pos + 4 * (e - start))) (\<lambda>bs.
            rbind (mirror_write mirror mir_start start e bs) (\<lambda>mirror.
            rbind (write_at_res fd (4 * start) (concat (map u32_to_le_bytes (words_of bs)))) (\<lambda>fd.
              apply_loop diff nblocks buf_end mir_start (pos + (e - start) * 4) fd mirror)))))
      else Ok (fd, mirror))"
  by pat_completeness auto
termination by (relation "measure (\<lambda>(diff, nblocks, buf_end, mir_start, pos, fd, mirror). 4 * nblocks - pos)") auto

declare apply_loop.simps [simp del]

definition apply_diff :: "bytes \<Rightarrow> nat \<Rightarrow> bytes \<Rightarrow> nat \<Rightarrow> bytes \<Rightarrow> (bytes \<times> bytes) res" where
  "apply_diff diff ntrailing fd mir_start mirror =
     rbind (usize_sub (length diff) ntrailing) (\<lambda>len.
     rbind (assert_that (len mod 4 = 0)) (\<lambda>_.
       let nblocks = len div 4; buf_end = length (get_u32 fd) in
     rbind (apply_loop diff nblocks buf_end mir_start 0 fd mirror) (\<lambda>(fd, mirror).
       if ntrailing > 0 then
         rbind (usize_sub (length fd) ntrailing) (\<lambda>offset.
         rbind (slice_res diff (nblocks * 4) (nblocks * 4 + ntrailing)) (\<lambda>bs.
         rbind (write_at_res fd offset bs) (\<lambda>fd.
         rbind (usize_sub offset mir_start) (\<lambda>moff.
         rbind (write_at_res mirror moff bs) (\<lambda>mirror. Ok (fd, mirror))))))
       else Ok (fd, mirror))))"

function span_loop :: "bytes \<Rightarrow> nat \<Rightarrow> nat \<Rightarrow> nat \<Rightarrow> nat \<Rightarrow> (nat \<times> nat) res" where
  "span_loop diff nblocks pos start e =
     (if pos < 4 * nblocks then
        rbind (read_u32_at diff pos) (\<lambda>span_start.
        rbind (read_u32_at diff (pos + 4)) (\<lambda>span_end.
        rbind (usize_sub span_end span_start) (\<lambda>n.
          span_loop diff nblocks (pos + 8 + n * 4) (min start span_start) (max e span_end))))
      else Ok (start, e))"
  by pat_completeness auto
termination by (relation "measure (\<lambda>(diff, nblocks, pos, start, e). 4 * nblocks - pos)") auto

declare span_loop.simps [simp del]

definition compute_diff_span :: "bytes \<Rightarrow> nat \<Rightarrow> nat \<Rightarrow> (nat \<times> nat) res" where
  "compute_diff_span diff ntrailing buf_len =
     rbind (usize_sub (length diff) ntrailing) (\<lambda>len.
     rbind (assert_that (len mod 4 = 0)) (\<lambda>_.
       let nblocks = len div 4 in
       if nblocks = 0 then
         (if ntrailing = 0 then fail ''computed diff span on empty diff''
          else rbind (usize_sub buf_len ntrailing) (\<lambda>s. Ok (s, buf_len)))
       else
         rbind (span_loop diff nblocks 0 buf_len 0) (\<lambda>(start, e).
         rbind (assert_that (start < e)) (\<lambda>_.
           if ntrailing > 0 then Ok (start * 4, buf_len) else Ok (start * 4, e * 4)))))"

section \<open>The construction implements the segments\<close>

lemma scan_same: "same (v, r) \<longleftrightarrow> v = r"
  by (simp add: same_def)

text \<open>
  While a run is being recorded, its data \<open>d\<close> lie at the current offset; \<open>run_state\<close> is what the
  loop keeps about them. Finishing the run writes its two control words in front.
\<close>

definition run_state :: "nat \<Rightarrow> nat \<Rightarrow> nat \<Rightarrow> bytes \<Rightarrow> nat \<Rightarrow> 'it dstate \<Rightarrow> bool" where
  "run_state blk idc start d n st \<longleftrightarrow>
     take (off st + length d) (buf st) = take (off st) (buf st) @ d \<and>
     off st + length d + 64 * n \<le> length (buf st) \<and> length d = 4 * (dc st - idc) \<and> idc \<le> dc st \<and>
     4 * start + length d = 4 * blk + 64 * line_no st \<and> blk \<le> start \<and> 8 \<le> off st \<and> blk + 16 * (line_no st + n) \<le> U32_MAX"

lemma run_state_put:
  assumes "run_state blk idc start d (Suc n) st" and "length v = 64"
  shows "diff_put (st\<lparr>iter := it\<rparr>) (4 * (dc st - idc)) v =
      Ok (st\<lparr>iter := it, buf := write_at (buf st) (off st + length d) v\<rparr>) \<and>
    run_state blk idc start (d @ v) n
      (st\<lparr>iter := it, buf := write_at (buf st) (off st + length d) v, dc := dc st + 16, line_no := line_no st + 1\<rparr>)"
  using assms
  by (auto simp: run_state_def diff_put_def write_at_def take_append min_def)

lemma take_write_ctrl:
  assumes "8 \<le> a" and "a + length d \<le> length b" and "take (a + length d) b = take a b @ d" and "length c = 8"
  shows "take (a + length d) (write_at b (a - 8) c) = take (a - 8) b @ c @ d"
proof -
  have "drop a (take (a + length d) b) = d" using assms(2,3) by simp
  then have "take (length d) (drop a b) = d" by (simp add: take_drop add.commute)
  moreover have "\<not> a + length d \<le> a - 8" using assms(1) by linarith
  ultimately show ?thesis using assms(1,2,4) by (simp add: write_at_def take_append min_def)
qed

lemma take_run_prefix:
  assumes "take (a + length d) b = take a b @ d" and "a + length d \<le> length b" and "k \<le> length d"
  shows "take (a + k) b = take a b @ take k d"
  using arg_cong [OF assms(1), of "take (a + k)"] assms(2,3) by (simp add: min_absorb1 min_absorb2)

lemma run_state_ctrl:
  fixes st :: "'it dstate"
  assumes "run_state blk idc start d n st" and "4 * t \<le> length d" and "d' = take (length d - 4 * t) d"
    and "blocks = 16 * line_no st"
  shows "usize_sub (dc st) t = Ok (idc + length d' div 4)"
    and "end_block blocks t blk = Ok (start + length d' div 4)"
    and "4 * (length d' div 4) = length d'"
    and "\<exists>b. (\<forall>st2 :: 'it dstate. buf st2 = buf st \<and> off st2 = off st \<longrightarrow>
        write_ctrl st2 start (start + length d' div 4) = Ok (st2\<lparr>buf := b\<rparr>)) \<and> length b = length (buf st) \<and>
      take (off st + length d') b = take (off st - 8) (buf st) @ enc_seg (start, d')"
proof -
  have r: "take (off st + length d) (buf st) = take (off st) (buf st) @ d" "off st + length d \<le> length (buf st)"
    "length d = 4 * (dc st - idc)" "idc \<le> dc st" "4 * start + length d = 4 * blk + 64 * line_no st" "8 \<le> off st"
    "blk + 16 * line_no st \<le> U32_MAX" "blk \<le> start" using assms(1) by (auto simp: run_state_def)
  have l: "length d' = 4 * (dc st - idc - t)" using assms(2,3) r(3) by simp
  show "usize_sub (dc st) t = Ok (idc + length d' div 4)" using l r(3,4) assms(2) by (simp add: usize_sub_def)
  show "end_block blocks t blk = Ok (start + length d' div 4)"
  proof -
    have "t \<le> blocks" "blocks - t + blk = start + length d' div 4" using l r(3-5,8) assms(2,4) by linarith+
    then show ?thesis using r(7) assms(4) by (simp add: end_block_def usize_sub_def u32_nat_def U32_MAX_def)
  qed
  let ?c = "u32_to_le_bytes (word_of_nat start) @ u32_to_le_bytes (word_of_nat (start + length d' div 4))"
  have "take (off st + length d') (buf st) = take (off st) (buf st) @ d'"
    using take_run_prefix [OF r(1,2), of "length d - 4 * t"] assms(3) by simp
  from take_write_ctrl [OF r(6) _ this, of ?c] r(2) assms(3)
  have "take (off st + length d') (write_at (buf st) (off st - 8) ?c) = take (off st - 8) (buf st) @ enc_seg (start, d')"
    by (simp add: enc_seg_def)
  then show "\<exists>b. (\<forall>st2 :: 'it dstate. buf st2 = buf st \<and> off st2 = off st \<longrightarrow>
        write_ctrl st2 start (start + length d' div 4) = Ok (st2\<lparr>buf := b\<rparr>)) \<and> length b = length (buf st) \<and>
      take (off st + length d') b = take (off st - 8) (buf st) @ enc_seg (start, d')"
    using r(2,6) by (intro exI [of _ "write_at (buf st) (off st - 8) ?c"]) (simp add: write_ctrl_def)
  show "4 * (length d' div 4) = length d'" using l by simp
qed

locale diff_lines =
  fixes nxt :: "('it, 'wb) diff_next" and wb :: "('it, 'wb) diff_writeback"
    and inv :: "'it \<Rightarrow> bool" and rest :: "'it \<Rightarrow> line list" and passed :: "'it \<Rightarrow> bytes"
  assumes next_nil: "inv it \<Longrightarrow> rest it = [] \<Longrightarrow> nxt it = Inr None"
    and next_cons: "inv it \<Longrightarrow> rest it = l # ls \<Longrightarrow>
      \<exists>w. nxt it = Inr (Some (w, fst l, snd l)) \<and>
        (\<forall>store. \<exists>it'. wb w store = Inr it' \<and> inv it' \<and> rest it' = ls \<and>
          passed it' = passed it @ (if store then fst l else snd l))"
    and rest_ok: "inv it \<Longrightarrow> lines_ok (rest it)"
begin

lemma next_step:
  assumes "inv it" and "rest it = l # ls"
  obtains w it' where "nxt it = Inr (Some (w, fst l, snd l))" and "wb w store = Inr it'" and "inv it'"
    and "rest it' = ls" and "passed it' = passed it @ (if store then fst l else snd l)"
proof -
  from next_cons [OF assms] obtain w where n: "nxt it = Inr (Some (w, fst l, snd l))"
    and w: "\<forall>store. \<exists>it'. wb w store = Inr it' \<and> inv it' \<and> rest it' = ls \<and>
      passed it' = passed it @ (if store then fst l else snd l)" by blast
  from w [rule_format, of store] that n show thesis by blast
qed

lemma scan_unchanged_end:
  assumes "inv (iter st)" and "rest (iter st) = ls" and "\<forall>l\<in>set ls. same l"
  shows "\<exists>it'. scan_unchanged nxt wb blk st =
      Some (Ok (None, st\<lparr>dc := dc st - 2, iter := it', line_no := line_no st + length ls\<rparr>)) \<and>
    inv it' \<and> rest it' = [] \<and> passed it' = passed (iter st) @ concat (map fst ls)"
  using assms
proof (induction ls arbitrary: st)
  case Nil
  then show ?case
    using next_nil [OF Nil(1)] by (intro exI [of _ "iter st"]) (simp add: scan_unchanged.simps)
next
  case (Cons l ls)
  from next_step [OF Cons.prems(1,2), of False] obtain w it' where
    w: "nxt (iter st) = Inr (Some (w, fst l, snd l))" "wb w False = Inr it'" "inv it'" "rest it' = ls"
      "passed it' = passed (iter st) @ snd l" by auto
  let ?st = "st\<lparr>iter := it', line_no := line_no st + 1\<rparr>"
  from Cons.IH [of ?st] w Cons.prems(3) obtain it'' where
    i: "scan_unchanged nxt wb blk ?st =
        Some (Ok (None, ?st\<lparr>dc := dc ?st - 2, iter := it'', line_no := line_no ?st + length ls\<rparr>))"
      "inv it''" "rest it'' = []" "passed it'' = passed it' @ concat (map fst ls)" by auto
  have s: "fst l = snd l" using Cons.prems(3) by (simp add: same_def)
  show ?case
    by (intro exI [of _ it''], subst scan_unchanged.simps) (use i w s in simp)
qed

lemma scan_unchanged_found:
  assumes "inv (iter st)" and "rest (iter st) = us @ l # ls" and "\<forall>l\<in>set us. same l" and "\<not> same l"
    and "off st + 64 \<le> length (buf st)" and "blk + 16 * (line_no st + length us + 1) \<le> U32_MAX"
  shows "\<exists>it'. scan_unchanged nxt wb blk st = Some (Ok (Some (blk + 16 * (line_no st + length us) + leading l),
      st\<lparr>buf := write_at (buf st) (off st) (drop (4 * leading l) (fst l)), dc := dc st + (16 - leading l),
        iter := it', line_no := line_no st + length us + 1\<rparr>)) \<and>
    inv it' \<and> rest it' = ls \<and> passed it' = passed (iter st) @ concat (map fst us) @ fst l"
  using assms
proof (induction us arbitrary: st)
  case Nil
  have "length (fst l) = 64" using rest_ok [OF Nil.prems(1)] Nil.prems(2) by simp
  moreover from next_step [OF Nil.prems(1), of l ls True] Nil.prems(2) obtain w it' where
    w: "nxt (iter st) = Inr (Some (w, fst l, snd l))" "wb w True = Inr it'" "inv it'" "rest it' = ls"
      "passed it' = passed (iter st) @ fst l" by auto
  moreover have "line_no st mod 2 ^ 32 = line_no st" using Nil.prems(6) by (simp add: U32_MAX_def)
  moreover have "16 * line_no st + leading l + blk \<le> U32_MAX" using Nil.prems(6) leading_le [of l] by simp
  moreover have "off st + length (drop (4 * leading l) (fst l)) \<le> length (buf st)"
    using Nil.prems(5) calculation(1) by simp
  ultimately show ?case
    using Nil.prems(4)
    by (intro exI [of _ it'], cases l, subst scan_unchanged.simps)
      (simp add: same_def leading_def diff_put_def u32_nat_def Let_def add.commute add.left_commute split: if_splits)
next
  case (Cons u us)
  from next_step [OF Cons.prems(1), of u "us @ l # ls" False] Cons.prems(2) obtain w it' where
    w: "nxt (iter st) = Inr (Some (w, fst u, snd u))" "wb w False = Inr it'" "inv it'" "rest it' = us @ l # ls"
      "passed it' = passed (iter st) @ snd u" by auto
  let ?st = "st\<lparr>iter := it', line_no := line_no st + 1\<rparr>"
  from Cons.IH [of ?st] w Cons.prems(3-6) obtain it'' where
    i: "scan_unchanged nxt wb blk ?st = Some (Ok (Some (blk + 16 * (line_no ?st + length us) + leading l),
        ?st\<lparr>buf := write_at (buf ?st) (off ?st) (drop (4 * leading l) (fst l)), dc := dc ?st + (16 - leading l),
          iter := it'', line_no := line_no ?st + length us + 1\<rparr>))"
      "inv it''" "rest it'' = ls" "passed it'' = passed it' @ concat (map fst us) @ fst l" by auto
  have s: "fst u = snd u" using Cons.prems(3) by (simp add: same_def)
  show ?case
    by (intro exI [of _ it''], subst scan_unchanged.simps) (use i w s in simp)
qed

text \<open>Recording a changed run follows \<open>run\<close>.\<close>

definition recorded :: "nat \<Rightarrow> nat \<Rightarrow> line list \<Rightarrow> bytes \<Rightarrow> line list option \<Rightarrow> 'it dstate \<Rightarrow> 'it dstate \<Rightarrow> bool" where
  "recorded idc start ls d rst st st' \<longleftrightarrow>
     inv (iter st') \<and> rest (iter st') = (case rst of None \<Rightarrow> [] | Some r \<Rightarrow> r) \<and>
     passed (iter st') @ concat (map fst (rest (iter st'))) = passed (iter st) @ concat (map fst ls) \<and>
     line_no st' + length (rest (iter st')) = line_no st + length ls \<and>
     dc st' = idc + length d div 4 \<and> length (buf st') = length (buf st) \<and>
     take (off st + length d) (buf st') = take (off st - 8) (buf st) @ enc_seg (start, d) \<and>
     (rst \<noteq> None \<longrightarrow> off st' = off st + length d)"

lemma scan_changed_spec:
  assumes "inv (iter st)" and "rest (iter st) = ls" and "run_state blk idc start d (length ls) st"
    and "4 * t \<le> length d" and "run gap d t ls = (d', rst)"
  shows "\<exists>st'. scan_changed nxt wb blk gap idc start t st = Some (Ok (rst = None, st')) \<and>
    recorded idc start ls d' rst st st'"
  using assms
proof (induction ls arbitrary: st d t)
  case Nil
  then have d': "d' = take (length d - 4 * t) d" "rst = None" by auto
  note c = run_state_ctrl [OF Nil.prems(3,4) d'(1) refl]
  from c(4) obtain b where b: "write_ctrl st start (start + length d' div 4) = Ok (st\<lparr>buf := b\<rparr>)"
    "length b = length (buf st)" "take (off st + length d') b = take (off st - 8) (buf st) @ enc_seg (start, d')"
    by blast
  have "scan_changed nxt wb blk gap idc start t st =
      Some (Ok (True, st\<lparr>buf := b, dc := idc + length d' div 4\<rparr>))"
    by (subst scan_changed.simps) (simp add: next_nil [OF Nil.prems(1,2)] c(1,2) b(1))
  then show ?case using Nil.prems b d'(2) by (auto simp: recorded_def)
next
  case (Cons l ls)
  obtain v r where l: "l = (v, r)" by fastforce
  from next_step [OF Cons.prems(1,2), of True] obtain w it' where
    w: "nxt (iter st) = Inr (Some (w, v, r))" "wb w True = Inr it'" "inv it'" "rest it' = ls"
      "passed it' = passed (iter st) @ v" by (auto simp: l)
  have v: "length v = 64" using rest_ok [OF Cons.prems(1)] Cons.prems(2) l by simp
  define st1 where "st1 = st\<lparr>iter := it', buf := write_at (buf st) (off st + length d) (v), dc := dc st + 16\<rparr>"
  define st2 where "st2 = st1\<lparr>line_no := line_no st + 1\<rparr>"
  define u where "u = (if same l then t + 16 else 0)"
  from run_state_put [OF _ v, of blk idc start d "length ls" st it'] Cons.prems(3)
  have p: "diff_put (st\<lparr>iter := it'\<rparr>) (4 * (dc st - idc)) (v) = Ok (st1\<lparr>dc := dc st\<rparr>)"
    and rs: "run_state blk idc start (d @ v) (length ls) st2" by (simp_all add: st1_def st2_def)
  have u: "4 * u \<le> length (d @ v)" using Cons.prems(4) v by (simp add: u_def)
  have tc: "t * (if v = r then 1 else 0) + (if v = r then 1 else 0) * 16 = u"
    by (simp add: u_def same_def l)
  have pre: "take (off st - 8) (buf st1) = take (off st - 8) (buf st)" "length (buf st1) = length (buf st)"
    using Cons.prems(3) v by (simp_all add: st1_def write_at_def run_state_def)
  show ?case
  proof (cases "u > gap")
    case True
    then have d': "d' = take (length (d @ v) - 4 * u) (d @ v)" "rst = Some ls"
      using Cons.prems(5) by (simp_all add: Let_def u_def l)
    have "16 + 16 * line_no st1 = 16 * line_no st2" by (simp add: st1_def st2_def)
    note c = run_state_ctrl [OF rs u d'(1) this]
    from c(4) obtain b where b: "write_ctrl st1 start (start + length d' div 4) = Ok (st1\<lparr>buf := b\<rparr>)"
      "length b = length (buf st)" "take (off st + length d') b = take (off st - 8) (buf st) @ enc_seg (start, d')"
      using pre by (auto simp: st2_def st1_def)
    let ?st = "st1\<lparr>buf := b, dc := idc + length d' div 4, off := off st1 + length d', line_no := line_no st1 + 1\<rparr>"
    have "length d' \<le> length (d @ v)" unfolding d'(1) by simp
    then have "off st1 + length d' \<le> length b" using rs b(2) pre by (simp add: run_state_def st2_def)
    then have "scan_changed nxt wb blk gap idc start t st = Some (Ok (False, ?st))"
      using True c(1,2,3) b(1)
      by (subst scan_changed.simps) (simp add: w p tc Let_def usize_sub_def st1_def st2_def)
    then show ?thesis
      using d'(2) w b by (intro exI [of _ ?st]) (simp add: recorded_def st1_def l)
  next
    case False
    then have "run gap (d @ v) u ls = (d', rst)" using Cons.prems(5) by (simp add: Let_def u_def l)
    with Cons.IH [of st2 "d @ v" u] rs u w obtain st' where
      i: "scan_changed nxt wb blk gap idc start u st2 = Some (Ok (rst = None, st'))" "recorded idc start ls d' rst st2 st'"
      by (auto simp: st2_def st1_def)
    have "scan_changed nxt wb blk gap idc start t st = scan_changed nxt wb blk gap idc start u st2"
      using False by (subst scan_changed.simps) (simp add: w p tc Let_def st1_def st2_def)
    with i show ?thesis
      using w pre by (intro exI [of _ st']) (auto simp: recorded_def st2_def st1_def l)
  qed
qed

definition finished :: "nat \<Rightarrow> nat \<Rightarrow> line list \<Rightarrow> 'it dstate \<Rightarrow> 'it dstate \<Rightarrow> bool" where
  "finished gap blk ls st st' \<longleftrightarrow>
     inv (iter st') \<and> rest (iter st') = [] \<and> passed (iter st') = passed (iter st) @ concat (map fst ls) \<and>
     length (buf st') = length (buf st) \<and>
     4 * dc st' = off st + length (enc_segs (segs gap blk (line_no st) ls)) \<and>
     take (4 * dc st') (buf st') = take (off st) (buf st) @ enc_segs (segs gap blk (line_no st) ls)"

lemma finished_step:
  assumes "finished gap blk ls2 st2 st3" and "off st2 = 4 * dc st2" and "4 * dc st2 = off st + length (enc_seg sg)"
    and "take (4 * dc st2) (buf st2) = take (off st) (buf st) @ enc_seg sg" and "length (buf st2) = length (buf st)"
    and "passed (iter st2) @ concat (map fst ls2) = passed (iter st) @ concat (map fst ls)"
    and "segs gap blk (line_no st) ls = sg # segs gap blk (line_no st2) ls2"
  shows "finished gap blk ls st st3"
  using assms(1) unfolding finished_def assms(2,4-7) enc_segs_simps length_append append_assoc [symmetric]
  by (elim conjE) (simp add: assms(3))

lemma diff_outer_spec:
  assumes "inv (iter st)" and "rest (iter st) = ls" and "16 \<le> gap" and "off st = 4 * dc st"
    and "off st + 8 + 64 * length ls \<le> length (buf st)" and "blk + 16 * (line_no st + length ls) \<le> U32_MAX"
  shows "\<exists>st'. diff_outer nxt wb blk gap st = Some (Ok st') \<and> finished gap blk ls st st'"
  using assms
proof (induction "length ls" arbitrary: ls st rule: less_induct)
  case less
  note prems = less.prems
  let ?st = "st\<lparr>off := off st + 8, dc := dc st + 2\<rparr>"
  have ctrl: "split_ctrl st = Ok ?st" using prems(5) by (simp add: split_ctrl_def)
  have ok: "lines_ok ls" using rest_ok [OF prems(1)] prems(2) by simp
  from ok prems(3) show ?case
  proof (cases rule: segs_unfold [where blk = blk and i = "line_no st"])
    case same
    with scan_unchanged_end [of ?st ls blk] prems obtain it' where
      s: "scan_unchanged nxt wb blk ?st = Some (Ok (None, ?st\<lparr>dc := dc st, iter := it', line_no := line_no st + length ls\<rparr>))"
        "inv it'" "rest it' = []" "passed it' = passed (iter st) @ concat (map fst ls)" by auto
    then have "diff_outer nxt wb blk gap st = Some (Ok (?st\<lparr>dc := dc st, iter := it', line_no := line_no st + length ls\<rparr>))"
      by (subst diff_outer.simps) (simp add: ctrl)
    then show ?thesis using s(2-4) same(1) prems(4) by (auto simp: finished_def)
  next
    case (diff us l qs t rst' rst)
    let ?start = "blk + 16 * (line_no st + length us) + leading l"
    let ?x = "drop (4 * leading l) (fst l)" and ?q = "concat (map fst (take (length qs - t) qs))"
    have okl: "length (fst l) = 64" "lines_ok qs" using ok diff(1) by simp_all
    from scan_unchanged_found [of ?st us l "qs @ rst'" blk] prems diff(1-3) obtain it' where
      f: "scan_unchanged nxt wb blk ?st = Some (Ok (Some ?start, ?st\<lparr>buf := write_at (buf st) (off st + 8) ?x,
            dc := dc st + 2 + (16 - leading l), iter := it', line_no := line_no st + length us + 1\<rparr>))"
        "inv it'" "rest it' = qs @ rst'" "passed it' = passed (iter st) @ concat (map fst us) @ fst l" by auto
    define st1 where "st1 = ?st\<lparr>buf := write_at (buf st) (off st + 8) ?x,
      dc := dc st + 2 + (16 - leading l), iter := it', line_no := line_no st + length us + 1\<rparr>"
    have rs: "run_state blk (dc st + 2) ?start ?x (length (qs @ rst')) st1"
      using okl(1) leading_le [of l] prems(5,6) diff(1)
      by (simp add: run_state_def st1_def write_at_def take_append) (intro conjI; linarith)
    from scan_changed_spec [OF _ _ rs _ diff(8), folded st1_def] f obtain st2 where
      c: "scan_changed nxt wb blk gap (dc st + 2) ?start 0 st1 = Some (Ok (rst = None, st2))"
        "recorded (dc st + 2) ?start (qs @ rst') (?x @ ?q) rst st1 st2" by (auto simp: st1_def)
    define st0 where "st0 = ?st"
    have "split_ctrl st = Ok st0" "dc st0 = dc st + 2" "scan_unchanged nxt wb blk st0 = Some (Ok (Some ?start, st1))"
      using ctrl f(1) by (simp_all add: st0_def st1_def)
    then have eq: "diff_outer nxt wb blk gap st =
        (if rst = None then Some (Ok st2) else diff_outer nxt wb blk gap st2)"
      by (subst diff_outer.simps) (simp del: add_2_eq_Suc' distrib_left_numeral add: c(1))
    have "lines_ok (take (length qs - t) qs)" using okl(2) by (auto simp: lines_ok_def dest: in_set_takeD)
    from length_concat_lines(1) [OF this] okl(1) leading_le [of l]
    have d: "length (?x @ ?q) = 4 * (16 - leading l + 16 * (length qs - t))" by simp
    have r: "rest (iter st2) = rst'" using c(2) diff(6) by (auto simp: recorded_def)
    have dc2: "4 * dc st2 = off st + 8 + length (?x @ ?q)" using c(2) prems(4) d by (simp add: recorded_def)
    have tk: "take (4 * dc st2) (buf st2) = take (off st) (buf st) @ enc_seg (?start, ?x @ ?q)"
    proof -
      have "off st1 = off st + 8" "take (off st) (buf st1) = take (off st) (buf st)"
        using prems(5) by (simp_all add: st1_def write_at_def)
      then show ?thesis unfolding dc2 using c(2) unfolding recorded_def by (simp only: add_diff_cancel_right')
    qed
    have len: "length (buf st2) = length (buf st)"
      using c(2) prems(5) diff(1) okl(1) by (simp add: recorded_def st1_def)
    have pa: "passed (iter st2) @ concat (map fst rst') = passed (iter st) @ concat (map fst ls)"
      using c(2) f(4) r diff(1) by (simp add: recorded_def st1_def)
    have ln: "line_no st2 = line_no st + length us + 1 + length qs"
      using c(2) r by (simp add: recorded_def st1_def)
    have i2: "inv (iter st2)" using c(2) by (simp add: recorded_def)
    show ?thesis
    proof (cases rst)
      case None
      then have "rst' = []" using diff(6) by simp
      then have "finished gap blk ls st st2"
        using i2 r pa len tk dc2 unfolding finished_def diff(7) by (simp add: length_enc_seg)
      then show ?thesis using eq None by simp
    next
      case (Some x)
      then have o2: "off st2 = 4 * dc st2" and t: "2 \<le> t" using c(2) dc2 diff(6) by (simp_all add: recorded_def st1_def)
      have "off st2 + 8 + 64 * length rst' \<le> length (buf st2)"
        using o2 dc2 d len t diff(1,4) prems(5) by simp linarith
      with less.hyps [of rst' st2, OF _ i2 r prems(3) o2] prems(6) diff(1) ln obtain st3 where
        i: "diff_outer nxt wb blk gap st2 = Some (Ok st3)" "finished gap blk rst' st2 st3" by auto
      have "finished gap blk ls st st3"
        using diff(7) ln dc2 by (intro finished_step [OF i(2) o2 _ tk len pa]) (simp_all add: length_enc_seg)
      with eq i(1) Some show ?thesis by simp
    qed
  qed
qed

lemma construct_iter_spec:
  assumes "inv it" and "rest it = ls" and "16 \<le> gap" and "refbase mod 4 = 0" and "64 * length ls + 8 \<le> length diff"
    and "refbase div 4 + 16 * length ls \<le> U32_MAX" and "64 * length ls + 8 \<le> U32_MAX"
  defines "enc \<equiv> enc_segs (segs gap (refbase div 4) 0 ls)"
  shows "\<exists>d' it'. construct_diff_segment_two_iter nxt wb diff it refbase gap = Some (Ok (length enc, d', it')) \<and>
    length d' = length diff \<and> take (length enc) d' = enc \<and>
    inv it' \<and> rest it' = [] \<and> passed it' = passed it @ concat (map fst ls)"
proof -
  let ?st = "\<lparr>buf = diff, off = 0, dc = 0, iter = it, line_no = 0\<rparr>"
  from diff_outer_spec [of ?st ls gap "refbase div 4"] assms obtain st' where
    o: "diff_outer nxt wb (refbase div 4) gap ?st = Some (Ok st')" "finished gap (refbase div 4) ls ?st st'" by auto
  from segs_bounds [of ls gap "refbase div 4" 0] rest_ok [OF assms(1)] assms(2,3) have "length enc \<le> 64 * length ls + 8"
    by (simp add: enc_def)
  moreover from o(2) have "4 * dc st' = length enc" by (simp add: finished_def enc_def)
  ultimately have n: "u32_nat (dc st' * 4) = Ok (length enc)"
    using assms(7) by (simp add: u32_nat_def mult.commute)
  have "construct_diff_segment_two_iter nxt wb diff it refbase gap = Some (Ok (length enc, buf st', iter st'))"
    using assms(3,4) by (simp add: construct_diff_segment_two_iter_def o(1) n)
  then show ?thesis using o(2) by (intro exI [of _ "buf st'"] exI [of _ "iter st'"]) (auto simp: finished_def enc_def)
qed

end

text \<open>The two iterators of the source provide the lines of their buffers.\<close>

primrec lines_from :: "nat \<Rightarrow> bytes \<Rightarrow> bytes \<Rightarrow> line list" where
  "lines_from 0 v r = []"
| "lines_from (Suc n) v r = (take 64 v, take 64 r) # lines_from n (drop 64 v) (drop 64 r)"

lemma lines_from:
  assumes "64 * n \<le> length v" and "64 * n \<le> length r"
  shows "length (lines_from n v r) = n" and "lines_ok (lines_from n v r)"
    and "concat (map fst (lines_from n v r)) = take (64 * n) v"
    and "concat (map snd (lines_from n v r)) = take (64 * n) r"
  using assms by (induction n arbitrary: v r) (auto simp: take_add)

lemma lines_from_Cons:
  assumes "lines_from n v r = l # ls"
  shows "l = (take 64 v, take 64 r) \<and> ls = lines_from (n - 1) (drop 64 v) (drop 64 r) \<and> 0 < n"
  using assms by (cases n) auto

definition local_inv :: "LocalIterator \<Rightarrow> bool" where
  "local_inv it \<longleftrightarrow> length (l_reference it) = length (l_target it) \<and> 64 dvd length (l_target it) \<and>
     64 dvd l_pos it \<and> l_pos it \<le> length (l_target it)"

definition local_rest :: "LocalIterator \<Rightarrow> line list" where
  "local_rest it = lines_from ((length (l_target it) - l_pos it) div 64)
     (drop (l_pos it) (l_target it)) (drop (l_pos it) (l_reference it))"

definition local_passed :: "LocalIterator \<Rightarrow> bytes" where
  "local_passed it = take (l_pos it) (l_reference it)"

lemma line_bounds:
  fixes a b :: nat
  assumes "64 dvd a" and "64 dvd b" and "0 < (a - b) div 64"
  shows "b + 64 \<le> a" and "(a - b) div 64 - 1 = (a - (b + 64)) div 64"
  using assms by (auto elim!: dvdE)

interpretation local_lines: diff_lines local_next local_writeback local_inv local_rest local_passed
proof (unfold_locales, goal_cases)
  case (1 it)
  then have "\<not> 64 \<le> length (l_target it) - l_pos it" by (cases "(length (l_target it) - l_pos it) div 64") (auto simp: local_rest_def)
  with 1(1) have "length (l_target it) \<le> l_pos it" by (auto simp: local_inv_def elim!: dvdE)
  then show ?case by (simp add: local_next_def)
next
  case (2 it l ls)
  let ?p = "l_pos it"
  from lines_from_Cons [OF 2(2) [unfolded local_rest_def]] have
    l: "l = (take 64 (drop ?p (l_target it)), take 64 (drop ?p (l_reference it)))"
    and ls: "ls = lines_from ((length (l_target it) - ?p) div 64 - 1) (drop (?p + 64) (l_target it)) (drop (?p + 64) (l_reference it))"
    and n: "0 < (length (l_target it) - ?p) div 64" by (auto simp: add.commute)
  from 2(1) have b: "?p + 64 \<le> length (l_target it)" "length (l_reference it) = length (l_target it)"
    "(length (l_target it) - ?p) div 64 - 1 = (length (l_target it) - (?p + 64)) div 64"
    using line_bounds [OF _ _ n] by (auto simp: local_inv_def)
  let ?w = "\<lparr>lw_iter = it, lw_values = fst l\<rparr>"
  have "\<exists>it'. local_writeback ?w store = Inr it' \<and> local_inv it' \<and> local_rest it' = ls \<and>
      local_passed it' = local_passed it @ (if store then fst l else snd l)" for store
    using 2(1) b ls unfolding l
    by (cases store) (auto simp: local_writeback_def local_inv_def local_rest_def local_passed_def write_at_def min_absorb2 take_add)
  then show ?case
    using b by (intro exI [of _ ?w]) (simp add: local_next_def l slice_res_def sub_slice_def)
next
  case (3 it)
  then show ?case unfolding local_rest_def by (intro lines_from(2)) (auto simp: local_inv_def)
qed

definition shm_bytes :: "ShmIterator \<Rightarrow> bytes" where
  "shm_bytes it = concat (map u32_to_le_bytes (s_target it))"

definition shm_inv :: "ShmIterator \<Rightarrow> bool" where
  "shm_inv it \<longleftrightarrow> length (s_reference it) = 4 * length (s_target it) \<and> 16 dvd length (s_target it) \<and>
     16 dvd s_pos it \<and> s_pos it \<le> length (s_target it)"

definition shm_rest :: "ShmIterator \<Rightarrow> line list" where
  "shm_rest it = lines_from ((length (s_target it) - s_pos it) div 16)
     (drop (4 * s_pos it) (shm_bytes it)) (drop (4 * s_pos it) (s_reference it))"

definition shm_passed :: "ShmIterator \<Rightarrow> bytes" where
  "shm_passed it = take (4 * s_pos it) (s_reference it)"

lemma length_words_bytes [simp]: "length (concat (map u32_to_le_bytes ws)) = 4 * length ws"
  by (induction ws) auto

lemma take_words_bytes: "concat (map u32_to_le_bytes (take n ws)) = take (4 * n) (concat (map u32_to_le_bytes ws))"
  by (induction ws arbitrary: n) (auto simp: take_Cons' algebra_simps)

lemma drop_words_bytes: "concat (map u32_to_le_bytes (drop n ws)) = drop (4 * n) (concat (map u32_to_le_bytes ws))"
  by (induction ws arbitrary: n) (auto simp: drop_Cons' algebra_simps)

interpretation shm_lines: diff_lines shm_next shm_writeback shm_inv shm_rest shm_passed
proof (unfold_locales, goal_cases)
  case (1 it)
  then have "\<not> 16 \<le> length (s_target it) - s_pos it"
    by (cases "(length (s_target it) - s_pos it) div 16") (auto simp: shm_rest_def)
  with 1(1) have "length (s_target it) \<le> s_pos it" by (auto simp: shm_inv_def elim!: dvdE)
  then show ?case by (simp add: shm_next_def)
next
  case (2 it l ls)
  let ?p = "s_pos it"
  from lines_from_Cons [OF 2(2) [unfolded shm_rest_def]] have
    l: "l = (take 64 (drop (4 * ?p) (shm_bytes it)), take 64 (drop (4 * ?p) (s_reference it)))"
    and ls: "ls = lines_from ((length (s_target it) - ?p) div 16 - 1)
      (drop (4 * (?p + 16)) (shm_bytes it)) (drop (4 * (?p + 16)) (s_reference it))"
    and n: "0 < (length (s_target it) - ?p) div 16" by (auto simp: add.commute)
  from 2(1) n have b: "?p + 16 \<le> length (s_target it)" "length (s_reference it) = 4 * length (s_target it)"
    "(length (s_target it) - ?p) div 16 - 1 = (length (s_target it) - (?p + 16)) div 16"
    by (auto simp: shm_inv_def elim!: dvdE)
  let ?w = "\<lparr>sw_iter = it, sw_values = fst l\<rparr>"
  have "\<exists>it'. shm_writeback ?w store = Inr it' \<and> shm_inv it' \<and> shm_rest it' = ls \<and>
      shm_passed it' = shm_passed it @ (if store then fst l else snd l)" for store
    using 2(1) b ls unfolding l
    by (cases store) (auto simp: shm_writeback_def shm_inv_def shm_rest_def shm_passed_def shm_bytes_def
      write_at_def min_absorb2 take_add)
  moreover have "fst l = concat (map u32_to_le_bytes (take 16 (drop ?p (s_target it))))"
    unfolding l shm_bytes_def by (simp add: take_words_bytes drop_words_bytes)
  ultimately show ?case
    using b l by (intro exI [of _ ?w]) (simp add: shm_next_def slice_res_def sub_slice_def Let_def)
next
  case (3 it)
  then show ?case unfolding shm_rest_def by (intro lines_from(2)) (auto simp: shm_inv_def shm_bytes_def)
qed

lemma construct_local_spec:
  assumes "length reference = length target" and "64 dvd length target" and "16 \<le> gap" and "refbase mod 4 = 0"
    and "length target + 8 \<le> length diff" and "refbase + length target \<le> U32_MAX" and "length target + 8 \<le> U32_MAX"
  defines "enc \<equiv> enc_segs (segs gap (refbase div 4) 0 (lines_from (length target div 64) target reference))"
  shows "\<exists>d'. construct_diff_segment_two diff target reference refbase gap = Some (Ok (length enc, d', target)) \<and>
    length d' = length diff \<and> take (length enc) d' = enc"
proof -
  let ?it = "\<lparr>l_target = target, l_reference = reference, l_pos = 0\<rparr>"
  let ?ls = "lines_from (length target div 64) target reference"
  have i: "local_inv ?it" "local_rest ?it = ?ls" using assms by (simp_all add: local_inv_def local_rest_def)
  have n: "64 * length ?ls = length target" "concat (map fst ?ls) = target"
    using lines_from [of "length target div 64" target reference] assms(1,2) by simp_all
  moreover have "refbase div 4 + 16 * length ?ls \<le> U32_MAX" using n(1) assms(6) by linarith
  ultimately obtain d' it' where
    c: "construct_diff_segment_two_iter local_next local_writeback diff ?it refbase gap = Some (Ok (length enc, d', it'))"
    "length d' = length diff" "take (length enc) d' = enc" "local_inv it'" "local_rest it' = []"
    "local_passed it' = target"
    using local_lines.construct_iter_spec [OF i assms(3,4), of diff] assms(5-7) unfolding enc_def
    by (auto simp: local_passed_def)
  have "l_reference it' = target"
  proof -
    have "l_pos it' = length (l_target it')" using c(4,5) lines_from(1) [of _ "[]" "[]"]
      by (cases "(length (l_target it') - l_pos it') div 64") (auto simp: local_inv_def local_rest_def elim!: dvdE)
    with c(4,6) show ?thesis by (simp add: local_inv_def local_passed_def)
  qed
  with c(1-3) assms(1,2,5) show ?thesis
    by (intro exI [of _ d']) (simp add: construct_diff_segment_two_def LocalIterator_new_def)
qed

end
