(* ===== verification/Diff_Returns.thy ===== *)
theory Diff_Returns
  imports Diff_Kernel
begin

text \<open>
  Termination of the construction of a diff, \<open>construct_diff\<close> and \<open>construct_diff_segment_two\<close> of
  kernel.rs: the loops return on every input, also on inputs that violate the assumptions of their
  callers. The argument only needs that an iterator over cache lines moves forward.
\<close>

section \<open>Iterators that move forward\<close>

locale diff_progress =
  fixes nxt :: "('it, 'wb) diff_next" and wb :: "('it, 'wb) diff_writeback" and left :: "'it \<Rightarrow> nat"
  assumes progress: "nxt it = Inr (Some (w, v, r)) \<Longrightarrow> wb w store = Inr it' \<Longrightarrow> left it' < left it"
begin

lemma scan_unchanged_returns:
  "\<exists>r. scan_unchanged nxt wb refbase st = Some r \<and> (\<forall>s st'. r = Inr (Some s, st') \<longrightarrow> left (iter st') < left (iter st))"
proof (induction "left (iter st)" arbitrary: st rule: less_induct)
  case less
  show ?case
  proof (cases "\<exists>w v it'. nxt (iter st) = Inr (Some (w, v, v)) \<and> wb w False = Inr it'")
    case True
    then obtain w v it' where n: "nxt (iter st) = Inr (Some (w, v, v))" "wb w False = Inr it'" by blast
    have lt: "left it' < left (iter st)" by (rule progress [OF n])
    then show ?thesis using less [of "st\<lparr>iter := it', line_no := line_no st + 1\<rparr>"] n
      by (subst scan_unchanged.simps) (auto intro: less_trans)
  next
    case False
    have fin: "\<exists>r. scan_unchanged nxt wb refbase st = Some r" using False
      by (subst scan_unchanged.simps) (auto simp: Let_def split: sum.splits option.splits)
    moreover have "left (iter st') < left (iter st)"
      if "scan_unchanged nxt wb refbase st = Some (Inr (Some s, st'))" for s st'
      using that False
      by (subst (asm) scan_unchanged.simps)
        (auto simp: Let_def diff_put_def rbind_eq_Inr_iff split: sum.splits option.splits if_splits; erule (1) progress)
    ultimately show ?thesis by blast
  qed
qed

lemma scan_changed_returns:
  "\<exists>r. scan_changed nxt wb refbase gap idc start tr st = Some r \<and>
     (\<forall>e st'. r = Inr (e, st') \<longrightarrow> left (iter st') \<le> left (iter st))"
proof (induction "left (iter st)" arbitrary: st tr rule: less_induct)
  case less
  show ?case
  proof (cases "nxt (iter st)")
    case (Inr o1)
    show ?thesis
    proof (cases o1)
      case None
      with Inr show ?thesis
        by (subst scan_changed.simps) (auto simp: write_ctrl_def rbind_eq_Inr_iff)
    next
      case (Some q)
      then obtain w v r where q: "nxt (iter st) = Inr (Some (w, v, r))" using Inr by (cases q) auto
      show ?thesis
      proof (cases "wb w True")
        case (Inr it')
        let ?tr = "tr * (if v = r then 1 else 0) + (if v = r then 1 else 0) * 16"
        have lt: "left it' < left (iter st)" by (rule progress [OF q Inr])
        show ?thesis
        proof (cases "diff_put (st\<lparr>iter := it'\<rparr>) (4 * (dc st - idc)) v")
          case put: (Inr st1)
          then have it: "iter st1 = it'" by (auto simp: diff_put_def rbind_eq_Inr_iff)
          show ?thesis
          proof (cases "?tr > gap")
            case True
            with q Inr put it lt show ?thesis
              by (subst scan_changed.simps)
                (auto simp: Let_def write_ctrl_def rbind_eq_Inr_iff split: if_splits)
          next
            case False
            obtain res where "scan_changed nxt wb refbase gap idc start ?tr (st1\<lparr>dc := dc st1 + 16, line_no := line_no st1 + 1\<rparr>) = Some res"
                "\<forall>e st'. res = Inr (e, st') \<longrightarrow> left (iter st') \<le> left it'"
              using less [of "st1\<lparr>dc := dc st1 + 16, line_no := line_no st1 + 1\<rparr>" ?tr] lt it by auto
            with q Inr put False lt show ?thesis
              by (subst scan_changed.simps) (fastforce simp: Let_def)
          qed
        qed (use q Inr in \<open>subst scan_changed.simps, simp add: Let_def\<close>)
      qed (use q in \<open>subst scan_changed.simps, simp\<close>)
    qed
  qed (subst scan_changed.simps, simp)
qed

lemma diff_outer_returns: "\<exists>r. diff_outer nxt wb refbase gap st = Some r"
proof (induction "left (iter st)" arbitrary: st rule: less_induct)
  case less
  show ?case
  proof (cases "split_ctrl st")
    case (Inr st1)
    then have it: "iter st1 = iter st" by (auto simp: split_ctrl_def split: if_splits)
    obtain r1 where r1: "scan_unchanged nxt wb refbase st1 = Some r1"
        "\<forall>s st'. r1 = Inr (Some s, st') \<longrightarrow> left (iter st') < left (iter st1)"
      using scan_unchanged_returns by blast
    show ?thesis
    proof (cases "\<exists>s st2. r1 = Inr (Some s, st2)")
      case True
      then obtain s st2 where s: "r1 = Inr (Some s, st2)" by blast
      obtain r2 where r2: "scan_changed nxt wb refbase gap (dc st1) s 0 st2 = Some r2"
          "\<forall>e st'. r2 = Inr (e, st') \<longrightarrow> left (iter st') \<le> left (iter st2)"
        using scan_changed_returns by blast
      have "\<exists>r. diff_outer nxt wb refbase gap st3 = Some r" if "r2 = Inr (e, st3)" for e st3
      proof (rule less)
        have "left (iter st3) \<le> left (iter st2)" "left (iter st2) < left (iter st1)" using r1(2) r2(2) s that by auto
        then show "left (iter st3) < left (iter st)" by (simp add: it)
      qed
      then show ?thesis using Inr r1(1) r2(1) s
        by (subst diff_outer.simps) (auto split: sum.splits)
    next
      case False
      then show ?thesis using Inr r1(1)
        by (subst diff_outer.simps) (auto split: sum.splits option.splits)
    qed
  qed (subst diff_outer.simps, simp)
qed

lemma segment_returns: "\<exists>r. construct_diff_segment_two_iter nxt wb d it base gap = Some r"
  using diff_outer_returns [of "base div 4" gap "\<lparr>buf = d, off = 0, dc = 0, iter = it, line_no = 0\<rparr>"]
  by (auto simp: construct_diff_segment_two_iter_def)

end

lemma local_next_position:
  assumes "local_next it = Inr (Some (w, v, r))"
  shows "lw_iter w = it \<and> l_pos it < length (l_target it)"
  using assms by (auto simp: local_next_def rbind_eq_Inr_iff simp del: split_paired_Ex split: if_splits)

lemma local_writeback_position:
  assumes "local_writeback w store = Inr it'"
  shows "l_target it' = l_target (lw_iter w) \<and> l_pos it' = l_pos (lw_iter w) + 64"
proof -
  obtain r where "it' = (lw_iter w)\<lparr>l_reference := r, l_pos := l_pos (lw_iter w) + 64\<rparr>"
    using assms by (auto simp: local_writeback_def Let_def rbind_eq_Inr_iff)
  then show ?thesis by simp
qed

interpretation local_progress: diff_progress local_next local_writeback "\<lambda>it. length (l_target it) - l_pos it"
proof unfold_locales
  fix it w v r store it'
  assume "local_next it = Inr (Some (w, v, r))" "local_writeback w store = Inr it'"
  from local_next_position [OF this(1)] local_writeback_position [OF this(2)]
  show "length (l_target it') - l_pos it' < length (l_target it) - l_pos it" by auto
qed

lemma shm_next_position:
  assumes "shm_next it = Inr (Some (w, v, r))"
  shows "sw_iter w = it \<and> s_pos it < length (s_target it)"
  using assms by (auto simp: shm_next_def rbind_eq_Inr_iff Let_def simp del: split_paired_Ex split: if_splits)

lemma shm_writeback_position:
  assumes "shm_writeback w store = Inr it'"
  shows "s_target it' = s_target (sw_iter w) \<and> s_pos it' = s_pos (sw_iter w) + 16"
proof -
  obtain r where "it' = (sw_iter w)\<lparr>s_reference := r, s_pos := s_pos (sw_iter w) + 16\<rparr>"
    using assms by (auto simp: shm_writeback_def Let_def rbind_eq_Inr_iff)
  then show ?thesis by simp
qed

interpretation shm_progress: diff_progress shm_next shm_writeback "\<lambda>it. length (s_target it) - s_pos it"
proof unfold_locales
  fix it w v r store it'
  assume "shm_next it = Inr (Some (w, v, r))" "shm_writeback w store = Inr it'"
  from shm_next_position [OF this(1)] shm_writeback_position [OF this(2)]
  show "length (s_target it') - s_pos it' < length (s_target it) - s_pos it" by auto
qed

section \<open>Properties\<close>

lemma case_sum_returns: "(\<And>y. \<exists>r. f y = Some r) \<Longrightarrow> \<exists>r. (case x of Inl e \<Rightarrow> Some (Inl e) | Inr y \<Rightarrow> f y) = Some r"
  by (cases x) auto

lemma bind_returns: "\<exists>a. x = Some a \<Longrightarrow> (\<And>a. \<exists>r. f a = Some r) \<Longrightarrow> \<exists>r. Option.bind x f = Some r"
  by auto

lemma construct_diff_loop_returns: "\<exists>r. construct_diff_loop diff fd reference base n ivs = Some r"
proof (induction ivs arbitrary: diff reference n)
  case (Cons iv ivs)
  have "\<exists>r. (case y of (n', d, it) \<Rightarrow> construct_diff_loop (take n diff @ d) fd
      (write_at reference (fst iv - base) (s_reference it)) base (n + n') ivs) = Some r" for y
    using Cons.IH by (cases y) simp
  then show ?case
    unfolding construct_diff_loop.simps Let_def
    by (auto intro!: case_sum_returns bind_returns shm_progress.segment_returns)
qed simp

text \<open>
  C28: the construction of a diff terminates. Both \<open>construct_diff\<close>, for a mapped file, and
  \<open>construct_diff_segment_two\<close>, for memory, return a result or fail with an error or a panic, for every
  output buffer, every contents and reference, and every list of intervals, whether or not these are
  aligned, in range or sorted.
\<close>

theorem construct_diff_returns:
  "(\<exists>r. construct_diff diff fd intervals reference reference_base = Some r) \<and>
   (\<exists>r. construct_diff_segment_two diff target reference' base gap = Some r)"
proof
  show "\<exists>r. construct_diff diff fd intervals reference reference_base = Some r"
    unfolding construct_diff_def by (rule construct_diff_loop_returns)
  show "\<exists>r. construct_diff_segment_two diff target reference' base gap = Some r"
    unfolding construct_diff_segment_two_def
    by (auto intro!: case_sum_returns bind_returns local_progress.segment_returns)
qed

end
