(* ===== verification/Wayland_Wire.thy ===== *)
theory Wayland_Wire
  imports Util
begin

text \<open>
  The wire format of \<open>src/wayland.rs\<close>: message headers and the arguments of Wayland messages.

  A writer takes a \<open>&mut &mut [u8]\<close>: it stores bytes at the front of the remaining buffer and
  then advances past them. The model of such a buffer is a \<open>cursor\<close>, with the bytes already
  passed over and the remaining ones. A parser takes a \<open>&mut &[u8]\<close> and returns the value and
  the remaining bytes. The interface of a matching pair of writer and parser is the locale
  \<open>wire_arg\<close>, interpreted for every kind of argument.
\<close>

section \<open>Cursors\<close>

record cursor =
  written :: bytes
  tail :: bytes

definition put :: "cursor \<Rightarrow> nat \<Rightarrow> bytes \<Rightarrow> cursor res" where
  "put c a bs = rbind (write_at_res (tail c) a bs) (\<lambda>t. Ok (c\<lparr>tail := t\<rparr>))"

definition fill_zero :: "cursor \<Rightarrow> nat \<Rightarrow> nat \<Rightarrow> cursor res" where
  "fill_zero c a b = (if a \<le> b then put c a (replicate (b - a) 0) else panic)"

definition advance :: "cursor \<Rightarrow> nat \<Rightarrow> cursor res" where
  "advance c n =
     (if n \<le> length (tail c)
      then Ok \<lparr>written = written c @ take n (tail c), tail = drop n (tail c)\<rparr>
      else panic)"

text \<open>The cursor after storing \<open>bs\<close> and advancing past it: what every writer amounts to.\<close>

definition emit :: "cursor \<Rightarrow> bytes \<Rightarrow> cursor res" where
  "emit c bs =
     (if length bs \<le> length (tail c)
      then Ok \<lparr>written = written c @ bs, tail = drop (length bs) (tail c)\<rparr>
      else panic)"

section \<open>Headers and arguments\<close>

datatype ObjId = ObjId (obj_num: u32)

definition PARSE_ERROR :: string where
  "PARSE_ERROR = ''Failed to parse message''"

definition parse_wl_header :: "bytes \<Rightarrow> (ObjId \<times> nat \<times> nat) res" where
  "parse_wl_header msg =
     rbind (slice_res msg 0 4) (\<lambda>a.
     rbind (slice_res msg 4 8) (\<lambda>b.
       let x = u32_from_le_bytes b
       in Ok (ObjId (u32_from_le_bytes a), unat (drop_bit 16 x), unat (x AND 0x00ff))))"

definition parse_array :: "bytes \<Rightarrow> (bytes \<times> bytes) res" where
  "parse_array msg_tail =
     (if length msg_tail < 4 then fail PARSE_ERROR
      else rbind (slice_res msg_tail 0 4) (\<lambda>l.
           let len = unat (u32_from_le_bytes l)
           in rbind (ok_or (checked_next_multiple_of len 4) (Err PARSE_ERROR)) (\<lambda>space.
              if space > length msg_tail - 4 then fail PARSE_ERROR
              else rbind (slice_res msg_tail 4 (4 + len)) (\<lambda>ret.
                   rbind (slice_res msg_tail (4 + space) (length msg_tail)) (\<lambda>rest.
                     Ok (ret, rest))))))"

definition parse_string :: "bytes \<Rightarrow> (bytes option \<times> bytes) res" where
  "parse_string msg_tail =
     rbind (parse_array msg_tail) (\<lambda>(v, rest).
       if v = [] then Ok (None, rest)
       else rbind (slice_res v 0 (length v - 1)) (\<lambda>s. Ok (Some s, rest)))"

definition parse_u32 :: "bytes \<Rightarrow> (u32 \<times> bytes) res" where
  "parse_u32 msg_tail =
     (if length msg_tail < 4 then fail PARSE_ERROR
      else rbind (slice_res msg_tail 0 4) (\<lambda>v.
           rbind (slice_res msg_tail 4 (length msg_tail)) (\<lambda>rest.
             Ok (u32_from_le_bytes v, rest))))"

definition parse_obj :: "bytes \<Rightarrow> (ObjId \<times> bytes) res" where
  "parse_obj msg_tail = rbind (parse_u32 msg_tail) (\<lambda>(v, rest). Ok (ObjId v, rest))"

definition parse_i32 :: "bytes \<Rightarrow> (int \<times> bytes) res" where
  "parse_i32 msg_tail =
     (if length msg_tail < 4 then fail PARSE_ERROR
      else rbind (slice_res msg_tail 0 4) (\<lambda>v.
           rbind (slice_res msg_tail 4 (length msg_tail)) (\<lambda>rest.
             Ok (i32_from_le_bytes v, rest))))"

definition length_array :: "nat \<Rightarrow> nat" where
  "length_array arr_len =
     saturating_add (case checked_next_multiple_of arr_len 4 of None \<Rightarrow> USIZE_MAX | Some n \<Rightarrow> n) 4"

definition length_string :: "nat \<Rightarrow> nat" where
  "length_string str_len_unterminated = length_array (saturating_add str_len_unterminated 1)"

definition header_bits :: "nat \<Rightarrow> nat \<Rightarrow> nat \<Rightarrow> u32" where
  "header_bits len opcode ntagfds =
     push_bit 16 (word_of_nat len) OR push_bit 11 (word_of_nat ntagfds) OR
       (word_of_nat opcode AND 0x00ff)"

definition write_header :: "cursor \<Rightarrow> ObjId \<Rightarrow> nat \<Rightarrow> nat \<Rightarrow> nat \<Rightarrow> cursor res" where
  "write_header c obj_id len opcode ntagfds =
     rbind (assert_that (len < 2 ^ 16 \<and> ntagfds < 2 ^ 5 \<and> opcode < 2 ^ 8)) (\<lambda>_.
     rbind (put c 0 (u32_to_le_bytes (obj_num obj_id))) (\<lambda>c.
     rbind (put c 4 (u32_to_le_bytes (header_bits len opcode ntagfds))) (\<lambda>c.
       advance c 8)))"

definition write_u32 :: "cursor \<Rightarrow> u32 \<Rightarrow> cursor res" where
  "write_u32 c val = rbind (put c 0 (u32_to_le_bytes val)) (\<lambda>c. advance c 4)"

definition write_obj :: "cursor \<Rightarrow> ObjId \<Rightarrow> cursor res" where
  "write_obj c val = write_u32 c (obj_num val)"

definition write_i32 :: "cursor \<Rightarrow> int \<Rightarrow> cursor res" where
  "write_i32 c val = rbind (put c 0 (i32_to_le_bytes val)) (\<lambda>c. advance c 4)"

definition write_array :: "cursor \<Rightarrow> bytes \<Rightarrow> cursor res" where
  "write_array c s =
     rbind (put c 0 (u32_to_le_bytes (word_of_nat (length s)))) (\<lambda>c.
     rbind (put c 4 s) (\<lambda>c.
       let e = length_array (length s)
       in rbind (fill_zero c (length s + 4) e) (\<lambda>c. advance c e)))"

definition write_string :: "cursor \<Rightarrow> bytes option \<Rightarrow> cursor res" where
  "write_string c os =
     (case os of
        Some s \<Rightarrow>
          rbind (u32_nat (unat (word_of_nat (length s) :: u32) + 1)) (\<lambda>l.
          rbind (put c 0 (u32_to_le_bytes (word_of_nat l))) (\<lambda>c.
          rbind (put c 4 s) (\<lambda>c.
            let e = length_string (length s)
            in rbind (fill_zero c (length s + 4) e) (\<lambda>c. advance c e))))
      | None \<Rightarrow> rbind (fill_zero c 0 4) (\<lambda>c. advance c 4))"

section \<open>Writers append an encoding\<close>

definition enc_u32 :: "u32 \<Rightarrow> bytes" where
  "enc_u32 w = u32_to_le_bytes w"

definition enc_array :: "bytes \<Rightarrow> bytes" where
  "enc_array s =
     enc_u32 (word_of_nat (length s)) @ s @ replicate (next_multiple_of (length s) 4 - length s) 0"

definition enc_string :: "bytes option \<Rightarrow> bytes" where
  "enc_string os = (case os of None \<Rightarrow> enc_u32 0 | Some s \<Rightarrow> enc_array (s @ [0]))"

definition enc_header :: "ObjId \<Rightarrow> nat \<Rightarrow> nat \<Rightarrow> nat \<Rightarrow> bytes" where
  "enc_header obj len opcode ntagfds =
     enc_u32 (obj_num obj) @ enc_u32 (word_of_nat (len * 2 ^ 16 + (ntagfds * 2 ^ 11 + opcode)))"

lemma put_advance: "rbind (put c 0 xs) (\<lambda>c. advance c (length xs)) = emit c xs"
  by (simp add: put_def write_at_res_def write_at_def advance_def emit_def)

lemma put2_advance:
  "rbind (put c 0 xs) (\<lambda>c. rbind (put c (length xs) ys) (\<lambda>c. advance c (length xs + length ys)))
    = emit c (xs @ ys)"
  by (auto simp: put_def write_at_res_def write_at_def advance_def emit_def ac_simps)

lemma put3_advance:
  "rbind (put c 0 xs) (\<lambda>c. rbind (put c (length xs) ys) (\<lambda>c.
     rbind (put c (length xs + length ys) zs) (\<lambda>c. advance c (length xs + length ys + length zs))))
    = emit c (xs @ ys @ zs)"
  by (auto simp: put_def write_at_res_def write_at_def advance_def emit_def ac_simps)

lemma length_enc [simp, wire_simps]:
  "length (enc_u32 w) = 4"
  "length (enc_array s) = 4 + next_multiple_of (length s) 4"
  "length (enc_header obj len opcode ntagfds) = 8"
  using next_multiple_of_ge [of 4 "length s"]
  by (simp_all add: enc_u32_def enc_array_def enc_header_def)

lemma length_array_ok: "n + 8 \<le> USIZE_MAX \<Longrightarrow> length_array n = 4 + next_multiple_of n 4"
  using next_multiple_of_less [of 4 n]
  by (simp add: length_array_def checked_next_multiple_of_def)

lemma length_string_ok: "n + 9 \<le> USIZE_MAX \<Longrightarrow> length_string n = 4 + next_multiple_of (n + 1) 4"
  by (simp add: length_string_def length_array_ok)

lemma write_u32_emit: "write_u32 c w = emit c (enc_u32 w)"
  using put_advance [of c "u32_to_le_bytes w"] by (simp add: write_u32_def enc_u32_def)

lemma write_i32_emit: "write_i32 c i = emit c (enc_u32 (word_of_int i))"
  using put_advance [of c "i32_to_le_bytes i"]
  by (simp add: write_i32_def enc_u32_def i32_to_le_bytes_def)

lemma write_array_emit:
  assumes "length s + 8 \<le> USIZE_MAX"
  shows "write_array c s = emit c (enc_array s)"
proof -
  let ?n = "next_multiple_of (length s) 4"
  have "length s \<le> ?n" by (rule next_multiple_of_ge) simp
  then show ?thesis
    using put3_advance [of c "enc_u32 (word_of_nat (length s))" s "replicate (?n - length s) 0"] assms
    by (simp add: write_array_def fill_zero_def length_array_ok enc_array_def enc_u32_def Let_def
        add.commute [of 4])
qed

lemma write_string_None: "write_string c None = emit c (enc_string None)"
proof -
  have "enc_u32 0 = replicate 4 0"
    by (simp add: enc_u32_def u32_to_le_bytes_def numeral_eq_Suc)
  then show ?thesis
    using put_advance [of c "replicate 4 0"] by (simp add: write_string_def fill_zero_def enc_string_def)
qed

lemma write_string_Some:
  assumes "length s + 1 < 2 ^ 32"
  shows "write_string c (Some s) = emit c (enc_string (Some s))"
proof -
  let ?n = "next_multiple_of (Suc (length s)) 4"
  have n: "Suc (length s) \<le> ?n" by (rule next_multiple_of_ge) simp
  then have r: "0 # replicate (?n - Suc (length s)) 0 = replicate (?n - length s) (0 :: u8)"
    by (simp flip: replicate_Suc add: Suc_diff_Suc)
  have l: "unat (word_of_nat (length s) :: u32) = length s"
    by (rule unat_word_of_nat) (use assms in simp)
  show ?thesis
    using put3_advance [of c "enc_u32 (word_of_nat (length s + 1))" s "replicate (?n - length s) 0"]
      assms n
    by (simp add: write_string_def fill_zero_def length_string_ok enc_string_def enc_array_def
        enc_u32_def l r u32_nat_def machine_bounds Let_def add.commute [of 4] del: of_nat_Suc of_nat_add)
qed

text \<open>
  The three fields of the second header word do not overlap: 16 bits of length, 5 bits of
  file descriptor count at bit 11, and 8 bits of opcode.
\<close>

lemma header_bits_word:
  assumes "len < 2 ^ 16" and "opcode < 2 ^ 8" and "ntagfds < 2 ^ 5"
  shows "header_bits len opcode ntagfds = word_of_nat (len * 2 ^ 16 + (ntagfds * 2 ^ 11 + opcode))"
proof -
  have "(word_of_nat opcode AND 0x00ff :: u32) = word_of_nat opcode"
  proof (rule word_unat_eq_iff [THEN iffD2])
    have "unat (word_of_nat opcode AND 2 ^ 8 - 1 :: u32) = unat (word_of_nat opcode :: u32)"
      unfolding unat_and_mask using assms by (simp only: unat_of_nat) simp
    then show "unat (word_of_nat opcode AND 0x00ff :: u32) = unat (word_of_nat opcode :: u32)"
      by simp
  qed
  moreover have "push_bit k (word_of_nat n :: u32) = word_of_nat (n * 2 ^ k)" for k n
    by (simp add: push_bit_eq_mult)
  ultimately have "header_bits len opcode ntagfds =
      word_of_nat (len * 2 ^ 16) OR (word_of_nat (ntagfds * 2 ^ 11) OR word_of_nat opcode)"
    by (simp only: header_bits_def or.assoc)
  also have "\<dots> = word_of_nat (len * 2 ^ 16) OR word_of_nat (ntagfds * 2 ^ 11 + opcode)"
    by (subst word_shift_or) (use assms in simp_all)
  also have "\<dots> = word_of_nat (len * 2 ^ 16 + (ntagfds * 2 ^ 11 + opcode))"
    by (rule word_shift_or) (use assms in simp)
  finally show ?thesis .
qed

lemma write_header_emit:
  assumes "len < 2 ^ 16" and "opcode < 2 ^ 8" and "ntagfds < 2 ^ 5"
  shows "write_header c obj len opcode ntagfds = emit c (enc_header obj len opcode ntagfds)"
  using put2_advance [of c "u32_to_le_bytes (obj_num obj)"
      "u32_to_le_bytes (header_bits len opcode ntagfds)"] assms
  by (simp add: write_header_def header_bits_word enc_header_def enc_u32_def)

lemma write_header_panic:
  "\<not> (len < 2 ^ 16 \<and> opcode < 2 ^ 8 \<and> ntagfds < 2 ^ 5) \<Longrightarrow>
     write_header c obj len opcode ntagfds = panic"
  by (auto simp: write_header_def)

lemma parse_wl_header_enc:
  assumes "len < 2 ^ 16" and "opcode < 2 ^ 8" and "ntagfds < 2 ^ 5"
  shows "parse_wl_header (enc_header obj len opcode ntagfds @ rest) = Inr (obj, len, opcode)"
proof -
  let ?w = "word_of_nat (len * 2 ^ 16 + (ntagfds * 2 ^ 11 + opcode)) :: u32"
  have w: "unat ?w = len * 2 ^ 16 + (ntagfds * 2 ^ 11 + opcode)"
    by (rule unat_word_of_nat) (use assms in simp)
  have "(len * 2 ^ 16 + (ntagfds * 2 ^ 11 + opcode)) mod 2 ^ 8 = opcode"
    using assms by (simp add: mod_add_left_eq [symmetric] mod_mult_right_eq [symmetric])
  then have o: "unat (?w AND 2 ^ 8 - 1) = opcode"
    by (simp only: unat_and_mask w)
  have l: "unat (drop_bit 16 ?w) = len"
    unfolding unat_drop_bit w using assms by simp
  show ?thesis
    using o l
    by (simp add: parse_wl_header_def enc_header_def enc_u32_def slice_res_def sub_slice_def Let_def
        del: of_nat_add)
qed

section \<open>The interface of an argument kind\<close>

text \<open>
  A writer and a parser of the same kind of argument agree on an encoding: the writer appends
  it, the parser takes it off the front whatever follows. A parser never panics, whatever bytes
  it is given, and consumes a positive number of whole 32-bit words.
\<close>

locale wire_arg =
  fixes write_arg :: "cursor \<Rightarrow> 'a \<Rightarrow> cursor res"
    and parse_arg :: "bytes \<Rightarrow> ('a \<times> bytes) res"
    and enc :: "'a \<Rightarrow> bytes"
    and valid :: "'a \<Rightarrow> bool"
  assumes write_emit: "valid x \<Longrightarrow> write_arg c x = emit c (enc x)"
    and parse_enc: "valid x \<Longrightarrow> parse_arg (enc x @ rest) = Inr (x, rest)"
    and parse_no_panic: "parse_arg bs \<noteq> panic"
    and parse_consumes: "parse_arg bs = Inr (x, rest) \<Longrightarrow>
      \<exists>pre. bs = pre @ rest \<and> pre \<noteq> [] \<and> 4 dvd length pre"
begin

lemma write_ok:
  "valid x \<Longrightarrow> length (enc x) \<le> length (tail c) \<Longrightarrow>
     write_arg c x = Inr \<lparr>written = written c @ enc x, tail = drop (length (enc x)) (tail c)\<rparr>"
  by (simp add: write_emit emit_def)

lemma write_panic: "valid x \<Longrightarrow> length (tail c) < length (enc x) \<Longrightarrow> write_arg c x = panic"
  by (simp add: write_emit emit_def)

lemma enc_prefix_free:
  assumes "valid x" and "valid y" and "enc x @ r = enc y @ s"
  shows "x = y \<and> r = s"
  using parse_enc [OF assms(1), of r] parse_enc [OF assms(2), of s] unfolding assms(3) by simp

lemma write_parse:
  assumes "valid x" and "write_arg \<lparr>written = [], tail = t\<rparr> x = Inr c"
  shows "parse_arg (written c @ rest) = Inr (x, rest)"
proof -
  have "written c = enc x"
    using assms(2) unfolding write_emit [OF assms(1)] by (auto simp: emit_def split: if_splits)
  then show ?thesis by (simp add: parse_enc assms(1))
qed

end

definition write_pair ::
  "(cursor \<Rightarrow> 'a \<Rightarrow> cursor res) \<Rightarrow> (cursor \<Rightarrow> 'b \<Rightarrow> cursor res) \<Rightarrow> cursor \<Rightarrow> 'a \<times> 'b \<Rightarrow> cursor res"
  where
  "write_pair w1 w2 c xy = rbind (w1 c (fst xy)) (\<lambda>c. w2 c (snd xy))"

definition parse_pair ::
  "(bytes \<Rightarrow> ('a \<times> bytes) res) \<Rightarrow> (bytes \<Rightarrow> ('b \<times> bytes) res) \<Rightarrow> bytes \<Rightarrow> (('a \<times> 'b) \<times> bytes) res"
  where
  "parse_pair p1 p2 bs = rbind (p1 bs) (\<lambda>(x, bs). rbind (p2 bs) (\<lambda>(y, bs). Ok ((x, y), bs)))"

lemma emit_append: "rbind (emit c xs) (\<lambda>c. emit c ys) = emit c (xs @ ys)"
  by (simp add: emit_def add.commute) auto

text \<open>Arguments in sequence: the arguments of a message are again such a pair.\<close>

locale wire_seq = A: wire_arg w1 p1 e1 v1 + B: wire_arg w2 p2 e2 v2
  for w1 :: "cursor \<Rightarrow> 'a \<Rightarrow> cursor res" and p1 and e1 and v1
    and w2 :: "cursor \<Rightarrow> 'b \<Rightarrow> cursor res" and p2 and e2 and v2
begin

lemma seq_consumes:
  assumes "parse_pair p1 p2 bs = Inr (xy, rest)"
  shows "\<exists>pre. bs = pre @ rest \<and> pre \<noteq> [] \<and> 4 dvd length pre"
proof -
  from assms obtain x r1 y where p: "p1 bs = Inr (x, r1)" "p2 r1 = Inr (y, rest)"
    by (auto simp: parse_pair_def res_simps)
  obtain a where "bs = a @ r1" "4 dvd length a" "a \<noteq> []"
    using A.parse_consumes [OF p(1)] by blast
  moreover obtain b where "r1 = b @ rest" "4 dvd length b"
    using B.parse_consumes [OF p(2)] by blast
  ultimately show ?thesis by (intro exI [of _ "a @ b"]) auto
qed

end

sublocale wire_seq \<subseteq> wire_arg "write_pair w1 w2" "parse_pair p1 p2"
  "\<lambda>(x, y). e1 x @ e2 y" "\<lambda>(x, y). v1 x \<and> v2 y"
proof unfold_locales
  fix xy :: "'a \<times> 'b" and c and rest bs :: bytes
  show "(case xy of (x, y) \<Rightarrow> v1 x \<and> v2 y) \<Longrightarrow>
      write_pair w1 w2 c xy = emit c (case xy of (x, y) \<Rightarrow> e1 x @ e2 y)"
    by (auto simp: write_pair_def A.write_emit B.write_emit emit_append)
  show "(case xy of (x, y) \<Rightarrow> v1 x \<and> v2 y) \<Longrightarrow>
      parse_pair p1 p2 ((case xy of (x, y) \<Rightarrow> e1 x @ e2 y) @ rest) = Inr (xy, rest)"
    by (cases xy) (simp add: parse_pair_def A.parse_enc B.parse_enc)
  show "parse_pair p1 p2 bs \<noteq> panic"
    by (simp add: parse_pair_def rbind_eq_Inl_iff A.parse_no_panic B.parse_no_panic
        split: prod.splits)
  show "parse_pair p1 p2 bs = Inr (xy, rest) \<Longrightarrow>
      \<exists>pre. bs = pre @ rest \<and> pre \<noteq> [] \<and> 4 dvd length pre"
    by (rule seq_consumes)
qed

section \<open>Every argument kind meets the interface\<close>

lemma parse_u32_cases:
  "parse_u32 bs =
     (if length bs < 4 then fail PARSE_ERROR
      else Inr (u32_from_le_bytes (take 4 bs), drop 4 bs))"
  by (simp add: parse_u32_def sub_slice_def)

lemma take_drop_consumes:
  "4 \<le> n \<Longrightarrow> n \<le> length bs \<Longrightarrow> 4 dvd n \<Longrightarrow> \<exists>pre. bs = pre @ drop n bs \<and> pre \<noteq> [] \<and> 4 dvd length pre"
  by (rule exI [of _ "take n bs"]) auto

interpretation arg_u32: wire_arg write_u32 parse_u32 enc_u32 "\<lambda>_. True"
  by unfold_locales
    (auto simp: write_u32_emit parse_u32_cases enc_u32_def split: if_splits intro!: take_drop_consumes)

definition enc_i32 :: "int \<Rightarrow> bytes" where
  "enc_i32 i = enc_u32 (word_of_int i)"

definition enc_obj :: "ObjId \<Rightarrow> bytes" where
  "enc_obj v = enc_u32 (obj_num v)"

lemma parse_i32_cases:
  "parse_i32 bs =
     (if length bs < 4 then fail PARSE_ERROR
      else Inr (i32_from_le_bytes (take 4 bs), drop 4 bs))"
  by (simp add: parse_i32_def sub_slice_def)

interpretation arg_i32: wire_arg write_i32 parse_i32 enc_i32 is_i32
proof unfold_locales
  fix x :: int and rest :: bytes
  assume "is_i32 x"
  then show "parse_i32 (enc_i32 x @ rest) = Inr (x, rest)"
    using i32_from_to_le_bytes [of x]
    by (simp add: parse_i32_cases enc_i32_def enc_u32_def i32_to_le_bytes_def)
qed (auto simp: write_i32_emit enc_i32_def parse_i32_cases split: if_splits intro!: take_drop_consumes)

interpretation arg_obj: wire_arg write_obj parse_obj enc_obj "\<lambda>_. True"
  by unfold_locales
    (auto simp: write_obj_def parse_obj_def write_u32_emit parse_u32_cases enc_u32_def enc_obj_def
      res_simps split: if_splits intro!: take_drop_consumes)

lemma next_multiple_of_u32_le: "n < 2 ^ 32 \<Longrightarrow> next_multiple_of n 4 \<le> USIZE_MAX"
  using next_multiple_of_less [of 4 n] by (simp add: USIZE_MAX_def)

lemma parse_array_cases:
  "parse_array bs =
     (let n = unat (u32_from_le_bytes (take 4 bs)) in
      if length bs < 4 \<or> length bs < 4 + next_multiple_of n 4 then fail PARSE_ERROR
      else Inr (take n (drop 4 bs), drop (4 + next_multiple_of n 4) bs))"
proof -
  let ?n = "unat (u32_from_le_bytes (take 4 bs))"
  have "next_multiple_of ?n 4 \<le> USIZE_MAX" by (intro next_multiple_of_u32_le unat_u32_less)
  moreover have "?n \<le> next_multiple_of ?n 4" by (rule next_multiple_of_ge) simp
  ultimately show ?thesis
    by (auto simp: parse_array_def sub_slice_def slice_res_def checked_next_multiple_of_def Let_def)
qed

lemma parse_array_enc:
  assumes "length s < 2 ^ 32"
  shows "parse_array (enc_array s @ rest) = Inr (s, rest)"
proof -
  have "unat (word_of_nat (length s) :: u32) = length s"
    by (rule unat_word_of_nat) (use assms in simp)
  moreover have "length s \<le> next_multiple_of (length s) 4"
    by (rule next_multiple_of_ge) simp
  ultimately show ?thesis
    by (simp add: parse_array_cases enc_array_def enc_u32_def)
qed

lemma parse_array_consumes:
  "parse_array bs = Inr (s, rest) \<Longrightarrow> \<exists>pre. bs = pre @ rest \<and> pre \<noteq> [] \<and> 4 dvd length pre"
  by (auto simp: parse_array_cases Let_def split: if_splits intro!: take_drop_consumes)

lemma parse_array_no_panic: "parse_array bs \<noteq> panic"
  by (simp add: parse_array_cases Let_def)

interpretation arg_array: wire_arg write_array parse_array enc_array "\<lambda>s. length s < 2 ^ 32"
  by unfold_locales
    (simp_all add: write_array_emit USIZE_MAX_def parse_array_enc parse_array_no_panic
      parse_array_consumes)

lemma parse_string_cases:
  "parse_string bs =
     (case parse_array bs of Inl e \<Rightarrow> Inl e
      | Inr (v, rest) \<Rightarrow> Inr (if v = [] then None else Some (butlast v), rest))"
  by (auto simp: parse_string_def rbind_def sub_slice_def butlast_conv_take split: sum.splits)

definition valid_string :: "bytes option \<Rightarrow> bool" where
  "valid_string os = (case os of None \<Rightarrow> True | Some s \<Rightarrow> length s + 1 < 2 ^ 32)"

lemma enc_string_None: "enc_string None = enc_array []"
  by (simp add: enc_string_def enc_array_def next_multiple_of_def)

lemma write_string_emit: "valid_string os \<Longrightarrow> write_string c os = emit c (enc_string os)"
  using write_string_None write_string_Some by (cases os) (auto simp: valid_string_def)

lemma parse_string_enc: "valid_string os \<Longrightarrow> parse_string (enc_string os @ rest) = Inr (os, rest)"
proof (cases os)
  case None
  then show ?thesis by (simp add: parse_string_cases enc_string_None parse_array_enc)
next
  case (Some s)
  moreover assume "valid_string os"
  ultimately show ?thesis
    using parse_array_enc [of "s @ [0]" rest]
    by (simp add: parse_string_cases valid_string_def enc_string_def)
qed

interpretation arg_string: wire_arg write_string parse_string enc_string valid_string
proof unfold_locales
  fix bs :: bytes and x rest
  show "parse_string bs \<noteq> panic"
    using parse_array_no_panic [of bs] by (auto simp: parse_string_cases split: sum.splits)
  show "parse_string bs = Inr (x, rest) \<Longrightarrow> \<exists>pre. bs = pre @ rest \<and> pre \<noteq> [] \<and> 4 dvd length pre"
    by (auto simp: parse_string_cases split: sum.splits dest: parse_array_consumes)
qed (simp_all add: write_string_emit parse_string_enc)

section \<open>Properties\<close>

text \<open>
  C18: a message header survives the wire. Writing a header appends exactly eight bytes, and
  parsing a message that starts with them gives back the object, the length and the opcode,
  whatever the number of tagged file descriptors stored in between and whatever follows. A
  field that does not fit its bits, or a buffer that is too short, is a panic and never a
  header with mixed-up fields.
\<close>

theorem wl_header_roundtrip:
  "case write_header c obj len opcode ntagfds of
     Inl e \<Rightarrow> e = Panic \<and> (2 ^ 16 \<le> len \<or> 2 ^ 8 \<le> opcode \<or> 2 ^ 5 \<le> ntagfds \<or> length (tail c) < 8)
   | Inr c' \<Rightarrow> \<exists>h. written c' = written c @ h \<and> length h = 8 \<and> tail c' = drop 8 (tail c) \<and>
       parse_wl_header (h @ rest) = Inr (obj, len, opcode)"
proof (cases "len < 2 ^ 16 \<and> opcode < 2 ^ 8 \<and> ntagfds < 2 ^ 5")
  case True
  then show ?thesis
    using parse_wl_header_enc [of len opcode ntagfds obj rest]
    by (simp add: write_header_emit emit_def)
next
  case False
  then have "write_header c obj len opcode ntagfds = panic" by (rule write_header_panic)
  with False show ?thesis by auto
qed

text \<open>
  C19: a string argument survives the wire. Writing a string (or the null string) that fits
  the buffer appends a positive number of whole words, from which, whatever follows, exactly
  this string is parsed and exactly what follows remains.
\<close>

theorem wl_string_roundtrip:
  assumes "valid_string os" and "length (enc_string os) \<le> length (tail c)"
  shows "\<exists>c' u. write_string c os = Inr c' \<and> written c' = written c @ u \<and>
    tail c' = drop (length u) (tail c) \<and> 4 dvd length u \<and>
    parse_string (u @ rest) = Inr (os, rest)"
proof -
  have "4 dvd length (enc_string os)"
    by (cases os) (simp_all add: enc_string_def)
  with assms show ?thesis
    by (simp add: arg_string.write_ok parse_string_enc)
qed

theorem wl_string_roundtrip_witness:
  "\<exists>c' u. write_string \<lparr>written = [7], tail = replicate 12 9\<rparr> (Some [119, 108]) = Inr c' \<and>
     written c' = [7] @ u \<and> tail c' = drop (length u) (replicate 12 9) \<and> 4 dvd length u \<and>
     parse_string (u @ [1, 2]) = Inr (Some [119, 108], [1, 2])"
  using wl_string_roundtrip [of "Some [119, 108]" "\<lparr>written = [7], tail = replicate 12 9\<rparr>" "[1, 2]"]
  by (simp add: valid_string_def enc_string_def next_multiple_of_def div_ceil_def)

text \<open>
  C17: the parsers are safe on arbitrary bytes from a peer. Whatever the input, parsing an array
  or a string either reports the parse error or returns, and then the input is some positive
  number of whole words followed by the remaining bytes; it never panics (no slice is out of
  range, no length computation overflows).
\<close>

theorem wl_parse_safe:
  "(parse_array bs = fail PARSE_ERROR \<or>
     (\<exists>s pre rest. parse_array bs = Inr (s, rest) \<and> bs = pre @ rest \<and> pre \<noteq> [] \<and> 4 dvd length pre)) \<and>
   (parse_string bs = fail PARSE_ERROR \<or>
     (\<exists>os pre rest. parse_string bs = Inr (os, rest) \<and> bs = pre @ rest \<and> pre \<noteq> [] \<and> 4 dvd length pre))"
proof -
  have *: "parse_array bs = fail PARSE_ERROR \<or>
     (\<exists>s pre rest. parse_array bs = Inr (s, rest) \<and> bs = pre @ rest \<and> pre \<noteq> [] \<and> 4 dvd length pre)"
  proof (cases "parse_array bs")
    case (Inl e)
    then show ?thesis by (auto simp: parse_array_cases Let_def split: if_splits)
  next
    case (Inr sr)
    then show ?thesis using parse_array_consumes [of bs] by (cases sr) auto
  qed
  then have "parse_string bs = fail PARSE_ERROR \<or>
     (\<exists>os pre rest. parse_string bs = Inr (os, rest) \<and> bs = pre @ rest \<and> pre \<noteq> [] \<and> 4 dvd length pre)"
    by (auto simp: parse_string_cases)
  with * show ?thesis by blast
qed

end
