(* ===== verification/Protocol_Tables.thy ===== *)
theory Protocol_Tables
  imports Wayland_Wire
begin

text \<open>
  The protocol tables of \<open>src/wayland_gen.rs\<close> and their types from \<open>src/wayland.rs\<close>: for
  every interface its name, its events and requests with their signatures, and its version;
  the table of all interfaces, the enumeration that indexes it, and the search by name.
\<close>

section \<open>Interfaces, signatures and methods\<close>

datatype (plugins only:) WaylandInterface =
    ExtDataControlDeviceV1 | ExtDataControlManagerV1 | ExtDataControlOfferV1 | ExtDataControlSourceV1
  | ExtForeignToplevelHandleV1 | ExtForeignToplevelImageCaptureSourceManagerV1
  | ExtForeignToplevelListV1 | ExtImageCaptureSourceV1 | ExtImageCopyCaptureCursorSessionV1
  | ExtImageCopyCaptureFrameV1 | ExtImageCopyCaptureManagerV1 | ExtImageCopyCaptureSessionV1
  | ExtOutputImageCaptureSourceManagerV1 | GtkPrimarySelectionDevice
  | GtkPrimarySelectionDeviceManager | GtkPrimarySelectionOffer | GtkPrimarySelectionSource | WlBuffer
  | WlCallback | WlCompositor | WlDataDevice | WlDataDeviceManager | WlDataOffer | WlDataSource
  | WlDisplay | WlDrm | WlFixes | WlKeyboard | WlOutput | WlPointer | WlRegion | WlRegistry | WlSeat
  | WlShell | WlShellSurface | WlShm | WlShmPool | WlSubcompositor | WlSubsurface | WlSurface
  | WlTouch | WpColorManagementOutputV1 | WpColorManagementSurfaceFeedbackV1
  | WpColorManagementSurfaceV1 | WpColorManagerV1 | WpCommitTimerV1 | WpCommitTimingManagerV1
  | WpImageDescriptionCreatorIccV1 | WpImageDescriptionCreatorParamsV1 | WpImageDescriptionInfoV1
  | WpImageDescriptionReferenceV1 | WpImageDescriptionV1 | WpLinuxDrmSyncobjManagerV1
  | WpLinuxDrmSyncobjSurfaceV1 | WpLinuxDrmSyncobjTimelineV1 | WpPresentation | WpPresentationFeedback
  | WpSecurityContextManagerV1 | WpSecurityContextV1 | WpViewport | WpViewporter | XdgPopup
  | XdgPositioner | XdgSurface | XdgToplevel | XdgToplevelIconManagerV1 | XdgToplevelIconV1
  | XdgWmBase | ZwlrDataControlDeviceV1 | ZwlrDataControlManagerV1 | ZwlrDataControlOfferV1
  | ZwlrDataControlSourceV1 | ZwlrExportDmabufFrameV1 | ZwlrExportDmabufManagerV1
  | ZwlrGammaControlManagerV1 | ZwlrGammaControlV1 | ZwlrScreencopyFrameV1 | ZwlrScreencopyManagerV1
  | ZwpInputMethodKeyboardGrabV2 | ZwpInputMethodManagerV2 | ZwpInputMethodV2 | ZwpInputPopupSurfaceV2
  | ZwpLinuxBufferParamsV1 | ZwpLinuxDmabufFeedbackV1 | ZwpLinuxDmabufV1
  | ZwpPrimarySelectionDeviceManagerV1 | ZwpPrimarySelectionDeviceV1 | ZwpPrimarySelectionOfferV1
  | ZwpPrimarySelectionSourceV1 | ZwpVirtualKeyboardManagerV1 | ZwpVirtualKeyboardV1

text \<open>The discriminant of an interface (\<open>as usize\<close>), in the order of declaration.\<close>

primrec (nonexhaustive) interface_index :: "WaylandInterface \<Rightarrow> nat" where
  "interface_index ExtDataControlDeviceV1 = 0"
| "interface_index ExtDataControlManagerV1 = 1"
| "interface_index ExtDataControlOfferV1 = 2"
| "interface_index ExtDataControlSourceV1 = 3"
| "interface_index ExtForeignToplevelHandleV1 = 4"
| "interface_index ExtForeignToplevelImageCaptureSourceManagerV1 = 5"
| "interface_index ExtForeignToplevelListV1 = 6"
| "interface_index ExtImageCaptureSourceV1 = 7"
| "interface_index ExtImageCopyCaptureCursorSessionV1 = 8"
| "interface_index ExtImageCopyCaptureFrameV1 = 9"
| "interface_index ExtImageCopyCaptureManagerV1 = 10"
| "interface_index ExtImageCopyCaptureSessionV1 = 11"
| "interface_index ExtOutputImageCaptureSourceManagerV1 = 12"
| "interface_index GtkPrimarySelectionDevice = 13"
| "interface_index GtkPrimarySelectionDeviceManager = 14"
| "interface_index GtkPrimarySelectionOffer = 15"
| "interface_index GtkPrimarySelectionSource = 16"
| "interface_index WlBuffer = 17"
| "interface_index WlCallback = 18"
| "interface_index WlCompositor = 19"
| "interface_index WlDataDevice = 20"
| "interface_index WlDataDeviceManager = 21"
| "interface_index WlDataOffer = 22"
| "interface_index WlDataSource = 23"
| "interface_index WlDisplay = 24"
| "interface_index WlDrm = 25"
| "interface_index WlFixes = 26"
| "interface_index WlKeyboard = 27"
| "interface_index WlOutput = 28"
| "interface_index WlPointer = 29"
| "interface_index WlRegion = 30"
| "interface_index WlRegistry = 31"
| "interface_index WlSeat = 32"
| "interface_index WlShell = 33"
| "interface_index WlShellSurface = 34"
| "interface_index WlShm = 35"
| "interface_index WlShmPool = 36"
| "interface_index WlSubcompositor = 37"
| "interface_index WlSubsurface = 38"
| "interface_index WlSurface = 39"
| "interface_index WlTouch = 40"
| "interface_index WpColorManagementOutputV1 = 41"
| "interface_index WpColorManagementSurfaceFeedbackV1 = 42"
| "interface_index WpColorManagementSurfaceV1 = 43"
| "interface_index WpColorManagerV1 = 44"
| "interface_index WpCommitTimerV1 = 45"
| "interface_index WpCommitTimingManagerV1 = 46"
| "interface_index WpImageDescriptionCreatorIccV1 = 47"
| "interface_index WpImageDescriptionCreatorParamsV1 = 48"
| "interface_index WpImageDescriptionInfoV1 = 49"
| "interface_index WpImageDescriptionReferenceV1 = 50"
| "interface_index WpImageDescriptionV1 = 51"
| "interface_index WpLinuxDrmSyncobjManagerV1 = 52"
| "interface_index WpLinuxDrmSyncobjSurfaceV1 = 53"
| "interface_index WpLinuxDrmSyncobjTimelineV1 = 54"
| "interface_index WpPresentation = 55"
| "interface_index WpPresentationFeedback = 56"
| "interface_index WpSecurityContextManagerV1 = 57"
| "interface_index WpSecurityContextV1 = 58"
| "interface_index WpViewport = 59"
| "interface_index WpViewporter = 60"
| "interface_index XdgPopup = 61"
| "interface_index XdgPositioner = 62"
| "interface_index XdgSurface = 63"
| "interface_index XdgToplevel = 64"
| "interface_index XdgToplevelIconManagerV1 = 65"
| "interface_index XdgToplevelIconV1 = 66"
| "interface_index XdgWmBase = 67"
| "interface_index ZwlrDataControlDeviceV1 = 68"
| "interface_index ZwlrDataControlManagerV1 = 69"
| "interface_index ZwlrDataControlOfferV1 = 70"
| "interface_index ZwlrDataControlSourceV1 = 71"
| "interface_index ZwlrExportDmabufFrameV1 = 72"
| "interface_index ZwlrExportDmabufManagerV1 = 73"
| "interface_index ZwlrGammaControlManagerV1 = 74"
| "interface_index ZwlrGammaControlV1 = 75"
| "interface_index ZwlrScreencopyFrameV1 = 76"
| "interface_index ZwlrScreencopyManagerV1 = 77"
| "interface_index ZwpInputMethodKeyboardGrabV2 = 78"
| "interface_index ZwpInputMethodManagerV2 = 79"
| "interface_index ZwpInputMethodV2 = 80"
| "interface_index ZwpInputPopupSurfaceV2 = 81"
| "interface_index ZwpLinuxBufferParamsV1 = 82"
| "interface_index ZwpLinuxDmabufFeedbackV1 = 83"
| "interface_index ZwpLinuxDmabufV1 = 84"
| "interface_index ZwpPrimarySelectionDeviceManagerV1 = 85"
| "interface_index ZwpPrimarySelectionDeviceV1 = 86"
| "interface_index ZwpPrimarySelectionOfferV1 = 87"
| "interface_index ZwpPrimarySelectionSourceV1 = 88"
| "interface_index ZwpVirtualKeyboardManagerV1 = 89"
| "interface_index ZwpVirtualKeyboardV1 = 90"

definition WAYLANDINTERFACE_LIST :: "WaylandInterface list" where
  "WAYLANDINTERFACE_LIST =
    [ExtDataControlDeviceV1, ExtDataControlManagerV1, ExtDataControlOfferV1, ExtDataControlSourceV1,
     ExtForeignToplevelHandleV1, ExtForeignToplevelImageCaptureSourceManagerV1, ExtForeignToplevelListV1,
     ExtImageCaptureSourceV1, ExtImageCopyCaptureCursorSessionV1, ExtImageCopyCaptureFrameV1,
     ExtImageCopyCaptureManagerV1, ExtImageCopyCaptureSessionV1, ExtOutputImageCaptureSourceManagerV1,
     GtkPrimarySelectionDevice, GtkPrimarySelectionDeviceManager, GtkPrimarySelectionOffer,
     GtkPrimarySelectionSource, WlBuffer, WlCallback, WlCompositor, WlDataDevice, WlDataDeviceManager,
     WlDataOffer, WlDataSource, WlDisplay, WlDrm, WlFixes, WlKeyboard, WlOutput, WlPointer, WlRegion,
     WlRegistry, WlSeat, WlShell, WlShellSurface, WlShm, WlShmPool, WlSubcompositor, WlSubsurface, WlSurface,
     WlTouch, WpColorManagementOutputV1, WpColorManagementSurfaceFeedbackV1, WpColorManagementSurfaceV1,
     WpColorManagerV1, WpCommitTimerV1, WpCommitTimingManagerV1, WpImageDescriptionCreatorIccV1,
     WpImageDescriptionCreatorParamsV1, WpImageDescriptionInfoV1, WpImageDescriptionReferenceV1,
     WpImageDescriptionV1, WpLinuxDrmSyncobjManagerV1, WpLinuxDrmSyncobjSurfaceV1,
     WpLinuxDrmSyncobjTimelineV1, WpPresentation, WpPresentationFeedback, WpSecurityContextManagerV1,
     WpSecurityContextV1, WpViewport, WpViewporter, XdgPopup, XdgPositioner, XdgSurface, XdgToplevel,
     XdgToplevelIconManagerV1, XdgToplevelIconV1, XdgWmBase, ZwlrDataControlDeviceV1,
     ZwlrDataControlManagerV1, ZwlrDataControlOfferV1, ZwlrDataControlSourceV1, ZwlrExportDmabufFrameV1,
     ZwlrExportDmabufManagerV1, ZwlrGammaControlManagerV1, ZwlrGammaControlV1, ZwlrScreencopyFrameV1,
     ZwlrScreencopyManagerV1, ZwpInputMethodKeyboardGrabV2, ZwpInputMethodManagerV2, ZwpInputMethodV2,
     ZwpInputPopupSurfaceV2, ZwpLinuxBufferParamsV1, ZwpLinuxDmabufFeedbackV1, ZwpLinuxDmabufV1,
     ZwpPrimarySelectionDeviceManagerV1, ZwpPrimarySelectionDeviceV1, ZwpPrimarySelectionOfferV1,
     ZwpPrimarySelectionSourceV1, ZwpVirtualKeyboardManagerV1, ZwpVirtualKeyboardV1]"

definition try_from :: "nat \<Rightarrow> WaylandInterface option" where
  "try_from v = (if v < length WAYLANDINTERFACE_LIST then Some (WAYLANDINTERFACE_LIST ! v) else None)"

datatype WaylandArgument =
    Int_arg | Uint | Fixed | String | OptionalString | Object WaylandInterface | GenericObject
  | NewId WaylandInterface | GenericNewId | Array | Fd

record WaylandMethod =
  meth_name :: string
  sig :: "WaylandArgument list"
  destructor :: bool

record WaylandData =
  intf_name :: string
  evts :: "WaylandMethod list"
  reqs :: "WaylandMethod list"
  version :: u32

datatype MethodId = Event nat | Request nat

primrec method_code :: "MethodId \<Rightarrow> nat" where
  "method_code (Event x) = x"
| "method_code (Request x) = x"

section \<open>The tables\<close>

definition DATA_WP_COLOR_MANAGER_V1 :: WaylandData where
  "DATA_WP_COLOR_MANAGER_V1 = \<lparr>
    intf_name = ''wp_color_manager_v1'',
    evts = [
      \<lparr>meth_name = ''supported_intent'', sig = [Uint], destructor = False\<rparr>,
      \<lparr>meth_name = ''supported_feature'', sig = [Uint], destructor = False\<rparr>,
      \<lparr>meth_name = ''supported_tf_named'', sig = [Uint], destructor = False\<rparr>,
      \<lparr>meth_name = ''supported_primaries_named'', sig = [Uint], destructor = False\<rparr>,
      \<lparr>meth_name = ''done'', sig = [], destructor = False\<rparr>],
    reqs = [
      \<lparr>meth_name = ''destroy'', sig = [], destructor = True\<rparr>,
      \<lparr>meth_name = ''get_output'', sig = [NewId WpColorManagementOutputV1, Object WlOutput], destructor = False\<rparr>,
      \<lparr>meth_name = ''get_surface'', sig = [NewId WpColorManagementSurfaceV1, Object WlSurface], destructor = False\<rparr>,
      \<lparr>meth_name = ''get_surface_feedback'', sig = [NewId WpColorManagementSurfaceFeedbackV1, Object WlSurface], destructor = False\<rparr>,
      \<lparr>meth_name = ''create_icc_creator'', sig = [NewId WpImageDescriptionCreatorIccV1], destructor = False\<rparr>,
      \<lparr>meth_name = ''create_parametric_creator'', sig = [NewId WpImageDescriptionCreatorParamsV1], destructor = False\<rparr>,
      \<lparr>meth_name = ''create_windows_scrgb'', sig = [NewId WpImageDescriptionV1], destructor = False\<rparr>,
      \<lparr>meth_name = ''get_image_description'', sig = [NewId WpImageDescriptionV1, Object WpImageDescriptionReferenceV1], destructor = False\<rparr>],
    version = 2\<rparr>"

definition DATA_WP_COLOR_MANAGEMENT_OUTPUT_V1 :: WaylandData where
  "DATA_WP_COLOR_MANAGEMENT_OUTPUT_V1 = \<lparr>
    intf_name = ''wp_color_management_output_v1'',
    evts = [
      \<lparr>meth_name = ''image_description_changed'', sig = [], destructor = False\<rparr>],
    reqs = [
      \<lparr>meth_name = ''destroy'', sig = [], destructor = True\<rparr>,
      \<lparr>meth_name = ''get_image_description'', sig = [NewId WpImageDescriptionV1], destructor = False\<rparr>],
    version = 2\<rparr>"

definition DATA_WP_COLOR_MANAGEMENT_SURFACE_V1 :: WaylandData where
  "DATA_WP_COLOR_MANAGEMENT_SURFACE_V1 = \<lparr>
    intf_name = ''wp_color_management_surface_v1'',
    evts = [],
    reqs = [
      \<lparr>meth_name = ''destroy'', sig = [], destructor = True\<rparr>,
      \<lparr>meth_name = ''set_image_description'', sig = [Object WpImageDescriptionV1, Uint], destructor = False\<rparr>,
      \<lparr>meth_name = ''unset_image_description'', sig = [], destructor = False\<rparr>],
    version = 2\<rparr>"

definition DATA_WP_COLOR_MANAGEMENT_SURFACE_FEEDBACK_V1 :: WaylandData where
  "DATA_WP_COLOR_MANAGEMENT_SURFACE_FEEDBACK_V1 = \<lparr>
    intf_name = ''wp_color_management_surface_feedback_v1'',
    evts = [
      \<lparr>meth_name = ''preferred_changed'', sig = [Uint], destructor = False\<rparr>,
      \<lparr>meth_name = ''preferred_changed2'', sig = [Uint, Uint], destructor = False\<rparr>],
    reqs = [
      \<lparr>meth_name = ''destroy'', sig = [], destructor = True\<rparr>,
      \<lparr>meth_name = ''get_preferred'', sig = [NewId WpImageDescriptionV1], destructor = False\<rparr>,
      \<lparr>meth_name = ''get_preferred_parametric'', sig = [NewId WpImageDescriptionV1], destructor = False\<rparr>],
    version = 2\<rparr>"

definition DATA_WP_IMAGE_DESCRIPTION_CREATOR_ICC_V1 :: WaylandData where
  "DATA_WP_IMAGE_DESCRIPTION_CREATOR_ICC_V1 = \<lparr>
    intf_name = ''wp_image_description_creator_icc_v1'',
    evts = [],
    reqs = [
      \<lparr>meth_name = ''create'', sig = [NewId WpImageDescriptionV1], destructor = True\<rparr>,
      \<lparr>meth_name = ''set_icc_file'', sig = [Fd, Uint, Uint], destructor = False\<rparr>],
    version = 2\<rparr>"

definition DATA_WP_IMAGE_DESCRIPTION_CREATOR_PARAMS_V1 :: WaylandData where
  "DATA_WP_IMAGE_DESCRIPTION_CREATOR_PARAMS_V1 = \<lparr>
    intf_name = ''wp_image_description_creator_params_v1'',
    evts = [],
    reqs = [
      \<lparr>meth_name = ''create'', sig = [NewId WpImageDescriptionV1], destructor = True\<rparr>,
      \<lparr>meth_name = ''set_tf_named'', sig = [Uint], destructor = False\<rparr>,
      \<lparr>meth_name = ''set_tf_power'', sig = [Uint], destructor = False\<rparr>,
      \<lparr>meth_name = ''set_primaries_named'', sig = [Uint], destructor = False\<rparr>,
      \<lparr>meth_name = ''set_primaries'', sig = [Int_arg, Int_arg, Int_arg, Int_arg, Int_arg, Int_arg, Int_arg, Int_arg], destructor = False\<rparr>,
      \<lparr>meth_name = ''set_luminances'', sig = [Uint, Uint, Uint], destructor = False\<rparr>,
      \<lparr>meth_name = ''set_mastering_display_primaries'', sig = [Int_arg, Int_arg, Int_arg, Int_arg, Int_arg, Int_arg, Int_arg, Int_arg], destructor = False\<rparr>,
      \<lparr>meth_name = ''set_mastering_luminance'', sig = [Uint, Uint], destructor = False\<rparr>,
      \<lparr>meth_name = ''set_max_cll'', sig = [Uint], destructor = False\<rparr>,
      \<lparr>meth_name = ''set_max_fall'', sig = [Uint], destructor = False\<rparr>],
    version = 2\<rparr>"

definition DATA_WP_IMAGE_DESCRIPTION_V1 :: WaylandData where
  "DATA_WP_IMAGE_DESCRIPTION_V1 = \<lparr>
    intf_name = ''wp_image_description_v1'',
    evts = [
      \<lparr>meth_name = ''failed'', sig = [Uint, String], destructor = False\<rparr>,
      \<lparr>meth_name = ''ready'', sig = [Uint], destructor = False\<rparr>,
      \<lparr>meth_name = ''ready2'', sig = [Uint, Uint], destructor = False\<rparr>],
    reqs = [
      \<lparr>meth_name = ''destroy'', sig = [], destructor = True\<rparr>,
      \<lparr>meth_name = ''get_information'', sig = [NewId WpImageDescriptionInfoV1], destructor = False\<rparr>],
    version = 2\<rparr>"

definition DATA_WP_IMAGE_DESCRIPTION_INFO_V1 :: WaylandData where
  "DATA_WP_IMAGE_DESCRIPTION_INFO_V1 = \<lparr>
    intf_name = ''wp_image_description_info_v1'',
    evts = [
      \<lparr>meth_name = ''done'', sig = [], destructor = True\<rparr>,
      \<lparr>meth_name = ''icc_file'', sig = [Fd, Uint], destructor = False\<rparr>,
      \<lparr>meth_name = ''primaries'', sig = [Int_arg, Int_arg, Int_arg, Int_arg, Int_arg, Int_arg, Int_arg, Int_arg], destructor = False\<rparr>,
      \<lparr>meth_name = ''primaries_named'', sig = [Uint], destructor = False\<rparr>,
      \<lparr>meth_name = ''tf_power'', sig = [Uint], destructor = False\<rparr>,
      \<lparr>meth_name = ''tf_named'', sig = [Uint], destructor = False\<rparr>,
      \<lparr>meth_name = ''luminances'', sig = [Uint, Uint, Uint], destructor = False\<rparr>,
      \<lparr>meth_name = ''target_primaries'', sig = [Int_arg, Int_arg, Int_arg, Int_arg, Int_arg, Int_arg, Int_arg, Int_arg], destructor = False\<rparr>,
      \<lparr>meth_name = ''target_luminance'', sig = [Uint, Uint], destructor = False\<rparr>,
      \<lparr>meth_name = ''target_max_cll'', sig = [Uint], destructor = False\<rparr>,
      \<lparr>meth_name = ''target_max_fall'', sig = [Uint], destructor = False\<rparr>],
    reqs = [],
    version = 2\<rparr>"

definition DATA_WP_IMAGE_DESCRIPTION_REFERENCE_V1 :: WaylandData where
  "DATA_WP_IMAGE_DESCRIPTION_REFERENCE_V1 = \<lparr>
    intf_name = ''wp_image_description_reference_v1'',
    evts = [],
    reqs = [
      \<lparr>meth_name = ''destroy'', sig = [], destructor = True\<rparr>],
    version = 1\<rparr>"

definition DATA_WP_COMMIT_TIMING_MANAGER_V1 :: WaylandData where
  "DATA_WP_COMMIT_TIMING_MANAGER_V1 = \<lparr>
    intf_name = ''wp_commit_timing_manager_v1'',
    evts = [],
    reqs = [
      \<lparr>meth_name = ''destroy'', sig = [], destructor = True\<rparr>,
      \<lparr>meth_name = ''get_timer'', sig = [NewId WpCommitTimerV1, Object WlSurface], destructor = False\<rparr>],
    version = 1\<rparr>"

definition DATA_WP_COMMIT_TIMER_V1 :: WaylandData where
  "DATA_WP_COMMIT_TIMER_V1 = \<lparr>
    intf_name = ''wp_commit_timer_v1'',
    evts = [],
    reqs = [
      \<lparr>meth_name = ''set_timestamp'', sig = [Uint, Uint, Uint], destructor = False\<rparr>,
      \<lparr>meth_name = ''destroy'', sig = [], destructor = True\<rparr>],
    version = 1\<rparr>"

definition DATA_EXT_DATA_CONTROL_MANAGER_V1 :: WaylandData where
  "DATA_EXT_DATA_CONTROL_MANAGER_V1 = \<lparr>
    intf_name = ''ext_data_control_manager_v1'',
    evts = [],
    reqs = [
      \<lparr>meth_name = ''create_data_source'', sig = [NewId ExtDataControlSourceV1], destructor = False\<rparr>,
      \<lparr>meth_name = ''get_data_device'', sig = [NewId ExtDataControlDeviceV1, Object WlSeat], destructor = False\<rparr>,
      \<lparr>meth_name = ''destroy'', sig = [], destructor = True\<rparr>],
    version = 1\<rparr>"

definition DATA_EXT_DATA_CONTROL_DEVICE_V1 :: WaylandData where
  "DATA_EXT_DATA_CONTROL_DEVICE_V1 = \<lparr>
    intf_name = ''ext_data_control_device_v1'',
    evts = [
      \<lparr>meth_name = ''data_offer'', sig = [NewId ExtDataControlOfferV1], destructor = False\<rparr>,
      \<lparr>meth_name = ''selection'', sig = [Object ExtDataControlOfferV1], destructor = False\<rparr>,
      \<lparr>meth_name = ''finished'', sig = [], destructor = False\<rparr>,
      \<lparr>meth_name = ''primary_selection'', sig = [Object ExtDataControlOfferV1], destructor = False\<rparr>],
    reqs = [
      \<lparr>meth_name = ''set_selection'', sig = [Object ExtDataControlSourceV1], destructor = False\<rparr>,
      \<lparr>meth_name = ''destroy'', sig = [], destructor = True\<rparr>,
      \<lparr>meth_name = ''set_primary_selection'', sig = [Object ExtDataControlSourceV1], destructor = False\<rparr>],
    version = 1\<rparr>"

definition DATA_EXT_DATA_CONTROL_SOURCE_V1 :: WaylandData where
  "DATA_EXT_DATA_CONTROL_SOURCE_V1 = \<lparr>
    intf_name = ''ext_data_control_source_v1'',
    evts = [
      \<lparr>meth_name = ''send'', sig = [String, Fd], destructor = False\<rparr>,
      \<lparr>meth_name = ''cancelled'', sig = [], destructor = False\<rparr>],
    reqs = [
      \<lparr>meth_name = ''offer'', sig = [String], destructor = False\<rparr>,
      \<lparr>meth_name = ''destroy'', sig = [], destructor = True\<rparr>],
    version = 1\<rparr>"

definition DATA_EXT_DATA_CONTROL_OFFER_V1 :: WaylandData where
  "DATA_EXT_DATA_CONTROL_OFFER_V1 = \<lparr>
    intf_name = ''ext_data_control_offer_v1'',
    evts = [
      \<lparr>meth_name = ''offer'', sig = [String], destructor = False\<rparr>],
    reqs = [
      \<lparr>meth_name = ''receive'', sig = [String, Fd], destructor = False\<rparr>,
      \<lparr>meth_name = ''destroy'', sig = [], destructor = True\<rparr>],
    version = 1\<rparr>"

definition DATA_EXT_FOREIGN_TOPLEVEL_LIST_V1 :: WaylandData where
  "DATA_EXT_FOREIGN_TOPLEVEL_LIST_V1 = \<lparr>
    intf_name = ''ext_foreign_toplevel_list_v1'',
    evts = [
      \<lparr>meth_name = ''toplevel'', sig = [NewId ExtForeignToplevelHandleV1], destructor = False\<rparr>,
      \<lparr>meth_name = ''finished'', sig = [], destructor = False\<rparr>],
    reqs = [
      \<lparr>meth_name = ''stop'', sig = [], destructor = False\<rparr>,
      \<lparr>meth_name = ''destroy'', sig = [], destructor = True\<rparr>],
    version = 1\<rparr>"

definition DATA_EXT_FOREIGN_TOPLEVEL_HANDLE_V1 :: WaylandData where
  "DATA_EXT_FOREIGN_TOPLEVEL_HANDLE_V1 = \<lparr>
    intf_name = ''ext_foreign_toplevel_handle_v1'',
    evts = [
      \<lparr>meth_name = ''closed'', sig = [], destructor = False\<rparr>,
      \<lparr>meth_name = ''done'', sig = [], destructor = False\<rparr>,
      \<lparr>meth_name = ''title'', sig = [String], destructor = False\<rparr>,
      \<lparr>meth_name = ''app_id'', sig = [String], destructor = False\<rparr>,
      \<lparr>meth_name = ''identifier'', sig = [String], destructor = False\<rparr>],
    reqs = [
      \<lparr>meth_name = ''destroy'', sig = [], destructor = True\<rparr>],
    version = 1\<rparr>"

definition DATA_EXT_IMAGE_CAPTURE_SOURCE_V1 :: WaylandData where
  "DATA_EXT_IMAGE_CAPTURE_SOURCE_V1 = \<lparr>
    intf_name = ''ext_image_capture_source_v1'',
    evts = [],
    reqs = [
      \<lparr>meth_name = ''destroy'', sig = [], destructor = True\<rparr>],
    version = 1\<rparr>"

definition DATA_EXT_OUTPUT_IMAGE_CAPTURE_SOURCE_MANAGER_V1 :: WaylandData where
  "DATA_EXT_OUTPUT_IMAGE_CAPTURE_SOURCE_MANAGER_V1 = \<lparr>
    intf_name = ''ext_output_image_capture_source_manager_v1'',
    evts = [],
    reqs = [
      \<lparr>meth_name = ''create_source'', sig = [NewId ExtImageCaptureSourceV1, Object WlOutput], destructor = False\<rparr>,
      \<lparr>meth_name = ''destroy'', sig = [], destructor = True\<rparr>],
    version = 1\<rparr>"

definition DATA_EXT_FOREIGN_TOPLEVEL_IMAGE_CAPTURE_SOURCE_MANAGER_V1 :: WaylandData where
  "DATA_EXT_FOREIGN_TOPLEVEL_IMAGE_CAPTURE_SOURCE_MANAGER_V1 = \<lparr>
    intf_name = ''ext_foreign_toplevel_image_capture_source_manager_v1'',
    evts = [],
    reqs = [
      \<lparr>meth_name = ''create_source'', sig = [NewId ExtImageCaptureSourceV1, Object ExtForeignToplevelHandleV1], destructor = False\<rparr>,
      \<lparr>meth_name = ''destroy'', sig = [], destructor = True\<rparr>],
    version = 1\<rparr>"

definition DATA_EXT_IMAGE_COPY_CAPTURE_MANAGER_V1 :: WaylandData where
  "DATA_EXT_IMAGE_COPY_CAPTURE_MANAGER_V1 = \<lparr>
    intf_name = ''ext_image_copy_capture_manager_v1'',
    evts = [],
    reqs = [
      \<lparr>meth_name = ''create_session'', sig = [NewId ExtImageCopyCaptureSessionV1, Object ExtImageCaptureSourceV1, Uint], destructor = False\<rparr>,
      \<lparr>meth_name = ''create_pointer_cursor_session'', sig = [NewId ExtImageCopyCaptureCursorSessionV1, Object ExtImageCaptureSourceV1, Object WlPointer], destructor = False\<rparr>,
      \<lparr>meth_name = ''destroy'', sig = [], destructor = True\<rparr>],
    version = 1\<rparr>"

definition DATA_EXT_IMAGE_COPY_CAPTURE_SESSION_V1 :: WaylandData where
  "DATA_EXT_IMAGE_COPY_CAPTURE_SESSION_V1 = \<lparr>
    intf_name = ''ext_image_copy_capture_session_v1'',
    evts = [
      \<lparr>meth_name = ''buffer_size'', sig = [Uint, Uint], destructor = False\<rparr>,
      \<lparr>meth_name = ''shm_format'', sig = [Uint], destructor = False\<rparr>,
      \<lparr>meth_name = ''dmabuf_device'', sig = [Array], destructor = False\<rparr>,
      \<lparr>meth_name = ''dmabuf_format'', sig = [Uint, Array], destructor = False\<rparr>,
      \<lparr>meth_name = ''done'', sig = [], destructor = False\<rparr>,
      \<lparr>meth_name = ''stopped'', sig = [], destructor = False\<rparr>],
    reqs = [
      \<lparr>meth_name = ''create_frame'', sig = [NewId ExtImageCopyCaptureFrameV1], destructor = False\<rparr>,
      \<lparr>meth_name = ''destroy'', sig = [], destructor = True\<rparr>],
    version = 1\<rparr>"

definition DATA_EXT_IMAGE_COPY_CAPTURE_FRAME_V1 :: WaylandData where
  "DATA_EXT_IMAGE_COPY_CAPTURE_FRAME_V1 = \<lparr>
    intf_name = ''ext_image_copy_capture_frame_v1'',
    evts = [
      \<lparr>meth_name = ''transform'', sig = [Uint], destructor = False\<rparr>,
      \<lparr>meth_name = ''damage'', sig = [Int_arg, Int_arg, Int_arg, Int_arg], destructor = False\<rparr>,
      \<lparr>meth_name = ''presentation_time'', sig = [Uint, Uint, Uint], destructor = False\<rparr>,
      \<lparr>meth_name = ''ready'', sig = [], destructor = False\<rparr>,
      \<lparr>meth_name = ''failed'', sig = [Uint], destructor = False\<rparr>],
    reqs = [
      \<lparr>meth_name = ''destroy'', sig = [], destructor = True\<rparr>,
      \<lparr>meth_name = ''attach_buffer'', sig = [Object WlBuffer], destructor = False\<rparr>,
      \<lparr>meth_name = ''damage_buffer'', sig = [Int_arg, Int_arg, Int_arg, Int_arg], destructor = False\<rparr>,
      \<lparr>meth_name = ''capture'', sig = [], destructor = False\<rparr>],
    version = 1\<rparr>"

definition DATA_EXT_IMAGE_COPY_CAPTURE_CURSOR_SESSION_V1 :: WaylandData where
  "DATA_EXT_IMAGE_COPY_CAPTURE_CURSOR_SESSION_V1 = \<lparr>
    intf_name = ''ext_image_copy_capture_cursor_session_v1'',
    evts = [
      \<lparr>meth_name = ''enter'', sig = [], destructor = False\<rparr>,
      \<lparr>meth_name = ''leave'', sig = [], destructor = False\<rparr>,
      \<lparr>meth_name = ''position'', sig = [Int_arg, Int_arg], destructor = False\<rparr>,
      \<lparr>meth_name = ''hotspot'', sig = [Int_arg, Int_arg], destructor = False\<rparr>],
    reqs = [
      \<lparr>meth_name = ''destroy'', sig = [], destructor = True\<rparr>,
      \<lparr>meth_name = ''get_capture_session'', sig = [NewId ExtImageCopyCaptureSessionV1], destructor = False\<rparr>],
    version = 1\<rparr>"

definition DATA_GTK_PRIMARY_SELECTION_DEVICE_MANAGER :: WaylandData where
  "DATA_GTK_PRIMARY_SELECTION_DEVICE_MANAGER = \<lparr>
    intf_name = ''gtk_primary_selection_device_manager'',
    evts = [],
    reqs = [
      \<lparr>meth_name = ''create_source'', sig = [NewId GtkPrimarySelectionSource], destructor = False\<rparr>,
      \<lparr>meth_name = ''get_device'', sig = [NewId GtkPrimarySelectionDevice, Object WlSeat], destructor = False\<rparr>,
      \<lparr>meth_name = ''destroy'', sig = [], destructor = True\<rparr>],
    version = 1\<rparr>"

definition DATA_GTK_PRIMARY_SELECTION_DEVICE :: WaylandData where
  "DATA_GTK_PRIMARY_SELECTION_DEVICE = \<lparr>
    intf_name = ''gtk_primary_selection_device'',
    evts = [
      \<lparr>meth_name = ''data_offer'', sig = [NewId GtkPrimarySelectionOffer], destructor = False\<rparr>,
      \<lparr>meth_name = ''selection'', sig = [Object GtkPrimarySelectionOffer], destructor = False\<rparr>],
    reqs = [
      \<lparr>meth_name = ''set_selection'', sig = [Object GtkPrimarySelectionSource, Uint], destructor = False\<rparr>,
      \<lparr>meth_name = ''destroy'', sig = [], destructor = True\<rparr>],
    version = 1\<rparr>"

definition DATA_GTK_PRIMARY_SELECTION_OFFER :: WaylandData where
  "DATA_GTK_PRIMARY_SELECTION_OFFER = \<lparr>
    intf_name = ''gtk_primary_selection_offer'',
    evts = [
      \<lparr>meth_name = ''offer'', sig = [String], destructor = False\<rparr>],
    reqs = [
      \<lparr>meth_name = ''receive'', sig = [String, Fd], destructor = False\<rparr>,
      \<lparr>meth_name = ''destroy'', sig = [], destructor = True\<rparr>],
    version = 1\<rparr>"

definition DATA_GTK_PRIMARY_SELECTION_SOURCE :: WaylandData where
  "DATA_GTK_PRIMARY_SELECTION_SOURCE = \<lparr>
    intf_name = ''gtk_primary_selection_source'',
    evts = [
      \<lparr>meth_name = ''send'', sig = [String, Fd], destructor = False\<rparr>,
      \<lparr>meth_name = ''cancelled'', sig = [], destructor = False\<rparr>],
    reqs = [
      \<lparr>meth_name = ''offer'', sig = [String], destructor = False\<rparr>,
      \<lparr>meth_name = ''destroy'', sig = [], destructor = True\<rparr>],
    version = 1\<rparr>"

definition DATA_ZWP_INPUT_METHOD_V2 :: WaylandData where
  "DATA_ZWP_INPUT_METHOD_V2 = \<lparr>
    intf_name = ''zwp_input_method_v2'',
    evts = [
      \<lparr>meth_name = ''activate'', sig = [], destructor = False\<rparr>,
      \<lparr>meth_name = ''deactivate'', sig = [], destructor = False\<rparr>,
      \<lparr>meth_name = ''surrounding_text'', sig = [String, Uint, Uint], destructor = False\<rparr>,
      \<lparr>meth_name = ''text_change_cause'', sig = [Uint], destructor = False\<rparr>,
      \<lparr>meth_name = ''content_type'', sig = [Uint, Uint], destructor = False\<rparr>,
      \<lparr>meth_name = ''done'', sig = [], destructor = False\<rparr>,
      \<lparr>meth_name = ''unavailable'', sig = [], destructor = False\<rparr>],
    reqs = [
      \<lparr>meth_name = ''commit_string'', sig = [String], destructor = False\<rparr>,
      \<lparr>meth_name = ''set_preedit_string'', sig = [String, Int_arg, Int_arg], destructor = False\<rparr>,
      \<lparr>meth_name = ''delete_surrounding_text'', sig = [Uint, Uint], destructor = False\<rparr>,
      \<lparr>meth_name = ''commit'', sig = [Uint], destructor = False\<rparr>,
      \<lparr>meth_name = ''get_input_popup_surface'', sig = [NewId ZwpInputPopupSurfaceV2, Object WlSurface], destructor = False\<rparr>,
      \<lparr>meth_name = ''grab_keyboard'', sig = [NewId ZwpInputMethodKeyboardGrabV2], destructor = False\<rparr>,
      \<lparr>meth_name = ''destroy'', sig = [], destructor = True\<rparr>],
    version = 1\<rparr>"

definition DATA_ZWP_INPUT_POPUP_SURFACE_V2 :: WaylandData where
  "DATA_ZWP_INPUT_POPUP_SURFACE_V2 = \<lparr>
    intf_name = ''zwp_input_popup_surface_v2'',
    evts = [
      \<lparr>meth_name = ''text_input_rectangle'', sig = [Int_arg, Int_arg, Int_arg, Int_arg], destructor = False\<rparr>],
    reqs = [
      \<lparr>meth_name = ''destroy'', sig = [], destructor = True\<rparr>],
    version = 1\<rparr>"

definition DATA_ZWP_INPUT_METHOD_KEYBOARD_GRAB_V2 :: WaylandData where
  "DATA_ZWP_INPUT_METHOD_KEYBOARD_GRAB_V2 = \<lparr>
    intf_name = ''zwp_input_method_keyboard_grab_v2'',
    evts = [
      \<lparr>meth_name = ''keymap'', sig = [Uint, Fd, Uint], destructor = False\<rparr>,
      \<lparr>meth_name = ''key'', sig = [Uint, Uint, Uint, Uint], destructor = False\<rparr>,
      \<lparr>meth_name = ''modifiers'', sig = [Uint, Uint, Uint, Uint, Uint], destructor = False\<rparr>,
      \<lparr>meth_name = ''repeat_info'', sig = [Int_arg, Int_arg], destructor = False\<rparr>],
    reqs = [
      \<lparr>meth_name = ''release'', sig = [], destructor = True\<rparr>],
    version = 1\<rparr>"

definition DATA_ZWP_INPUT_METHOD_MANAGER_V2 :: WaylandData where
  "DATA_ZWP_INPUT_METHOD_MANAGER_V2 = \<lparr>
    intf_name = ''zwp_input_method_manager_v2'',
    evts = [],
    reqs = [
      \<lparr>meth_name = ''get_input_method'', sig = [Object WlSeat, NewId ZwpInputMethodV2], destructor = False\<rparr>,
      \<lparr>meth_name = ''destroy'', sig = [], destructor = True\<rparr>],
    version = 1\<rparr>"

definition DATA_ZWP_LINUX_DMABUF_V1 :: WaylandData where
  "DATA_ZWP_LINUX_DMABUF_V1 = \<lparr>
    intf_name = ''zwp_linux_dmabuf_v1'',
    evts = [
      \<lparr>meth_name = ''format'', sig = [Uint], destructor = False\<rparr>,
      \<lparr>meth_name = ''modifier'', sig = [Uint, Uint, Uint], destructor = False\<rparr>],
    reqs = [
      \<lparr>meth_name = ''destroy'', sig = [], destructor = True\<rparr>,
      \<lparr>meth_name = ''create_params'', sig = [NewId ZwpLinuxBufferParamsV1], destructor = False\<rparr>,
      \<lparr>meth_name = ''get_default_feedback'', sig = [NewId ZwpLinuxDmabufFeedbackV1], destructor = False\<rparr>,
      \<lparr>meth_name = ''get_surface_feedback'', sig = [NewId ZwpLinuxDmabufFeedbackV1, Object WlSurface], destructor = False\<rparr>],
    version = 5\<rparr>"

definition DATA_ZWP_LINUX_BUFFER_PARAMS_V1 :: WaylandData where
  "DATA_ZWP_LINUX_BUFFER_PARAMS_V1 = \<lparr>
    intf_name = ''zwp_linux_buffer_params_v1'',
    evts = [
      \<lparr>meth_name = ''created'', sig = [NewId WlBuffer], destructor = False\<rparr>,
      \<lparr>meth_name = ''failed'', sig = [], destructor = False\<rparr>],
    reqs = [
      \<lparr>meth_name = ''destroy'', sig = [], destructor = True\<rparr>,
      \<lparr>meth_name = ''add'', sig = [Fd, Uint, Uint, Uint, Uint, Uint], destructor = False\<rparr>,
      \<lparr>meth_name = ''create'', sig = [Int_arg, Int_arg, Uint, Uint], destructor = False\<rparr>,
      \<lparr>meth_name = ''create_immed'', sig = [NewId WlBuffer, Int_arg, Int_arg, Uint, Uint], destructor = False\<rparr>],
    version = 5\<rparr>"

definition DATA_ZWP_LINUX_DMABUF_FEEDBACK_V1 :: WaylandData where
  "DATA_ZWP_LINUX_DMABUF_FEEDBACK_V1 = \<lparr>
    intf_name = ''zwp_linux_dmabuf_feedback_v1'',
    evts = [
      \<lparr>meth_name = ''done'', sig = [], destructor = False\<rparr>,
      \<lparr>meth_name = ''format_table'', sig = [Fd, Uint], destructor = False\<rparr>,
      \<lparr>meth_name = ''main_device'', sig = [Array], destructor = False\<rparr>,
      \<lparr>meth_name = ''tranche_done'', sig = [], destructor = False\<rparr>,
      \<lparr>meth_name = ''tranche_target_device'', sig = [Array], destructor = False\<rparr>,
      \<lparr>meth_name = ''tranche_formats'', sig = [Array], destructor = False\<rparr>,
      \<lparr>meth_name = ''tranche_flags'', sig = [Uint], destructor = False\<rparr>],
    reqs = [
      \<lparr>meth_name = ''destroy'', sig = [], destructor = True\<rparr>],
    version = 5\<rparr>"

definition DATA_WP_LINUX_DRM_SYNCOBJ_MANAGER_V1 :: WaylandData where
  "DATA_WP_LINUX_DRM_SYNCOBJ_MANAGER_V1 = \<lparr>
    intf_name = ''wp_linux_drm_syncobj_manager_v1'',
    evts = [],
    reqs = [
      \<lparr>meth_name = ''destroy'', sig = [], destructor = True\<rparr>,
      \<lparr>meth_name = ''get_surface'', sig = [NewId WpLinuxDrmSyncobjSurfaceV1, Object WlSurface], destructor = False\<rparr>,
      \<lparr>meth_name = ''import_timeline'', sig = [NewId WpLinuxDrmSyncobjTimelineV1, Fd], destructor = False\<rparr>],
    version = 1\<rparr>"

definition DATA_WP_LINUX_DRM_SYNCOBJ_TIMELINE_V1 :: WaylandData where
  "DATA_WP_LINUX_DRM_SYNCOBJ_TIMELINE_V1 = \<lparr>
    intf_name = ''wp_linux_drm_syncobj_timeline_v1'',
    evts = [],
    reqs = [
      \<lparr>meth_name = ''destroy'', sig = [], destructor = True\<rparr>],
    version = 1\<rparr>"

definition DATA_WP_LINUX_DRM_SYNCOBJ_SURFACE_V1 :: WaylandData where
  "DATA_WP_LINUX_DRM_SYNCOBJ_SURFACE_V1 = \<lparr>
    intf_name = ''wp_linux_drm_syncobj_surface_v1'',
    evts = [],
    reqs = [
      \<lparr>meth_name = ''destroy'', sig = [], destructor = True\<rparr>,
      \<lparr>meth_name = ''set_acquire_point'', sig = [Object WpLinuxDrmSyncobjTimelineV1, Uint, Uint], destructor = False\<rparr>,
      \<lparr>meth_name = ''set_release_point'', sig = [Object WpLinuxDrmSyncobjTimelineV1, Uint, Uint], destructor = False\<rparr>],
    version = 1\<rparr>"

definition DATA_WP_PRESENTATION :: WaylandData where
  "DATA_WP_PRESENTATION = \<lparr>
    intf_name = ''wp_presentation'',
    evts = [
      \<lparr>meth_name = ''clock_id'', sig = [Uint], destructor = False\<rparr>],
    reqs = [
      \<lparr>meth_name = ''destroy'', sig = [], destructor = True\<rparr>,
      \<lparr>meth_name = ''feedback'', sig = [Object WlSurface, NewId WpPresentationFeedback], destructor = False\<rparr>],
    version = 2\<rparr>"

definition DATA_WP_PRESENTATION_FEEDBACK :: WaylandData where
  "DATA_WP_PRESENTATION_FEEDBACK = \<lparr>
    intf_name = ''wp_presentation_feedback'',
    evts = [
      \<lparr>meth_name = ''sync_output'', sig = [Object WlOutput], destructor = False\<rparr>,
      \<lparr>meth_name = ''presented'', sig = [Uint, Uint, Uint, Uint, Uint, Uint, Uint], destructor = True\<rparr>,
      \<lparr>meth_name = ''discarded'', sig = [], destructor = True\<rparr>],
    reqs = [],
    version = 2\<rparr>"

definition DATA_ZWP_PRIMARY_SELECTION_DEVICE_MANAGER_V1 :: WaylandData where
  "DATA_ZWP_PRIMARY_SELECTION_DEVICE_MANAGER_V1 = \<lparr>
    intf_name = ''zwp_primary_selection_device_manager_v1'',
    evts = [],
    reqs = [
      \<lparr>meth_name = ''create_source'', sig = [NewId ZwpPrimarySelectionSourceV1], destructor = False\<rparr>,
      \<lparr>meth_name = ''get_device'', sig = [NewId ZwpPrimarySelectionDeviceV1, Object WlSeat], destructor = False\<rparr>,
      \<lparr>meth_name = ''destroy'', sig = [], destructor = True\<rparr>],
    version = 1\<rparr>"

definition DATA_ZWP_PRIMARY_SELECTION_DEVICE_V1 :: WaylandData where
  "DATA_ZWP_PRIMARY_SELECTION_DEVICE_V1 = \<lparr>
    intf_name = ''zwp_primary_selection_device_v1'',
    evts = [
      \<lparr>meth_name = ''data_offer'', sig = [NewId ZwpPrimarySelectionOfferV1], destructor = False\<rparr>,
      \<lparr>meth_name = ''selection'', sig = [Object ZwpPrimarySelectionOfferV1], destructor = False\<rparr>],
    reqs = [
      \<lparr>meth_name = ''set_selection'', sig = [Object ZwpPrimarySelectionSourceV1, Uint], destructor = False\<rparr>,
      \<lparr>meth_name = ''destroy'', sig = [], destructor = True\<rparr>],
    version = 1\<rparr>"

definition DATA_ZWP_PRIMARY_SELECTION_OFFER_V1 :: WaylandData where
  "DATA_ZWP_PRIMARY_SELECTION_OFFER_V1 = \<lparr>
    intf_name = ''zwp_primary_selection_offer_v1'',
    evts = [
      \<lparr>meth_name = ''offer'', sig = [String], destructor = False\<rparr>],
    reqs = [
      \<lparr>meth_name = ''receive'', sig = [String, Fd], destructor = False\<rparr>,
      \<lparr>meth_name = ''destroy'', sig = [], destructor = True\<rparr>],
    version = 1\<rparr>"

definition DATA_ZWP_PRIMARY_SELECTION_SOURCE_V1 :: WaylandData where
  "DATA_ZWP_PRIMARY_SELECTION_SOURCE_V1 = \<lparr>
    intf_name = ''zwp_primary_selection_source_v1'',
    evts = [
      \<lparr>meth_name = ''send'', sig = [String, Fd], destructor = False\<rparr>,
      \<lparr>meth_name = ''cancelled'', sig = [], destructor = False\<rparr>],
    reqs = [
      \<lparr>meth_name = ''offer'', sig = [String], destructor = False\<rparr>,
      \<lparr>meth_name = ''destroy'', sig = [], destructor = True\<rparr>],
    version = 1\<rparr>"

definition DATA_WP_SECURITY_CONTEXT_MANAGER_V1 :: WaylandData where
  "DATA_WP_SECURITY_CONTEXT_MANAGER_V1 = \<lparr>
    intf_name = ''wp_security_context_manager_v1'',
    evts = [],
    reqs = [
      \<lparr>meth_name = ''destroy'', sig = [], destructor = True\<rparr>,
      \<lparr>meth_name = ''create_listener'', sig = [NewId WpSecurityContextV1, Fd, Fd], destructor = False\<rparr>],
    version = 1\<rparr>"

definition DATA_WP_SECURITY_CONTEXT_V1 :: WaylandData where
  "DATA_WP_SECURITY_CONTEXT_V1 = \<lparr>
    intf_name = ''wp_security_context_v1'',
    evts = [],
    reqs = [
      \<lparr>meth_name = ''destroy'', sig = [], destructor = True\<rparr>,
      \<lparr>meth_name = ''set_sandbox_engine'', sig = [String], destructor = False\<rparr>,
      \<lparr>meth_name = ''set_app_id'', sig = [String], destructor = False\<rparr>,
      \<lparr>meth_name = ''set_instance_id'', sig = [String], destructor = False\<rparr>,
      \<lparr>meth_name = ''commit'', sig = [], destructor = False\<rparr>],
    version = 1\<rparr>"

definition DATA_WP_VIEWPORTER :: WaylandData where
  "DATA_WP_VIEWPORTER = \<lparr>
    intf_name = ''wp_viewporter'',
    evts = [],
    reqs = [
      \<lparr>meth_name = ''destroy'', sig = [], destructor = True\<rparr>,
      \<lparr>meth_name = ''get_viewport'', sig = [NewId WpViewport, Object WlSurface], destructor = False\<rparr>],
    version = 1\<rparr>"

definition DATA_WP_VIEWPORT :: WaylandData where
  "DATA_WP_VIEWPORT = \<lparr>
    intf_name = ''wp_viewport'',
    evts = [],
    reqs = [
      \<lparr>meth_name = ''destroy'', sig = [], destructor = True\<rparr>,
      \<lparr>meth_name = ''set_source'', sig = [Fixed, Fixed, Fixed, Fixed], destructor = False\<rparr>,
      \<lparr>meth_name = ''set_destination'', sig = [Int_arg, Int_arg], destructor = False\<rparr>],
    version = 1\<rparr>"

definition DATA_ZWP_VIRTUAL_KEYBOARD_V1 :: WaylandData where
  "DATA_ZWP_VIRTUAL_KEYBOARD_V1 = \<lparr>
    intf_name = ''zwp_virtual_keyboard_v1'',
    evts = [],
    reqs = [
      \<lparr>meth_name = ''keymap'', sig = [Uint, Fd, Uint], destructor = False\<rparr>,
      \<lparr>meth_name = ''key'', sig = [Uint, Uint, Uint], destructor = False\<rparr>,
      \<lparr>meth_name = ''modifiers'', sig = [Uint, Uint, Uint, Uint], destructor = False\<rparr>,
      \<lparr>meth_name = ''destroy'', sig = [], destructor = True\<rparr>],
    version = 1\<rparr>"

definition DATA_ZWP_VIRTUAL_KEYBOARD_MANAGER_V1 :: WaylandData where
  "DATA_ZWP_VIRTUAL_KEYBOARD_MANAGER_V1 = \<lparr>
    intf_name = ''zwp_virtual_keyboard_manager_v1'',
    evts = [],
    reqs = [
      \<lparr>meth_name = ''create_virtual_keyboard'', sig = [Object WlSeat, NewId ZwpVirtualKeyboardV1], destructor = False\<rparr>],
    version = 1\<rparr>"

definition DATA_WL_DRM :: WaylandData where
  "DATA_WL_DRM = \<lparr>
    intf_name = ''wl_drm'',
    evts = [
      \<lparr>meth_name = ''device'', sig = [String], destructor = False\<rparr>,
      \<lparr>meth_name = ''format'', sig = [Uint], destructor = False\<rparr>,
      \<lparr>meth_name = ''authenticated'', sig = [], destructor = False\<rparr>,
      \<lparr>meth_name = ''capabilities'', sig = [Uint], destructor = False\<rparr>],
    reqs = [
      \<lparr>meth_name = ''authenticate'', sig = [Uint], destructor = False\<rparr>,
      \<lparr>meth_name = ''create_buffer'', sig = [NewId WlBuffer, Uint, Int_arg, Int_arg, Uint, Uint], destructor = False\<rparr>,
      \<lparr>meth_name = ''create_planar_buffer'', sig = [NewId WlBuffer, Uint, Int_arg, Int_arg, Uint, Int_arg, Int_arg, Int_arg, Int_arg, Int_arg, Int_arg], destructor = False\<rparr>,
      \<lparr>meth_name = ''create_prime_buffer'', sig = [NewId WlBuffer, Fd, Int_arg, Int_arg, Uint, Int_arg, Int_arg, Int_arg, Int_arg, Int_arg, Int_arg], destructor = False\<rparr>],
    version = 2\<rparr>"

definition DATA_WL_DISPLAY :: WaylandData where
  "DATA_WL_DISPLAY = \<lparr>
    intf_name = ''wl_display'',
    evts = [
      \<lparr>meth_name = ''error'', sig = [GenericObject, Uint, String], destructor = False\<rparr>,
      \<lparr>meth_name = ''delete_id'', sig = [Uint], destructor = False\<rparr>],
    reqs = [
      \<lparr>meth_name = ''sync'', sig = [NewId WlCallback], destructor = False\<rparr>,
      \<lparr>meth_name = ''get_registry'', sig = [NewId WlRegistry], destructor = False\<rparr>],
    version = 1\<rparr>"

definition DATA_WL_REGISTRY :: WaylandData where
  "DATA_WL_REGISTRY = \<lparr>
    intf_name = ''wl_registry'',
    evts = [
      \<lparr>meth_name = ''global'', sig = [Uint, String, Uint], destructor = False\<rparr>,
      \<lparr>meth_name = ''global_remove'', sig = [Uint], destructor = False\<rparr>],
    reqs = [
      \<lparr>meth_name = ''bind'', sig = [Uint, GenericNewId], destructor = False\<rparr>],
    version = 1\<rparr>"

definition DATA_WL_CALLBACK :: WaylandData where
  "DATA_WL_CALLBACK = \<lparr>
    intf_name = ''wl_callback'',
    evts = [
      \<lparr>meth_name = ''done'', sig = [Uint], destructor = True\<rparr>],
    reqs = [],
    version = 1\<rparr>"

definition DATA_WL_COMPOSITOR :: WaylandData where
  "DATA_WL_COMPOSITOR = \<lparr>
    intf_name = ''wl_compositor'',
    evts = [],
    reqs = [
      \<lparr>meth_name = ''create_surface'', sig = [NewId WlSurface], destructor = False\<rparr>,
      \<lparr>meth_name = ''create_region'', sig = [NewId WlRegion], destructor = False\<rparr>],
    version = 6\<rparr>"

definition DATA_WL_SHM_POOL :: WaylandData where
  "DATA_WL_SHM_POOL = \<lparr>
    intf_name = ''wl_shm_pool'',
    evts = [],
    reqs = [
      \<lparr>meth_name = ''create_buffer'', sig = [NewId WlBuffer, Int_arg, Int_arg, Int_arg, Int_arg, Uint], destructor = False\<rparr>,
      \<lparr>meth_name = ''destroy'', sig = [], destructor = True\<rparr>,
      \<lparr>meth_name = ''resize'', sig = [Int_arg], destructor = False\<rparr>],
    version = 2\<rparr>"

definition DATA_WL_SHM :: WaylandData where
  "DATA_WL_SHM = \<lparr>
    intf_name = ''wl_shm'',
    evts = [
      \<lparr>meth_name = ''format'', sig = [Uint], destructor = False\<rparr>],
    reqs = [
      \<lparr>meth_name = ''create_pool'', sig = [NewId WlShmPool, Fd, Int_arg], destructor = False\<rparr>,
      \<lparr>meth_name = ''release'', sig = [], destructor = True\<rparr>],
    version = 2\<rparr>"

definition DATA_WL_BUFFER :: WaylandData where
  "DATA_WL_BUFFER = \<lparr>
    intf_name = ''wl_buffer'',
    evts = [
      \<lparr>meth_name = ''release'', sig = [], destructor = False\<rparr>],
    reqs = [
      \<lparr>meth_name = ''destroy'', sig = [], destructor = True\<rparr>],
    version = 1\<rparr>"

definition DATA_WL_DATA_OFFER :: WaylandData where
  "DATA_WL_DATA_OFFER = \<lparr>
    intf_name = ''wl_data_offer'',
    evts = [
      \<lparr>meth_name = ''offer'', sig = [String], destructor = False\<rparr>,
      \<lparr>meth_name = ''source_actions'', sig = [Uint], destructor = False\<rparr>,
      \<lparr>meth_name = ''action'', sig = [Uint], destructor = False\<rparr>],
    reqs = [
      \<lparr>meth_name = ''accept'', sig = [Uint, OptionalString], destructor = False\<rparr>,
      \<lparr>meth_name = ''receive'', sig = [String, Fd], destructor = False\<rparr>,
      \<lparr>meth_name = ''destroy'', sig = [], destructor = True\<rparr>,
      \<lparr>meth_name = ''finish'', sig = [], destructor = False\<rparr>,
      \<lparr>meth_name = ''set_actions'', sig = [Uint, Uint], destructor = False\<rparr>],
    version = 3\<rparr>"

definition DATA_WL_DATA_SOURCE :: WaylandData where
  "DATA_WL_DATA_SOURCE = \<lparr>
    intf_name = ''wl_data_source'',
    evts = [
      \<lparr>meth_name = ''target'', sig = [OptionalString], destructor = False\<rparr>,
      \<lparr>meth_name = ''send'', sig = [String, Fd], destructor = False\<rparr>,
      \<lparr>meth_name = ''cancelled'', sig = [], destructor = False\<rparr>,
      \<lparr>meth_name = ''dnd_drop_performed'', sig = [], destructor = False\<rparr>,
      \<lparr>meth_name = ''dnd_finished'', sig = [], destructor = False\<rparr>,
      \<lparr>meth_name = ''action'', sig = [Uint], destructor = False\<rparr>],
    reqs = [
      \<lparr>meth_name = ''offer'', sig = [String], destructor = False\<rparr>,
      \<lparr>meth_name = ''destroy'', sig = [], destructor = True\<rparr>,
      \<lparr>meth_name = ''set_actions'', sig = [Uint], destructor = False\<rparr>],
    version = 3\<rparr>"

definition DATA_WL_DATA_DEVICE :: WaylandData where
  "DATA_WL_DATA_DEVICE = \<lparr>
    intf_name = ''wl_data_device'',
    evts = [
      \<lparr>meth_name = ''data_offer'', sig = [NewId WlDataOffer], destructor = False\<rparr>,
      \<lparr>meth_name = ''enter'', sig = [Uint, Object WlSurface, Fixed, Fixed, Object WlDataOffer], destructor = False\<rparr>,
      \<lparr>meth_name = ''leave'', sig = [], destructor = False\<rparr>,
      \<lparr>meth_name = ''motion'', sig = [Uint, Fixed, Fixed], destructor = False\<rparr>,
      \<lparr>meth_name = ''drop'', sig = [], destructor = False\<rparr>,
      \<lparr>meth_name = ''selection'', sig = [Object WlDataOffer], destructor = False\<rparr>],
    reqs = [
      \<lparr>meth_name = ''start_drag'', sig = [Object WlDataSource, Object WlSurface, Object WlSurface, Uint], destructor = False\<rparr>,
      \<lparr>meth_name = ''set_selection'', sig = [Object WlDataSource, Uint], destructor = False\<rparr>,
      \<lparr>meth_name = ''release'', sig = [], destructor = True\<rparr>],
    version = 3\<rparr>"

definition DATA_WL_DATA_DEVICE_MANAGER :: WaylandData where
  "DATA_WL_DATA_DEVICE_MANAGER = \<lparr>
    intf_name = ''wl_data_device_manager'',
    evts = [],
    reqs = [
      \<lparr>meth_name = ''create_data_source'', sig = [NewId WlDataSource], destructor = False\<rparr>,
      \<lparr>meth_name = ''get_data_device'', sig = [NewId WlDataDevice, Object WlSeat], destructor = False\<rparr>],
    version = 3\<rparr>"

definition DATA_WL_SHELL :: WaylandData where
  "DATA_WL_SHELL = \<lparr>
    intf_name = ''wl_shell'',
    evts = [],
    reqs = [
      \<lparr>meth_name = ''get_shell_surface'', sig = [NewId WlShellSurface, Object WlSurface], destructor = False\<rparr>],
    version = 1\<rparr>"

definition DATA_WL_SHELL_SURFACE :: WaylandData where
  "DATA_WL_SHELL_SURFACE = \<lparr>
    intf_name = ''wl_shell_surface'',
    evts = [
      \<lparr>meth_name = ''ping'', sig = [Uint], destructor = False\<rparr>,
      \<lparr>meth_name = ''configure'', sig = [Uint, Int_arg, Int_arg], destructor = False\<rparr>,
      \<lparr>meth_name = ''popup_done'', sig = [], destructor = False\<rparr>],
    reqs = [
      \<lparr>meth_name = ''pong'', sig = [Uint], destructor = False\<rparr>,
      \<lparr>meth_name = ''move'', sig = [Object WlSeat, Uint], destructor = False\<rparr>,
      \<lparr>meth_name = ''resize'', sig = [Object WlSeat, Uint, Uint], destructor = False\<rparr>,
      \<lparr>meth_name = ''set_toplevel'', sig = [], destructor = False\<rparr>,
      \<lparr>meth_name = ''set_transient'', sig = [Object WlSurface, Int_arg, Int_arg, Uint], destructor = False\<rparr>,
      \<lparr>meth_name = ''set_fullscreen'', sig = [Uint, Uint, Object WlOutput], destructor = False\<rparr>,
      \<lparr>meth_name = ''set_popup'', sig = [Object WlSeat, Uint, Object WlSurface, Int_arg, Int_arg, Uint], destructor = False\<rparr>,
      \<lparr>meth_name = ''set_maximized'', sig = [Object WlOutput], destructor = False\<rparr>,
      \<lparr>meth_name = ''set_title'', sig = [String], destructor = False\<rparr>,
      \<lparr>meth_name = ''set_class'', sig = [String], destructor = False\<rparr>],
    version = 1\<rparr>"

definition DATA_WL_SURFACE :: WaylandData where
  "DATA_WL_SURFACE = \<lparr>
    intf_name = ''wl_surface'',
    evts = [
      \<lparr>meth_name = ''enter'', sig = [Object WlOutput], destructor = False\<rparr>,
      \<lparr>meth_name = ''leave'', sig = [Object WlOutput], destructor = False\<rparr>,
      \<lparr>meth_name = ''preferred_buffer_scale'', sig = [Int_arg], destructor = False\<rparr>,
      \<lparr>meth_name = ''preferred_buffer_transform'', sig = [Uint], destructor = False\<rparr>],
    reqs = [
      \<lparr>meth_name = ''destroy'', sig = [], destructor = True\<rparr>,
      \<lparr>meth_name = ''attach'', sig = [Object WlBuffer, Int_arg, Int_arg], destructor = False\<rparr>,
      \<lparr>meth_name = ''damage'', sig = [Int_arg, Int_arg, Int_arg, Int_arg], destructor = False\<rparr>,
      \<lparr>meth_name = ''frame'', sig = [NewId WlCallback], destructor = False\<rparr>,
      \<lparr>meth_name = ''set_opaque_region'', sig = [Object WlRegion], destructor = False\<rparr>,
      \<lparr>meth_name = ''set_input_region'', sig = [Object WlRegion], destructor = False\<rparr>,
      \<lparr>meth_name = ''commit'', sig = [], destructor = False\<rparr>,
      \<lparr>meth_name = ''set_buffer_transform'', sig = [Int_arg], destructor = False\<rparr>,
      \<lparr>meth_name = ''set_buffer_scale'', sig = [Int_arg], destructor = False\<rparr>,
      \<lparr>meth_name = ''damage_buffer'', sig = [Int_arg, Int_arg, Int_arg, Int_arg], destructor = False\<rparr>,
      \<lparr>meth_name = ''offset'', sig = [Int_arg, Int_arg], destructor = False\<rparr>],
    version = 6\<rparr>"

definition DATA_WL_SEAT :: WaylandData where
  "DATA_WL_SEAT = \<lparr>
    intf_name = ''wl_seat'',
    evts = [
      \<lparr>meth_name = ''capabilities'', sig = [Uint], destructor = False\<rparr>,
      \<lparr>meth_name = ''name'', sig = [String], destructor = False\<rparr>],
    reqs = [
      \<lparr>meth_name = ''get_pointer'', sig = [NewId WlPointer], destructor = False\<rparr>,
      \<lparr>meth_name = ''get_keyboard'', sig = [NewId WlKeyboard], destructor = False\<rparr>,
      \<lparr>meth_name = ''get_touch'', sig = [NewId WlTouch], destructor = False\<rparr>,
      \<lparr>meth_name = ''release'', sig = [], destructor = True\<rparr>],
    version = 10\<rparr>"

definition DATA_WL_POINTER :: WaylandData where
  "DATA_WL_POINTER = \<lparr>
    intf_name = ''wl_pointer'',
    evts = [
      \<lparr>meth_name = ''enter'', sig = [Uint, Object WlSurface, Fixed, Fixed], destructor = False\<rparr>,
      \<lparr>meth_name = ''leave'', sig = [Uint, Object WlSurface], destructor = False\<rparr>,
      \<lparr>meth_name = ''motion'', sig = [Uint, Fixed, Fixed], destructor = False\<rparr>,
      \<lparr>meth_name = ''button'', sig = [Uint, Uint, Uint, Uint], destructor = False\<rparr>,
      \<lparr>meth_name = ''axis'', sig = [Uint, Uint, Fixed], destructor = False\<rparr>,
      \<lparr>meth_name = ''frame'', sig = [], destructor = False\<rparr>,
      \<lparr>meth_name = ''axis_source'', sig = [Uint], destructor = False\<rparr>,
      \<lparr>meth_name = ''axis_stop'', sig = [Uint, Uint], destructor = False\<rparr>,
      \<lparr>meth_name = ''axis_discrete'', sig = [Uint, Int_arg], destructor = False\<rparr>,
      \<lparr>meth_name = ''axis_value120'', sig = [Uint, Int_arg], destructor = False\<rparr>,
      \<lparr>meth_name = ''axis_relative_direction'', sig = [Uint, Uint], destructor = False\<rparr>],
    reqs = [
      \<lparr>meth_name = ''set_cursor'', sig = [Uint, Object WlSurface, Int_arg, Int_arg], destructor = False\<rparr>,
      \<lparr>meth_name = ''release'', sig = [], destructor = True\<rparr>],
    version = 10\<rparr>"

definition DATA_WL_KEYBOARD :: WaylandData where
  "DATA_WL_KEYBOARD = \<lparr>
    intf_name = ''wl_keyboard'',
    evts = [
      \<lparr>meth_name = ''keymap'', sig = [Uint, Fd, Uint], destructor = False\<rparr>,
      \<lparr>meth_name = ''enter'', sig = [Uint, Object WlSurface, Array], destructor = False\<rparr>,
      \<lparr>meth_name = ''leave'', sig = [Uint, Object WlSurface], destructor = False\<rparr>,
      \<lparr>meth_name = ''key'', sig = [Uint, Uint, Uint, Uint], destructor = False\<rparr>,
      \<lparr>meth_name = ''modifiers'', sig = [Uint, Uint, Uint, Uint, Uint], destructor = False\<rparr>,
      \<lparr>meth_name = ''repeat_info'', sig = [Int_arg, Int_arg], destructor = False\<rparr>],
    reqs = [
      \<lparr>meth_name = ''release'', sig = [], destructor = True\<rparr>],
    version = 10\<rparr>"

definition DATA_WL_TOUCH :: WaylandData where
  "DATA_WL_TOUCH = \<lparr>
    intf_name = ''wl_touch'',
    evts = [
      \<lparr>meth_name = ''down'', sig = [Uint, Uint, Object WlSurface, Int_arg, Fixed, Fixed], destructor = False\<rparr>,
      \<lparr>meth_name = ''up'', sig = [Uint, Uint, Int_arg], destructor = False\<rparr>,
      \<lparr>meth_name = ''motion'', sig = [Uint, Int_arg, Fixed, Fixed], destructor = False\<rparr>,
      \<lparr>meth_name = ''frame'', sig = [], destructor = False\<rparr>,
      \<lparr>meth_name = ''cancel'', sig = [], destructor = False\<rparr>,
      \<lparr>meth_name = ''shape'', sig = [Int_arg, Fixed, Fixed], destructor = False\<rparr>,
      \<lparr>meth_name = ''orientation'', sig = [Int_arg, Fixed], destructor = False\<rparr>],
    reqs = [
      \<lparr>meth_name = ''release'', sig = [], destructor = True\<rparr>],
    version = 10\<rparr>"

definition DATA_WL_OUTPUT :: WaylandData where
  "DATA_WL_OUTPUT = \<lparr>
    intf_name = ''wl_output'',
    evts = [
      \<lparr>meth_name = ''geometry'', sig = [Int_arg, Int_arg, Int_arg, Int_arg, Int_arg, String, String, Int_arg], destructor = False\<rparr>,
      \<lparr>meth_name = ''mode'', sig = [Uint, Int_arg, Int_arg, Int_arg], destructor = False\<rparr>,
      \<lparr>meth_name = ''done'', sig = [], destructor = False\<rparr>,
      \<lparr>meth_name = ''scale'', sig = [Int_arg], destructor = False\<rparr>,
      \<lparr>meth_name = ''name'', sig = [String], destructor = False\<rparr>,
      \<lparr>meth_name = ''description'', sig = [String], destructor = False\<rparr>],
    reqs = [
      \<lparr>meth_name = ''release'', sig = [], destructor = True\<rparr>],
    version = 4\<rparr>"

definition DATA_WL_REGION :: WaylandData where
  "DATA_WL_REGION = \<lparr>
    intf_name = ''wl_region'',
    evts = [],
    reqs = [
      \<lparr>meth_name = ''destroy'', sig = [], destructor = True\<rparr>,
      \<lparr>meth_name = ''add'', sig = [Int_arg, Int_arg, Int_arg, Int_arg], destructor = False\<rparr>,
      \<lparr>meth_name = ''subtract'', sig = [Int_arg, Int_arg, Int_arg, Int_arg], destructor = False\<rparr>],
    version = 1\<rparr>"

definition DATA_WL_SUBCOMPOSITOR :: WaylandData where
  "DATA_WL_SUBCOMPOSITOR = \<lparr>
    intf_name = ''wl_subcompositor'',
    evts = [],
    reqs = [
      \<lparr>meth_name = ''destroy'', sig = [], destructor = True\<rparr>,
      \<lparr>meth_name = ''get_subsurface'', sig = [NewId WlSubsurface, Object WlSurface, Object WlSurface], destructor = False\<rparr>],
    version = 1\<rparr>"

definition DATA_WL_SUBSURFACE :: WaylandData where
  "DATA_WL_SUBSURFACE = \<lparr>
    intf_name = ''wl_subsurface'',
    evts = [],
    reqs = [
      \<lparr>meth_name = ''destroy'', sig = [], destructor = True\<rparr>,
      \<lparr>meth_name = ''set_position'', sig = [Int_arg, Int_arg], destructor = False\<rparr>,
      \<lparr>meth_name = ''place_above'', sig = [Object WlSurface], destructor = False\<rparr>,
      \<lparr>meth_name = ''place_below'', sig = [Object WlSurface], destructor = False\<rparr>,
      \<lparr>meth_name = ''set_sync'', sig = [], destructor = False\<rparr>,
      \<lparr>meth_name = ''set_desync'', sig = [], destructor = False\<rparr>],
    version = 1\<rparr>"

definition DATA_WL_FIXES :: WaylandData where
  "DATA_WL_FIXES = \<lparr>
    intf_name = ''wl_fixes'',
    evts = [],
    reqs = [
      \<lparr>meth_name = ''destroy'', sig = [], destructor = True\<rparr>,
      \<lparr>meth_name = ''destroy_registry'', sig = [Object WlRegistry], destructor = False\<rparr>],
    version = 1\<rparr>"

definition DATA_ZWLR_DATA_CONTROL_MANAGER_V1 :: WaylandData where
  "DATA_ZWLR_DATA_CONTROL_MANAGER_V1 = \<lparr>
    intf_name = ''zwlr_data_control_manager_v1'',
    evts = [],
    reqs = [
      \<lparr>meth_name = ''create_data_source'', sig = [NewId ZwlrDataControlSourceV1], destructor = False\<rparr>,
      \<lparr>meth_name = ''get_data_device'', sig = [NewId ZwlrDataControlDeviceV1, Object WlSeat], destructor = False\<rparr>,
      \<lparr>meth_name = ''destroy'', sig = [], destructor = True\<rparr>],
    version = 2\<rparr>"

definition DATA_ZWLR_DATA_CONTROL_DEVICE_V1 :: WaylandData where
  "DATA_ZWLR_DATA_CONTROL_DEVICE_V1 = \<lparr>
    intf_name = ''zwlr_data_control_device_v1'',
    evts = [
      \<lparr>meth_name = ''data_offer'', sig = [NewId ZwlrDataControlOfferV1], destructor = False\<rparr>,
      \<lparr>meth_name = ''selection'', sig = [Object ZwlrDataControlOfferV1], destructor = False\<rparr>,
      \<lparr>meth_name = ''finished'', sig = [], destructor = False\<rparr>,
      \<lparr>meth_name = ''primary_selection'', sig = [Object ZwlrDataControlOfferV1], destructor = False\<rparr>],
    reqs = [
      \<lparr>meth_name = ''set_selection'', sig = [Object ZwlrDataControlSourceV1], destructor = False\<rparr>,
      \<lparr>meth_name = ''destroy'', sig = [], destructor = True\<rparr>,
      \<lparr>meth_name = ''set_primary_selection'', sig = [Object ZwlrDataControlSourceV1], destructor = False\<rparr>],
    version = 2\<rparr>"

definition DATA_ZWLR_DATA_CONTROL_SOURCE_V1 :: WaylandData where
  "DATA_ZWLR_DATA_CONTROL_SOURCE_V1 = \<lparr>
    intf_name = ''zwlr_data_control_source_v1'',
    evts = [
      \<lparr>meth_name = ''send'', sig = [String, Fd], destructor = False\<rparr>,
      \<lparr>meth_name = ''cancelled'', sig = [], destructor = False\<rparr>],
    reqs = [
      \<lparr>meth_name = ''offer'', sig = [String], destructor = False\<rparr>,
      \<lparr>meth_name = ''destroy'', sig = [], destructor = True\<rparr>],
    version = 1\<rparr>"

definition DATA_ZWLR_DATA_CONTROL_OFFER_V1 :: WaylandData where
  "DATA_ZWLR_DATA_CONTROL_OFFER_V1 = \<lparr>
    intf_name = ''zwlr_data_control_offer_v1'',
    evts = [
      \<lparr>meth_name = ''offer'', sig = [String], destructor = False\<rparr>],
    reqs = [
      \<lparr>meth_name = ''receive'', sig = [String, Fd], destructor = False\<rparr>,
      \<lparr>meth_name = ''destroy'', sig = [], destructor = True\<rparr>],
    version = 1\<rparr>"

definition DATA_ZWLR_EXPORT_DMABUF_MANAGER_V1 :: WaylandData where
  "DATA_ZWLR_EXPORT_DMABUF_MANAGER_V1 = \<lparr>
    intf_name = ''zwlr_export_dmabuf_manager_v1'',
    evts = [],
    reqs = [
      \<lparr>meth_name = ''capture_output'', sig = [NewId ZwlrExportDmabufFrameV1, Int_arg, Object WlOutput], destructor = False\<rparr>,
      \<lparr>meth_name = ''destroy'', sig = [], destructor = True\<rparr>],
    version = 1\<rparr>"

definition DATA_ZWLR_EXPORT_DMABUF_FRAME_V1 :: WaylandData where
  "DATA_ZWLR_EXPORT_DMABUF_FRAME_V1 = \<lparr>
    intf_name = ''zwlr_export_dmabuf_frame_v1'',
    evts = [
      \<lparr>meth_name = ''frame'', sig = [Uint, Uint, Uint, Uint, Uint, Uint, Uint, Uint, Uint, Uint], destructor = False\<rparr>,
      \<lparr>meth_name = ''object'', sig = [Uint, Fd, Uint, Uint, Uint, Uint], destructor = False\<rparr>,
      \<lparr>meth_name = ''ready'', sig = [Uint, Uint, Uint], destructor = False\<rparr>,
      \<lparr>meth_name = ''cancel'', sig = [Uint], destructor = False\<rparr>],
    reqs = [
      \<lparr>meth_name = ''destroy'', sig = [], destructor = True\<rparr>],
    version = 1\<rparr>"

definition DATA_ZWLR_GAMMA_CONTROL_MANAGER_V1 :: WaylandData where
  "DATA_ZWLR_GAMMA_CONTROL_MANAGER_V1 = \<lparr>
    intf_name = ''zwlr_gamma_control_manager_v1'',
    evts = [],
    reqs = [
      \<lparr>meth_name = ''get_gamma_control'', sig = [NewId ZwlrGammaControlV1, Object WlOutput], destructor = False\<rparr>,
      \<lparr>meth_name = ''destroy'', sig = [], destructor = True\<rparr>],
    version = 1\<rparr>"

definition DATA_ZWLR_GAMMA_CONTROL_V1 :: WaylandData where
  "DATA_ZWLR_GAMMA_CONTROL_V1 = \<lparr>
    intf_name = ''zwlr_gamma_control_v1'',
    evts = [
      \<lparr>meth_name = ''gamma_size'', sig = [Uint], destructor = False\<rparr>,
      \<lparr>meth_name = ''failed'', sig = [], destructor = False\<rparr>],
    reqs = [
      \<lparr>meth_name = ''set_gamma'', sig = [Fd], destructor = False\<rparr>,
      \<lparr>meth_name = ''destroy'', sig = [], destructor = True\<rparr>],
    version = 1\<rparr>"

definition DATA_ZWLR_SCREENCOPY_MANAGER_V1 :: WaylandData where
  "DATA_ZWLR_SCREENCOPY_MANAGER_V1 = \<lparr>
    intf_name = ''zwlr_screencopy_manager_v1'',
    evts = [],
    reqs = [
      \<lparr>meth_name = ''capture_output'', sig = [NewId ZwlrScreencopyFrameV1, Int_arg, Object WlOutput], destructor = False\<rparr>,
      \<lparr>meth_name = ''capture_output_region'', sig = [NewId ZwlrScreencopyFrameV1, Int_arg, Object WlOutput, Int_arg, Int_arg, Int_arg, Int_arg], destructor = False\<rparr>,
      \<lparr>meth_name = ''destroy'', sig = [], destructor = True\<rparr>],
    version = 3\<rparr>"

definition DATA_ZWLR_SCREENCOPY_FRAME_V1 :: WaylandData where
  "DATA_ZWLR_SCREENCOPY_FRAME_V1 = \<lparr>
    intf_name = ''zwlr_screencopy_frame_v1'',
    evts = [
      \<lparr>meth_name = ''buffer'', sig = [Uint, Uint, Uint, Uint], destructor = False\<rparr>,
      \<lparr>meth_name = ''flags'', sig = [Uint], destructor = False\<rparr>,
      \<lparr>meth_name = ''ready'', sig = [Uint, Uint, Uint], destructor = False\<rparr>,
      \<lparr>meth_name = ''failed'', sig = [], destructor = False\<rparr>,
      \<lparr>meth_name = ''damage'', sig = [Uint, Uint, Uint, Uint], destructor = False\<rparr>,
      \<lparr>meth_name = ''linux_dmabuf'', sig = [Uint, Uint, Uint], destructor = False\<rparr>,
      \<lparr>meth_name = ''buffer_done'', sig = [], destructor = False\<rparr>],
    reqs = [
      \<lparr>meth_name = ''copy'', sig = [Object WlBuffer], destructor = False\<rparr>,
      \<lparr>meth_name = ''destroy'', sig = [], destructor = True\<rparr>,
      \<lparr>meth_name = ''copy_with_damage'', sig = [Object WlBuffer], destructor = False\<rparr>],
    version = 3\<rparr>"

definition DATA_XDG_WM_BASE :: WaylandData where
  "DATA_XDG_WM_BASE = \<lparr>
    intf_name = ''xdg_wm_base'',
    evts = [
      \<lparr>meth_name = ''ping'', sig = [Uint], destructor = False\<rparr>],
    reqs = [
      \<lparr>meth_name = ''destroy'', sig = [], destructor = True\<rparr>,
      \<lparr>meth_name = ''create_positioner'', sig = [NewId XdgPositioner], destructor = False\<rparr>,
      \<lparr>meth_name = ''get_xdg_surface'', sig = [NewId XdgSurface, Object WlSurface], destructor = False\<rparr>,
      \<lparr>meth_name = ''pong'', sig = [Uint], destructor = False\<rparr>],
    version = 7\<rparr>"

definition DATA_XDG_POSITIONER :: WaylandData where
  "DATA_XDG_POSITIONER = \<lparr>
    intf_name = ''xdg_positioner'',
    evts = [],
    reqs = [
      \<lparr>meth_name = ''destroy'', sig = [], destructor = True\<rparr>,
      \<lparr>meth_name = ''set_size'', sig = [Int_arg, Int_arg], destructor = False\<rparr>,
      \<lparr>meth_name = ''set_anchor_rect'', sig = [Int_arg, Int_arg, Int_arg, Int_arg], destructor = False\<rparr>,
      \<lparr>meth_name = ''set_anchor'', sig = [Uint], destructor = False\<rparr>,
      \<lparr>meth_name = ''set_gravity'', sig = [Uint], destructor = False\<rparr>,
      \<lparr>meth_name = ''set_constraint_adjustment'', sig = [Uint], destructor = False\<rparr>,
      \<lparr>meth_name = ''set_offset'', sig = [Int_arg, Int_arg], destructor = False\<rparr>,
      \<lparr>meth_name = ''set_reactive'', sig = [], destructor = False\<rparr>,
      \<lparr>meth_name = ''set_parent_size'', sig = [Int_arg, Int_arg], destructor = False\<rparr>,
      \<lparr>meth_name = ''set_parent_configure'', sig = [Uint], destructor = False\<rparr>],
    version = 7\<rparr>"

definition DATA_XDG_SURFACE :: WaylandData where
  "DATA_XDG_SURFACE = \<lparr>
    intf_name = ''xdg_surface'',
    evts = [
      \<lparr>meth_name = ''configure'', sig = [Uint], destructor = False\<rparr>],
    reqs = [
      \<lparr>meth_name = ''destroy'', sig = [], destructor = True\<rparr>,
      \<lparr>meth_name = ''get_toplevel'', sig = [NewId XdgToplevel], destructor = False\<rparr>,
      \<lparr>meth_name = ''get_popup'', sig = [NewId XdgPopup, Object XdgSurface, Object XdgPositioner], destructor = False\<rparr>,
      \<lparr>meth_name = ''set_window_geometry'', sig = [Int_arg, Int_arg, Int_arg, Int_arg], destructor = False\<rparr>,
      \<lparr>meth_name = ''ack_configure'', sig = [Uint], destructor = False\<rparr>],
    version = 7\<rparr>"

definition DATA_XDG_TOPLEVEL :: WaylandData where
  "DATA_XDG_TOPLEVEL = \<lparr>
    intf_name = ''xdg_toplevel'',
    evts = [
      \<lparr>meth_name = ''configure'', sig = [Int_arg, Int_arg, Array], destructor = False\<rparr>,
      \<lparr>meth_name = ''close'', sig = [], destructor = False\<rparr>,
      \<lparr>meth_name = ''configure_bounds'', sig = [Int_arg, Int_arg], destructor = False\<rparr>,
      \<lparr>meth_name = ''wm_capabilities'', sig = [Array], destructor = False\<rparr>],
    reqs = [
      \<lparr>meth_name = ''destroy'', sig = [], destructor = True\<rparr>,
      \<lparr>meth_name = ''set_parent'', sig = [Object XdgToplevel], destructor = False\<rparr>,
      \<lparr>meth_name = ''set_title'', sig = [String], destructor = False\<rparr>,
      \<lparr>meth_name = ''set_app_id'', sig = [String], destructor = False\<rparr>,
      \<lparr>meth_name = ''show_window_menu'', sig = [Object WlSeat, Uint, Int_arg, Int_arg], destructor = False\<rparr>,
      \<lparr>meth_name = ''move'', sig = [Object WlSeat, Uint], destructor = False\<rparr>,
      \<lparr>meth_name = ''resize'', sig = [Object WlSeat, Uint, Uint], destructor = False\<rparr>,
      \<lparr>meth_name = ''set_max_size'', sig = [Int_arg, Int_arg], destructor = False\<rparr>,
      \<lparr>meth_name = ''set_min_size'', sig = [Int_arg, Int_arg], destructor = False\<rparr>,
      \<lparr>meth_name = ''set_maximized'', sig = [], destructor = False\<rparr>,
      \<lparr>meth_name = ''unset_maximized'', sig = [], destructor = False\<rparr>,
      \<lparr>meth_name = ''set_fullscreen'', sig = [Object WlOutput], destructor = False\<rparr>,
      \<lparr>meth_name = ''unset_fullscreen'', sig = [], destructor = False\<rparr>,
      \<lparr>meth_name = ''set_minimized'', sig = [], destructor = False\<rparr>],
    version = 7\<rparr>"

definition DATA_XDG_POPUP :: WaylandData where
  "DATA_XDG_POPUP = \<lparr>
    intf_name = ''xdg_popup'',
    evts = [
      \<lparr>meth_name = ''configure'', sig = [Int_arg, Int_arg, Int_arg, Int_arg], destructor = False\<rparr>,
      \<lparr>meth_name = ''popup_done'', sig = [], destructor = False\<rparr>,
      \<lparr>meth_name = ''repositioned'', sig = [Uint], destructor = False\<rparr>],
    reqs = [
      \<lparr>meth_name = ''destroy'', sig = [], destructor = True\<rparr>,
      \<lparr>meth_name = ''grab'', sig = [Object WlSeat, Uint], destructor = False\<rparr>,
      \<lparr>meth_name = ''reposition'', sig = [Object XdgPositioner, Uint], destructor = False\<rparr>],
    version = 7\<rparr>"

definition DATA_XDG_TOPLEVEL_ICON_MANAGER_V1 :: WaylandData where
  "DATA_XDG_TOPLEVEL_ICON_MANAGER_V1 = \<lparr>
    intf_name = ''xdg_toplevel_icon_manager_v1'',
    evts = [
      \<lparr>meth_name = ''icon_size'', sig = [Int_arg], destructor = False\<rparr>,
      \<lparr>meth_name = ''done'', sig = [], destructor = False\<rparr>],
    reqs = [
      \<lparr>meth_name = ''destroy'', sig = [], destructor = True\<rparr>,
      \<lparr>meth_name = ''create_icon'', sig = [NewId XdgToplevelIconV1], destructor = False\<rparr>,
      \<lparr>meth_name = ''set_icon'', sig = [Object XdgToplevel, Object XdgToplevelIconV1], destructor = False\<rparr>],
    version = 1\<rparr>"

definition DATA_XDG_TOPLEVEL_ICON_V1 :: WaylandData where
  "DATA_XDG_TOPLEVEL_ICON_V1 = \<lparr>
    intf_name = ''xdg_toplevel_icon_v1'',
    evts = [],
    reqs = [
      \<lparr>meth_name = ''destroy'', sig = [], destructor = True\<rparr>,
      \<lparr>meth_name = ''set_name'', sig = [String], destructor = False\<rparr>,
      \<lparr>meth_name = ''add_buffer'', sig = [Object WlBuffer, Int_arg], destructor = False\<rparr>],
    version = 1\<rparr>"

definition INTERFACE_TABLE :: "WaylandData list" where
  "INTERFACE_TABLE =
    [DATA_EXT_DATA_CONTROL_DEVICE_V1, DATA_EXT_DATA_CONTROL_MANAGER_V1, DATA_EXT_DATA_CONTROL_OFFER_V1,
     DATA_EXT_DATA_CONTROL_SOURCE_V1, DATA_EXT_FOREIGN_TOPLEVEL_HANDLE_V1,
     DATA_EXT_FOREIGN_TOPLEVEL_IMAGE_CAPTURE_SOURCE_MANAGER_V1, DATA_EXT_FOREIGN_TOPLEVEL_LIST_V1,
     DATA_EXT_IMAGE_CAPTURE_SOURCE_V1, DATA_EXT_IMAGE_COPY_CAPTURE_CURSOR_SESSION_V1,
     DATA_EXT_IMAGE_COPY_CAPTURE_FRAME_V1, DATA_EXT_IMAGE_COPY_CAPTURE_MANAGER_V1,
     DATA_EXT_IMAGE_COPY_CAPTURE_SESSION_V1, DATA_EXT_OUTPUT_IMAGE_CAPTURE_SOURCE_MANAGER_V1,
     DATA_GTK_PRIMARY_SELECTION_DEVICE, DATA_GTK_PRIMARY_SELECTION_DEVICE_MANAGER,
     DATA_GTK_PRIMARY_SELECTION_OFFER, DATA_GTK_PRIMARY_SELECTION_SOURCE, DATA_WL_BUFFER, DATA_WL_CALLBACK,
     DATA_WL_COMPOSITOR, DATA_WL_DATA_DEVICE, DATA_WL_DATA_DEVICE_MANAGER, DATA_WL_DATA_OFFER,
     DATA_WL_DATA_SOURCE, DATA_WL_DISPLAY, DATA_WL_DRM, DATA_WL_FIXES, DATA_WL_KEYBOARD, DATA_WL_OUTPUT,
     DATA_WL_POINTER, DATA_WL_REGION, DATA_WL_REGISTRY, DATA_WL_SEAT, DATA_WL_SHELL, DATA_WL_SHELL_SURFACE,
     DATA_WL_SHM, DATA_WL_SHM_POOL, DATA_WL_SUBCOMPOSITOR, DATA_WL_SUBSURFACE, DATA_WL_SURFACE,
     DATA_WL_TOUCH, DATA_WP_COLOR_MANAGEMENT_OUTPUT_V1, DATA_WP_COLOR_MANAGEMENT_SURFACE_FEEDBACK_V1,
     DATA_WP_COLOR_MANAGEMENT_SURFACE_V1, DATA_WP_COLOR_MANAGER_V1, DATA_WP_COMMIT_TIMER_V1,
     DATA_WP_COMMIT_TIMING_MANAGER_V1, DATA_WP_IMAGE_DESCRIPTION_CREATOR_ICC_V1,
     DATA_WP_IMAGE_DESCRIPTION_CREATOR_PARAMS_V1, DATA_WP_IMAGE_DESCRIPTION_INFO_V1,
     DATA_WP_IMAGE_DESCRIPTION_REFERENCE_V1, DATA_WP_IMAGE_DESCRIPTION_V1,
     DATA_WP_LINUX_DRM_SYNCOBJ_MANAGER_V1, DATA_WP_LINUX_DRM_SYNCOBJ_SURFACE_V1,
     DATA_WP_LINUX_DRM_SYNCOBJ_TIMELINE_V1, DATA_WP_PRESENTATION, DATA_WP_PRESENTATION_FEEDBACK,
     DATA_WP_SECURITY_CONTEXT_MANAGER_V1, DATA_WP_SECURITY_CONTEXT_V1, DATA_WP_VIEWPORT, DATA_WP_VIEWPORTER,
     DATA_XDG_POPUP, DATA_XDG_POSITIONER, DATA_XDG_SURFACE, DATA_XDG_TOPLEVEL,
     DATA_XDG_TOPLEVEL_ICON_MANAGER_V1, DATA_XDG_TOPLEVEL_ICON_V1, DATA_XDG_WM_BASE,
     DATA_ZWLR_DATA_CONTROL_DEVICE_V1, DATA_ZWLR_DATA_CONTROL_MANAGER_V1, DATA_ZWLR_DATA_CONTROL_OFFER_V1,
     DATA_ZWLR_DATA_CONTROL_SOURCE_V1, DATA_ZWLR_EXPORT_DMABUF_FRAME_V1, DATA_ZWLR_EXPORT_DMABUF_MANAGER_V1,
     DATA_ZWLR_GAMMA_CONTROL_MANAGER_V1, DATA_ZWLR_GAMMA_CONTROL_V1, DATA_ZWLR_SCREENCOPY_FRAME_V1,
     DATA_ZWLR_SCREENCOPY_MANAGER_V1, DATA_ZWP_INPUT_METHOD_KEYBOARD_GRAB_V2,
     DATA_ZWP_INPUT_METHOD_MANAGER_V2, DATA_ZWP_INPUT_METHOD_V2, DATA_ZWP_INPUT_POPUP_SURFACE_V2,
     DATA_ZWP_LINUX_BUFFER_PARAMS_V1, DATA_ZWP_LINUX_DMABUF_FEEDBACK_V1, DATA_ZWP_LINUX_DMABUF_V1,
     DATA_ZWP_PRIMARY_SELECTION_DEVICE_MANAGER_V1, DATA_ZWP_PRIMARY_SELECTION_DEVICE_V1,
     DATA_ZWP_PRIMARY_SELECTION_OFFER_V1, DATA_ZWP_PRIMARY_SELECTION_SOURCE_V1,
     DATA_ZWP_VIRTUAL_KEYBOARD_MANAGER_V1, DATA_ZWP_VIRTUAL_KEYBOARD_V1]"

lemmas data_defs =
  DATA_EXT_DATA_CONTROL_DEVICE_V1_def DATA_EXT_DATA_CONTROL_MANAGER_V1_def
  DATA_EXT_DATA_CONTROL_OFFER_V1_def DATA_EXT_DATA_CONTROL_SOURCE_V1_def
  DATA_EXT_FOREIGN_TOPLEVEL_HANDLE_V1_def DATA_EXT_FOREIGN_TOPLEVEL_IMAGE_CAPTURE_SOURCE_MANAGER_V1_def
  DATA_EXT_FOREIGN_TOPLEVEL_LIST_V1_def DATA_EXT_IMAGE_CAPTURE_SOURCE_V1_def
  DATA_EXT_IMAGE_COPY_CAPTURE_CURSOR_SESSION_V1_def DATA_EXT_IMAGE_COPY_CAPTURE_FRAME_V1_def
  DATA_EXT_IMAGE_COPY_CAPTURE_MANAGER_V1_def DATA_EXT_IMAGE_COPY_CAPTURE_SESSION_V1_def
  DATA_EXT_OUTPUT_IMAGE_CAPTURE_SOURCE_MANAGER_V1_def DATA_GTK_PRIMARY_SELECTION_DEVICE_def
  DATA_GTK_PRIMARY_SELECTION_DEVICE_MANAGER_def DATA_GTK_PRIMARY_SELECTION_OFFER_def
  DATA_GTK_PRIMARY_SELECTION_SOURCE_def DATA_WL_BUFFER_def DATA_WL_CALLBACK_def DATA_WL_COMPOSITOR_def
  DATA_WL_DATA_DEVICE_def DATA_WL_DATA_DEVICE_MANAGER_def DATA_WL_DATA_OFFER_def DATA_WL_DATA_SOURCE_def
  DATA_WL_DISPLAY_def DATA_WL_DRM_def DATA_WL_FIXES_def DATA_WL_KEYBOARD_def DATA_WL_OUTPUT_def
  DATA_WL_POINTER_def DATA_WL_REGION_def DATA_WL_REGISTRY_def DATA_WL_SEAT_def DATA_WL_SHELL_def
  DATA_WL_SHELL_SURFACE_def DATA_WL_SHM_def DATA_WL_SHM_POOL_def DATA_WL_SUBCOMPOSITOR_def
  DATA_WL_SUBSURFACE_def DATA_WL_SURFACE_def DATA_WL_TOUCH_def DATA_WP_COLOR_MANAGEMENT_OUTPUT_V1_def
  DATA_WP_COLOR_MANAGEMENT_SURFACE_FEEDBACK_V1_def DATA_WP_COLOR_MANAGEMENT_SURFACE_V1_def
  DATA_WP_COLOR_MANAGER_V1_def DATA_WP_COMMIT_TIMER_V1_def DATA_WP_COMMIT_TIMING_MANAGER_V1_def
  DATA_WP_IMAGE_DESCRIPTION_CREATOR_ICC_V1_def DATA_WP_IMAGE_DESCRIPTION_CREATOR_PARAMS_V1_def
  DATA_WP_IMAGE_DESCRIPTION_INFO_V1_def DATA_WP_IMAGE_DESCRIPTION_REFERENCE_V1_def
  DATA_WP_IMAGE_DESCRIPTION_V1_def DATA_WP_LINUX_DRM_SYNCOBJ_MANAGER_V1_def
  DATA_WP_LINUX_DRM_SYNCOBJ_SURFACE_V1_def DATA_WP_LINUX_DRM_SYNCOBJ_TIMELINE_V1_def
  DATA_WP_PRESENTATION_def DATA_WP_PRESENTATION_FEEDBACK_def DATA_WP_SECURITY_CONTEXT_MANAGER_V1_def
  DATA_WP_SECURITY_CONTEXT_V1_def DATA_WP_VIEWPORT_def DATA_WP_VIEWPORTER_def DATA_XDG_POPUP_def
  DATA_XDG_POSITIONER_def DATA_XDG_SURFACE_def DATA_XDG_TOPLEVEL_def
  DATA_XDG_TOPLEVEL_ICON_MANAGER_V1_def DATA_XDG_TOPLEVEL_ICON_V1_def DATA_XDG_WM_BASE_def
  DATA_ZWLR_DATA_CONTROL_DEVICE_V1_def DATA_ZWLR_DATA_CONTROL_MANAGER_V1_def
  DATA_ZWLR_DATA_CONTROL_OFFER_V1_def DATA_ZWLR_DATA_CONTROL_SOURCE_V1_def
  DATA_ZWLR_EXPORT_DMABUF_FRAME_V1_def DATA_ZWLR_EXPORT_DMABUF_MANAGER_V1_def
  DATA_ZWLR_GAMMA_CONTROL_MANAGER_V1_def DATA_ZWLR_GAMMA_CONTROL_V1_def DATA_ZWLR_SCREENCOPY_FRAME_V1_def
  DATA_ZWLR_SCREENCOPY_MANAGER_V1_def DATA_ZWP_INPUT_METHOD_KEYBOARD_GRAB_V2_def
  DATA_ZWP_INPUT_METHOD_MANAGER_V2_def DATA_ZWP_INPUT_METHOD_V2_def DATA_ZWP_INPUT_POPUP_SURFACE_V2_def
  DATA_ZWP_LINUX_BUFFER_PARAMS_V1_def DATA_ZWP_LINUX_DMABUF_FEEDBACK_V1_def DATA_ZWP_LINUX_DMABUF_V1_def
  DATA_ZWP_PRIMARY_SELECTION_DEVICE_MANAGER_V1_def DATA_ZWP_PRIMARY_SELECTION_DEVICE_V1_def
  DATA_ZWP_PRIMARY_SELECTION_OFFER_V1_def DATA_ZWP_PRIMARY_SELECTION_SOURCE_V1_def
  DATA_ZWP_VIRTUAL_KEYBOARD_MANAGER_V1_def DATA_ZWP_VIRTUAL_KEYBOARD_V1_def

end
