(* ===== verification/Protocol_Lookup.thy ===== *)
theory Protocol_Lookup
  imports Protocol_Tables
begin

text \<open>
  Looking up an interface by its name (\<open>lookup_intf_by_name\<close> of src/wayland.rs): the binary
  search of the standard library over the interface table. The search is correct because the
  table is sorted by name, and the enumeration indexes the table; both are shown here for the
  tables of theory \<open>Protocol_Tables\<close>.
\<close>

section \<open>Ordered search\<close>

datatype Ordering = Less | Equal | Greater

text \<open>\<open>Ord::cmp\<close> on byte slices is lexicographic.\<close>

fun cmp :: "bytes \<Rightarrow> bytes \<Rightarrow> Ordering" where
  "cmp [] [] = Equal"
| "cmp [] (b # bs) = Less"
| "cmp (a # as) [] = Greater"
| "cmp (a # as) (b # bs) = (if a < b then Less else if b < a then Greater else cmp as bs)"

text \<open>\<open>slice::binary_search_by\<close>: the index of a match, or the place where one would be inserted.\<close>

function search_base :: "('a \<Rightarrow> Ordering) \<Rightarrow> 'a list \<Rightarrow> nat \<Rightarrow> nat \<Rightarrow> nat" where
  "search_base f xs base sz =
     (if sz > 1 then
        let half = sz div 2; mid = base + half in
        search_base f xs (if f (xs ! mid) = Greater then base else mid) (sz - half)
      else base)"
  by pat_completeness auto
termination by (relation "measure (\<lambda>(f, xs, base, sz). sz)") auto

declare search_base.simps [simp del]

definition binary_search_by :: "('a \<Rightarrow> Ordering) \<Rightarrow> 'a list \<Rightarrow> nat + nat" where
  "binary_search_by f xs =
     (if xs = [] then Inl 0
      else
        let base = search_base f xs 0 (length xs) in
        case f (xs ! base) of Equal \<Rightarrow> Inr base | Less \<Rightarrow> Inl (base + 1) | Greater \<Rightarrow> Inl base)"

definition as_bytes :: "string \<Rightarrow> bytes" where
  "as_bytes s = map of_char s"

definition lookup_intf_by_name :: "bytes \<Rightarrow> WaylandInterface option res" where
  "lookup_intf_by_name name =
     (case binary_search_by (\<lambda>cand_intf. cmp (as_bytes (intf_name cand_intf)) name) INTERFACE_TABLE of
        Inr idx \<Rightarrow> (case try_from idx of Some t \<Rightarrow> Ok (Some t) | None \<Rightarrow> panic)
      | Inl _ \<Rightarrow> Ok None)"

section \<open>Correctness of the search\<close>

lemma cmp_refl [simp]: "cmp a a = Equal"
  by (induction a) auto

lemma cmp_Equal_iff: "cmp a b = Equal \<longleftrightarrow> a = b"
  by (induction a b rule: cmp.induct) auto

lemma cmp_Greater_iff: "cmp a b = Greater \<longleftrightarrow> cmp b a = Less"
  by (induction a b rule: cmp.induct) auto

lemma cmp_Less_trans: "cmp a b = Less \<Longrightarrow> cmp b c = Less \<Longrightarrow> cmp a c = Less"
proof (induction a b arbitrary: c rule: cmp.induct)
  case (2 b bs)
  then show ?case by (cases c) auto
next
  case (4 a as b bs)
  then show ?case by (cases c) (auto split: if_splits)
qed auto

definition strictly_sorted :: "bytes list \<Rightarrow> bool" where
  "strictly_sorted ks \<longleftrightarrow> sorted_wrt (\<lambda>a b. cmp a b = Less) ks"

fun ascending :: "bytes list \<Rightarrow> bool" where
  "ascending (a # b # ks) \<longleftrightarrow> cmp a b = Less \<and> ascending (b # ks)"
| "ascending _ \<longleftrightarrow> True"

lemma ascending_sorted: "ascending ks \<Longrightarrow> strictly_sorted ks"
proof (induction ks rule: ascending.induct)
  case (1 a b ks)
  then show ?case by (auto simp: strictly_sorted_def intro: cmp_Less_trans)
qed (auto simp: strictly_sorted_def)

lemma sorted_cmp_nth:
  assumes "strictly_sorted (map key xs)" and "i < length xs" and "j < length xs"
  shows "cmp (key (xs ! i)) (key (xs ! j)) = (if i < j then Less else if j < i then Greater else Equal)"
proof -
  have "cmp (key (xs ! i)) (key (xs ! j)) = Less" if "i < j" "j < length xs" for i j
    using assms(1) that sorted_wrt_nth_less [of _ "map key xs" i j] by (simp add: strictly_sorted_def)
  with assms(2,3) show ?thesis by (auto simp: cmp_Greater_iff cmp_Equal_iff not_less_iff_gr_or_eq)
qed

lemma search_base_spec:
  assumes "strictly_sorted (map key xs)" and "k < length xs" and "base \<le> k" and "k < base + sz"
    and "base + sz \<le> length xs"
  shows "search_base (\<lambda>x. cmp (key x) (key (xs ! k))) xs base sz = k"
  using assms(3-5)
proof (induction sz arbitrary: base rule: less_induct)
  case (less sz)
  show ?case
  proof (cases "sz > 1")
    case True
    let ?mid = "base + sz div 2"
    have "cmp (key (xs ! ?mid)) (key (xs ! k)) = (if ?mid < k then Less else if k < ?mid then Greater else Equal)"
      using sorted_cmp_nth [OF assms(1), of ?mid k] less.prems True assms(2) by simp
    then have eq: "search_base (\<lambda>x. cmp (key x) (key (xs ! k))) xs base sz =
        search_base (\<lambda>x. cmp (key x) (key (xs ! k))) xs (if k < ?mid then base else ?mid) (sz - sz div 2)"
      using True by (subst search_base.simps) (simp add: Let_def)
    show ?thesis unfolding eq using True less.prems by (intro less.IH) auto
  next
    case False
    then show ?thesis using less.prems by (subst search_base.simps) simp
  qed
qed

lemma search_base_less: "0 < sz \<Longrightarrow> search_base f xs base sz < base + sz"
proof (induction f xs base sz rule: search_base.induct)
  case (1 f xs base sz)
  then show ?case
    by (subst search_base.simps) (auto simp: Let_def split: if_splits, force+)
qed

text \<open>On a list sorted by a key, the search finds the element with the given key or reports that there is none.\<close>

lemma binary_search_by_key:
  assumes "strictly_sorted (map key xs)"
  shows "(binary_search_by (\<lambda>x. cmp (key x) k) xs = Inr i) \<longleftrightarrow> (i < length xs \<and> key (xs ! i) = k)"
proof
  assume "binary_search_by (\<lambda>x. cmp (key x) k) xs = Inr i"
  then show "i < length xs \<and> key (xs ! i) = k"
    using search_base_less [of "length xs" "\<lambda>x. cmp (key x) k" xs 0]
    by (auto simp: binary_search_by_def Let_def cmp_Equal_iff split: if_splits Ordering.splits)
next
  assume *: "i < length xs \<and> key (xs ! i) = k"
  then have "search_base (\<lambda>x. cmp (key x) k) xs 0 (length xs) = i"
    using search_base_spec [OF assms, of i 0 "length xs"] by simp
  with * show "binary_search_by (\<lambda>x. cmp (key x) k) xs = Inr i"
    by (auto simp: binary_search_by_def)
qed

section \<open>The tables\<close>

lemma length_tables: "length WAYLANDINTERFACE_LIST = 91" "length INTERFACE_TABLE = 91"
  by (simp_all add: WAYLANDINTERFACE_LIST_def INTERFACE_TABLE_def)

lemma interface_index_less: "interface_index t < 91"
  by (cases t) simp_all

lemma list_index: "WAYLANDINTERFACE_LIST ! interface_index t = t"
  by (cases t) (simp_all add: WAYLANDINTERFACE_LIST_def)

lemma index_list: "map interface_index WAYLANDINTERFACE_LIST = [0..<91]"
  by (simp add: WAYLANDINTERFACE_LIST_def upt_rec)

lemma table_ascending: "ascending (map (\<lambda>d. as_bytes (intf_name d)) INTERFACE_TABLE)"
  unfolding INTERFACE_TABLE_def list.map data_defs WaylandData.simps
  by (simp add: as_bytes_def)

instantiation WaylandInterface :: equal
begin
definition equal_WaylandInterface :: "WaylandInterface \<Rightarrow> WaylandInterface \<Rightarrow> bool" where
  "equal_WaylandInterface s t \<longleftrightarrow> interface_index s = interface_index t"
instance
  by intro_classes (metis equal_WaylandInterface_def list_index)
end

lemma index_of_list: "i < 91 \<Longrightarrow> interface_index (WAYLANDINTERFACE_LIST ! i) = i"
  using arg_cong [OF index_list, of "\<lambda>xs. xs ! i"] by (simp add: length_tables)

text \<open>
  C24: an interface is found by its name and by nothing else: the lookup never panics, and it
  returns an interface exactly when the entry of the table at the index of that interface has
  the name that was looked up.
\<close>

theorem lookup_intf_by_name_correct:
  "(\<exists>r. lookup_intf_by_name name = Ok r) \<and>
   (lookup_intf_by_name name = Ok (Some t) \<longleftrightarrow> as_bytes (intf_name (INTERFACE_TABLE ! interface_index t)) = name)"
proof -
  let ?key = "\<lambda>d. as_bytes (intf_name d)"
  note search = binary_search_by_key [OF ascending_sorted [OF table_ascending], of name, unfolded length_tables]
  show ?thesis
  proof (cases "binary_search_by (\<lambda>d. cmp (?key d) name) INTERFACE_TABLE")
    case (Inl p)
    with search [of "interface_index t"] interface_index_less [of t] show ?thesis
      by (auto simp: lookup_intf_by_name_def)
  next
    case (Inr i)
    with search [of i] have i: "i < 91" "?key (INTERFACE_TABLE ! i) = name" by auto
    then have l: "lookup_intf_by_name name = Ok (Some (WAYLANDINTERFACE_LIST ! i))"
      using Inr by (simp add: lookup_intf_by_name_def try_from_def length_tables)
    have "WAYLANDINTERFACE_LIST ! i = t" if "?key (INTERFACE_TABLE ! interface_index t) = name"
      using search [of "interface_index t"] that interface_index_less [of t] Inr list_index [of t] by auto
    with l i index_of_list [of i] show ?thesis by auto
  qed
qed

end
