(* ===== verification/Protocol_Codec.thy ===== *)
theory Protocol_Codec
  imports Protocol_Tables
begin

text \<open>
  The reference codec of Wayland messages: writing and parsing a message as its signature in
  the protocol table says, argument by argument. The functions that the protocol generator
  specialises for each message are compared with it in theory \<open>Protocol_Messages\<close>.
\<close>

section \<open>Values of a signature\<close>

datatype wl_value =
    VInt int | VUint u32 | VString bytes | VOptString "bytes option" | VObj ObjId
  | VNewId bytes u32 ObjId | VArray bytes | VFd

text \<open>\<open>msg.get(8..).ok_or(PARSE_ERROR)?\<close> and \<open>parse_string(&mut msg)?.ok_or(PARSE_ERROR)?\<close>.\<close>

definition get_from :: "bytes \<Rightarrow> nat \<Rightarrow> bytes res" where
  "get_from msg a = ok_or (if a \<le> length msg then Some (drop a msg) else None) (Err PARSE_ERROR)"

definition parse_str :: "bytes \<Rightarrow> (bytes \<times> bytes) res" where
  "parse_str msg = rbind (parse_string msg) (\<lambda>(s, msg). rbind (ok_or s (Err PARSE_ERROR)) (\<lambda>s. Ok (s, msg)))"

definition write_str :: "cursor \<Rightarrow> bytes \<Rightarrow> cursor res" where
  "write_str c s = write_string c (Some s)"

fun parse_value :: "WaylandArgument \<Rightarrow> bytes \<Rightarrow> (wl_value \<times> bytes) res" where
  "parse_value Int_arg msg = rbind (parse_i32 msg) (\<lambda>(v, msg). Ok (VInt v, msg))"
| "parse_value Fixed msg = rbind (parse_i32 msg) (\<lambda>(v, msg). Ok (VInt v, msg))"
| "parse_value Uint msg = rbind (parse_u32 msg) (\<lambda>(v, msg). Ok (VUint v, msg))"
| "parse_value String msg = rbind (parse_str msg) (\<lambda>(v, msg). Ok (VString v, msg))"
| "parse_value OptionalString msg = rbind (parse_string msg) (\<lambda>(v, msg). Ok (VOptString v, msg))"
| "parse_value (Object t) msg = rbind (parse_obj msg) (\<lambda>(v, msg). Ok (VObj v, msg))"
| "parse_value GenericObject msg = rbind (parse_obj msg) (\<lambda>(v, msg). Ok (VObj v, msg))"
| "parse_value (NewId t) msg = rbind (parse_obj msg) (\<lambda>(v, msg). Ok (VObj v, msg))"
| "parse_value GenericNewId msg =
     rbind (parse_pair parse_str (parse_pair parse_u32 parse_obj) msg) (\<lambda>((n, v, i), msg). Ok (VNewId n v i, msg))"
| "parse_value Array msg = rbind (parse_array msg) (\<lambda>(v, msg). Ok (VArray v, msg))"
| "parse_value Fd msg = Ok (VFd, msg)"

fun parse_values :: "WaylandArgument list \<Rightarrow> bytes \<Rightarrow> (wl_value list \<times> bytes) res" where
  "parse_values [] msg = Ok ([], msg)"
| "parse_values (a # as) msg =
     rbind (parse_value a msg) (\<lambda>(v, msg). rbind (parse_values as msg) (\<lambda>(vs, msg). Ok (v # vs, msg)))"

definition parse_sig :: "WaylandArgument list \<Rightarrow> bytes \<Rightarrow> wl_value list res" where
  "parse_sig as msg =
     rbind (get_from msg 8) (\<lambda>msg. rbind (parse_values as msg) (\<lambda>(vs, msg).
       if msg \<noteq> [] then fail PARSE_ERROR else Ok vs))"

primrec write_value :: "cursor \<Rightarrow> wl_value \<Rightarrow> cursor res" where
  "write_value c (VInt i) = write_i32 c i"
| "write_value c (VUint w) = write_u32 c w"
| "write_value c (VString s) = write_str c s"
| "write_value c (VOptString os) = write_string c os"
| "write_value c (VObj i) = write_obj c i"
| "write_value c (VNewId n v i) = write_pair write_str (write_pair write_u32 write_obj) c (n, v, i)"
| "write_value c (VArray s) = write_array c s"
| "write_value c VFd = Ok c"

primrec length_value :: "wl_value \<Rightarrow> nat" where
  "length_value (VInt i) = 4"
| "length_value (VUint w) = 4"
| "length_value (VString s) = length_string (length s)"
| "length_value (VOptString os) = (case os of None \<Rightarrow> 4 | Some s \<Rightarrow> length_string (length s))"
| "length_value (VObj i) = 4"
| "length_value (VNewId n v i) = length_string (length n) + 8"
| "length_value (VArray s) = length_array (length s)"
| "length_value VFd = 0"

fun write_values :: "cursor \<Rightarrow> wl_value list \<Rightarrow> cursor res" where
  "write_values c [] = Ok c"
| "write_values c [v] = write_value c v"
| "write_values c (v # vs) = rbind (write_value c v) (\<lambda>c. write_values c vs)"

definition write_sig :: "cursor \<Rightarrow> ObjId \<Rightarrow> nat \<Rightarrow> nat \<Rightarrow> wl_value list \<Rightarrow> cursor res" where
  "write_sig c for_id opcode ntagfds vs =
     rbind (usize (8 + sum_list (map length_value vs))) (\<lambda>l.
     rbind (write_header c for_id l opcode ntagfds) (\<lambda>c. write_values c vs))"

primrec valid_value :: "WaylandArgument \<Rightarrow> wl_value \<Rightarrow> bool" where
  "valid_value Int_arg v = (case v of VInt i \<Rightarrow> is_i32 i | _ \<Rightarrow> False)"
| "valid_value Fixed v = (case v of VInt i \<Rightarrow> is_i32 i | _ \<Rightarrow> False)"
| "valid_value Uint v = (case v of VUint w \<Rightarrow> True | _ \<Rightarrow> False)"
| "valid_value String v = (case v of VString s \<Rightarrow> valid_string (Some s) | _ \<Rightarrow> False)"
| "valid_value OptionalString v = (case v of VOptString os \<Rightarrow> valid_string os | _ \<Rightarrow> False)"
| "valid_value (Object t) v = (case v of VObj i \<Rightarrow> True | _ \<Rightarrow> False)"
| "valid_value GenericObject v = (case v of VObj i \<Rightarrow> True | _ \<Rightarrow> False)"
| "valid_value (NewId t) v = (case v of VObj i \<Rightarrow> True | _ \<Rightarrow> False)"
| "valid_value GenericNewId v = (case v of VNewId s w i \<Rightarrow> valid_string (Some s) | _ \<Rightarrow> False)"
| "valid_value Array v = (case v of VArray s \<Rightarrow> length s < 2 ^ 32 | _ \<Rightarrow> False)"
| "valid_value Fd v = (case v of VFd \<Rightarrow> True | _ \<Rightarrow> False)"

definition valid_values :: "WaylandArgument list \<Rightarrow> wl_value list \<Rightarrow> bool" where
  "valid_values = list_all2 valid_value"

section \<open>Strings that are not null, and typed new objects\<close>

definition enc_str :: "bytes \<Rightarrow> bytes" where
  "enc_str s = enc_string (Some s)"

interpretation arg_str: wire_arg write_str parse_str enc_str "\<lambda>s. valid_string (Some s)"
proof unfold_locales
  fix bs :: bytes and x rest
  show "parse_str bs \<noteq> panic"
    using arg_string.parse_no_panic [of bs]
    by (auto simp: parse_str_def rbind_eq_Inl_iff ok_or_def split: option.splits)
  show "parse_str bs = Inr (x, rest) \<Longrightarrow> \<exists>pre. bs = pre @ rest \<and> pre \<noteq> [] \<and> 4 dvd length pre"
    by (auto simp: parse_str_def res_simps dest: arg_string.parse_consumes)
qed (simp_all add: write_str_def enc_str_def arg_string.write_emit parse_str_def arg_string.parse_enc ok_or_def)

interpretation arg_version_id: wire_seq write_u32 parse_u32 enc_u32 "\<lambda>_. True" write_obj parse_obj enc_obj "\<lambda>_. True"
  by unfold_locales

interpretation arg_new_id: wire_seq write_str parse_str enc_str "\<lambda>s. valid_string (Some s)"
  "write_pair write_u32 write_obj" "parse_pair parse_u32 parse_obj"
  "\<lambda>(x, y). enc_u32 x @ enc_obj y" "\<lambda>(x, y). True \<and> True"
  by unfold_locales

section \<open>Writing and parsing are inverse\<close>

primrec enc_value :: "wl_value \<Rightarrow> bytes" where
  "enc_value (VInt i) = enc_i32 i"
| "enc_value (VUint w) = enc_u32 w"
| "enc_value (VString s) = enc_str s"
| "enc_value (VOptString os) = enc_string os"
| "enc_value (VObj i) = enc_obj i"
| "enc_value (VNewId n v i) = enc_str n @ enc_u32 v @ enc_obj i"
| "enc_value (VArray s) = enc_array s"
| "enc_value VFd = []"

lemma length_enc_str: "valid_string (Some s) \<Longrightarrow> length (enc_str s) = length_string (length s)"
  by (simp add: enc_str_def enc_string_def valid_string_def length_string_ok USIZE_MAX_def)

lemma emit_Nil: "emit c [] = Ok c"
  by (simp add: emit_def)

lemma write_value_emit: "valid_value a v \<Longrightarrow> write_value c v = emit c (enc_value v)"
  by (cases a)
    (auto split: wl_value.splits simp: arg_i32.write_emit arg_u32.write_emit arg_str.write_emit arg_string.write_emit
      arg_obj.write_emit arg_array.write_emit arg_new_id.write_emit emit_Nil)

lemma parse_value_enc: "valid_value a v \<Longrightarrow> parse_value a (enc_value v @ r) = Ok (v, r)"
  using arg_new_id.parse_enc [of _ r]
  by (cases a)
    (auto split: wl_value.splits simp: arg_i32.parse_enc arg_u32.parse_enc arg_str.parse_enc arg_string.parse_enc
      arg_obj.parse_enc arg_array.parse_enc)

lemma length_enc_value: "valid_value a v \<Longrightarrow> length_value v = length (enc_value v)"
  by (cases a)
    (auto split: wl_value.splits option.splits simp: enc_i32_def enc_obj_def length_enc_str [symmetric]
      length_array_ok USIZE_MAX_def enc_str_def enc_string_None enc_string_def next_multiple_of_def)

lemma write_values_emit:
  "valid_values as vs \<Longrightarrow> write_values c vs = emit c (concat (map enc_value vs))"
proof (induction vs arbitrary: as c rule: induct_list012)
  case 1
  then show ?case by (simp add: emit_Nil)
next
  case (2 v)
  then show ?case by (auto simp: valid_values_def list_all2_Cons2 write_value_emit)
next
  case (3 v w vs)
  from 3(3) obtain a bs where a: "as = a # bs" "valid_value a v" "valid_values bs (w # vs)"
    by (auto simp: valid_values_def list_all2_Cons2)
  from 3(2) [OF a(3)] show ?case by (simp add: write_value_emit [OF a(2)] emit_append)
qed

lemma parse_values_enc:
  "valid_values as vs \<Longrightarrow> parse_values as (concat (map enc_value vs) @ r) = Ok (vs, r)"
  unfolding valid_values_def by (induction as vs rule: list_all2_induct) (simp_all add: parse_value_enc)

lemma length_enc_values:
  "valid_values as vs \<Longrightarrow> sum_list (map length_value vs) = length (concat (map enc_value vs))"
  unfolding valid_values_def by (induction as vs rule: list_all2_induct) (simp_all add: length_enc_value)

lemma write_sig_emit:
  assumes "valid_values as vs" and "8 + length (concat (map enc_value vs)) < 2 ^ 16" and "opcode < 2 ^ 8" and "nfds < 2 ^ 5"
  shows "write_sig c for_id opcode nfds vs =
    emit c (enc_header for_id (8 + length (concat (map enc_value vs))) opcode nfds @ concat (map enc_value vs))"
proof -
  have "usize (8 + sum_list (map length_value vs)) = Ok (8 + length (concat (map enc_value vs)))"
    using assms(1,2) by (simp add: length_enc_values usize_def USIZE_MAX_def)
  then show ?thesis
    using write_header_emit [of "8 + length (concat (map enc_value vs))" opcode nfds] assms(2-4)
    by (simp add: write_sig_def write_values_emit [OF assms(1)] emit_append)
qed

lemma parse_sig_enc:
  assumes "valid_values as vs" and "length h = 8"
  shows "parse_sig as (h @ concat (map enc_value vs)) = Ok vs"
  using parse_values_enc [OF assms(1), of "[]"] assms(2) by (simp add: parse_sig_def get_from_def ok_or_def)

text \<open>Parsing is total: it fails only with the parse error, and what it returns has the type of the signature.\<close>

definition parses_to :: "('a \<Rightarrow> bool) \<Rightarrow> ('a \<Rightarrow> nat) \<Rightarrow> bytes \<Rightarrow> ('a \<times> bytes) res \<Rightarrow> bool" where
  "parses_to ok len bs r \<longleftrightarrow>
     (case r of Inl e \<Rightarrow> e = Err PARSE_ERROR | Inr (v, rest) \<Rightarrow> ok v \<and> length bs = len v + length rest)"

lemma parses_to_map:
  assumes "parses_to ok len bs r" and "\<And>v. ok v \<Longrightarrow> ok' (f v) \<and> len' (f v) = len v"
  shows "parses_to ok' len' bs (rbind r (\<lambda>(v, rest). Ok (f v, rest)))"
  using assms by (auto simp: parses_to_def rbind_def split: sum.splits)

lemma parses_to_u32: "parses_to (\<lambda>_. True) (\<lambda>_. 4) bs (parse_u32 bs)"
  by (auto simp: parses_to_def parse_u32_cases)

lemma parses_to_obj: "parses_to (\<lambda>_. True) (\<lambda>_. 4) bs (parse_obj bs)"
  by (auto simp: parses_to_def parse_obj_def parse_u32_cases)

lemma parses_to_i32: "parses_to is_i32 (\<lambda>_. 4) bs (parse_i32 bs)"
proof -
  have "is_i32 (sint w)" for w :: u32
    using sint_lt [of w] sint_ge [of w] by (simp add: is_i32_def I32_MIN_def I32_MAX_def)
  then show ?thesis by (auto simp: parses_to_def parse_i32_cases i32_from_le_bytes_def)
qed

lemma parses_to_array: "parses_to (\<lambda>s. length s < 2 ^ 32) (\<lambda>s. length_array (length s)) bs (parse_array bs)"
proof -
  let ?n = "unat (u32_from_le_bytes (take 4 bs))"
  have "?n < 2 ^ 32" by (rule unat_u32_less)
  moreover have "?n \<le> next_multiple_of ?n 4" by (rule next_multiple_of_ge) simp
  ultimately show ?thesis
    by (auto simp: parses_to_def parse_array_cases Let_def min_absorb2 length_array_ok USIZE_MAX_def)
qed

lemma parses_to_string:
  "parses_to valid_string (\<lambda>os. case os of None \<Rightarrow> 4 | Some s \<Rightarrow> length_string (length s)) bs (parse_string bs)"
proof (cases "parse_array bs")
  case (Inl e)
  then show ?thesis using parses_to_array [of bs] by (simp add: parses_to_def parse_string_cases)
next
  case (Inr vr)
  obtain v r where vr: "vr = (v, r)" by fastforce
  have l: "length v < 2 ^ 32" "length bs = length_array (length v) + length r"
    using parses_to_array [of bs] by (simp_all add: parses_to_def Inr vr)
  have "length_array 0 = 4" by (simp add: length_array_ok USIZE_MAX_def next_multiple_of_def)
  moreover have "length_string (length v - 1) = length_array (length v)" if "v \<noteq> []"
    using l(1) that by (simp add: length_string_def USIZE_MAX_def)
  ultimately show ?thesis
    using l by (auto simp: parses_to_def parse_string_cases Inr vr valid_string_def)
qed

lemma parses_to_str: "parses_to (\<lambda>s. valid_string (Some s)) (\<lambda>s. length_string (length s)) bs (parse_str bs)"
  using parses_to_string [of bs]
  by (auto simp: parses_to_def parse_str_def rbind_def ok_or_def split: sum.splits option.splits)

lemma parses_to_pair:
  assumes "\<And>bs. parses_to ok1 len1 bs (p1 bs)" and "\<And>bs. parses_to ok2 len2 bs (p2 bs)"
  shows "parses_to (\<lambda>(x, y). ok1 x \<and> ok2 y) (\<lambda>(x, y). len1 x + len2 y) bs (parse_pair p1 p2 bs)"
proof (cases "p1 bs")
  case (Inl e)
  then show ?thesis using assms(1) [of bs] by (simp add: parses_to_def parse_pair_def)
next
  case (Inr xr)
  then show ?thesis
    using assms(1) [of bs] assms(2) [of "snd xr"]
    by (cases xr) (auto simp: parses_to_def parse_pair_def rbind_def split: sum.splits)
qed

lemma parses_to_value: "parses_to (valid_value a) length_value bs (parse_value a bs)"
proof (cases a)
  case GenericNewId
  have "parses_to (\<lambda>x. valid_string (Some (fst x))) (\<lambda>x. length_string (length (fst x)) + 8) bs
      (parse_pair parse_str (parse_pair parse_u32 parse_obj) bs)"
    using parses_to_pair [OF parses_to_str parses_to_pair [OF parses_to_u32 parses_to_obj], of bs]
    by (auto simp: parses_to_def split: sum.splits)
  then show ?thesis
    unfolding GenericNewId parse_value.simps
    by (auto simp: parses_to_def rbind_def split: sum.splits prod.splits)
qed (auto intro!: parses_to_map [OF parses_to_i32] parses_to_map [OF parses_to_u32] parses_to_map [OF parses_to_obj]
    parses_to_map [OF parses_to_str] parses_to_map [OF parses_to_string] parses_to_map [OF parses_to_array]
    simp: parses_to_def [of _ _ _ "Inr _"])

lemma parses_to_values: "parses_to (valid_values as) (\<lambda>vs. sum_list (map length_value vs)) bs (parse_values as bs)"
proof (induction as arbitrary: bs)
  case Nil
  then show ?case by (simp add: parses_to_def valid_values_def)
next
  case (Cons a as)
  then show ?case
  proof (cases "parse_value a bs")
    case (Inl e)
    then show ?thesis using parses_to_value [of a bs] by (simp add: parses_to_def)
  next
    case (Inr vr)
    then show ?thesis
      using parses_to_value [of a bs] Cons [of "snd vr"]
      by (cases vr) (auto simp: parses_to_def valid_values_def rbind_def split: sum.splits)
  qed
qed

lemma parse_sig_total:
  "(parse_sig as msg = fail PARSE_ERROR) \<or>
   (\<exists>vs. parse_sig as msg = Ok vs \<and> valid_values as vs \<and> length msg = 8 + sum_list (map length_value vs))"
  using parses_to_values [of as "drop 8 msg"]
  by (auto simp: parse_sig_def get_from_def ok_or_def parses_to_def rbind_def split: sum.splits)

end
