(* ===== verification/Protocol_Messages.thy ===== *)
theory Protocol_Messages
  imports Protocol_Codec
begin

text \<open>
  The functions that \<open>src/wayland_gen.rs\<close> has for each message it handles specially, as
  generated from the protocol descriptions: \<open>write_...\<close> writes the message with its header,
  \<open>length_...\<close> is its length in bytes and \<open>parse_...\<close> reads the arguments of a received
  message. Modelled are the messages of the core protocol and of the extensions for buffers,
  presentation and screen capture whose arguments are not just one object or none. Each function is shown equal to the reference codec of
  theory \<open>Protocol_Codec\<close> at the signature that the protocol table has for the method.
\<close>

section \<open>The generated functions\<close>

definition length_req_zwp_linux_dmabuf_v1_create_params :: nat where
  "length_req_zwp_linux_dmabuf_v1_create_params = 12"

definition write_req_zwp_linux_dmabuf_v1_create_params ::
  "cursor \<Rightarrow> ObjId \<Rightarrow> ObjId \<Rightarrow> cursor res" where
  "write_req_zwp_linux_dmabuf_v1_create_params c for_id params_id =
     rbind (write_header c for_id length_req_zwp_linux_dmabuf_v1_create_params 1 0) (\<lambda>c.
       write_obj c params_id)"

definition parse_req_zwp_linux_dmabuf_v1_create_params :: "bytes \<Rightarrow> (ObjId) res" where
  "parse_req_zwp_linux_dmabuf_v1_create_params msg =
     rbind (get_from msg 8) (\<lambda>msg.
     rbind (parse_obj msg) (\<lambda>(arg1, msg).
       if msg \<noteq> [] then fail PARSE_ERROR else Ok arg1))"

definition length_evt_zwp_linux_dmabuf_v1_modifier :: nat where
  "length_evt_zwp_linux_dmabuf_v1_modifier = 20"

definition write_evt_zwp_linux_dmabuf_v1_modifier ::
  "cursor \<Rightarrow> ObjId \<Rightarrow> u32 \<Rightarrow> u32 \<Rightarrow> u32 \<Rightarrow> cursor res" where
  "write_evt_zwp_linux_dmabuf_v1_modifier c for_id format modifier_hi modifier_lo =
     rbind (write_header c for_id length_evt_zwp_linux_dmabuf_v1_modifier 1 0) (\<lambda>c.
     rbind (write_u32 c format) (\<lambda>c.
     rbind (write_u32 c modifier_hi) (\<lambda>c.
       write_u32 c modifier_lo)))"

definition parse_evt_zwp_linux_dmabuf_v1_modifier :: "bytes \<Rightarrow> (u32 \<times> u32 \<times> u32) res" where
  "parse_evt_zwp_linux_dmabuf_v1_modifier msg =
     rbind (get_from msg 8) (\<lambda>msg.
     rbind (parse_u32 msg) (\<lambda>(arg1, msg).
     rbind (parse_u32 msg) (\<lambda>(arg2, msg).
     rbind (parse_u32 msg) (\<lambda>(arg3, msg).
       if msg \<noteq> [] then fail PARSE_ERROR else Ok (arg1, arg2, arg3)))))"

definition length_req_zwp_linux_dmabuf_v1_get_default_feedback :: nat where
  "length_req_zwp_linux_dmabuf_v1_get_default_feedback = 12"

definition write_req_zwp_linux_dmabuf_v1_get_default_feedback ::
  "cursor \<Rightarrow> ObjId \<Rightarrow> ObjId \<Rightarrow> cursor res" where
  "write_req_zwp_linux_dmabuf_v1_get_default_feedback c for_id new_id =
     rbind (write_header c for_id length_req_zwp_linux_dmabuf_v1_get_default_feedback 2 0) (\<lambda>c.
       write_obj c new_id)"

definition parse_req_zwp_linux_dmabuf_v1_get_default_feedback :: "bytes \<Rightarrow> (ObjId) res" where
  "parse_req_zwp_linux_dmabuf_v1_get_default_feedback msg =
     rbind (get_from msg 8) (\<lambda>msg.
     rbind (parse_obj msg) (\<lambda>(arg1, msg).
       if msg \<noteq> [] then fail PARSE_ERROR else Ok arg1))"

definition length_req_zwp_linux_dmabuf_v1_get_surface_feedback :: nat where
  "length_req_zwp_linux_dmabuf_v1_get_surface_feedback = 16"

definition write_req_zwp_linux_dmabuf_v1_get_surface_feedback ::
  "cursor \<Rightarrow> ObjId \<Rightarrow> ObjId \<Rightarrow> ObjId \<Rightarrow> cursor res" where
  "write_req_zwp_linux_dmabuf_v1_get_surface_feedback c for_id new_id surface =
     rbind (write_header c for_id length_req_zwp_linux_dmabuf_v1_get_surface_feedback 3 0) (\<lambda>c.
     rbind (write_obj c new_id) (\<lambda>c.
       write_obj c surface))"

definition parse_req_zwp_linux_dmabuf_v1_get_surface_feedback :: "bytes \<Rightarrow> (ObjId \<times> ObjId) res" where
  "parse_req_zwp_linux_dmabuf_v1_get_surface_feedback msg =
     rbind (get_from msg 8) (\<lambda>msg.
     rbind (parse_obj msg) (\<lambda>(arg1, msg).
     rbind (parse_obj msg) (\<lambda>(arg2, msg).
       if msg \<noteq> [] then fail PARSE_ERROR else Ok (arg1, arg2))))"

definition length_req_zwp_linux_buffer_params_v1_add :: nat where
  "length_req_zwp_linux_buffer_params_v1_add = 28"

definition write_req_zwp_linux_buffer_params_v1_add ::
  "cursor \<Rightarrow> ObjId \<Rightarrow> bool \<Rightarrow> u32 \<Rightarrow> u32 \<Rightarrow> u32 \<Rightarrow> u32 \<Rightarrow> u32 \<Rightarrow> cursor res" where
  "write_req_zwp_linux_buffer_params_v1_add c for_id tag_fds plane_idx offset stride modifier_hi modifier_lo =
     rbind (write_header c for_id length_req_zwp_linux_buffer_params_v1_add 1 (if tag_fds then 1 else 0)) (\<lambda>c.
     rbind (write_u32 c plane_idx) (\<lambda>c.
     rbind (write_u32 c offset) (\<lambda>c.
     rbind (write_u32 c stride) (\<lambda>c.
     rbind (write_u32 c modifier_hi) (\<lambda>c.
       write_u32 c modifier_lo)))))"

definition parse_req_zwp_linux_buffer_params_v1_add :: "bytes \<Rightarrow> (u32 \<times> u32 \<times> u32 \<times> u32 \<times> u32) res" where
  "parse_req_zwp_linux_buffer_params_v1_add msg =
     rbind (get_from msg 8) (\<lambda>msg.
     rbind (parse_u32 msg) (\<lambda>(arg2, msg).
     rbind (parse_u32 msg) (\<lambda>(arg3, msg).
     rbind (parse_u32 msg) (\<lambda>(arg4, msg).
     rbind (parse_u32 msg) (\<lambda>(arg5, msg).
     rbind (parse_u32 msg) (\<lambda>(arg6, msg).
       if msg \<noteq> [] then fail PARSE_ERROR else Ok (arg2, arg3, arg4, arg5, arg6)))))))"

definition length_req_zwp_linux_buffer_params_v1_create :: nat where
  "length_req_zwp_linux_buffer_params_v1_create = 24"

definition write_req_zwp_linux_buffer_params_v1_create ::
  "cursor \<Rightarrow> ObjId \<Rightarrow> int \<Rightarrow> int \<Rightarrow> u32 \<Rightarrow> u32 \<Rightarrow> cursor res" where
  "write_req_zwp_linux_buffer_params_v1_create c for_id width height format flags =
     rbind (write_header c for_id length_req_zwp_linux_buffer_params_v1_create 2 0) (\<lambda>c.
     rbind (write_i32 c width) (\<lambda>c.
     rbind (write_i32 c height) (\<lambda>c.
     rbind (write_u32 c format) (\<lambda>c.
       write_u32 c flags))))"

definition parse_req_zwp_linux_buffer_params_v1_create :: "bytes \<Rightarrow> (int \<times> int \<times> u32 \<times> u32) res" where
  "parse_req_zwp_linux_buffer_params_v1_create msg =
     rbind (get_from msg 8) (\<lambda>msg.
     rbind (parse_i32 msg) (\<lambda>(arg1, msg).
     rbind (parse_i32 msg) (\<lambda>(arg2, msg).
     rbind (parse_u32 msg) (\<lambda>(arg3, msg).
     rbind (parse_u32 msg) (\<lambda>(arg4, msg).
       if msg \<noteq> [] then fail PARSE_ERROR else Ok (arg1, arg2, arg3, arg4))))))"

definition length_evt_zwp_linux_buffer_params_v1_created :: nat where
  "length_evt_zwp_linux_buffer_params_v1_created = 12"

definition write_evt_zwp_linux_buffer_params_v1_created ::
  "cursor \<Rightarrow> ObjId \<Rightarrow> ObjId \<Rightarrow> cursor res" where
  "write_evt_zwp_linux_buffer_params_v1_created c for_id buffer =
     rbind (write_header c for_id length_evt_zwp_linux_buffer_params_v1_created 0 0) (\<lambda>c.
       write_obj c buffer)"

definition parse_evt_zwp_linux_buffer_params_v1_created :: "bytes \<Rightarrow> (ObjId) res" where
  "parse_evt_zwp_linux_buffer_params_v1_created msg =
     rbind (get_from msg 8) (\<lambda>msg.
     rbind (parse_obj msg) (\<lambda>(arg1, msg).
       if msg \<noteq> [] then fail PARSE_ERROR else Ok arg1))"

definition length_req_zwp_linux_buffer_params_v1_create_immed :: nat where
  "length_req_zwp_linux_buffer_params_v1_create_immed = 28"

definition write_req_zwp_linux_buffer_params_v1_create_immed ::
  "cursor \<Rightarrow> ObjId \<Rightarrow> ObjId \<Rightarrow> int \<Rightarrow> int \<Rightarrow> u32 \<Rightarrow> u32 \<Rightarrow> cursor res" where
  "write_req_zwp_linux_buffer_params_v1_create_immed c for_id buffer_id width height format flags =
     rbind (write_header c for_id length_req_zwp_linux_buffer_params_v1_create_immed 3 0) (\<lambda>c.
     rbind (write_obj c buffer_id) (\<lambda>c.
     rbind (write_i32 c width) (\<lambda>c.
     rbind (write_i32 c height) (\<lambda>c.
     rbind (write_u32 c format) (\<lambda>c.
       write_u32 c flags)))))"

definition parse_req_zwp_linux_buffer_params_v1_create_immed :: "bytes \<Rightarrow> (ObjId \<times> int \<times> int \<times> u32 \<times> u32) res" where
  "parse_req_zwp_linux_buffer_params_v1_create_immed msg =
     rbind (get_from msg 8) (\<lambda>msg.
     rbind (parse_obj msg) (\<lambda>(arg1, msg).
     rbind (parse_i32 msg) (\<lambda>(arg2, msg).
     rbind (parse_i32 msg) (\<lambda>(arg3, msg).
     rbind (parse_u32 msg) (\<lambda>(arg4, msg).
     rbind (parse_u32 msg) (\<lambda>(arg5, msg).
       if msg \<noteq> [] then fail PARSE_ERROR else Ok (arg1, arg2, arg3, arg4, arg5)))))))"

definition length_evt_zwp_linux_dmabuf_feedback_v1_format_table :: nat where
  "length_evt_zwp_linux_dmabuf_feedback_v1_format_table = 12"

definition write_evt_zwp_linux_dmabuf_feedback_v1_format_table ::
  "cursor \<Rightarrow> ObjId \<Rightarrow> bool \<Rightarrow> u32 \<Rightarrow> cursor res" where
  "write_evt_zwp_linux_dmabuf_feedback_v1_format_table c for_id tag_fds sz =
     rbind (write_header c for_id length_evt_zwp_linux_dmabuf_feedback_v1_format_table 1 (if tag_fds then 1 else 0)) (\<lambda>c.
       write_u32 c sz)"

definition parse_evt_zwp_linux_dmabuf_feedback_v1_format_table :: "bytes \<Rightarrow> (u32) res" where
  "parse_evt_zwp_linux_dmabuf_feedback_v1_format_table msg =
     rbind (get_from msg 8) (\<lambda>msg.
     rbind (parse_u32 msg) (\<lambda>(arg2, msg).
       if msg \<noteq> [] then fail PARSE_ERROR else Ok arg2))"

definition length_evt_zwp_linux_dmabuf_feedback_v1_main_device :: "nat \<Rightarrow> nat res" where
  "length_evt_zwp_linux_dmabuf_feedback_v1_main_device device_len = usize_add 8 (length_array device_len)"

definition write_evt_zwp_linux_dmabuf_feedback_v1_main_device ::
  "cursor \<Rightarrow> ObjId \<Rightarrow> bytes \<Rightarrow> cursor res" where
  "write_evt_zwp_linux_dmabuf_feedback_v1_main_device c for_id device =
     rbind (length_evt_zwp_linux_dmabuf_feedback_v1_main_device (length device)) (\<lambda>l.
     rbind (write_header c for_id l 2 0) (\<lambda>c.
       write_array c device))"

definition parse_evt_zwp_linux_dmabuf_feedback_v1_main_device :: "bytes \<Rightarrow> (bytes) res" where
  "parse_evt_zwp_linux_dmabuf_feedback_v1_main_device msg =
     rbind (get_from msg 8) (\<lambda>msg.
     rbind (parse_array msg) (\<lambda>(arg1, msg).
       if msg \<noteq> [] then fail PARSE_ERROR else Ok arg1))"

definition length_evt_zwp_linux_dmabuf_feedback_v1_tranche_target_device :: "nat \<Rightarrow> nat res" where
  "length_evt_zwp_linux_dmabuf_feedback_v1_tranche_target_device device_len = usize_add 8 (length_array device_len)"

definition write_evt_zwp_linux_dmabuf_feedback_v1_tranche_target_device ::
  "cursor \<Rightarrow> ObjId \<Rightarrow> bytes \<Rightarrow> cursor res" where
  "write_evt_zwp_linux_dmabuf_feedback_v1_tranche_target_device c for_id device =
     rbind (length_evt_zwp_linux_dmabuf_feedback_v1_tranche_target_device (length device)) (\<lambda>l.
     rbind (write_header c for_id l 4 0) (\<lambda>c.
       write_array c device))"

definition parse_evt_zwp_linux_dmabuf_feedback_v1_tranche_target_device :: "bytes \<Rightarrow> (bytes) res" where
  "parse_evt_zwp_linux_dmabuf_feedback_v1_tranche_target_device msg =
     rbind (get_from msg 8) (\<lambda>msg.
     rbind (parse_array msg) (\<lambda>(arg1, msg).
       if msg \<noteq> [] then fail PARSE_ERROR else Ok arg1))"

definition length_evt_zwp_linux_dmabuf_feedback_v1_tranche_formats :: "nat \<Rightarrow> nat res" where
  "length_evt_zwp_linux_dmabuf_feedback_v1_tranche_formats indices_len = usize_add 8 (length_array indices_len)"

definition write_evt_zwp_linux_dmabuf_feedback_v1_tranche_formats ::
  "cursor \<Rightarrow> ObjId \<Rightarrow> bytes \<Rightarrow> cursor res" where
  "write_evt_zwp_linux_dmabuf_feedback_v1_tranche_formats c for_id indices =
     rbind (length_evt_zwp_linux_dmabuf_feedback_v1_tranche_formats (length indices)) (\<lambda>l.
     rbind (write_header c for_id l 5 0) (\<lambda>c.
       write_array c indices))"

definition parse_evt_zwp_linux_dmabuf_feedback_v1_tranche_formats :: "bytes \<Rightarrow> (bytes) res" where
  "parse_evt_zwp_linux_dmabuf_feedback_v1_tranche_formats msg =
     rbind (get_from msg 8) (\<lambda>msg.
     rbind (parse_array msg) (\<lambda>(arg1, msg).
       if msg \<noteq> [] then fail PARSE_ERROR else Ok arg1))"

definition length_evt_zwp_linux_dmabuf_feedback_v1_tranche_flags :: nat where
  "length_evt_zwp_linux_dmabuf_feedback_v1_tranche_flags = 12"

definition write_evt_zwp_linux_dmabuf_feedback_v1_tranche_flags ::
  "cursor \<Rightarrow> ObjId \<Rightarrow> u32 \<Rightarrow> cursor res" where
  "write_evt_zwp_linux_dmabuf_feedback_v1_tranche_flags c for_id flags =
     rbind (write_header c for_id length_evt_zwp_linux_dmabuf_feedback_v1_tranche_flags 6 0) (\<lambda>c.
       write_u32 c flags)"

definition parse_evt_zwp_linux_dmabuf_feedback_v1_tranche_flags :: "bytes \<Rightarrow> (u32) res" where
  "parse_evt_zwp_linux_dmabuf_feedback_v1_tranche_flags msg =
     rbind (get_from msg 8) (\<lambda>msg.
     rbind (parse_u32 msg) (\<lambda>(arg1, msg).
       if msg \<noteq> [] then fail PARSE_ERROR else Ok arg1))"

definition length_req_wp_linux_drm_syncobj_manager_v1_get_surface :: nat where
  "length_req_wp_linux_drm_syncobj_manager_v1_get_surface = 16"

definition write_req_wp_linux_drm_syncobj_manager_v1_get_surface ::
  "cursor \<Rightarrow> ObjId \<Rightarrow> ObjId \<Rightarrow> ObjId \<Rightarrow> cursor res" where
  "write_req_wp_linux_drm_syncobj_manager_v1_get_surface c for_id new_id surface =
     rbind (write_header c for_id length_req_wp_linux_drm_syncobj_manager_v1_get_surface 1 0) (\<lambda>c.
     rbind (write_obj c new_id) (\<lambda>c.
       write_obj c surface))"

definition parse_req_wp_linux_drm_syncobj_manager_v1_get_surface :: "bytes \<Rightarrow> (ObjId \<times> ObjId) res" where
  "parse_req_wp_linux_drm_syncobj_manager_v1_get_surface msg =
     rbind (get_from msg 8) (\<lambda>msg.
     rbind (parse_obj msg) (\<lambda>(arg1, msg).
     rbind (parse_obj msg) (\<lambda>(arg2, msg).
       if msg \<noteq> [] then fail PARSE_ERROR else Ok (arg1, arg2))))"

definition length_req_wp_linux_drm_syncobj_manager_v1_import_timeline :: nat where
  "length_req_wp_linux_drm_syncobj_manager_v1_import_timeline = 12"

definition write_req_wp_linux_drm_syncobj_manager_v1_import_timeline ::
  "cursor \<Rightarrow> ObjId \<Rightarrow> bool \<Rightarrow> ObjId \<Rightarrow> cursor res" where
  "write_req_wp_linux_drm_syncobj_manager_v1_import_timeline c for_id tag_fds new_id =
     rbind (write_header c for_id length_req_wp_linux_drm_syncobj_manager_v1_import_timeline 2 (if tag_fds then 1 else 0)) (\<lambda>c.
       write_obj c new_id)"

definition parse_req_wp_linux_drm_syncobj_manager_v1_import_timeline :: "bytes \<Rightarrow> (ObjId) res" where
  "parse_req_wp_linux_drm_syncobj_manager_v1_import_timeline msg =
     rbind (get_from msg 8) (\<lambda>msg.
     rbind (parse_obj msg) (\<lambda>(arg1, msg).
       if msg \<noteq> [] then fail PARSE_ERROR else Ok arg1))"

definition length_req_wp_linux_drm_syncobj_surface_v1_set_acquire_point :: nat where
  "length_req_wp_linux_drm_syncobj_surface_v1_set_acquire_point = 20"

definition write_req_wp_linux_drm_syncobj_surface_v1_set_acquire_point ::
  "cursor \<Rightarrow> ObjId \<Rightarrow> ObjId \<Rightarrow> u32 \<Rightarrow> u32 \<Rightarrow> cursor res" where
  "write_req_wp_linux_drm_syncobj_surface_v1_set_acquire_point c for_id timeline point_hi point_lo =
     rbind (write_header c for_id length_req_wp_linux_drm_syncobj_surface_v1_set_acquire_point 1 0) (\<lambda>c.
     rbind (write_obj c timeline) (\<lambda>c.
     rbind (write_u32 c point_hi) (\<lambda>c.
       write_u32 c point_lo)))"

definition parse_req_wp_linux_drm_syncobj_surface_v1_set_acquire_point :: "bytes \<Rightarrow> (ObjId \<times> u32 \<times> u32) res" where
  "parse_req_wp_linux_drm_syncobj_surface_v1_set_acquire_point msg =
     rbind (get_from msg 8) (\<lambda>msg.
     rbind (parse_obj msg) (\<lambda>(arg1, msg).
     rbind (parse_u32 msg) (\<lambda>(arg2, msg).
     rbind (parse_u32 msg) (\<lambda>(arg3, msg).
       if msg \<noteq> [] then fail PARSE_ERROR else Ok (arg1, arg2, arg3)))))"

definition length_req_wp_linux_drm_syncobj_surface_v1_set_release_point :: nat where
  "length_req_wp_linux_drm_syncobj_surface_v1_set_release_point = 20"

definition write_req_wp_linux_drm_syncobj_surface_v1_set_release_point ::
  "cursor \<Rightarrow> ObjId \<Rightarrow> ObjId \<Rightarrow> u32 \<Rightarrow> u32 \<Rightarrow> cursor res" where
  "write_req_wp_linux_drm_syncobj_surface_v1_set_release_point c for_id timeline point_hi point_lo =
     rbind (write_header c for_id length_req_wp_linux_drm_syncobj_surface_v1_set_release_point 2 0) (\<lambda>c.
     rbind (write_obj c timeline) (\<lambda>c.
     rbind (write_u32 c point_hi) (\<lambda>c.
       write_u32 c point_lo)))"

definition parse_req_wp_linux_drm_syncobj_surface_v1_set_release_point :: "bytes \<Rightarrow> (ObjId \<times> u32 \<times> u32) res" where
  "parse_req_wp_linux_drm_syncobj_surface_v1_set_release_point msg =
     rbind (get_from msg 8) (\<lambda>msg.
     rbind (parse_obj msg) (\<lambda>(arg1, msg).
     rbind (parse_u32 msg) (\<lambda>(arg2, msg).
     rbind (parse_u32 msg) (\<lambda>(arg3, msg).
       if msg \<noteq> [] then fail PARSE_ERROR else Ok (arg1, arg2, arg3)))))"

definition length_req_wp_presentation_feedback :: nat where
  "length_req_wp_presentation_feedback = 16"

definition write_req_wp_presentation_feedback ::
  "cursor \<Rightarrow> ObjId \<Rightarrow> ObjId \<Rightarrow> ObjId \<Rightarrow> cursor res" where
  "write_req_wp_presentation_feedback c for_id surface callback =
     rbind (write_header c for_id length_req_wp_presentation_feedback 1 0) (\<lambda>c.
     rbind (write_obj c surface) (\<lambda>c.
       write_obj c callback))"

definition parse_req_wp_presentation_feedback :: "bytes \<Rightarrow> (ObjId \<times> ObjId) res" where
  "parse_req_wp_presentation_feedback msg =
     rbind (get_from msg 8) (\<lambda>msg.
     rbind (parse_obj msg) (\<lambda>(arg1, msg).
     rbind (parse_obj msg) (\<lambda>(arg2, msg).
       if msg \<noteq> [] then fail PARSE_ERROR else Ok (arg1, arg2))))"

definition length_evt_wp_presentation_feedback_presented :: nat where
  "length_evt_wp_presentation_feedback_presented = 36"

definition write_evt_wp_presentation_feedback_presented ::
  "cursor \<Rightarrow> ObjId \<Rightarrow> u32 \<Rightarrow> u32 \<Rightarrow> u32 \<Rightarrow> u32 \<Rightarrow> u32 \<Rightarrow> u32 \<Rightarrow> u32 \<Rightarrow> cursor res" where
  "write_evt_wp_presentation_feedback_presented c for_id tv_sec_hi tv_sec_lo tv_nsec refresh seq_hi seq_lo flags =
     rbind (write_header c for_id length_evt_wp_presentation_feedback_presented 1 0) (\<lambda>c.
     rbind (write_u32 c tv_sec_hi) (\<lambda>c.
     rbind (write_u32 c tv_sec_lo) (\<lambda>c.
     rbind (write_u32 c tv_nsec) (\<lambda>c.
     rbind (write_u32 c refresh) (\<lambda>c.
     rbind (write_u32 c seq_hi) (\<lambda>c.
     rbind (write_u32 c seq_lo) (\<lambda>c.
       write_u32 c flags)))))))"

definition parse_evt_wp_presentation_feedback_presented :: "bytes \<Rightarrow> (u32 \<times> u32 \<times> u32 \<times> u32 \<times> u32 \<times> u32 \<times> u32) res" where
  "parse_evt_wp_presentation_feedback_presented msg =
     rbind (get_from msg 8) (\<lambda>msg.
     rbind (parse_u32 msg) (\<lambda>(arg1, msg).
     rbind (parse_u32 msg) (\<lambda>(arg2, msg).
     rbind (parse_u32 msg) (\<lambda>(arg3, msg).
     rbind (parse_u32 msg) (\<lambda>(arg4, msg).
     rbind (parse_u32 msg) (\<lambda>(arg5, msg).
     rbind (parse_u32 msg) (\<lambda>(arg6, msg).
     rbind (parse_u32 msg) (\<lambda>(arg7, msg).
       if msg \<noteq> [] then fail PARSE_ERROR else Ok (arg1, arg2, arg3, arg4, arg5, arg6, arg7)))))))))"

definition length_req_wp_viewporter_get_viewport :: nat where
  "length_req_wp_viewporter_get_viewport = 16"

definition write_req_wp_viewporter_get_viewport ::
  "cursor \<Rightarrow> ObjId \<Rightarrow> ObjId \<Rightarrow> ObjId \<Rightarrow> cursor res" where
  "write_req_wp_viewporter_get_viewport c for_id new_id surface =
     rbind (write_header c for_id length_req_wp_viewporter_get_viewport 1 0) (\<lambda>c.
     rbind (write_obj c new_id) (\<lambda>c.
       write_obj c surface))"

definition parse_req_wp_viewporter_get_viewport :: "bytes \<Rightarrow> (ObjId \<times> ObjId) res" where
  "parse_req_wp_viewporter_get_viewport msg =
     rbind (get_from msg 8) (\<lambda>msg.
     rbind (parse_obj msg) (\<lambda>(arg1, msg).
     rbind (parse_obj msg) (\<lambda>(arg2, msg).
       if msg \<noteq> [] then fail PARSE_ERROR else Ok (arg1, arg2))))"

definition length_req_wp_viewport_set_source :: nat where
  "length_req_wp_viewport_set_source = 24"

definition write_req_wp_viewport_set_source ::
  "cursor \<Rightarrow> ObjId \<Rightarrow> int \<Rightarrow> int \<Rightarrow> int \<Rightarrow> int \<Rightarrow> cursor res" where
  "write_req_wp_viewport_set_source c for_id x y width height =
     rbind (write_header c for_id length_req_wp_viewport_set_source 1 0) (\<lambda>c.
     rbind (write_i32 c x) (\<lambda>c.
     rbind (write_i32 c y) (\<lambda>c.
     rbind (write_i32 c width) (\<lambda>c.
       write_i32 c height))))"

definition parse_req_wp_viewport_set_source :: "bytes \<Rightarrow> (int \<times> int \<times> int \<times> int) res" where
  "parse_req_wp_viewport_set_source msg =
     rbind (get_from msg 8) (\<lambda>msg.
     rbind (parse_i32 msg) (\<lambda>(arg1, msg).
     rbind (parse_i32 msg) (\<lambda>(arg2, msg).
     rbind (parse_i32 msg) (\<lambda>(arg3, msg).
     rbind (parse_i32 msg) (\<lambda>(arg4, msg).
       if msg \<noteq> [] then fail PARSE_ERROR else Ok (arg1, arg2, arg3, arg4))))))"

definition length_req_wp_viewport_set_destination :: nat where
  "length_req_wp_viewport_set_destination = 16"

definition write_req_wp_viewport_set_destination ::
  "cursor \<Rightarrow> ObjId \<Rightarrow> int \<Rightarrow> int \<Rightarrow> cursor res" where
  "write_req_wp_viewport_set_destination c for_id width height =
     rbind (write_header c for_id length_req_wp_viewport_set_destination 2 0) (\<lambda>c.
     rbind (write_i32 c width) (\<lambda>c.
       write_i32 c height))"

definition parse_req_wp_viewport_set_destination :: "bytes \<Rightarrow> (int \<times> int) res" where
  "parse_req_wp_viewport_set_destination msg =
     rbind (get_from msg 8) (\<lambda>msg.
     rbind (parse_i32 msg) (\<lambda>(arg1, msg).
     rbind (parse_i32 msg) (\<lambda>(arg2, msg).
       if msg \<noteq> [] then fail PARSE_ERROR else Ok (arg1, arg2))))"

definition length_evt_wl_display_error :: "nat \<Rightarrow> nat res" where
  "length_evt_wl_display_error message_len = usize_add 16 (length_string message_len)"

definition write_evt_wl_display_error ::
  "cursor \<Rightarrow> ObjId \<Rightarrow> ObjId \<Rightarrow> u32 \<Rightarrow> bytes \<Rightarrow> cursor res" where
  "write_evt_wl_display_error c for_id object_id code message =
     rbind (length_evt_wl_display_error (length message)) (\<lambda>l.
     rbind (write_header c for_id l 0 0) (\<lambda>c.
     rbind (write_obj c object_id) (\<lambda>c.
     rbind (write_u32 c code) (\<lambda>c.
       write_string c (Some message)))))"

definition parse_evt_wl_display_error :: "bytes \<Rightarrow> (ObjId \<times> u32 \<times> bytes) res" where
  "parse_evt_wl_display_error msg =
     rbind (get_from msg 8) (\<lambda>msg.
     rbind (parse_obj msg) (\<lambda>(arg1, msg).
     rbind (parse_u32 msg) (\<lambda>(arg2, msg).
     rbind (parse_str msg) (\<lambda>(arg3, msg).
       if msg \<noteq> [] then fail PARSE_ERROR else Ok (arg1, arg2, arg3)))))"

definition length_req_wl_registry_bind :: "nat \<Rightarrow> nat res" where
  "length_req_wl_registry_bind id_iface_name_len = usize_add 20 (length_string id_iface_name_len)"

definition write_req_wl_registry_bind ::
  "cursor \<Rightarrow> ObjId \<Rightarrow> u32 \<Rightarrow> bytes \<Rightarrow> u32 \<Rightarrow> ObjId \<Rightarrow> cursor res" where
  "write_req_wl_registry_bind c for_id nam id_iface_name id_version new_id =
     rbind (length_req_wl_registry_bind (length id_iface_name)) (\<lambda>l.
     rbind (write_header c for_id l 0 0) (\<lambda>c.
     rbind (write_u32 c nam) (\<lambda>c.
     rbind (write_string c (Some id_iface_name)) (\<lambda>c.
     rbind (write_u32 c id_version) (\<lambda>c.
       write_obj c new_id)))))"

definition parse_req_wl_registry_bind :: "bytes \<Rightarrow> (u32 \<times> bytes \<times> u32 \<times> ObjId) res" where
  "parse_req_wl_registry_bind msg =
     rbind (get_from msg 8) (\<lambda>msg.
     rbind (parse_u32 msg) (\<lambda>(arg1, msg).
     rbind (parse_str msg) (\<lambda>(arg2_iface_name, msg).
     rbind (parse_u32 msg) (\<lambda>(arg2_version, msg).
     rbind (parse_obj msg) (\<lambda>(arg2, msg).
       if msg \<noteq> [] then fail PARSE_ERROR else Ok (arg1, arg2_iface_name, arg2_version, arg2))))))"

definition length_evt_wl_registry_global :: "nat \<Rightarrow> nat res" where
  "length_evt_wl_registry_global interface_len = usize_add 16 (length_string interface_len)"

definition write_evt_wl_registry_global ::
  "cursor \<Rightarrow> ObjId \<Rightarrow> u32 \<Rightarrow> bytes \<Rightarrow> u32 \<Rightarrow> cursor res" where
  "write_evt_wl_registry_global c for_id nam intf ver =
     rbind (length_evt_wl_registry_global (length intf)) (\<lambda>l.
     rbind (write_header c for_id l 0 0) (\<lambda>c.
     rbind (write_u32 c nam) (\<lambda>c.
     rbind (write_string c (Some intf)) (\<lambda>c.
       write_u32 c ver))))"

definition parse_evt_wl_registry_global :: "bytes \<Rightarrow> (u32 \<times> bytes \<times> u32) res" where
  "parse_evt_wl_registry_global msg =
     rbind (get_from msg 8) (\<lambda>msg.
     rbind (parse_u32 msg) (\<lambda>(arg1, msg).
     rbind (parse_str msg) (\<lambda>(arg2, msg).
     rbind (parse_u32 msg) (\<lambda>(arg3, msg).
       if msg \<noteq> [] then fail PARSE_ERROR else Ok (arg1, arg2, arg3)))))"

definition length_req_wl_shm_pool_create_buffer :: nat where
  "length_req_wl_shm_pool_create_buffer = 32"

definition write_req_wl_shm_pool_create_buffer ::
  "cursor \<Rightarrow> ObjId \<Rightarrow> ObjId \<Rightarrow> int \<Rightarrow> int \<Rightarrow> int \<Rightarrow> int \<Rightarrow> u32 \<Rightarrow> cursor res" where
  "write_req_wl_shm_pool_create_buffer c for_id new_id offset width height stride format =
     rbind (write_header c for_id length_req_wl_shm_pool_create_buffer 0 0) (\<lambda>c.
     rbind (write_obj c new_id) (\<lambda>c.
     rbind (write_i32 c offset) (\<lambda>c.
     rbind (write_i32 c width) (\<lambda>c.
     rbind (write_i32 c height) (\<lambda>c.
     rbind (write_i32 c stride) (\<lambda>c.
       write_u32 c format))))))"

definition parse_req_wl_shm_pool_create_buffer :: "bytes \<Rightarrow> (ObjId \<times> int \<times> int \<times> int \<times> int \<times> u32) res" where
  "parse_req_wl_shm_pool_create_buffer msg =
     rbind (get_from msg 8) (\<lambda>msg.
     rbind (parse_obj msg) (\<lambda>(arg1, msg).
     rbind (parse_i32 msg) (\<lambda>(arg2, msg).
     rbind (parse_i32 msg) (\<lambda>(arg3, msg).
     rbind (parse_i32 msg) (\<lambda>(arg4, msg).
     rbind (parse_i32 msg) (\<lambda>(arg5, msg).
     rbind (parse_u32 msg) (\<lambda>(arg6, msg).
       if msg \<noteq> [] then fail PARSE_ERROR else Ok (arg1, arg2, arg3, arg4, arg5, arg6))))))))"

definition length_req_wl_shm_pool_resize :: nat where
  "length_req_wl_shm_pool_resize = 12"

definition write_req_wl_shm_pool_resize ::
  "cursor \<Rightarrow> ObjId \<Rightarrow> int \<Rightarrow> cursor res" where
  "write_req_wl_shm_pool_resize c for_id sz =
     rbind (write_header c for_id length_req_wl_shm_pool_resize 2 0) (\<lambda>c.
       write_i32 c sz)"

definition parse_req_wl_shm_pool_resize :: "bytes \<Rightarrow> (int) res" where
  "parse_req_wl_shm_pool_resize msg =
     rbind (get_from msg 8) (\<lambda>msg.
     rbind (parse_i32 msg) (\<lambda>(arg1, msg).
       if msg \<noteq> [] then fail PARSE_ERROR else Ok arg1))"

definition length_req_wl_shm_create_pool :: nat where
  "length_req_wl_shm_create_pool = 16"

definition write_req_wl_shm_create_pool ::
  "cursor \<Rightarrow> ObjId \<Rightarrow> bool \<Rightarrow> ObjId \<Rightarrow> int \<Rightarrow> cursor res" where
  "write_req_wl_shm_create_pool c for_id tag_fds new_id sz =
     rbind (write_header c for_id length_req_wl_shm_create_pool 0 (if tag_fds then 1 else 0)) (\<lambda>c.
     rbind (write_obj c new_id) (\<lambda>c.
       write_i32 c sz))"

definition parse_req_wl_shm_create_pool :: "bytes \<Rightarrow> (ObjId \<times> int) res" where
  "parse_req_wl_shm_create_pool msg =
     rbind (get_from msg 8) (\<lambda>msg.
     rbind (parse_obj msg) (\<lambda>(arg1, msg).
     rbind (parse_i32 msg) (\<lambda>(arg3, msg).
       if msg \<noteq> [] then fail PARSE_ERROR else Ok (arg1, arg3))))"

definition length_req_wl_data_offer_receive :: "nat \<Rightarrow> nat res" where
  "length_req_wl_data_offer_receive mime_type_len = usize_add 8 (length_string mime_type_len)"

definition write_req_wl_data_offer_receive ::
  "cursor \<Rightarrow> ObjId \<Rightarrow> bool \<Rightarrow> bytes \<Rightarrow> cursor res" where
  "write_req_wl_data_offer_receive c for_id tag_fds mime_type =
     rbind (length_req_wl_data_offer_receive (length mime_type)) (\<lambda>l.
     rbind (write_header c for_id l 1 (if tag_fds then 1 else 0)) (\<lambda>c.
       write_string c (Some mime_type)))"

definition parse_req_wl_data_offer_receive :: "bytes \<Rightarrow> (bytes) res" where
  "parse_req_wl_data_offer_receive msg =
     rbind (get_from msg 8) (\<lambda>msg.
     rbind (parse_str msg) (\<lambda>(arg1, msg).
       if msg \<noteq> [] then fail PARSE_ERROR else Ok arg1))"

definition length_evt_wl_data_source_send :: "nat \<Rightarrow> nat res" where
  "length_evt_wl_data_source_send mime_type_len = usize_add 8 (length_string mime_type_len)"

definition write_evt_wl_data_source_send ::
  "cursor \<Rightarrow> ObjId \<Rightarrow> bool \<Rightarrow> bytes \<Rightarrow> cursor res" where
  "write_evt_wl_data_source_send c for_id tag_fds mime_type =
     rbind (length_evt_wl_data_source_send (length mime_type)) (\<lambda>l.
     rbind (write_header c for_id l 1 (if tag_fds then 1 else 0)) (\<lambda>c.
       write_string c (Some mime_type)))"

definition parse_evt_wl_data_source_send :: "bytes \<Rightarrow> (bytes) res" where
  "parse_evt_wl_data_source_send msg =
     rbind (get_from msg 8) (\<lambda>msg.
     rbind (parse_str msg) (\<lambda>(arg1, msg).
       if msg \<noteq> [] then fail PARSE_ERROR else Ok arg1))"

definition length_req_wl_data_device_set_selection :: nat where
  "length_req_wl_data_device_set_selection = 16"

definition write_req_wl_data_device_set_selection ::
  "cursor \<Rightarrow> ObjId \<Rightarrow> ObjId \<Rightarrow> u32 \<Rightarrow> cursor res" where
  "write_req_wl_data_device_set_selection c for_id source serial =
     rbind (write_header c for_id length_req_wl_data_device_set_selection 1 0) (\<lambda>c.
     rbind (write_obj c source) (\<lambda>c.
       write_u32 c serial))"

definition parse_req_wl_data_device_set_selection :: "bytes \<Rightarrow> (ObjId \<times> u32) res" where
  "parse_req_wl_data_device_set_selection msg =
     rbind (get_from msg 8) (\<lambda>msg.
     rbind (parse_obj msg) (\<lambda>(arg1, msg).
     rbind (parse_u32 msg) (\<lambda>(arg2, msg).
       if msg \<noteq> [] then fail PARSE_ERROR else Ok (arg1, arg2))))"

definition length_req_wl_data_device_manager_create_data_source :: nat where
  "length_req_wl_data_device_manager_create_data_source = 12"

definition write_req_wl_data_device_manager_create_data_source ::
  "cursor \<Rightarrow> ObjId \<Rightarrow> ObjId \<Rightarrow> cursor res" where
  "write_req_wl_data_device_manager_create_data_source c for_id new_id =
     rbind (write_header c for_id length_req_wl_data_device_manager_create_data_source 0 0) (\<lambda>c.
       write_obj c new_id)"

definition parse_req_wl_data_device_manager_create_data_source :: "bytes \<Rightarrow> (ObjId) res" where
  "parse_req_wl_data_device_manager_create_data_source msg =
     rbind (get_from msg 8) (\<lambda>msg.
     rbind (parse_obj msg) (\<lambda>(arg1, msg).
       if msg \<noteq> [] then fail PARSE_ERROR else Ok arg1))"

definition length_req_wl_data_device_manager_get_data_device :: nat where
  "length_req_wl_data_device_manager_get_data_device = 16"

definition write_req_wl_data_device_manager_get_data_device ::
  "cursor \<Rightarrow> ObjId \<Rightarrow> ObjId \<Rightarrow> ObjId \<Rightarrow> cursor res" where
  "write_req_wl_data_device_manager_get_data_device c for_id new_id seat =
     rbind (write_header c for_id length_req_wl_data_device_manager_get_data_device 1 0) (\<lambda>c.
     rbind (write_obj c new_id) (\<lambda>c.
       write_obj c seat))"

definition parse_req_wl_data_device_manager_get_data_device :: "bytes \<Rightarrow> (ObjId \<times> ObjId) res" where
  "parse_req_wl_data_device_manager_get_data_device msg =
     rbind (get_from msg 8) (\<lambda>msg.
     rbind (parse_obj msg) (\<lambda>(arg1, msg).
     rbind (parse_obj msg) (\<lambda>(arg2, msg).
       if msg \<noteq> [] then fail PARSE_ERROR else Ok (arg1, arg2))))"

definition length_req_wl_surface_attach :: nat where
  "length_req_wl_surface_attach = 20"

definition write_req_wl_surface_attach ::
  "cursor \<Rightarrow> ObjId \<Rightarrow> ObjId \<Rightarrow> int \<Rightarrow> int \<Rightarrow> cursor res" where
  "write_req_wl_surface_attach c for_id buffer x y =
     rbind (write_header c for_id length_req_wl_surface_attach 1 0) (\<lambda>c.
     rbind (write_obj c buffer) (\<lambda>c.
     rbind (write_i32 c x) (\<lambda>c.
       write_i32 c y)))"

definition parse_req_wl_surface_attach :: "bytes \<Rightarrow> (ObjId \<times> int \<times> int) res" where
  "parse_req_wl_surface_attach msg =
     rbind (get_from msg 8) (\<lambda>msg.
     rbind (parse_obj msg) (\<lambda>(arg1, msg).
     rbind (parse_i32 msg) (\<lambda>(arg2, msg).
     rbind (parse_i32 msg) (\<lambda>(arg3, msg).
       if msg \<noteq> [] then fail PARSE_ERROR else Ok (arg1, arg2, arg3)))))"

definition length_req_wl_surface_damage :: nat where
  "length_req_wl_surface_damage = 24"

definition write_req_wl_surface_damage ::
  "cursor \<Rightarrow> ObjId \<Rightarrow> int \<Rightarrow> int \<Rightarrow> int \<Rightarrow> int \<Rightarrow> cursor res" where
  "write_req_wl_surface_damage c for_id x y width height =
     rbind (write_header c for_id length_req_wl_surface_damage 2 0) (\<lambda>c.
     rbind (write_i32 c x) (\<lambda>c.
     rbind (write_i32 c y) (\<lambda>c.
     rbind (write_i32 c width) (\<lambda>c.
       write_i32 c height))))"

definition parse_req_wl_surface_damage :: "bytes \<Rightarrow> (int \<times> int \<times> int \<times> int) res" where
  "parse_req_wl_surface_damage msg =
     rbind (get_from msg 8) (\<lambda>msg.
     rbind (parse_i32 msg) (\<lambda>(arg1, msg).
     rbind (parse_i32 msg) (\<lambda>(arg2, msg).
     rbind (parse_i32 msg) (\<lambda>(arg3, msg).
     rbind (parse_i32 msg) (\<lambda>(arg4, msg).
       if msg \<noteq> [] then fail PARSE_ERROR else Ok (arg1, arg2, arg3, arg4))))))"

definition length_req_wl_surface_set_buffer_transform :: nat where
  "length_req_wl_surface_set_buffer_transform = 12"

definition write_req_wl_surface_set_buffer_transform ::
  "cursor \<Rightarrow> ObjId \<Rightarrow> int \<Rightarrow> cursor res" where
  "write_req_wl_surface_set_buffer_transform c for_id transform =
     rbind (write_header c for_id length_req_wl_surface_set_buffer_transform 7 0) (\<lambda>c.
       write_i32 c transform)"

definition parse_req_wl_surface_set_buffer_transform :: "bytes \<Rightarrow> (int) res" where
  "parse_req_wl_surface_set_buffer_transform msg =
     rbind (get_from msg 8) (\<lambda>msg.
     rbind (parse_i32 msg) (\<lambda>(arg1, msg).
       if msg \<noteq> [] then fail PARSE_ERROR else Ok arg1))"

definition length_req_wl_surface_damage_buffer :: nat where
  "length_req_wl_surface_damage_buffer = 24"

definition write_req_wl_surface_damage_buffer ::
  "cursor \<Rightarrow> ObjId \<Rightarrow> int \<Rightarrow> int \<Rightarrow> int \<Rightarrow> int \<Rightarrow> cursor res" where
  "write_req_wl_surface_damage_buffer c for_id x y width height =
     rbind (write_header c for_id length_req_wl_surface_damage_buffer 9 0) (\<lambda>c.
     rbind (write_i32 c x) (\<lambda>c.
     rbind (write_i32 c y) (\<lambda>c.
     rbind (write_i32 c width) (\<lambda>c.
       write_i32 c height))))"

definition parse_req_wl_surface_damage_buffer :: "bytes \<Rightarrow> (int \<times> int \<times> int \<times> int) res" where
  "parse_req_wl_surface_damage_buffer msg =
     rbind (get_from msg 8) (\<lambda>msg.
     rbind (parse_i32 msg) (\<lambda>(arg1, msg).
     rbind (parse_i32 msg) (\<lambda>(arg2, msg).
     rbind (parse_i32 msg) (\<lambda>(arg3, msg).
     rbind (parse_i32 msg) (\<lambda>(arg4, msg).
       if msg \<noteq> [] then fail PARSE_ERROR else Ok (arg1, arg2, arg3, arg4))))))"

definition length_evt_wl_keyboard_keymap :: nat where
  "length_evt_wl_keyboard_keymap = 16"

definition write_evt_wl_keyboard_keymap ::
  "cursor \<Rightarrow> ObjId \<Rightarrow> bool \<Rightarrow> u32 \<Rightarrow> u32 \<Rightarrow> cursor res" where
  "write_evt_wl_keyboard_keymap c for_id tag_fds format sz =
     rbind (write_header c for_id length_evt_wl_keyboard_keymap 0 (if tag_fds then 1 else 0)) (\<lambda>c.
     rbind (write_u32 c format) (\<lambda>c.
       write_u32 c sz))"

definition parse_evt_wl_keyboard_keymap :: "bytes \<Rightarrow> (u32 \<times> u32) res" where
  "parse_evt_wl_keyboard_keymap msg =
     rbind (get_from msg 8) (\<lambda>msg.
     rbind (parse_u32 msg) (\<lambda>(arg1, msg).
     rbind (parse_u32 msg) (\<lambda>(arg3, msg).
       if msg \<noteq> [] then fail PARSE_ERROR else Ok (arg1, arg3))))"

definition length_req_zwlr_screencopy_manager_v1_capture_output :: nat where
  "length_req_zwlr_screencopy_manager_v1_capture_output = 20"

definition write_req_zwlr_screencopy_manager_v1_capture_output ::
  "cursor \<Rightarrow> ObjId \<Rightarrow> ObjId \<Rightarrow> int \<Rightarrow> ObjId \<Rightarrow> cursor res" where
  "write_req_zwlr_screencopy_manager_v1_capture_output c for_id frame overlay_cursor outp =
     rbind (write_header c for_id length_req_zwlr_screencopy_manager_v1_capture_output 0 0) (\<lambda>c.
     rbind (write_obj c frame) (\<lambda>c.
     rbind (write_i32 c overlay_cursor) (\<lambda>c.
       write_obj c outp)))"

definition parse_req_zwlr_screencopy_manager_v1_capture_output :: "bytes \<Rightarrow> (ObjId \<times> int \<times> ObjId) res" where
  "parse_req_zwlr_screencopy_manager_v1_capture_output msg =
     rbind (get_from msg 8) (\<lambda>msg.
     rbind (parse_obj msg) (\<lambda>(arg1, msg).
     rbind (parse_i32 msg) (\<lambda>(arg2, msg).
     rbind (parse_obj msg) (\<lambda>(arg3, msg).
       if msg \<noteq> [] then fail PARSE_ERROR else Ok (arg1, arg2, arg3)))))"

definition length_req_zwlr_screencopy_manager_v1_capture_output_region :: nat where
  "length_req_zwlr_screencopy_manager_v1_capture_output_region = 36"

definition write_req_zwlr_screencopy_manager_v1_capture_output_region ::
  "cursor \<Rightarrow> ObjId \<Rightarrow> ObjId \<Rightarrow> int \<Rightarrow> ObjId \<Rightarrow> int \<Rightarrow> int \<Rightarrow> int \<Rightarrow> int \<Rightarrow> cursor res" where
  "write_req_zwlr_screencopy_manager_v1_capture_output_region c for_id frame overlay_cursor outp x y width height =
     rbind (write_header c for_id length_req_zwlr_screencopy_manager_v1_capture_output_region 1 0) (\<lambda>c.
     rbind (write_obj c frame) (\<lambda>c.
     rbind (write_i32 c overlay_cursor) (\<lambda>c.
     rbind (write_obj c outp) (\<lambda>c.
     rbind (write_i32 c x) (\<lambda>c.
     rbind (write_i32 c y) (\<lambda>c.
     rbind (write_i32 c width) (\<lambda>c.
       write_i32 c height)))))))"

definition parse_req_zwlr_screencopy_manager_v1_capture_output_region :: "bytes \<Rightarrow> (ObjId \<times> int \<times> ObjId \<times> int \<times> int \<times> int \<times> int) res" where
  "parse_req_zwlr_screencopy_manager_v1_capture_output_region msg =
     rbind (get_from msg 8) (\<lambda>msg.
     rbind (parse_obj msg) (\<lambda>(arg1, msg).
     rbind (parse_i32 msg) (\<lambda>(arg2, msg).
     rbind (parse_obj msg) (\<lambda>(arg3, msg).
     rbind (parse_i32 msg) (\<lambda>(arg4, msg).
     rbind (parse_i32 msg) (\<lambda>(arg5, msg).
     rbind (parse_i32 msg) (\<lambda>(arg6, msg).
     rbind (parse_i32 msg) (\<lambda>(arg7, msg).
       if msg \<noteq> [] then fail PARSE_ERROR else Ok (arg1, arg2, arg3, arg4, arg5, arg6, arg7)))))))))"

definition length_evt_zwlr_screencopy_frame_v1_buffer :: nat where
  "length_evt_zwlr_screencopy_frame_v1_buffer = 24"

definition write_evt_zwlr_screencopy_frame_v1_buffer ::
  "cursor \<Rightarrow> ObjId \<Rightarrow> u32 \<Rightarrow> u32 \<Rightarrow> u32 \<Rightarrow> u32 \<Rightarrow> cursor res" where
  "write_evt_zwlr_screencopy_frame_v1_buffer c for_id format width height stride =
     rbind (write_header c for_id length_evt_zwlr_screencopy_frame_v1_buffer 0 0) (\<lambda>c.
     rbind (write_u32 c format) (\<lambda>c.
     rbind (write_u32 c width) (\<lambda>c.
     rbind (write_u32 c height) (\<lambda>c.
       write_u32 c stride))))"

definition parse_evt_zwlr_screencopy_frame_v1_buffer :: "bytes \<Rightarrow> (u32 \<times> u32 \<times> u32 \<times> u32) res" where
  "parse_evt_zwlr_screencopy_frame_v1_buffer msg =
     rbind (get_from msg 8) (\<lambda>msg.
     rbind (parse_u32 msg) (\<lambda>(arg1, msg).
     rbind (parse_u32 msg) (\<lambda>(arg2, msg).
     rbind (parse_u32 msg) (\<lambda>(arg3, msg).
     rbind (parse_u32 msg) (\<lambda>(arg4, msg).
       if msg \<noteq> [] then fail PARSE_ERROR else Ok (arg1, arg2, arg3, arg4))))))"

definition length_evt_zwlr_screencopy_frame_v1_ready :: nat where
  "length_evt_zwlr_screencopy_frame_v1_ready = 20"

definition write_evt_zwlr_screencopy_frame_v1_ready ::
  "cursor \<Rightarrow> ObjId \<Rightarrow> u32 \<Rightarrow> u32 \<Rightarrow> u32 \<Rightarrow> cursor res" where
  "write_evt_zwlr_screencopy_frame_v1_ready c for_id tv_sec_hi tv_sec_lo tv_nsec =
     rbind (write_header c for_id length_evt_zwlr_screencopy_frame_v1_ready 2 0) (\<lambda>c.
     rbind (write_u32 c tv_sec_hi) (\<lambda>c.
     rbind (write_u32 c tv_sec_lo) (\<lambda>c.
       write_u32 c tv_nsec)))"

definition parse_evt_zwlr_screencopy_frame_v1_ready :: "bytes \<Rightarrow> (u32 \<times> u32 \<times> u32) res" where
  "parse_evt_zwlr_screencopy_frame_v1_ready msg =
     rbind (get_from msg 8) (\<lambda>msg.
     rbind (parse_u32 msg) (\<lambda>(arg1, msg).
     rbind (parse_u32 msg) (\<lambda>(arg2, msg).
     rbind (parse_u32 msg) (\<lambda>(arg3, msg).
       if msg \<noteq> [] then fail PARSE_ERROR else Ok (arg1, arg2, arg3)))))"

definition length_req_zwlr_screencopy_frame_v1_copy_with_damage :: nat where
  "length_req_zwlr_screencopy_frame_v1_copy_with_damage = 12"

definition write_req_zwlr_screencopy_frame_v1_copy_with_damage ::
  "cursor \<Rightarrow> ObjId \<Rightarrow> ObjId \<Rightarrow> cursor res" where
  "write_req_zwlr_screencopy_frame_v1_copy_with_damage c for_id buffer =
     rbind (write_header c for_id length_req_zwlr_screencopy_frame_v1_copy_with_damage 2 0) (\<lambda>c.
       write_obj c buffer)"

definition parse_req_zwlr_screencopy_frame_v1_copy_with_damage :: "bytes \<Rightarrow> (ObjId) res" where
  "parse_req_zwlr_screencopy_frame_v1_copy_with_damage msg =
     rbind (get_from msg 8) (\<lambda>msg.
     rbind (parse_obj msg) (\<lambda>(arg1, msg).
       if msg \<noteq> [] then fail PARSE_ERROR else Ok arg1))"

definition length_evt_zwlr_screencopy_frame_v1_linux_dmabuf :: nat where
  "length_evt_zwlr_screencopy_frame_v1_linux_dmabuf = 20"

definition write_evt_zwlr_screencopy_frame_v1_linux_dmabuf ::
  "cursor \<Rightarrow> ObjId \<Rightarrow> u32 \<Rightarrow> u32 \<Rightarrow> u32 \<Rightarrow> cursor res" where
  "write_evt_zwlr_screencopy_frame_v1_linux_dmabuf c for_id format width height =
     rbind (write_header c for_id length_evt_zwlr_screencopy_frame_v1_linux_dmabuf 5 0) (\<lambda>c.
     rbind (write_u32 c format) (\<lambda>c.
     rbind (write_u32 c width) (\<lambda>c.
       write_u32 c height)))"

definition parse_evt_zwlr_screencopy_frame_v1_linux_dmabuf :: "bytes \<Rightarrow> (u32 \<times> u32 \<times> u32) res" where
  "parse_evt_zwlr_screencopy_frame_v1_linux_dmabuf msg =
     rbind (get_from msg 8) (\<lambda>msg.
     rbind (parse_u32 msg) (\<lambda>(arg1, msg).
     rbind (parse_u32 msg) (\<lambda>(arg2, msg).
     rbind (parse_u32 msg) (\<lambda>(arg3, msg).
       if msg \<noteq> [] then fail PARSE_ERROR else Ok (arg1, arg2, arg3)))))"

definition length_req_xdg_wm_base_get_xdg_surface :: nat where
  "length_req_xdg_wm_base_get_xdg_surface = 16"

definition write_req_xdg_wm_base_get_xdg_surface ::
  "cursor \<Rightarrow> ObjId \<Rightarrow> ObjId \<Rightarrow> ObjId \<Rightarrow> cursor res" where
  "write_req_xdg_wm_base_get_xdg_surface c for_id new_id surface =
     rbind (write_header c for_id length_req_xdg_wm_base_get_xdg_surface 2 0) (\<lambda>c.
     rbind (write_obj c new_id) (\<lambda>c.
       write_obj c surface))"

definition parse_req_xdg_wm_base_get_xdg_surface :: "bytes \<Rightarrow> (ObjId \<times> ObjId) res" where
  "parse_req_xdg_wm_base_get_xdg_surface msg =
     rbind (get_from msg 8) (\<lambda>msg.
     rbind (parse_obj msg) (\<lambda>(arg1, msg).
     rbind (parse_obj msg) (\<lambda>(arg2, msg).
       if msg \<noteq> [] then fail PARSE_ERROR else Ok (arg1, arg2))))"

definition length_req_xdg_toplevel_icon_manager_v1_create_icon :: nat where
  "length_req_xdg_toplevel_icon_manager_v1_create_icon = 12"

definition write_req_xdg_toplevel_icon_manager_v1_create_icon ::
  "cursor \<Rightarrow> ObjId \<Rightarrow> ObjId \<Rightarrow> cursor res" where
  "write_req_xdg_toplevel_icon_manager_v1_create_icon c for_id new_id =
     rbind (write_header c for_id length_req_xdg_toplevel_icon_manager_v1_create_icon 1 0) (\<lambda>c.
       write_obj c new_id)"

definition parse_req_xdg_toplevel_icon_manager_v1_create_icon :: "bytes \<Rightarrow> (ObjId) res" where
  "parse_req_xdg_toplevel_icon_manager_v1_create_icon msg =
     rbind (get_from msg 8) (\<lambda>msg.
     rbind (parse_obj msg) (\<lambda>(arg1, msg).
       if msg \<noteq> [] then fail PARSE_ERROR else Ok arg1))"

definition length_evt_xdg_toplevel_icon_manager_v1_icon_size :: nat where
  "length_evt_xdg_toplevel_icon_manager_v1_icon_size = 12"

definition write_evt_xdg_toplevel_icon_manager_v1_icon_size ::
  "cursor \<Rightarrow> ObjId \<Rightarrow> int \<Rightarrow> cursor res" where
  "write_evt_xdg_toplevel_icon_manager_v1_icon_size c for_id sz =
     rbind (write_header c for_id length_evt_xdg_toplevel_icon_manager_v1_icon_size 0 0) (\<lambda>c.
       write_i32 c sz)"

definition parse_evt_xdg_toplevel_icon_manager_v1_icon_size :: "bytes \<Rightarrow> (int) res" where
  "parse_evt_xdg_toplevel_icon_manager_v1_icon_size msg =
     rbind (get_from msg 8) (\<lambda>msg.
     rbind (parse_i32 msg) (\<lambda>(arg1, msg).
       if msg \<noteq> [] then fail PARSE_ERROR else Ok arg1))"

definition length_req_xdg_toplevel_icon_v1_add_buffer :: nat where
  "length_req_xdg_toplevel_icon_v1_add_buffer = 16"

definition write_req_xdg_toplevel_icon_v1_add_buffer ::
  "cursor \<Rightarrow> ObjId \<Rightarrow> ObjId \<Rightarrow> int \<Rightarrow> cursor res" where
  "write_req_xdg_toplevel_icon_v1_add_buffer c for_id buffer scale =
     rbind (write_header c for_id length_req_xdg_toplevel_icon_v1_add_buffer 2 0) (\<lambda>c.
     rbind (write_obj c buffer) (\<lambda>c.
       write_i32 c scale))"

definition parse_req_xdg_toplevel_icon_v1_add_buffer :: "bytes \<Rightarrow> (ObjId \<times> int) res" where
  "parse_req_xdg_toplevel_icon_v1_add_buffer msg =
     rbind (get_from msg 8) (\<lambda>msg.
     rbind (parse_obj msg) (\<lambda>(arg1, msg).
     rbind (parse_i32 msg) (\<lambda>(arg2, msg).
       if msg \<noteq> [] then fail PARSE_ERROR else Ok (arg1, arg2))))"

section \<open>Messages as codecs\<close>

text \<open>
  The functions of a message over lists of values, with the table entry that describes it. A
  file descriptor is not part of the bytes of a message; \<open>VFd\<close> stands at its place.
\<close>

record wl_codec =
  cdata :: WaylandData
  cid :: MethodId
  cwrite :: "cursor \<Rightarrow> ObjId \<Rightarrow> bool \<Rightarrow> wl_value list \<Rightarrow> cursor res"
  cparse :: "bytes \<Rightarrow> wl_value list res"

definition the_int :: "wl_value \<Rightarrow> int" where
  "the_int v = (case v of VInt i \<Rightarrow> i | _ \<Rightarrow> 0)"

definition the_uint :: "wl_value \<Rightarrow> u32" where
  "the_uint v = (case v of VUint w \<Rightarrow> w | _ \<Rightarrow> 0)"

definition the_string :: "wl_value \<Rightarrow> bytes" where
  "the_string v = (case v of VString s \<Rightarrow> s | _ \<Rightarrow> [])"

definition the_array :: "wl_value \<Rightarrow> bytes" where
  "the_array v = (case v of VArray s \<Rightarrow> s | _ \<Rightarrow> [])"

definition the_obj :: "wl_value \<Rightarrow> ObjId" where
  "the_obj v = (case v of VObj i \<Rightarrow> i | _ \<Rightarrow> ObjId 0)"

definition newid_name :: "wl_value \<Rightarrow> bytes" where
  "newid_name v = (case v of VNewId n w i \<Rightarrow> n | _ \<Rightarrow> [])"

definition newid_version :: "wl_value \<Rightarrow> u32" where
  "newid_version v = (case v of VNewId n w i \<Rightarrow> w | _ \<Rightarrow> 0)"

definition newid_id :: "wl_value \<Rightarrow> ObjId" where
  "newid_id v = (case v of VNewId n w i \<Rightarrow> i | _ \<Rightarrow> ObjId 0)"

definition codec_req_zwp_linux_dmabuf_v1_create_params :: wl_codec where
  "codec_req_zwp_linux_dmabuf_v1_create_params =
     \<lparr>cdata = DATA_ZWP_LINUX_DMABUF_V1, cid = Request 1,
      cwrite = (\<lambda>c for_id tag vs. write_req_zwp_linux_dmabuf_v1_create_params c for_id (the_obj (vs ! 0))),
      cparse = (\<lambda>msg. rbind (parse_req_zwp_linux_dmabuf_v1_create_params msg) (\<lambda>arg1. Ok [VObj arg1]))\<rparr>"

definition codec_evt_zwp_linux_dmabuf_v1_modifier :: wl_codec where
  "codec_evt_zwp_linux_dmabuf_v1_modifier =
     \<lparr>cdata = DATA_ZWP_LINUX_DMABUF_V1, cid = Event 1,
      cwrite = (\<lambda>c for_id tag vs. write_evt_zwp_linux_dmabuf_v1_modifier c for_id (the_uint (vs ! 0)) (the_uint (vs ! 1)) (the_uint (vs ! 2))),
      cparse = (\<lambda>msg. rbind (parse_evt_zwp_linux_dmabuf_v1_modifier msg) (\<lambda>(arg1, arg2, arg3). Ok [VUint arg1, VUint arg2, VUint arg3]))\<rparr>"

definition codec_req_zwp_linux_dmabuf_v1_get_default_feedback :: wl_codec where
  "codec_req_zwp_linux_dmabuf_v1_get_default_feedback =
     \<lparr>cdata = DATA_ZWP_LINUX_DMABUF_V1, cid = Request 2,
      cwrite = (\<lambda>c for_id tag vs. write_req_zwp_linux_dmabuf_v1_get_default_feedback c for_id (the_obj (vs ! 0))),
      cparse = (\<lambda>msg. rbind (parse_req_zwp_linux_dmabuf_v1_get_default_feedback msg) (\<lambda>arg1. Ok [VObj arg1]))\<rparr>"

definition codec_req_zwp_linux_dmabuf_v1_get_surface_feedback :: wl_codec where
  "codec_req_zwp_linux_dmabuf_v1_get_surface_feedback =
     \<lparr>cdata = DATA_ZWP_LINUX_DMABUF_V1, cid = Request 3,
      cwrite = (\<lambda>c for_id tag vs. write_req_zwp_linux_dmabuf_v1_get_surface_feedback c for_id (the_obj (vs ! 0)) (the_obj (vs ! 1))),
      cparse = (\<lambda>msg. rbind (parse_req_zwp_linux_dmabuf_v1_get_surface_feedback msg) (\<lambda>(arg1, arg2). Ok [VObj arg1, VObj arg2]))\<rparr>"

definition codec_req_zwp_linux_buffer_params_v1_add :: wl_codec where
  "codec_req_zwp_linux_buffer_params_v1_add =
     \<lparr>cdata = DATA_ZWP_LINUX_BUFFER_PARAMS_V1, cid = Request 1,
      cwrite = (\<lambda>c for_id tag vs. write_req_zwp_linux_buffer_params_v1_add c for_id tag (the_uint (vs ! 1)) (the_uint (vs ! 2)) (the_uint (vs ! 3)) (the_uint (vs ! 4)) (the_uint (vs ! 5))),
      cparse = (\<lambda>msg. rbind (parse_req_zwp_linux_buffer_params_v1_add msg) (\<lambda>(arg2, arg3, arg4, arg5, arg6). Ok [VFd, VUint arg2, VUint arg3, VUint arg4, VUint arg5, VUint arg6]))\<rparr>"

definition codec_req_zwp_linux_buffer_params_v1_create :: wl_codec where
  "codec_req_zwp_linux_buffer_params_v1_create =
     \<lparr>cdata = DATA_ZWP_LINUX_BUFFER_PARAMS_V1, cid = Request 2,
      cwrite = (\<lambda>c for_id tag vs. write_req_zwp_linux_buffer_params_v1_create c for_id (the_int (vs ! 0)) (the_int (vs ! 1)) (the_uint (vs ! 2)) (the_uint (vs ! 3))),
      cparse = (\<lambda>msg. rbind (parse_req_zwp_linux_buffer_params_v1_create msg) (\<lambda>(arg1, arg2, arg3, arg4). Ok [VInt arg1, VInt arg2, VUint arg3, VUint arg4]))\<rparr>"

definition codec_evt_zwp_linux_buffer_params_v1_created :: wl_codec where
  "codec_evt_zwp_linux_buffer_params_v1_created =
     \<lparr>cdata = DATA_ZWP_LINUX_BUFFER_PARAMS_V1, cid = Event 0,
      cwrite = (\<lambda>c for_id tag vs. write_evt_zwp_linux_buffer_params_v1_created c for_id (the_obj (vs ! 0))),
      cparse = (\<lambda>msg. rbind (parse_evt_zwp_linux_buffer_params_v1_created msg) (\<lambda>arg1. Ok [VObj arg1]))\<rparr>"

definition codec_req_zwp_linux_buffer_params_v1_create_immed :: wl_codec where
  "codec_req_zwp_linux_buffer_params_v1_create_immed =
     \<lparr>cdata = DATA_ZWP_LINUX_BUFFER_PARAMS_V1, cid = Request 3,
      cwrite = (\<lambda>c for_id tag vs. write_req_zwp_linux_buffer_params_v1_create_immed c for_id (the_obj (vs ! 0)) (the_int (vs ! 1)) (the_int (vs ! 2)) (the_uint (vs ! 3)) (the_uint (vs ! 4))),
      cparse = (\<lambda>msg. rbind (parse_req_zwp_linux_buffer_params_v1_create_immed msg) (\<lambda>(arg1, arg2, arg3, arg4, arg5). Ok [VObj arg1, VInt arg2, VInt arg3, VUint arg4, VUint arg5]))\<rparr>"

definition codec_evt_zwp_linux_dmabuf_feedback_v1_format_table :: wl_codec where
  "codec_evt_zwp_linux_dmabuf_feedback_v1_format_table =
     \<lparr>cdata = DATA_ZWP_LINUX_DMABUF_FEEDBACK_V1, cid = Event 1,
      cwrite = (\<lambda>c for_id tag vs. write_evt_zwp_linux_dmabuf_feedback_v1_format_table c for_id tag (the_uint (vs ! 1))),
      cparse = (\<lambda>msg. rbind (parse_evt_zwp_linux_dmabuf_feedback_v1_format_table msg) (\<lambda>arg2. Ok [VFd, VUint arg2]))\<rparr>"

definition codec_evt_zwp_linux_dmabuf_feedback_v1_main_device :: wl_codec where
  "codec_evt_zwp_linux_dmabuf_feedback_v1_main_device =
     \<lparr>cdata = DATA_ZWP_LINUX_DMABUF_FEEDBACK_V1, cid = Event 2,
      cwrite = (\<lambda>c for_id tag vs. write_evt_zwp_linux_dmabuf_feedback_v1_main_device c for_id (the_array (vs ! 0))),
      cparse = (\<lambda>msg. rbind (parse_evt_zwp_linux_dmabuf_feedback_v1_main_device msg) (\<lambda>arg1. Ok [VArray arg1]))\<rparr>"

definition codec_evt_zwp_linux_dmabuf_feedback_v1_tranche_target_device :: wl_codec where
  "codec_evt_zwp_linux_dmabuf_feedback_v1_tranche_target_device =
     \<lparr>cdata = DATA_ZWP_LINUX_DMABUF_FEEDBACK_V1, cid = Event 4,
      cwrite = (\<lambda>c for_id tag vs. write_evt_zwp_linux_dmabuf_feedback_v1_tranche_target_device c for_id (the_array (vs ! 0))),
      cparse = (\<lambda>msg. rbind (parse_evt_zwp_linux_dmabuf_feedback_v1_tranche_target_device msg) (\<lambda>arg1. Ok [VArray arg1]))\<rparr>"

definition codec_evt_zwp_linux_dmabuf_feedback_v1_tranche_formats :: wl_codec where
  "codec_evt_zwp_linux_dmabuf_feedback_v1_tranche_formats =
     \<lparr>cdata = DATA_ZWP_LINUX_DMABUF_FEEDBACK_V1, cid = Event 5,
      cwrite = (\<lambda>c for_id tag vs. write_evt_zwp_linux_dmabuf_feedback_v1_tranche_formats c for_id (the_array (vs ! 0))),
      cparse = (\<lambda>msg. rbind (parse_evt_zwp_linux_dmabuf_feedback_v1_tranche_formats msg) (\<lambda>arg1. Ok [VArray arg1]))\<rparr>"

definition codec_evt_zwp_linux_dmabuf_feedback_v1_tranche_flags :: wl_codec where
  "codec_evt_zwp_linux_dmabuf_feedback_v1_tranche_flags =
     \<lparr>cdata = DATA_ZWP_LINUX_DMABUF_FEEDBACK_V1, cid = Event 6,
      cwrite = (\<lambda>c for_id tag vs. write_evt_zwp_linux_dmabuf_feedback_v1_tranche_flags c for_id (the_uint (vs ! 0))),
      cparse = (\<lambda>msg. rbind (parse_evt_zwp_linux_dmabuf_feedback_v1_tranche_flags msg) (\<lambda>arg1. Ok [VUint arg1]))\<rparr>"

definition codec_req_wp_linux_drm_syncobj_manager_v1_get_surface :: wl_codec where
  "codec_req_wp_linux_drm_syncobj_manager_v1_get_surface =
     \<lparr>cdata = DATA_WP_LINUX_DRM_SYNCOBJ_MANAGER_V1, cid = Request 1,
      cwrite = (\<lambda>c for_id tag vs. write_req_wp_linux_drm_syncobj_manager_v1_get_surface c for_id (the_obj (vs ! 0)) (the_obj (vs ! 1))),
      cparse = (\<lambda>msg. rbind (parse_req_wp_linux_drm_syncobj_manager_v1_get_surface msg) (\<lambda>(arg1, arg2). Ok [VObj arg1, VObj arg2]))\<rparr>"

definition codec_req_wp_linux_drm_syncobj_manager_v1_import_timeline :: wl_codec where
  "codec_req_wp_linux_drm_syncobj_manager_v1_import_timeline =
     \<lparr>cdata = DATA_WP_LINUX_DRM_SYNCOBJ_MANAGER_V1, cid = Request 2,
      cwrite = (\<lambda>c for_id tag vs. write_req_wp_linux_drm_syncobj_manager_v1_import_timeline c for_id tag (the_obj (vs ! 0))),
      cparse = (\<lambda>msg. rbind (parse_req_wp_linux_drm_syncobj_manager_v1_import_timeline msg) (\<lambda>arg1. Ok [VObj arg1, VFd]))\<rparr>"

definition codec_req_wp_linux_drm_syncobj_surface_v1_set_acquire_point :: wl_codec where
  "codec_req_wp_linux_drm_syncobj_surface_v1_set_acquire_point =
     \<lparr>cdata = DATA_WP_LINUX_DRM_SYNCOBJ_SURFACE_V1, cid = Request 1,
      cwrite = (\<lambda>c for_id tag vs. write_req_wp_linux_drm_syncobj_surface_v1_set_acquire_point c for_id (the_obj (vs ! 0)) (the_uint (vs ! 1)) (the_uint (vs ! 2))),
      cparse = (\<lambda>msg. rbind (parse_req_wp_linux_drm_syncobj_surface_v1_set_acquire_point msg) (\<lambda>(arg1, arg2, arg3). Ok [VObj arg1, VUint arg2, VUint arg3]))\<rparr>"

definition codec_req_wp_linux_drm_syncobj_surface_v1_set_release_point :: wl_codec where
  "codec_req_wp_linux_drm_syncobj_surface_v1_set_release_point =
     \<lparr>cdata = DATA_WP_LINUX_DRM_SYNCOBJ_SURFACE_V1, cid = Request 2,
      cwrite = (\<lambda>c for_id tag vs. write_req_wp_linux_drm_syncobj_surface_v1_set_release_point c for_id (the_obj (vs ! 0)) (the_uint (vs ! 1)) (the_uint (vs ! 2))),
      cparse = (\<lambda>msg. rbind (parse_req_wp_linux_drm_syncobj_surface_v1_set_release_point msg) (\<lambda>(arg1, arg2, arg3). Ok [VObj arg1, VUint arg2, VUint arg3]))\<rparr>"

definition codec_req_wp_presentation_feedback :: wl_codec where
  "codec_req_wp_presentation_feedback =
     \<lparr>cdata = DATA_WP_PRESENTATION, cid = Request 1,
      cwrite = (\<lambda>c for_id tag vs. write_req_wp_presentation_feedback c for_id (the_obj (vs ! 0)) (the_obj (vs ! 1))),
      cparse = (\<lambda>msg. rbind (parse_req_wp_presentation_feedback msg) (\<lambda>(arg1, arg2). Ok [VObj arg1, VObj arg2]))\<rparr>"

definition codec_evt_wp_presentation_feedback_presented :: wl_codec where
  "codec_evt_wp_presentation_feedback_presented =
     \<lparr>cdata = DATA_WP_PRESENTATION_FEEDBACK, cid = Event 1,
      cwrite = (\<lambda>c for_id tag vs. write_evt_wp_presentation_feedback_presented c for_id (the_uint (vs ! 0)) (the_uint (vs ! 1)) (the_uint (vs ! 2)) (the_uint (vs ! 3)) (the_uint (vs ! 4)) (the_uint (vs ! 5)) (the_uint (vs ! 6))),
      cparse = (\<lambda>msg. rbind (parse_evt_wp_presentation_feedback_presented msg) (\<lambda>(arg1, arg2, arg3, arg4, arg5, arg6, arg7). Ok [VUint arg1, VUint arg2, VUint arg3, VUint arg4, VUint arg5, VUint arg6, VUint arg7]))\<rparr>"

definition codec_req_wp_viewporter_get_viewport :: wl_codec where
  "codec_req_wp_viewporter_get_viewport =
     \<lparr>cdata = DATA_WP_VIEWPORTER, cid = Request 1,
      cwrite = (\<lambda>c for_id tag vs. write_req_wp_viewporter_get_viewport c for_id (the_obj (vs ! 0)) (the_obj (vs ! 1))),
      cparse = (\<lambda>msg. rbind (parse_req_wp_viewporter_get_viewport msg) (\<lambda>(arg1, arg2). Ok [VObj arg1, VObj arg2]))\<rparr>"

definition codec_req_wp_viewport_set_source :: wl_codec where
  "codec_req_wp_viewport_set_source =
     \<lparr>cdata = DATA_WP_VIEWPORT, cid = Request 1,
      cwrite = (\<lambda>c for_id tag vs. write_req_wp_viewport_set_source c for_id (the_int (vs ! 0)) (the_int (vs ! 1)) (the_int (vs ! 2)) (the_int (vs ! 3))),
      cparse = (\<lambda>msg. rbind (parse_req_wp_viewport_set_source msg) (\<lambda>(arg1, arg2, arg3, arg4). Ok [VInt arg1, VInt arg2, VInt arg3, VInt arg4]))\<rparr>"

definition codec_req_wp_viewport_set_destination :: wl_codec where
  "codec_req_wp_viewport_set_destination =
     \<lparr>cdata = DATA_WP_VIEWPORT, cid = Request 2,
      cwrite = (\<lambda>c for_id tag vs. write_req_wp_viewport_set_destination c for_id (the_int (vs ! 0)) (the_int (vs ! 1))),
      cparse = (\<lambda>msg. rbind (parse_req_wp_viewport_set_destination msg) (\<lambda>(arg1, arg2). Ok [VInt arg1, VInt arg2]))\<rparr>"

definition codec_evt_wl_display_error :: wl_codec where
  "codec_evt_wl_display_error =
     \<lparr>cdata = DATA_WL_DISPLAY, cid = Event 0,
      cwrite = (\<lambda>c for_id tag vs. write_evt_wl_display_error c for_id (the_obj (vs ! 0)) (the_uint (vs ! 1)) (the_string (vs ! 2))),
      cparse = (\<lambda>msg. rbind (parse_evt_wl_display_error msg) (\<lambda>(arg1, arg2, arg3). Ok [VObj arg1, VUint arg2, VString arg3]))\<rparr>"

definition codec_req_wl_registry_bind :: wl_codec where
  "codec_req_wl_registry_bind =
     \<lparr>cdata = DATA_WL_REGISTRY, cid = Request 0,
      cwrite = (\<lambda>c for_id tag vs. write_req_wl_registry_bind c for_id (the_uint (vs ! 0)) (newid_name (vs ! 1)) (newid_version (vs ! 1)) (newid_id (vs ! 1))),
      cparse = (\<lambda>msg. rbind (parse_req_wl_registry_bind msg) (\<lambda>(arg1, arg2_iface_name, arg2_version, arg2). Ok [VUint arg1, VNewId arg2_iface_name arg2_version arg2]))\<rparr>"

definition codec_evt_wl_registry_global :: wl_codec where
  "codec_evt_wl_registry_global =
     \<lparr>cdata = DATA_WL_REGISTRY, cid = Event 0,
      cwrite = (\<lambda>c for_id tag vs. write_evt_wl_registry_global c for_id (the_uint (vs ! 0)) (the_string (vs ! 1)) (the_uint (vs ! 2))),
      cparse = (\<lambda>msg. rbind (parse_evt_wl_registry_global msg) (\<lambda>(arg1, arg2, arg3). Ok [VUint arg1, VString arg2, VUint arg3]))\<rparr>"

definition codec_req_wl_shm_pool_create_buffer :: wl_codec where
  "codec_req_wl_shm_pool_create_buffer =
     \<lparr>cdata = DATA_WL_SHM_POOL, cid = Request 0,
      cwrite = (\<lambda>c for_id tag vs. write_req_wl_shm_pool_create_buffer c for_id (the_obj (vs ! 0)) (the_int (vs ! 1)) (the_int (vs ! 2)) (the_int (vs ! 3)) (the_int (vs ! 4)) (the_uint (vs ! 5))),
      cparse = (\<lambda>msg. rbind (parse_req_wl_shm_pool_create_buffer msg) (\<lambda>(arg1, arg2, arg3, arg4, arg5, arg6). Ok [VObj arg1, VInt arg2, VInt arg3, VInt arg4, VInt arg5, VUint arg6]))\<rparr>"

definition codec_req_wl_shm_pool_resize :: wl_codec where
  "codec_req_wl_shm_pool_resize =
     \<lparr>cdata = DATA_WL_SHM_POOL, cid = Request 2,
      cwrite = (\<lambda>c for_id tag vs. write_req_wl_shm_pool_resize c for_id (the_int (vs ! 0))),
      cparse = (\<lambda>msg. rbind (parse_req_wl_shm_pool_resize msg) (\<lambda>arg1. Ok [VInt arg1]))\<rparr>"

definition codec_req_wl_shm_create_pool :: wl_codec where
  "codec_req_wl_shm_create_pool =
     \<lparr>cdata = DATA_WL_SHM, cid = Request 0,
      cwrite = (\<lambda>c for_id tag vs. write_req_wl_shm_create_pool c for_id tag (the_obj (vs ! 0)) (the_int (vs ! 2))),
      cparse = (\<lambda>msg. rbind (parse_req_wl_shm_create_pool msg) (\<lambda>(arg1, arg3). Ok [VObj arg1, VFd, VInt arg3]))\<rparr>"

definition codec_req_wl_data_offer_receive :: wl_codec where
  "codec_req_wl_data_offer_receive =
     \<lparr>cdata = DATA_WL_DATA_OFFER, cid = Request 1,
      cwrite = (\<lambda>c for_id tag vs. write_req_wl_data_offer_receive c for_id tag (the_string (vs ! 0))),
      cparse = (\<lambda>msg. rbind (parse_req_wl_data_offer_receive msg) (\<lambda>arg1. Ok [VString arg1, VFd]))\<rparr>"

definition codec_evt_wl_data_source_send :: wl_codec where
  "codec_evt_wl_data_source_send =
     \<lparr>cdata = DATA_WL_DATA_SOURCE, cid = Event 1,
      cwrite = (\<lambda>c for_id tag vs. write_evt_wl_data_source_send c for_id tag (the_string (vs ! 0))),
      cparse = (\<lambda>msg. rbind (parse_evt_wl_data_source_send msg) (\<lambda>arg1. Ok [VString arg1, VFd]))\<rparr>"

definition codec_req_wl_data_device_set_selection :: wl_codec where
  "codec_req_wl_data_device_set_selection =
     \<lparr>cdata = DATA_WL_DATA_DEVICE, cid = Request 1,
      cwrite = (\<lambda>c for_id tag vs. write_req_wl_data_device_set_selection c for_id (the_obj (vs ! 0)) (the_uint (vs ! 1))),
      cparse = (\<lambda>msg. rbind (parse_req_wl_data_device_set_selection msg) (\<lambda>(arg1, arg2). Ok [VObj arg1, VUint arg2]))\<rparr>"

definition codec_req_wl_data_device_manager_create_data_source :: wl_codec where
  "codec_req_wl_data_device_manager_create_data_source =
     \<lparr>cdata = DATA_WL_DATA_DEVICE_MANAGER, cid = Request 0,
      cwrite = (\<lambda>c for_id tag vs. write_req_wl_data_device_manager_create_data_source c for_id (the_obj (vs ! 0))),
      cparse = (\<lambda>msg. rbind (parse_req_wl_data_device_manager_create_data_source msg) (\<lambda>arg1. Ok [VObj arg1]))\<rparr>"

definition codec_req_wl_data_device_manager_get_data_device :: wl_codec where
  "codec_req_wl_data_device_manager_get_data_device =
     \<lparr>cdata = DATA_WL_DATA_DEVICE_MANAGER, cid = Request 1,
      cwrite = (\<lambda>c for_id tag vs. write_req_wl_data_device_manager_get_data_device c for_id (the_obj (vs ! 0)) (the_obj (vs ! 1))),
      cparse = (\<lambda>msg. rbind (parse_req_wl_data_device_manager_get_data_device msg) (\<lambda>(arg1, arg2). Ok [VObj arg1, VObj arg2]))\<rparr>"

definition codec_req_wl_surface_attach :: wl_codec where
  "codec_req_wl_surface_attach =
     \<lparr>cdata = DATA_WL_SURFACE, cid = Request 1,
      cwrite = (\<lambda>c for_id tag vs. write_req_wl_surface_attach c for_id (the_obj (vs ! 0)) (the_int (vs ! 1)) (the_int (vs ! 2))),
      cparse = (\<lambda>msg. rbind (parse_req_wl_surface_attach msg) (\<lambda>(arg1, arg2, arg3). Ok [VObj arg1, VInt arg2, VInt arg3]))\<rparr>"

definition codec_req_wl_surface_damage :: wl_codec where
  "codec_req_wl_surface_damage =
     \<lparr>cdata = DATA_WL_SURFACE, cid = Request 2,
      cwrite = (\<lambda>c for_id tag vs. write_req_wl_surface_damage c for_id (the_int (vs ! 0)) (the_int (vs ! 1)) (the_int (vs ! 2)) (the_int (vs ! 3))),
      cparse = (\<lambda>msg. rbind (parse_req_wl_surface_damage msg) (\<lambda>(arg1, arg2, arg3, arg4). Ok [VInt arg1, VInt arg2, VInt arg3, VInt arg4]))\<rparr>"

definition codec_req_wl_surface_set_buffer_transform :: wl_codec where
  "codec_req_wl_surface_set_buffer_transform =
     \<lparr>cdata = DATA_WL_SURFACE, cid = Request 7,
      cwrite = (\<lambda>c for_id tag vs. write_req_wl_surface_set_buffer_transform c for_id (the_int (vs ! 0))),
      cparse = (\<lambda>msg. rbind (parse_req_wl_surface_set_buffer_transform msg) (\<lambda>arg1. Ok [VInt arg1]))\<rparr>"

definition codec_req_wl_surface_damage_buffer :: wl_codec where
  "codec_req_wl_surface_damage_buffer =
     \<lparr>cdata = DATA_WL_SURFACE, cid = Request 9,
      cwrite = (\<lambda>c for_id tag vs. write_req_wl_surface_damage_buffer c for_id (the_int (vs ! 0)) (the_int (vs ! 1)) (the_int (vs ! 2)) (the_int (vs ! 3))),
      cparse = (\<lambda>msg. rbind (parse_req_wl_surface_damage_buffer msg) (\<lambda>(arg1, arg2, arg3, arg4). Ok [VInt arg1, VInt arg2, VInt arg3, VInt arg4]))\<rparr>"

definition codec_evt_wl_keyboard_keymap :: wl_codec where
  "codec_evt_wl_keyboard_keymap =
     \<lparr>cdata = DATA_WL_KEYBOARD, cid = Event 0,
      cwrite = (\<lambda>c for_id tag vs. write_evt_wl_keyboard_keymap c for_id tag (the_uint (vs ! 0)) (the_uint (vs ! 2))),
      cparse = (\<lambda>msg. rbind (parse_evt_wl_keyboard_keymap msg) (\<lambda>(arg1, arg3). Ok [VUint arg1, VFd, VUint arg3]))\<rparr>"

definition codec_req_zwlr_screencopy_manager_v1_capture_output :: wl_codec where
  "codec_req_zwlr_screencopy_manager_v1_capture_output =
     \<lparr>cdata = DATA_ZWLR_SCREENCOPY_MANAGER_V1, cid = Request 0,
      cwrite = (\<lambda>c for_id tag vs. write_req_zwlr_screencopy_manager_v1_capture_output c for_id (the_obj (vs ! 0)) (the_int (vs ! 1)) (the_obj (vs ! 2))),
      cparse = (\<lambda>msg. rbind (parse_req_zwlr_screencopy_manager_v1_capture_output msg) (\<lambda>(arg1, arg2, arg3). Ok [VObj arg1, VInt arg2, VObj arg3]))\<rparr>"

definition codec_req_zwlr_screencopy_manager_v1_capture_output_region :: wl_codec where
  "codec_req_zwlr_screencopy_manager_v1_capture_output_region =
     \<lparr>cdata = DATA_ZWLR_SCREENCOPY_MANAGER_V1, cid = Request 1,
      cwrite = (\<lambda>c for_id tag vs. write_req_zwlr_screencopy_manager_v1_capture_output_region c for_id (the_obj (vs ! 0)) (the_int (vs ! 1)) (the_obj (vs ! 2)) (the_int (vs ! 3)) (the_int (vs ! 4)) (the_int (vs ! 5)) (the_int (vs ! 6))),
      cparse = (\<lambda>msg. rbind (parse_req_zwlr_screencopy_manager_v1_capture_output_region msg) (\<lambda>(arg1, arg2, arg3, arg4, arg5, arg6, arg7). Ok [VObj arg1, VInt arg2, VObj arg3, VInt arg4, VInt arg5, VInt arg6, VInt arg7]))\<rparr>"

definition codec_evt_zwlr_screencopy_frame_v1_buffer :: wl_codec where
  "codec_evt_zwlr_screencopy_frame_v1_buffer =
     \<lparr>cdata = DATA_ZWLR_SCREENCOPY_FRAME_V1, cid = Event 0,
      cwrite = (\<lambda>c for_id tag vs. write_evt_zwlr_screencopy_frame_v1_buffer c for_id (the_uint (vs ! 0)) (the_uint (vs ! 1)) (the_uint (vs ! 2)) (the_uint (vs ! 3))),
      cparse = (\<lambda>msg. rbind (parse_evt_zwlr_screencopy_frame_v1_buffer msg) (\<lambda>(arg1, arg2, arg3, arg4). Ok [VUint arg1, VUint arg2, VUint arg3, VUint arg4]))\<rparr>"

definition codec_evt_zwlr_screencopy_frame_v1_ready :: wl_codec where
  "codec_evt_zwlr_screencopy_frame_v1_ready =
     \<lparr>cdata = DATA_ZWLR_SCREENCOPY_FRAME_V1, cid = Event 2,
      cwrite = (\<lambda>c for_id tag vs. write_evt_zwlr_screencopy_frame_v1_ready c for_id (the_uint (vs ! 0)) (the_uint (vs ! 1)) (the_uint (vs ! 2))),
      cparse = (\<lambda>msg. rbind (parse_evt_zwlr_screencopy_frame_v1_ready msg) (\<lambda>(arg1, arg2, arg3). Ok [VUint arg1, VUint arg2, VUint arg3]))\<rparr>"

definition codec_req_zwlr_screencopy_frame_v1_copy_with_damage :: wl_codec where
  "codec_req_zwlr_screencopy_frame_v1_copy_with_damage =
     \<lparr>cdata = DATA_ZWLR_SCREENCOPY_FRAME_V1, cid = Request 2,
      cwrite = (\<lambda>c for_id tag vs. write_req_zwlr_screencopy_frame_v1_copy_with_damage c for_id (the_obj (vs ! 0))),
      cparse = (\<lambda>msg. rbind (parse_req_zwlr_screencopy_frame_v1_copy_with_damage msg) (\<lambda>arg1. Ok [VObj arg1]))\<rparr>"

definition codec_evt_zwlr_screencopy_frame_v1_linux_dmabuf :: wl_codec where
  "codec_evt_zwlr_screencopy_frame_v1_linux_dmabuf =
     \<lparr>cdata = DATA_ZWLR_SCREENCOPY_FRAME_V1, cid = Event 5,
      cwrite = (\<lambda>c for_id tag vs. write_evt_zwlr_screencopy_frame_v1_linux_dmabuf c for_id (the_uint (vs ! 0)) (the_uint (vs ! 1)) (the_uint (vs ! 2))),
      cparse = (\<lambda>msg. rbind (parse_evt_zwlr_screencopy_frame_v1_linux_dmabuf msg) (\<lambda>(arg1, arg2, arg3). Ok [VUint arg1, VUint arg2, VUint arg3]))\<rparr>"

definition codec_req_xdg_wm_base_get_xdg_surface :: wl_codec where
  "codec_req_xdg_wm_base_get_xdg_surface =
     \<lparr>cdata = DATA_XDG_WM_BASE, cid = Request 2,
      cwrite = (\<lambda>c for_id tag vs. write_req_xdg_wm_base_get_xdg_surface c for_id (the_obj (vs ! 0)) (the_obj (vs ! 1))),
      cparse = (\<lambda>msg. rbind (parse_req_xdg_wm_base_get_xdg_surface msg) (\<lambda>(arg1, arg2). Ok [VObj arg1, VObj arg2]))\<rparr>"

definition codec_req_xdg_toplevel_icon_manager_v1_create_icon :: wl_codec where
  "codec_req_xdg_toplevel_icon_manager_v1_create_icon =
     \<lparr>cdata = DATA_XDG_TOPLEVEL_ICON_MANAGER_V1, cid = Request 1,
      cwrite = (\<lambda>c for_id tag vs. write_req_xdg_toplevel_icon_manager_v1_create_icon c for_id (the_obj (vs ! 0))),
      cparse = (\<lambda>msg. rbind (parse_req_xdg_toplevel_icon_manager_v1_create_icon msg) (\<lambda>arg1. Ok [VObj arg1]))\<rparr>"

definition codec_evt_xdg_toplevel_icon_manager_v1_icon_size :: wl_codec where
  "codec_evt_xdg_toplevel_icon_manager_v1_icon_size =
     \<lparr>cdata = DATA_XDG_TOPLEVEL_ICON_MANAGER_V1, cid = Event 0,
      cwrite = (\<lambda>c for_id tag vs. write_evt_xdg_toplevel_icon_manager_v1_icon_size c for_id (the_int (vs ! 0))),
      cparse = (\<lambda>msg. rbind (parse_evt_xdg_toplevel_icon_manager_v1_icon_size msg) (\<lambda>arg1. Ok [VInt arg1]))\<rparr>"

definition codec_req_xdg_toplevel_icon_v1_add_buffer :: wl_codec where
  "codec_req_xdg_toplevel_icon_v1_add_buffer =
     \<lparr>cdata = DATA_XDG_TOPLEVEL_ICON_V1, cid = Request 2,
      cwrite = (\<lambda>c for_id tag vs. write_req_xdg_toplevel_icon_v1_add_buffer c for_id (the_obj (vs ! 0)) (the_int (vs ! 1))),
      cparse = (\<lambda>msg. rbind (parse_req_xdg_toplevel_icon_v1_add_buffer msg) (\<lambda>(arg1, arg2). Ok [VObj arg1, VInt arg2]))\<rparr>"

definition MESSAGES :: "wl_codec list" where
  "MESSAGES =
    [codec_req_zwp_linux_dmabuf_v1_create_params, codec_evt_zwp_linux_dmabuf_v1_modifier,
     codec_req_zwp_linux_dmabuf_v1_get_default_feedback,
     codec_req_zwp_linux_dmabuf_v1_get_surface_feedback, codec_req_zwp_linux_buffer_params_v1_add,
     codec_req_zwp_linux_buffer_params_v1_create, codec_evt_zwp_linux_buffer_params_v1_created,
     codec_req_zwp_linux_buffer_params_v1_create_immed,
     codec_evt_zwp_linux_dmabuf_feedback_v1_format_table,
     codec_evt_zwp_linux_dmabuf_feedback_v1_main_device,
     codec_evt_zwp_linux_dmabuf_feedback_v1_tranche_target_device,
     codec_evt_zwp_linux_dmabuf_feedback_v1_tranche_formats,
     codec_evt_zwp_linux_dmabuf_feedback_v1_tranche_flags,
     codec_req_wp_linux_drm_syncobj_manager_v1_get_surface,
     codec_req_wp_linux_drm_syncobj_manager_v1_import_timeline,
     codec_req_wp_linux_drm_syncobj_surface_v1_set_acquire_point,
     codec_req_wp_linux_drm_syncobj_surface_v1_set_release_point, codec_req_wp_presentation_feedback,
     codec_evt_wp_presentation_feedback_presented, codec_req_wp_viewporter_get_viewport,
     codec_req_wp_viewport_set_source, codec_req_wp_viewport_set_destination,
     codec_evt_wl_display_error, codec_req_wl_registry_bind, codec_evt_wl_registry_global,
     codec_req_wl_shm_pool_create_buffer, codec_req_wl_shm_pool_resize, codec_req_wl_shm_create_pool,
     codec_req_wl_data_offer_receive, codec_evt_wl_data_source_send,
     codec_req_wl_data_device_set_selection, codec_req_wl_data_device_manager_create_data_source,
     codec_req_wl_data_device_manager_get_data_device, codec_req_wl_surface_attach,
     codec_req_wl_surface_damage, codec_req_wl_surface_set_buffer_transform,
     codec_req_wl_surface_damage_buffer, codec_evt_wl_keyboard_keymap,
     codec_req_zwlr_screencopy_manager_v1_capture_output,
     codec_req_zwlr_screencopy_manager_v1_capture_output_region,
     codec_evt_zwlr_screencopy_frame_v1_buffer, codec_evt_zwlr_screencopy_frame_v1_ready,
     codec_req_zwlr_screencopy_frame_v1_copy_with_damage,
     codec_evt_zwlr_screencopy_frame_v1_linux_dmabuf, codec_req_xdg_wm_base_get_xdg_surface,
     codec_req_xdg_toplevel_icon_manager_v1_create_icon,
     codec_evt_xdg_toplevel_icon_manager_v1_icon_size, codec_req_xdg_toplevel_icon_v1_add_buffer]"

definition method_of :: "WaylandData \<Rightarrow> MethodId \<Rightarrow> WaylandMethod option" where
  "method_of d m =
     (case m of
        Event k \<Rightarrow> if k < length (evts d) then Some (evts d ! k) else None
      | Request k \<Rightarrow> if k < length (reqs d) then Some (reqs d ! k) else None)"

definition nfds :: "WaylandArgument list \<Rightarrow> bool \<Rightarrow> nat" where
  "nfds as tag = (if tag then length (filter (\<lambda>a. a = Fd) as) else 0)"

definition codec_matches :: "wl_codec \<Rightarrow> WaylandArgument list \<Rightarrow> bool" where
  "codec_matches m as \<longleftrightarrow>
     (\<forall>msg. cparse m msg = parse_sig as msg) \<and>
     (\<forall>c for_id tag vs. valid_values as vs \<longrightarrow>
        cwrite m c for_id tag vs = write_sig c for_id (method_code (cid m)) (nfds as tag) vs)"

definition codec_ok :: "wl_codec \<Rightarrow> bool" where
  "codec_ok m \<longleftrightarrow>
     (case method_of (cdata m) (cid m) of None \<Rightarrow> False
      | Some me \<Rightarrow> nfds (sig me) True < 2 ^ 5 \<and> method_code (cid m) < 2 ^ 8 \<and> codec_matches m (sig me))"

named_theorems codec_ok

lemma valid_values_Nil: "valid_values [] vs \<longleftrightarrow> vs = []"
  by (simp add: valid_values_def)

lemma valid_values_Cons:
  "valid_values (a # as) vs \<longleftrightarrow> (\<exists>v vs'. vs = v # vs' \<and> valid_value a v \<and> valid_values as vs')"
  by (auto simp: valid_values_def list_all2_Cons1)

lemma valid_value_forms:
  "valid_value Int_arg v \<longleftrightarrow> (\<exists>i. v = VInt i \<and> is_i32 i)"
  "valid_value Fixed v \<longleftrightarrow> (\<exists>i. v = VInt i \<and> is_i32 i)"
  "valid_value Uint v \<longleftrightarrow> (\<exists>w. v = VUint w)"
  "valid_value String v \<longleftrightarrow> (\<exists>s. v = VString s \<and> valid_string (Some s))"
  "valid_value (Object t) v \<longleftrightarrow> (\<exists>i. v = VObj i)"
  "valid_value GenericObject v \<longleftrightarrow> (\<exists>i. v = VObj i)"
  "valid_value (NewId t) v \<longleftrightarrow> (\<exists>i. v = VObj i)"
  "valid_value GenericNewId v \<longleftrightarrow> (\<exists>s w i. v = VNewId s w i \<and> valid_string (Some s))"
  "valid_value Array v \<longleftrightarrow> (\<exists>s. v = VArray s \<and> length s < 2 ^ 32)"
  "valid_value Fd v \<longleftrightarrow> v = VFd"
  by (cases v; simp)+

lemma rbind_assoc: "rbind (rbind r f) g = rbind r (\<lambda>x. rbind (f x) g)"
  by (cases r) simp_all

lemma rbind_if: "rbind (if b then r else s) f = (if b then rbind r f else rbind s f)"
  by simp

lemma rbind_Ok_right: "rbind r Ok = r"
  by (cases r) simp_all

lemma parse_sig_Nil: "parse_sig [] msg = (if length msg \<noteq> 8 then fail PARSE_ERROR else Ok [])"
  by (simp add: parse_sig_def get_from_def ok_or_def)

lemmas parse_codec_simps =
  parse_sig_def rbind_assoc rbind_if case_prod_beta parse_pair_def

lemmas write_codec_simps =
  write_sig_def valid_values_Nil valid_values_Cons valid_value_forms usize_def usize_add_def USIZE_MAX_def
  the_int_def the_uint_def the_string_def the_array_def the_obj_def newid_name_def newid_version_def newid_id_def
  write_str_def write_pair_def nfds_def rbind_Ok_right

lemma codec_req_zwp_linux_dmabuf_v1_create_params_ok [codec_ok]: "codec_ok codec_req_zwp_linux_dmabuf_v1_create_params"
proof -
  have "codec_matches codec_req_zwp_linux_dmabuf_v1_create_params [NewId ZwpLinuxBufferParamsV1]"
    by (auto simp: codec_matches_def codec_req_zwp_linux_dmabuf_v1_create_params_def write_req_zwp_linux_dmabuf_v1_create_params_def length_req_zwp_linux_dmabuf_v1_create_params_def parse_req_zwp_linux_dmabuf_v1_create_params_def
      parse_codec_simps write_codec_simps simp del: valid_value.simps cong: if_cong)
  then show ?thesis by (simp add: codec_ok_def codec_req_zwp_linux_dmabuf_v1_create_params_def DATA_ZWP_LINUX_DMABUF_V1_def method_of_def nfds_def)
qed

lemma codec_evt_zwp_linux_dmabuf_v1_modifier_ok [codec_ok]: "codec_ok codec_evt_zwp_linux_dmabuf_v1_modifier"
proof -
  have "codec_matches codec_evt_zwp_linux_dmabuf_v1_modifier [Uint, Uint, Uint]"
    by (auto simp: codec_matches_def codec_evt_zwp_linux_dmabuf_v1_modifier_def write_evt_zwp_linux_dmabuf_v1_modifier_def length_evt_zwp_linux_dmabuf_v1_modifier_def parse_evt_zwp_linux_dmabuf_v1_modifier_def
      parse_codec_simps write_codec_simps simp del: valid_value.simps cong: if_cong)
  then show ?thesis by (simp add: codec_ok_def codec_evt_zwp_linux_dmabuf_v1_modifier_def DATA_ZWP_LINUX_DMABUF_V1_def method_of_def nfds_def)
qed

lemma codec_req_zwp_linux_dmabuf_v1_get_default_feedback_ok [codec_ok]: "codec_ok codec_req_zwp_linux_dmabuf_v1_get_default_feedback"
proof -
  have "codec_matches codec_req_zwp_linux_dmabuf_v1_get_default_feedback [NewId ZwpLinuxDmabufFeedbackV1]"
    by (auto simp: codec_matches_def codec_req_zwp_linux_dmabuf_v1_get_default_feedback_def write_req_zwp_linux_dmabuf_v1_get_default_feedback_def length_req_zwp_linux_dmabuf_v1_get_default_feedback_def parse_req_zwp_linux_dmabuf_v1_get_default_feedback_def
      parse_codec_simps write_codec_simps simp del: valid_value.simps cong: if_cong)
  then show ?thesis by (simp add: codec_ok_def codec_req_zwp_linux_dmabuf_v1_get_default_feedback_def DATA_ZWP_LINUX_DMABUF_V1_def method_of_def nfds_def)
qed

lemma codec_req_zwp_linux_dmabuf_v1_get_surface_feedback_ok [codec_ok]: "codec_ok codec_req_zwp_linux_dmabuf_v1_get_surface_feedback"
proof -
  have "codec_matches codec_req_zwp_linux_dmabuf_v1_get_surface_feedback [NewId ZwpLinuxDmabufFeedbackV1, Object WlSurface]"
    by (auto simp: codec_matches_def codec_req_zwp_linux_dmabuf_v1_get_surface_feedback_def write_req_zwp_linux_dmabuf_v1_get_surface_feedback_def length_req_zwp_linux_dmabuf_v1_get_surface_feedback_def parse_req_zwp_linux_dmabuf_v1_get_surface_feedback_def
      parse_codec_simps write_codec_simps simp del: valid_value.simps cong: if_cong)
  then show ?thesis by (simp add: codec_ok_def codec_req_zwp_linux_dmabuf_v1_get_surface_feedback_def DATA_ZWP_LINUX_DMABUF_V1_def method_of_def nfds_def)
qed

lemma codec_req_zwp_linux_buffer_params_v1_add_ok [codec_ok]: "codec_ok codec_req_zwp_linux_buffer_params_v1_add"
proof -
  have "codec_matches codec_req_zwp_linux_buffer_params_v1_add [Fd, Uint, Uint, Uint, Uint, Uint]"
    by (auto simp: codec_matches_def codec_req_zwp_linux_buffer_params_v1_add_def write_req_zwp_linux_buffer_params_v1_add_def length_req_zwp_linux_buffer_params_v1_add_def parse_req_zwp_linux_buffer_params_v1_add_def
      parse_codec_simps write_codec_simps simp del: valid_value.simps cong: if_cong)
  then show ?thesis by (simp add: codec_ok_def codec_req_zwp_linux_buffer_params_v1_add_def DATA_ZWP_LINUX_BUFFER_PARAMS_V1_def method_of_def nfds_def)
qed

lemma codec_req_zwp_linux_buffer_params_v1_create_ok [codec_ok]: "codec_ok codec_req_zwp_linux_buffer_params_v1_create"
proof -
  have "codec_matches codec_req_zwp_linux_buffer_params_v1_create [Int_arg, Int_arg, Uint, Uint]"
    by (auto simp: codec_matches_def codec_req_zwp_linux_buffer_params_v1_create_def write_req_zwp_linux_buffer_params_v1_create_def length_req_zwp_linux_buffer_params_v1_create_def parse_req_zwp_linux_buffer_params_v1_create_def
      parse_codec_simps write_codec_simps simp del: valid_value.simps cong: if_cong)
  then show ?thesis by (simp add: codec_ok_def codec_req_zwp_linux_buffer_params_v1_create_def DATA_ZWP_LINUX_BUFFER_PARAMS_V1_def method_of_def nfds_def)
qed

lemma codec_evt_zwp_linux_buffer_params_v1_created_ok [codec_ok]: "codec_ok codec_evt_zwp_linux_buffer_params_v1_created"
proof -
  have "codec_matches codec_evt_zwp_linux_buffer_params_v1_created [NewId WlBuffer]"
    by (auto simp: codec_matches_def codec_evt_zwp_linux_buffer_params_v1_created_def write_evt_zwp_linux_buffer_params_v1_created_def length_evt_zwp_linux_buffer_params_v1_created_def parse_evt_zwp_linux_buffer_params_v1_created_def
      parse_codec_simps write_codec_simps simp del: valid_value.simps cong: if_cong)
  then show ?thesis by (simp add: codec_ok_def codec_evt_zwp_linux_buffer_params_v1_created_def DATA_ZWP_LINUX_BUFFER_PARAMS_V1_def method_of_def nfds_def)
qed

lemma codec_req_zwp_linux_buffer_params_v1_create_immed_ok [codec_ok]: "codec_ok codec_req_zwp_linux_buffer_params_v1_create_immed"
proof -
  have "codec_matches codec_req_zwp_linux_buffer_params_v1_create_immed [NewId WlBuffer, Int_arg, Int_arg, Uint, Uint]"
    by (auto simp: codec_matches_def codec_req_zwp_linux_buffer_params_v1_create_immed_def write_req_zwp_linux_buffer_params_v1_create_immed_def length_req_zwp_linux_buffer_params_v1_create_immed_def parse_req_zwp_linux_buffer_params_v1_create_immed_def
      parse_codec_simps write_codec_simps simp del: valid_value.simps cong: if_cong)
  then show ?thesis by (simp add: codec_ok_def codec_req_zwp_linux_buffer_params_v1_create_immed_def DATA_ZWP_LINUX_BUFFER_PARAMS_V1_def method_of_def nfds_def)
qed

lemma codec_evt_zwp_linux_dmabuf_feedback_v1_format_table_ok [codec_ok]: "codec_ok codec_evt_zwp_linux_dmabuf_feedback_v1_format_table"
proof -
  have "codec_matches codec_evt_zwp_linux_dmabuf_feedback_v1_format_table [Fd, Uint]"
    by (auto simp: codec_matches_def codec_evt_zwp_linux_dmabuf_feedback_v1_format_table_def write_evt_zwp_linux_dmabuf_feedback_v1_format_table_def length_evt_zwp_linux_dmabuf_feedback_v1_format_table_def parse_evt_zwp_linux_dmabuf_feedback_v1_format_table_def
      parse_codec_simps write_codec_simps simp del: valid_value.simps cong: if_cong)
  then show ?thesis by (simp add: codec_ok_def codec_evt_zwp_linux_dmabuf_feedback_v1_format_table_def DATA_ZWP_LINUX_DMABUF_FEEDBACK_V1_def method_of_def nfds_def)
qed

lemma codec_evt_zwp_linux_dmabuf_feedback_v1_main_device_ok [codec_ok]: "codec_ok codec_evt_zwp_linux_dmabuf_feedback_v1_main_device"
proof -
  have "codec_matches codec_evt_zwp_linux_dmabuf_feedback_v1_main_device [Array]"
    by (auto simp: codec_matches_def codec_evt_zwp_linux_dmabuf_feedback_v1_main_device_def write_evt_zwp_linux_dmabuf_feedback_v1_main_device_def length_evt_zwp_linux_dmabuf_feedback_v1_main_device_def parse_evt_zwp_linux_dmabuf_feedback_v1_main_device_def
      parse_codec_simps write_codec_simps simp del: valid_value.simps cong: if_cong)
  then show ?thesis by (simp add: codec_ok_def codec_evt_zwp_linux_dmabuf_feedback_v1_main_device_def DATA_ZWP_LINUX_DMABUF_FEEDBACK_V1_def method_of_def nfds_def)
qed

lemma codec_evt_zwp_linux_dmabuf_feedback_v1_tranche_target_device_ok [codec_ok]: "codec_ok codec_evt_zwp_linux_dmabuf_feedback_v1_tranche_target_device"
proof -
  have "codec_matches codec_evt_zwp_linux_dmabuf_feedback_v1_tranche_target_device [Array]"
    by (auto simp: codec_matches_def codec_evt_zwp_linux_dmabuf_feedback_v1_tranche_target_device_def write_evt_zwp_linux_dmabuf_feedback_v1_tranche_target_device_def length_evt_zwp_linux_dmabuf_feedback_v1_tranche_target_device_def parse_evt_zwp_linux_dmabuf_feedback_v1_tranche_target_device_def
      parse_codec_simps write_codec_simps simp del: valid_value.simps cong: if_cong)
  then show ?thesis by (simp add: codec_ok_def codec_evt_zwp_linux_dmabuf_feedback_v1_tranche_target_device_def DATA_ZWP_LINUX_DMABUF_FEEDBACK_V1_def method_of_def nfds_def)
qed

lemma codec_evt_zwp_linux_dmabuf_feedback_v1_tranche_formats_ok [codec_ok]: "codec_ok codec_evt_zwp_linux_dmabuf_feedback_v1_tranche_formats"
proof -
  have "codec_matches codec_evt_zwp_linux_dmabuf_feedback_v1_tranche_formats [Array]"
    by (auto simp: codec_matches_def codec_evt_zwp_linux_dmabuf_feedback_v1_tranche_formats_def write_evt_zwp_linux_dmabuf_feedback_v1_tranche_formats_def length_evt_zwp_linux_dmabuf_feedback_v1_tranche_formats_def parse_evt_zwp_linux_dmabuf_feedback_v1_tranche_formats_def
      parse_codec_simps write_codec_simps simp del: valid_value.simps cong: if_cong)
  then show ?thesis by (simp add: codec_ok_def codec_evt_zwp_linux_dmabuf_feedback_v1_tranche_formats_def DATA_ZWP_LINUX_DMABUF_FEEDBACK_V1_def method_of_def nfds_def)
qed

lemma codec_evt_zwp_linux_dmabuf_feedback_v1_tranche_flags_ok [codec_ok]: "codec_ok codec_evt_zwp_linux_dmabuf_feedback_v1_tranche_flags"
proof -
  have "codec_matches codec_evt_zwp_linux_dmabuf_feedback_v1_tranche_flags [Uint]"
    by (auto simp: codec_matches_def codec_evt_zwp_linux_dmabuf_feedback_v1_tranche_flags_def write_evt_zwp_linux_dmabuf_feedback_v1_tranche_flags_def length_evt_zwp_linux_dmabuf_feedback_v1_tranche_flags_def parse_evt_zwp_linux_dmabuf_feedback_v1_tranche_flags_def
      parse_codec_simps write_codec_simps simp del: valid_value.simps cong: if_cong)
  then show ?thesis by (simp add: codec_ok_def codec_evt_zwp_linux_dmabuf_feedback_v1_tranche_flags_def DATA_ZWP_LINUX_DMABUF_FEEDBACK_V1_def method_of_def nfds_def)
qed

lemma codec_req_wp_linux_drm_syncobj_manager_v1_get_surface_ok [codec_ok]: "codec_ok codec_req_wp_linux_drm_syncobj_manager_v1_get_surface"
proof -
  have "codec_matches codec_req_wp_linux_drm_syncobj_manager_v1_get_surface [NewId WpLinuxDrmSyncobjSurfaceV1, Object WlSurface]"
    by (auto simp: codec_matches_def codec_req_wp_linux_drm_syncobj_manager_v1_get_surface_def write_req_wp_linux_drm_syncobj_manager_v1_get_surface_def length_req_wp_linux_drm_syncobj_manager_v1_get_surface_def parse_req_wp_linux_drm_syncobj_manager_v1_get_surface_def
      parse_codec_simps write_codec_simps simp del: valid_value.simps cong: if_cong)
  then show ?thesis by (simp add: codec_ok_def codec_req_wp_linux_drm_syncobj_manager_v1_get_surface_def DATA_WP_LINUX_DRM_SYNCOBJ_MANAGER_V1_def method_of_def nfds_def)
qed

lemma codec_req_wp_linux_drm_syncobj_manager_v1_import_timeline_ok [codec_ok]: "codec_ok codec_req_wp_linux_drm_syncobj_manager_v1_import_timeline"
proof -
  have "codec_matches codec_req_wp_linux_drm_syncobj_manager_v1_import_timeline [NewId WpLinuxDrmSyncobjTimelineV1, Fd]"
    by (auto simp: codec_matches_def codec_req_wp_linux_drm_syncobj_manager_v1_import_timeline_def write_req_wp_linux_drm_syncobj_manager_v1_import_timeline_def length_req_wp_linux_drm_syncobj_manager_v1_import_timeline_def parse_req_wp_linux_drm_syncobj_manager_v1_import_timeline_def
      parse_codec_simps write_codec_simps simp del: valid_value.simps cong: if_cong)
  then show ?thesis by (simp add: codec_ok_def codec_req_wp_linux_drm_syncobj_manager_v1_import_timeline_def DATA_WP_LINUX_DRM_SYNCOBJ_MANAGER_V1_def method_of_def nfds_def)
qed

lemma codec_req_wp_linux_drm_syncobj_surface_v1_set_acquire_point_ok [codec_ok]: "codec_ok codec_req_wp_linux_drm_syncobj_surface_v1_set_acquire_point"
proof -
  have "codec_matches codec_req_wp_linux_drm_syncobj_surface_v1_set_acquire_point [Object WpLinuxDrmSyncobjTimelineV1, Uint, Uint]"
    by (auto simp: codec_matches_def codec_req_wp_linux_drm_syncobj_surface_v1_set_acquire_point_def write_req_wp_linux_drm_syncobj_surface_v1_set_acquire_point_def length_req_wp_linux_drm_syncobj_surface_v1_set_acquire_point_def parse_req_wp_linux_drm_syncobj_surface_v1_set_acquire_point_def
      parse_codec_simps write_codec_simps simp del: valid_value.simps cong: if_cong)
  then show ?thesis by (simp add: codec_ok_def codec_req_wp_linux_drm_syncobj_surface_v1_set_acquire_point_def DATA_WP_LINUX_DRM_SYNCOBJ_SURFACE_V1_def method_of_def nfds_def)
qed

lemma codec_req_wp_linux_drm_syncobj_surface_v1_set_release_point_ok [codec_ok]: "codec_ok codec_req_wp_linux_drm_syncobj_surface_v1_set_release_point"
proof -
  have "codec_matches codec_req_wp_linux_drm_syncobj_surface_v1_set_release_point [Object WpLinuxDrmSyncobjTimelineV1, Uint, Uint]"
    by (auto simp: codec_matches_def codec_req_wp_linux_drm_syncobj_surface_v1_set_release_point_def write_req_wp_linux_drm_syncobj_surface_v1_set_release_point_def length_req_wp_linux_drm_syncobj_surface_v1_set_release_point_def parse_req_wp_linux_drm_syncobj_surface_v1_set_release_point_def
      parse_codec_simps write_codec_simps simp del: valid_value.simps cong: if_cong)
  then show ?thesis by (simp add: codec_ok_def codec_req_wp_linux_drm_syncobj_surface_v1_set_release_point_def DATA_WP_LINUX_DRM_SYNCOBJ_SURFACE_V1_def method_of_def nfds_def)
qed

lemma codec_req_wp_presentation_feedback_ok [codec_ok]: "codec_ok codec_req_wp_presentation_feedback"
proof -
  have "codec_matches codec_req_wp_presentation_feedback [Object WlSurface, NewId WpPresentationFeedback]"
    by (auto simp: codec_matches_def codec_req_wp_presentation_feedback_def write_req_wp_presentation_feedback_def length_req_wp_presentation_feedback_def parse_req_wp_presentation_feedback_def
      parse_codec_simps write_codec_simps simp del: valid_value.simps cong: if_cong)
  then show ?thesis by (simp add: codec_ok_def codec_req_wp_presentation_feedback_def DATA_WP_PRESENTATION_def method_of_def nfds_def)
qed

lemma codec_evt_wp_presentation_feedback_presented_ok [codec_ok]: "codec_ok codec_evt_wp_presentation_feedback_presented"
proof -
  have "codec_matches codec_evt_wp_presentation_feedback_presented [Uint, Uint, Uint, Uint, Uint, Uint, Uint]"
    by (auto simp: codec_matches_def codec_evt_wp_presentation_feedback_presented_def write_evt_wp_presentation_feedback_presented_def length_evt_wp_presentation_feedback_presented_def parse_evt_wp_presentation_feedback_presented_def
      parse_codec_simps write_codec_simps simp del: valid_value.simps cong: if_cong)
  then show ?thesis by (simp add: codec_ok_def codec_evt_wp_presentation_feedback_presented_def DATA_WP_PRESENTATION_FEEDBACK_def method_of_def nfds_def)
qed

lemma codec_req_wp_viewporter_get_viewport_ok [codec_ok]: "codec_ok codec_req_wp_viewporter_get_viewport"
proof -
  have "codec_matches codec_req_wp_viewporter_get_viewport [NewId WpViewport, Object WlSurface]"
    by (auto simp: codec_matches_def codec_req_wp_viewporter_get_viewport_def write_req_wp_viewporter_get_viewport_def length_req_wp_viewporter_get_viewport_def parse_req_wp_viewporter_get_viewport_def
      parse_codec_simps write_codec_simps simp del: valid_value.simps cong: if_cong)
  then show ?thesis by (simp add: codec_ok_def codec_req_wp_viewporter_get_viewport_def DATA_WP_VIEWPORTER_def method_of_def nfds_def)
qed

lemma codec_req_wp_viewport_set_source_ok [codec_ok]: "codec_ok codec_req_wp_viewport_set_source"
proof -
  have "codec_matches codec_req_wp_viewport_set_source [Fixed, Fixed, Fixed, Fixed]"
    by (auto simp: codec_matches_def codec_req_wp_viewport_set_source_def write_req_wp_viewport_set_source_def length_req_wp_viewport_set_source_def parse_req_wp_viewport_set_source_def
      parse_codec_simps write_codec_simps simp del: valid_value.simps cong: if_cong)
  then show ?thesis by (simp add: codec_ok_def codec_req_wp_viewport_set_source_def DATA_WP_VIEWPORT_def method_of_def nfds_def)
qed

lemma codec_req_wp_viewport_set_destination_ok [codec_ok]: "codec_ok codec_req_wp_viewport_set_destination"
proof -
  have "codec_matches codec_req_wp_viewport_set_destination [Int_arg, Int_arg]"
    by (auto simp: codec_matches_def codec_req_wp_viewport_set_destination_def write_req_wp_viewport_set_destination_def length_req_wp_viewport_set_destination_def parse_req_wp_viewport_set_destination_def
      parse_codec_simps write_codec_simps simp del: valid_value.simps cong: if_cong)
  then show ?thesis by (simp add: codec_ok_def codec_req_wp_viewport_set_destination_def DATA_WP_VIEWPORT_def method_of_def nfds_def)
qed

lemma codec_evt_wl_display_error_ok [codec_ok]: "codec_ok codec_evt_wl_display_error"
proof -
  have "codec_matches codec_evt_wl_display_error [GenericObject, Uint, String]"
    by (auto simp: codec_matches_def codec_evt_wl_display_error_def write_evt_wl_display_error_def length_evt_wl_display_error_def parse_evt_wl_display_error_def
      parse_codec_simps write_codec_simps simp del: valid_value.simps cong: if_cong)
  then show ?thesis by (simp add: codec_ok_def codec_evt_wl_display_error_def DATA_WL_DISPLAY_def method_of_def nfds_def)
qed

lemma codec_req_wl_registry_bind_ok [codec_ok]: "codec_ok codec_req_wl_registry_bind"
proof -
  have "codec_matches codec_req_wl_registry_bind [Uint, GenericNewId]"
    by (auto simp: codec_matches_def codec_req_wl_registry_bind_def write_req_wl_registry_bind_def length_req_wl_registry_bind_def parse_req_wl_registry_bind_def
      parse_codec_simps write_codec_simps simp del: valid_value.simps cong: if_cong)
  then show ?thesis by (simp add: codec_ok_def codec_req_wl_registry_bind_def DATA_WL_REGISTRY_def method_of_def nfds_def)
qed

lemma codec_evt_wl_registry_global_ok [codec_ok]: "codec_ok codec_evt_wl_registry_global"
proof -
  have "codec_matches codec_evt_wl_registry_global [Uint, String, Uint]"
    by (auto simp: codec_matches_def codec_evt_wl_registry_global_def write_evt_wl_registry_global_def length_evt_wl_registry_global_def parse_evt_wl_registry_global_def
      parse_codec_simps write_codec_simps simp del: valid_value.simps cong: if_cong)
  then show ?thesis by (simp add: codec_ok_def codec_evt_wl_registry_global_def DATA_WL_REGISTRY_def method_of_def nfds_def)
qed

lemma codec_req_wl_shm_pool_create_buffer_ok [codec_ok]: "codec_ok codec_req_wl_shm_pool_create_buffer"
proof -
  have "codec_matches codec_req_wl_shm_pool_create_buffer [NewId WlBuffer, Int_arg, Int_arg, Int_arg, Int_arg, Uint]"
    by (auto simp: codec_matches_def codec_req_wl_shm_pool_create_buffer_def write_req_wl_shm_pool_create_buffer_def length_req_wl_shm_pool_create_buffer_def parse_req_wl_shm_pool_create_buffer_def
      parse_codec_simps write_codec_simps simp del: valid_value.simps cong: if_cong)
  then show ?thesis by (simp add: codec_ok_def codec_req_wl_shm_pool_create_buffer_def DATA_WL_SHM_POOL_def method_of_def nfds_def)
qed

lemma codec_req_wl_shm_pool_resize_ok [codec_ok]: "codec_ok codec_req_wl_shm_pool_resize"
proof -
  have "codec_matches codec_req_wl_shm_pool_resize [Int_arg]"
    by (auto simp: codec_matches_def codec_req_wl_shm_pool_resize_def write_req_wl_shm_pool_resize_def length_req_wl_shm_pool_resize_def parse_req_wl_shm_pool_resize_def
      parse_codec_simps write_codec_simps simp del: valid_value.simps cong: if_cong)
  then show ?thesis by (simp add: codec_ok_def codec_req_wl_shm_pool_resize_def DATA_WL_SHM_POOL_def method_of_def nfds_def)
qed

lemma codec_req_wl_shm_create_pool_ok [codec_ok]: "codec_ok codec_req_wl_shm_create_pool"
proof -
  have "codec_matches codec_req_wl_shm_create_pool [NewId WlShmPool, Fd, Int_arg]"
    by (auto simp: codec_matches_def codec_req_wl_shm_create_pool_def write_req_wl_shm_create_pool_def length_req_wl_shm_create_pool_def parse_req_wl_shm_create_pool_def
      parse_codec_simps write_codec_simps simp del: valid_value.simps cong: if_cong)
  then show ?thesis by (simp add: codec_ok_def codec_req_wl_shm_create_pool_def DATA_WL_SHM_def method_of_def nfds_def)
qed

lemma codec_req_wl_data_offer_receive_ok [codec_ok]: "codec_ok codec_req_wl_data_offer_receive"
proof -
  have "codec_matches codec_req_wl_data_offer_receive [String, Fd]"
    by (auto simp: codec_matches_def codec_req_wl_data_offer_receive_def write_req_wl_data_offer_receive_def length_req_wl_data_offer_receive_def parse_req_wl_data_offer_receive_def
      parse_codec_simps write_codec_simps simp del: valid_value.simps cong: if_cong)
  then show ?thesis by (simp add: codec_ok_def codec_req_wl_data_offer_receive_def DATA_WL_DATA_OFFER_def method_of_def nfds_def)
qed

lemma codec_evt_wl_data_source_send_ok [codec_ok]: "codec_ok codec_evt_wl_data_source_send"
proof -
  have "codec_matches codec_evt_wl_data_source_send [String, Fd]"
    by (auto simp: codec_matches_def codec_evt_wl_data_source_send_def write_evt_wl_data_source_send_def length_evt_wl_data_source_send_def parse_evt_wl_data_source_send_def
      parse_codec_simps write_codec_simps simp del: valid_value.simps cong: if_cong)
  then show ?thesis by (simp add: codec_ok_def codec_evt_wl_data_source_send_def DATA_WL_DATA_SOURCE_def method_of_def nfds_def)
qed

lemma codec_req_wl_data_device_set_selection_ok [codec_ok]: "codec_ok codec_req_wl_data_device_set_selection"
proof -
  have "codec_matches codec_req_wl_data_device_set_selection [Object WlDataSource, Uint]"
    by (auto simp: codec_matches_def codec_req_wl_data_device_set_selection_def write_req_wl_data_device_set_selection_def length_req_wl_data_device_set_selection_def parse_req_wl_data_device_set_selection_def
      parse_codec_simps write_codec_simps simp del: valid_value.simps cong: if_cong)
  then show ?thesis by (simp add: codec_ok_def codec_req_wl_data_device_set_selection_def DATA_WL_DATA_DEVICE_def method_of_def nfds_def)
qed

lemma codec_req_wl_data_device_manager_create_data_source_ok [codec_ok]: "codec_ok codec_req_wl_data_device_manager_create_data_source"
proof -
  have "codec_matches codec_req_wl_data_device_manager_create_data_source [NewId WlDataSource]"
    by (auto simp: codec_matches_def codec_req_wl_data_device_manager_create_data_source_def write_req_wl_data_device_manager_create_data_source_def length_req_wl_data_device_manager_create_data_source_def parse_req_wl_data_device_manager_create_data_source_def
      parse_codec_simps write_codec_simps simp del: valid_value.simps cong: if_cong)
  then show ?thesis by (simp add: codec_ok_def codec_req_wl_data_device_manager_create_data_source_def DATA_WL_DATA_DEVICE_MANAGER_def method_of_def nfds_def)
qed

lemma codec_req_wl_data_device_manager_get_data_device_ok [codec_ok]: "codec_ok codec_req_wl_data_device_manager_get_data_device"
proof -
  have "codec_matches codec_req_wl_data_device_manager_get_data_device [NewId WlDataDevice, Object WlSeat]"
    by (auto simp: codec_matches_def codec_req_wl_data_device_manager_get_data_device_def write_req_wl_data_device_manager_get_data_device_def length_req_wl_data_device_manager_get_data_device_def parse_req_wl_data_device_manager_get_data_device_def
      parse_codec_simps write_codec_simps simp del: valid_value.simps cong: if_cong)
  then show ?thesis by (simp add: codec_ok_def codec_req_wl_data_device_manager_get_data_device_def DATA_WL_DATA_DEVICE_MANAGER_def method_of_def nfds_def)
qed

lemma codec_req_wl_surface_attach_ok [codec_ok]: "codec_ok codec_req_wl_surface_attach"
proof -
  have "codec_matches codec_req_wl_surface_attach [Object WlBuffer, Int_arg, Int_arg]"
    by (auto simp: codec_matches_def codec_req_wl_surface_attach_def write_req_wl_surface_attach_def length_req_wl_surface_attach_def parse_req_wl_surface_attach_def
      parse_codec_simps write_codec_simps simp del: valid_value.simps cong: if_cong)
  then show ?thesis by (simp add: codec_ok_def codec_req_wl_surface_attach_def DATA_WL_SURFACE_def method_of_def nfds_def)
qed

lemma codec_req_wl_surface_damage_ok [codec_ok]: "codec_ok codec_req_wl_surface_damage"
proof -
  have "codec_matches codec_req_wl_surface_damage [Int_arg, Int_arg, Int_arg, Int_arg]"
    by (auto simp: codec_matches_def codec_req_wl_surface_damage_def write_req_wl_surface_damage_def length_req_wl_surface_damage_def parse_req_wl_surface_damage_def
      parse_codec_simps write_codec_simps simp del: valid_value.simps cong: if_cong)
  then show ?thesis by (simp add: codec_ok_def codec_req_wl_surface_damage_def DATA_WL_SURFACE_def method_of_def nfds_def)
qed

lemma codec_req_wl_surface_set_buffer_transform_ok [codec_ok]: "codec_ok codec_req_wl_surface_set_buffer_transform"
proof -
  have "codec_matches codec_req_wl_surface_set_buffer_transform [Int_arg]"
    by (auto simp: codec_matches_def codec_req_wl_surface_set_buffer_transform_def write_req_wl_surface_set_buffer_transform_def length_req_wl_surface_set_buffer_transform_def parse_req_wl_surface_set_buffer_transform_def
      parse_codec_simps write_codec_simps simp del: valid_value.simps cong: if_cong)
  then show ?thesis by (simp add: codec_ok_def codec_req_wl_surface_set_buffer_transform_def DATA_WL_SURFACE_def method_of_def nfds_def)
qed

lemma codec_req_wl_surface_damage_buffer_ok [codec_ok]: "codec_ok codec_req_wl_surface_damage_buffer"
proof -
  have "codec_matches codec_req_wl_surface_damage_buffer [Int_arg, Int_arg, Int_arg, Int_arg]"
    by (auto simp: codec_matches_def codec_req_wl_surface_damage_buffer_def write_req_wl_surface_damage_buffer_def length_req_wl_surface_damage_buffer_def parse_req_wl_surface_damage_buffer_def
      parse_codec_simps write_codec_simps simp del: valid_value.simps cong: if_cong)
  then show ?thesis by (simp add: codec_ok_def codec_req_wl_surface_damage_buffer_def DATA_WL_SURFACE_def method_of_def nfds_def)
qed

lemma codec_evt_wl_keyboard_keymap_ok [codec_ok]: "codec_ok codec_evt_wl_keyboard_keymap"
proof -
  have "codec_matches codec_evt_wl_keyboard_keymap [Uint, Fd, Uint]"
    by (auto simp: codec_matches_def codec_evt_wl_keyboard_keymap_def write_evt_wl_keyboard_keymap_def length_evt_wl_keyboard_keymap_def parse_evt_wl_keyboard_keymap_def
      parse_codec_simps write_codec_simps simp del: valid_value.simps cong: if_cong)
  then show ?thesis by (simp add: codec_ok_def codec_evt_wl_keyboard_keymap_def DATA_WL_KEYBOARD_def method_of_def nfds_def)
qed

lemma codec_req_zwlr_screencopy_manager_v1_capture_output_ok [codec_ok]: "codec_ok codec_req_zwlr_screencopy_manager_v1_capture_output"
proof -
  have "codec_matches codec_req_zwlr_screencopy_manager_v1_capture_output [NewId ZwlrScreencopyFrameV1, Int_arg, Object WlOutput]"
    by (auto simp: codec_matches_def codec_req_zwlr_screencopy_manager_v1_capture_output_def write_req_zwlr_screencopy_manager_v1_capture_output_def length_req_zwlr_screencopy_manager_v1_capture_output_def parse_req_zwlr_screencopy_manager_v1_capture_output_def
      parse_codec_simps write_codec_simps simp del: valid_value.simps cong: if_cong)
  then show ?thesis by (simp add: codec_ok_def codec_req_zwlr_screencopy_manager_v1_capture_output_def DATA_ZWLR_SCREENCOPY_MANAGER_V1_def method_of_def nfds_def)
qed

lemma codec_req_zwlr_screencopy_manager_v1_capture_output_region_ok [codec_ok]: "codec_ok codec_req_zwlr_screencopy_manager_v1_capture_output_region"
proof -
  have "codec_matches codec_req_zwlr_screencopy_manager_v1_capture_output_region [NewId ZwlrScreencopyFrameV1, Int_arg, Object WlOutput, Int_arg, Int_arg, Int_arg, Int_arg]"
    by (auto simp: codec_matches_def codec_req_zwlr_screencopy_manager_v1_capture_output_region_def write_req_zwlr_screencopy_manager_v1_capture_output_region_def length_req_zwlr_screencopy_manager_v1_capture_output_region_def parse_req_zwlr_screencopy_manager_v1_capture_output_region_def
      parse_codec_simps write_codec_simps simp del: valid_value.simps cong: if_cong)
  then show ?thesis by (simp add: codec_ok_def codec_req_zwlr_screencopy_manager_v1_capture_output_region_def DATA_ZWLR_SCREENCOPY_MANAGER_V1_def method_of_def nfds_def)
qed

lemma codec_evt_zwlr_screencopy_frame_v1_buffer_ok [codec_ok]: "codec_ok codec_evt_zwlr_screencopy_frame_v1_buffer"
proof -
  have "codec_matches codec_evt_zwlr_screencopy_frame_v1_buffer [Uint, Uint, Uint, Uint]"
    by (auto simp: codec_matches_def codec_evt_zwlr_screencopy_frame_v1_buffer_def write_evt_zwlr_screencopy_frame_v1_buffer_def length_evt_zwlr_screencopy_frame_v1_buffer_def parse_evt_zwlr_screencopy_frame_v1_buffer_def
      parse_codec_simps write_codec_simps simp del: valid_value.simps cong: if_cong)
  then show ?thesis by (simp add: codec_ok_def codec_evt_zwlr_screencopy_frame_v1_buffer_def DATA_ZWLR_SCREENCOPY_FRAME_V1_def method_of_def nfds_def)
qed

lemma codec_evt_zwlr_screencopy_frame_v1_ready_ok [codec_ok]: "codec_ok codec_evt_zwlr_screencopy_frame_v1_ready"
proof -
  have "codec_matches codec_evt_zwlr_screencopy_frame_v1_ready [Uint, Uint, Uint]"
    by (auto simp: codec_matches_def codec_evt_zwlr_screencopy_frame_v1_ready_def write_evt_zwlr_screencopy_frame_v1_ready_def length_evt_zwlr_screencopy_frame_v1_ready_def parse_evt_zwlr_screencopy_frame_v1_ready_def
      parse_codec_simps write_codec_simps simp del: valid_value.simps cong: if_cong)
  then show ?thesis by (simp add: codec_ok_def codec_evt_zwlr_screencopy_frame_v1_ready_def DATA_ZWLR_SCREENCOPY_FRAME_V1_def method_of_def nfds_def)
qed

lemma codec_req_zwlr_screencopy_frame_v1_copy_with_damage_ok [codec_ok]: "codec_ok codec_req_zwlr_screencopy_frame_v1_copy_with_damage"
proof -
  have "codec_matches codec_req_zwlr_screencopy_frame_v1_copy_with_damage [Object WlBuffer]"
    by (auto simp: codec_matches_def codec_req_zwlr_screencopy_frame_v1_copy_with_damage_def write_req_zwlr_screencopy_frame_v1_copy_with_damage_def length_req_zwlr_screencopy_frame_v1_copy_with_damage_def parse_req_zwlr_screencopy_frame_v1_copy_with_damage_def
      parse_codec_simps write_codec_simps simp del: valid_value.simps cong: if_cong)
  then show ?thesis by (simp add: codec_ok_def codec_req_zwlr_screencopy_frame_v1_copy_with_damage_def DATA_ZWLR_SCREENCOPY_FRAME_V1_def method_of_def nfds_def)
qed

lemma codec_evt_zwlr_screencopy_frame_v1_linux_dmabuf_ok [codec_ok]: "codec_ok codec_evt_zwlr_screencopy_frame_v1_linux_dmabuf"
proof -
  have "codec_matches codec_evt_zwlr_screencopy_frame_v1_linux_dmabuf [Uint, Uint, Uint]"
    by (auto simp: codec_matches_def codec_evt_zwlr_screencopy_frame_v1_linux_dmabuf_def write_evt_zwlr_screencopy_frame_v1_linux_dmabuf_def length_evt_zwlr_screencopy_frame_v1_linux_dmabuf_def parse_evt_zwlr_screencopy_frame_v1_linux_dmabuf_def
      parse_codec_simps write_codec_simps simp del: valid_value.simps cong: if_cong)
  then show ?thesis by (simp add: codec_ok_def codec_evt_zwlr_screencopy_frame_v1_linux_dmabuf_def DATA_ZWLR_SCREENCOPY_FRAME_V1_def method_of_def nfds_def)
qed

lemma codec_req_xdg_wm_base_get_xdg_surface_ok [codec_ok]: "codec_ok codec_req_xdg_wm_base_get_xdg_surface"
proof -
  have "codec_matches codec_req_xdg_wm_base_get_xdg_surface [NewId XdgSurface, Object WlSurface]"
    by (auto simp: codec_matches_def codec_req_xdg_wm_base_get_xdg_surface_def write_req_xdg_wm_base_get_xdg_surface_def length_req_xdg_wm_base_get_xdg_surface_def parse_req_xdg_wm_base_get_xdg_surface_def
      parse_codec_simps write_codec_simps simp del: valid_value.simps cong: if_cong)
  then show ?thesis by (simp add: codec_ok_def codec_req_xdg_wm_base_get_xdg_surface_def DATA_XDG_WM_BASE_def method_of_def nfds_def)
qed

lemma codec_req_xdg_toplevel_icon_manager_v1_create_icon_ok [codec_ok]: "codec_ok codec_req_xdg_toplevel_icon_manager_v1_create_icon"
proof -
  have "codec_matches codec_req_xdg_toplevel_icon_manager_v1_create_icon [NewId XdgToplevelIconV1]"
    by (auto simp: codec_matches_def codec_req_xdg_toplevel_icon_manager_v1_create_icon_def write_req_xdg_toplevel_icon_manager_v1_create_icon_def length_req_xdg_toplevel_icon_manager_v1_create_icon_def parse_req_xdg_toplevel_icon_manager_v1_create_icon_def
      parse_codec_simps write_codec_simps simp del: valid_value.simps cong: if_cong)
  then show ?thesis by (simp add: codec_ok_def codec_req_xdg_toplevel_icon_manager_v1_create_icon_def DATA_XDG_TOPLEVEL_ICON_MANAGER_V1_def method_of_def nfds_def)
qed

lemma codec_evt_xdg_toplevel_icon_manager_v1_icon_size_ok [codec_ok]: "codec_ok codec_evt_xdg_toplevel_icon_manager_v1_icon_size"
proof -
  have "codec_matches codec_evt_xdg_toplevel_icon_manager_v1_icon_size [Int_arg]"
    by (auto simp: codec_matches_def codec_evt_xdg_toplevel_icon_manager_v1_icon_size_def write_evt_xdg_toplevel_icon_manager_v1_icon_size_def length_evt_xdg_toplevel_icon_manager_v1_icon_size_def parse_evt_xdg_toplevel_icon_manager_v1_icon_size_def
      parse_codec_simps write_codec_simps simp del: valid_value.simps cong: if_cong)
  then show ?thesis by (simp add: codec_ok_def codec_evt_xdg_toplevel_icon_manager_v1_icon_size_def DATA_XDG_TOPLEVEL_ICON_MANAGER_V1_def method_of_def nfds_def)
qed

lemma codec_req_xdg_toplevel_icon_v1_add_buffer_ok [codec_ok]: "codec_ok codec_req_xdg_toplevel_icon_v1_add_buffer"
proof -
  have "codec_matches codec_req_xdg_toplevel_icon_v1_add_buffer [Object WlBuffer, Int_arg]"
    by (auto simp: codec_matches_def codec_req_xdg_toplevel_icon_v1_add_buffer_def write_req_xdg_toplevel_icon_v1_add_buffer_def length_req_xdg_toplevel_icon_v1_add_buffer_def parse_req_xdg_toplevel_icon_v1_add_buffer_def
      parse_codec_simps write_codec_simps simp del: valid_value.simps cong: if_cong)
  then show ?thesis by (simp add: codec_ok_def codec_req_xdg_toplevel_icon_v1_add_buffer_def DATA_XDG_TOPLEVEL_ICON_V1_def method_of_def nfds_def)
qed

lemma MESSAGES_ok: "list_all codec_ok MESSAGES"
  by (simp add: MESSAGES_def codec_ok)

lemma MESSAGES_matches:
  assumes "m \<in> set MESSAGES" and "method_of (cdata m) (cid m) = Some me"
  shows "codec_matches m (sig me)" and "method_code (cid m) < 2 ^ 8" and "nfds (sig me) tag < 2 ^ 5"
  using MESSAGES_ok assms by (auto simp: list_all_iff codec_ok_def nfds_def)

section \<open>Properties\<close>

text \<open>
  C22: the generated functions agree with the protocol tables: for each of the 48 modelled messages, the
  entry of its interface at its opcode exists, its parser is the reference parser at the
  signature of this entry, and on values of this signature its writer is the reference writer
  with this opcode and with as many tagged file descriptors as the signature has.
\<close>

theorem messages_match_tables:
  "list_all (\<lambda>m. case method_of (cdata m) (cid m) of None \<Rightarrow> False
      | Some me \<Rightarrow> method_code (cid m) < 2 ^ 8 \<and> codec_matches m (sig me)) MESSAGES"
  using MESSAGES_ok by (auto simp: list_all_iff codec_ok_def split: option.splits)

text \<open>
  C21: messages survive the wire. Writing a message with values of its signature into a buffer
  with enough room succeeds; the header of the bytes written gives back the object, their
  length and the opcode, and parsing them gives back the values.
\<close>

theorem message_roundtrip:
  assumes "m \<in> set MESSAGES" and "method_of (cdata m) (cid m) = Some me" and "valid_values (sig me) vs"
    and "8 + sum_list (map length_value vs) < 2 ^ 16" and "8 + sum_list (map length_value vs) \<le> length t"
  shows "\<exists>c. cwrite m \<lparr>written = [], tail = t\<rparr> for_id tag vs = Ok c \<and>
    length (written c) = 8 + sum_list (map length_value vs) \<and>
    parse_wl_header (written c) = Ok (for_id, length (written c), method_code (cid m)) \<and> cparse m (written c) = Ok vs"
proof -
  let ?b = "concat (map enc_value vs)"
  let ?h = "enc_header for_id (8 + length ?b) (method_code (cid m)) (nfds (sig me) tag)"
  note ok = MESSAGES_matches [OF assms(1,2)]
  have l: "sum_list (map length_value vs) = length ?b" using assms(3) by (rule length_enc_values)
  have "cwrite m \<lparr>written = [], tail = t\<rparr> for_id tag vs = emit \<lparr>written = [], tail = t\<rparr> (?h @ ?b)"
    using ok(1) assms(3) write_sig_emit [OF assms(3) _ ok(2) ok(3) [of tag]] assms(4) unfolding l
    by (simp add: codec_matches_def)
  also have "\<dots> = Ok \<lparr>written = ?h @ ?b, tail = drop (8 + length ?b) t\<rparr>"
    using assms(5) unfolding l by (simp add: emit_def)
  finally have w: "cwrite m \<lparr>written = [], tail = t\<rparr> for_id tag vs = Ok \<lparr>written = ?h @ ?b, tail = drop (8 + length ?b) t\<rparr>" .
  have "cparse m (?h @ ?b) = Ok vs"
    using ok(1) parse_sig_enc [OF assms(3), of ?h] by (simp add: codec_matches_def)
  moreover have "parse_wl_header (?h @ ?b) = Ok (for_id, 8 + length ?b, method_code (cid m))"
    using parse_wl_header_enc [of "8 + length ?b" "method_code (cid m)" "nfds (sig me) tag" for_id ?b] ok(2) ok(3) [of tag] assms(4)
    unfolding l by simp
  ultimately show ?thesis using w l by auto
qed

theorem message_roundtrip_witness:
  "\<exists>c. cwrite codec_req_wl_registry_bind \<lparr>written = [], tail = replicate 64 0\<rparr> (ObjId 2) False
        [VUint 7, VNewId [119, 108] 3 (ObjId 9)] = Ok c \<and>
    length (written c) = 8 + sum_list (map length_value [VUint 7, VNewId [119, 108] 3 (ObjId 9)]) \<and>
    parse_wl_header (written c) = Ok (ObjId 2, length (written c), 0) \<and>
    cparse codec_req_wl_registry_bind (written c) = Ok [VUint 7, VNewId [119, 108] 3 (ObjId 9)]"
proof -
  have "length_string (Suc (Suc 0)) = 8" by (simp add: length_string_ok USIZE_MAX_def next_multiple_of_def div_ceil_def)
  then show ?thesis
    using message_roundtrip [of codec_req_wl_registry_bind "reqs DATA_WL_REGISTRY ! 0" "[VUint 7, VNewId [119, 108] 3 (ObjId 9)]"
      "replicate 64 0" "ObjId 2" False]
    by (simp add: MESSAGES_def codec_req_wl_registry_bind_def DATA_WL_REGISTRY_def method_of_def valid_values_def valid_string_def)
qed

text \<open>
  C23: parsing arbitrary bytes as any modelled message is safe: it reports the parse error, or
  it returns values of the signature whose encoding accounts for the whole length of the
  message; it never panics.
\<close>

theorem message_parse_total:
  assumes "m \<in> set MESSAGES" and "method_of (cdata m) (cid m) = Some me"
  shows "cparse m msg = fail PARSE_ERROR \<or>
    (\<exists>vs. cparse m msg = Ok vs \<and> valid_values (sig me) vs \<and> length msg = 8 + sum_list (map length_value vs))"
  using MESSAGES_matches(1) [OF assms] parse_sig_total [of "sig me" msg] by (simp add: codec_matches_def)

theorem message_parse_total_witness:
  "cparse codec_req_wl_shm_pool_resize [] = fail PARSE_ERROR \<or>
    (\<exists>vs. cparse codec_req_wl_shm_pool_resize [] = Ok vs \<and> valid_values [Int_arg] vs \<and>
      length ([] :: bytes) = 8 + sum_list (map length_value vs))"
  using message_parse_total [of codec_req_wl_shm_pool_resize "reqs DATA_WL_SHM_POOL ! 2" "[]"]
  by (simp add: MESSAGES_def codec_req_wl_shm_pool_resize_def DATA_WL_SHM_POOL_def method_of_def)

end
