(* ===== verification/Timestamps.thy ===== *)
theory Timestamps
  imports Util
begin

text \<open>
  Translation of timestamps between clocks, \<open>src/tracking.rs\<close> (\<open>timespec_midpoint\<close> to
  \<open>translate_timestamp\<close>): a timestamp that travels over the channel is expressed on the realtime clock,
  whose difference to the clock of the message is estimated from three readings.

  A \<open>timespec\<close> has 64-bit signed fields; they are \<open>int\<close>s with the overflow checks written out. The system
  call \<open>clock_gettime\<close> is the parameter \<open>gettime\<close>: the result of the \<open>k\<close>-th call for a clock, \<open>None\<close> for a
  failure.
\<close>

section \<open>Definitions\<close>

definition is_i64 :: "int \<Rightarrow> bool" where
  "is_i64 x \<longleftrightarrow> - (2 ^ 63) \<le> x \<and> x < 2 ^ 63"

definition i64_res :: "int \<Rightarrow> int res" where
  "i64_res x = (if is_i64 x then Ok x else panic)"

definition i64_checked :: "int \<Rightarrow> int option" where
  "i64_checked x = (if is_i64 x then Some x else None)"

definition u64_checked :: "int \<Rightarrow> int option" where
  "u64_checked x = (if 0 \<le> x \<and> x < 2 ^ 64 then Some x else None)"

definition i64_rem :: "int \<Rightarrow> int \<Rightarrow> int" where
  "i64_rem a b = sgn a * (\<bar>a\<bar> mod \<bar>b\<bar>)"

record timespec =
  tv_sec :: int
  tv_nsec :: int

definition timespec_from_sec_nsec :: "int \<Rightarrow> int \<Rightarrow> timespec" where
  "timespec_from_sec_nsec sec nsec = \<lparr>tv_sec = sec, tv_nsec = nsec\<rparr>"

definition half_way :: "int \<Rightarrow> int \<Rightarrow> int res" where
  "half_way a b = (if a < b then rbind (i64_res (b - a)) (\<lambda>d. i64_res (a + d div 2))
     else rbind (i64_res (a - b)) (\<lambda>d. i64_res (b + d div 2)))"

definition timespec_midpoint :: "timespec \<Rightarrow> timespec \<Rightarrow> timespec res" where
  "timespec_midpoint stamp_1 stamp_3 =
     rbind (half_way (tv_nsec stamp_1) (tv_nsec stamp_3)) (\<lambda>mid_nsec.
     rbind (half_way (tv_sec stamp_1) (tv_sec stamp_3)) (\<lambda>mid_sec.
     rbind (if i64_rem (tv_sec stamp_3) 2 \<noteq> i64_rem (tv_sec stamp_1) 2
            then i64_res (mid_nsec + 500000000) else Ok mid_nsec) (\<lambda>mid_nsec.
     if mid_nsec > 1000000000
     then rbind (i64_res (mid_sec + 1)) (\<lambda>mid_sec.
          rbind (i64_res (mid_nsec - 1000000000)) (\<lambda>mid_nsec.
          Ok (timespec_from_sec_nsec mid_sec mid_nsec)))
     else Ok (timespec_from_sec_nsec mid_sec mid_nsec))))"

definition to_clockid :: "u32 \<Rightarrow> int res" where
  "to_clockid c = (if uint c \<le> I32_MAX then Ok (uint c) else panic)"

definition i64_as_i32 :: "int \<Rightarrow> int" where
  "i64_as_i32 x = sint (word_of_int x :: u32)"

definition clock_sub ::
  "(nat \<Rightarrow> int \<Rightarrow> timespec option) \<Rightarrow> u32 \<Rightarrow> u32 \<Rightarrow> (int \<times> nat) res" where
  "clock_sub gettime clock_a clock_b =
     rbind (to_clockid clock_a) (\<lambda>ca.
     rbind (to_clockid clock_b) (\<lambda>cb.
     (case (gettime 0 ca, gettime 1 cb, gettime 2 ca) of
        (Some stamp_1, Some stamp_2, Some stamp_3) \<Rightarrow>
          rbind (timespec_midpoint stamp_1 stamp_3) (\<lambda>stamp_avg.
          rbind (ok_or (i64_checked (tv_sec stamp_avg - tv_sec stamp_2)) (Err ''overflow'')) (\<lambda>tv_sec.
          rbind (ok_or (i64_checked (tv_nsec stamp_avg - tv_nsec stamp_2)) (Err ''overflow'')) (\<lambda>tv_nsec.
          rbind (if i64_as_i32 tv_nsec < 0
                 then rbind (i64_res (tv_sec - 1)) (\<lambda>tv_sec. Ok (tv_sec, i64_as_i32 tv_nsec + 1000000000))
                 else Ok (tv_sec, i64_as_i32 tv_nsec)) (\<lambda>(tv_sec, tv_nsec).
          rbind (assert_that (0 \<le> tv_nsec \<and> tv_nsec < 1000000000)) (\<lambda>_.
          Ok (tv_sec, nat tv_nsec))))))
      | _ \<Rightarrow> fail ''clock_gettime failed for clock {} or {}'')))"

definition time_add :: "int \<times> nat \<Rightarrow> int \<times> nat \<Rightarrow> (int \<times> nat) option res" where
  "time_add a b =
     rbind (assert_that (snd a < 1000000000 \<and> snd b < 1000000000)) (\<lambda>_.
     Ok (let nsec = snd a + snd b in
         if nsec > 1000000000
         then (case u64_checked (fst a + 1) of
             None \<Rightarrow> None
           | Some s \<Rightarrow> map_option (\<lambda>s'. (s', nsec - 1000000000)) (u64_checked (s + fst b)))
         else map_option (\<lambda>s'. (s', nsec)) (u64_checked (fst a + fst b))))"

definition CLOCK_REALTIME :: u32 where
  "CLOCK_REALTIME = 0"

definition CLOCK_MONOTONIC :: u32 where
  "CLOCK_MONOTONIC = 1"

definition translate_timestamp ::
  "(nat \<Rightarrow> int \<Rightarrow> timespec option) \<Rightarrow> u32 \<Rightarrow> u32 \<Rightarrow> u32 \<Rightarrow> u32 \<Rightarrow> bool \<Rightarrow> (u32 \<times> u32 \<times> u32) res" where
  "translate_timestamp gettime sec_hi sec_lo nsec clock_id to_channel =
     (if unat nsec \<ge> 1000000000 then fail ''tv_nsec should be in [0,10^9), got {}''
      else
        rbind (if to_channel then clock_sub gettime CLOCK_REALTIME clock_id
               else clock_sub gettime clock_id CLOCK_REALTIME) (\<lambda>diff.
        rbind (time_add (uint (join_u64 sec_hi sec_lo), unat nsec) diff) (\<lambda>t.
        rbind (ok_or t (Err ''overflow'')) (\<lambda>(new_sec, new_nsec).
        let (new_sec_hi, new_sec_lo) = split_u64 (word_of_int new_sec) in
        Ok (new_sec_hi, new_sec_lo, word_of_nat new_nsec)))))"

section \<open>Time as a number of nanoseconds\<close>

definition nanos :: "int \<Rightarrow> int \<Rightarrow> int" where
  "nanos s n = s * 1000000000 + n"

definition stamp_nanos :: "timespec \<Rightarrow> int" where
  "stamp_nanos t = nanos (tv_sec t) (tv_nsec t)"

definition wire_nanos :: "u32 \<times> u32 \<times> u32 \<Rightarrow> int" where
  "wire_nanos = (\<lambda>(hi, lo, nsec). nanos (uint (join_u64 hi lo)) (uint nsec))"

definition valid_stamp :: "timespec \<Rightarrow> bool" where
  "valid_stamp t \<longleftrightarrow> 0 \<le> tv_sec t \<and> tv_sec t < 2 ^ 62 \<and> 0 \<le> tv_nsec t \<and> tv_nsec t < 1000000000"

lemma join_split_u64: "join_u64 (fst (split_u64 x)) (snd (split_u64 x)) = x"
  unfolding join_u64_def split_u64_def
  by (rule bit_word_eqI) (auto simp: bit_simps)

lemma half_way_eq:
  assumes "0 \<le> a" "a < 2 ^ 62" "0 \<le> b" "b < 2 ^ 62"
  shows "half_way a b = Ok ((a + b) div 2)"
proof -
  have "a + (b - a) div 2 = (a + b) div 2" "b + (a - b) div 2 = (a + b) div 2" by linarith+
  moreover have "is_i64 ((a + b) div 2)" "is_i64 (b - a)" "is_i64 (a - b)"
    using assms by (auto simp: is_i64_def)
  ultimately show ?thesis by (simp add: half_way_def i64_res_def)
qed

lemma rem2_neq:
  assumes "0 \<le> a" "0 \<le> b"
  shows "i64_rem b 2 \<noteq> i64_rem a 2 \<longleftrightarrow> (a + b) mod 2 = 1"
proof -
  have "i64_rem a 2 = a mod 2" "i64_rem b 2 = b mod 2" using assms
    by (auto simp: i64_rem_def sgn_if)
  then show ?thesis by presburger
qed

lemma nanos_div_mod:
  assumes "0 \<le> n" "n < 1000000000"
  shows "nanos s n div 1000000000 = s" "nanos s n mod 1000000000 = n"
  using assms by (simp_all add: nanos_def)

lemma nanos_mid:
  "(nanos s n + nanos s' n') div 2 =
   nanos ((s + s') div 2) ((n + n') div 2 + (if (s + s') mod 2 = 1 then 500000000 else 0))"
proof -
  let ?r = "if (s + s') mod 2 = 1 then 500000000 else (0 :: int)"
  have half: "t * 1000000000 = 2 * (t div 2 * 1000000000 + (if t mod 2 = 1 then 500000000 else 0))"
    for t :: int
    using div_mult_mod_eq [of t 2] mod2_eq_if [of t] by (cases "even t") (simp_all del: div_mult_mod_eq)
  have "(s + s') * 1000000000 = 2 * ((s + s') div 2 * 1000000000 + ?r)" by (rule half)
  then have "nanos s n + nanos s' n' = (n + n') + 2 * ((s + s') div 2 * 1000000000 + ?r)"
    by (simp add: nanos_def algebra_simps)
  then show ?thesis by (simp add: nanos_def)
qed

text \<open>The midpoint has the exact value, but its nanoseconds may be a whole second.\<close>

lemma timespec_midpoint_ok:
  assumes "valid_stamp a" "valid_stamp b"
  obtains m where "timespec_midpoint a b = Ok m"
    and "stamp_nanos m = (stamp_nanos a + stamp_nanos b) div 2"
    and "0 \<le> tv_sec m" "tv_sec m \<le> 2 ^ 62" "0 \<le> tv_nsec m" "tv_nsec m \<le> 1000000000"
proof -
  define N where "N = (tv_nsec a + tv_nsec b) div 2"
  define S where "S = (tv_sec a + tv_sec b) div 2"
  define n where "n = N + (if (tv_sec a + tv_sec b) mod 2 = 1 then 500000000 else 0)"
  let ?m = "if n > 1000000000 then \<lparr>tv_sec = S + 1, tv_nsec = n - 1000000000\<rparr>
            else \<lparr>tv_sec = S, tv_nsec = n\<rparr>"
  have v: "0 \<le> tv_sec a" "tv_sec a < 2 ^ 62" "0 \<le> tv_nsec a" "tv_nsec a < 1000000000"
      "0 \<le> tv_sec b" "tv_sec b < 2 ^ 62" "0 \<le> tv_nsec b" "tv_nsec b < 1000000000"
    using assms by (simp_all add: valid_stamp_def)
  have N: "0 \<le> N" "N < 1000000000" and S: "0 \<le> S" "S < 2 ^ 62" using v by (auto simp: N_def S_def)
  have h: "half_way (tv_nsec a) (tv_nsec b) = Ok N" "half_way (tv_sec a) (tv_sec b) = Ok S"
    using v by (simp_all add: half_way_eq N_def S_def)
  have "timespec_midpoint a b = Ok ?m" using N S rem2_neq [OF v(1, 5)]
    by (simp add: timespec_midpoint_def h i64_res_def is_i64_def timespec_from_sec_nsec_def n_def)
  moreover have "stamp_nanos ?m = (stamp_nanos a + stamp_nanos b) div 2"
    unfolding stamp_nanos_def nanos_mid n_def N_def S_def by (simp add: nanos_def)
  moreover have "0 \<le> tv_sec ?m" "tv_sec ?m \<le> 2 ^ 62" "0 \<le> tv_nsec ?m" "tv_nsec ?m \<le> 1000000000"
    using N S by (auto simp: n_def)
  ultimately show ?thesis using that by blast
qed

lemma i64_as_i32_id: "- (2 ^ 31) \<le> x \<Longrightarrow> x < 2 ^ 31 \<Longrightarrow> i64_as_i32 x = x"
  unfolding i64_as_i32_def by (simp add: signed_of_int signed_take_bit_int_eq_self)

lemma clock_sub_ok:
  assumes c: "uint ca \<le> I32_MAX" "uint cb \<le> I32_MAX"
    and r: "gettime 0 (uint ca) = Some r1" "gettime 1 (uint cb) = Some r2" "gettime 2 (uint ca) = Some r3"
    and v: "valid_stamp r1" "valid_stamp r2" "valid_stamp r3"
  defines "diff \<equiv> (stamp_nanos r1 + stamp_nanos r3) div 2 - stamp_nanos r2"
  shows "clock_sub gettime ca cb = panic \<and> diff mod 1000000000 = 0 \<and> tv_nsec r2 = 0
    \<or> clock_sub gettime ca cb = Ok (diff div 1000000000, nat (diff mod 1000000000))"
proof -
  obtain m where m: "timespec_midpoint r1 r3 = Ok m"
      "stamp_nanos m = (stamp_nanos r1 + stamp_nanos r3) div 2"
    and b: "0 \<le> tv_sec m" "tv_sec m \<le> 2 ^ 62" "0 \<le> tv_nsec m" "tv_nsec m \<le> 1000000000"
    using timespec_midpoint_ok [OF v(1, 3)] by metis
  have v2: "0 \<le> tv_sec r2" "tv_sec r2 < 2 ^ 62" "0 \<le> tv_nsec r2" "tv_nsec r2 < 1000000000"
    using v(2) by (simp_all add: valid_stamp_def)
  let ?s = "tv_sec m - tv_sec r2" and ?n = "tv_nsec m - tv_nsec r2"
  have cast: "i64_as_i32 ?n = ?n" using b v2 by (intro i64_as_i32_id) simp_all
  have d: "diff = nanos ?s ?n" unfolding diff_def m(2)[symmetric]
    by (simp add: stamp_nanos_def nanos_def algebra_simps)
  have eq: "clock_sub gettime ca cb =
      (if ?n < 0 then Ok (?s - 1, nat (?n + 1000000000))
       else if ?n < 1000000000 then Ok (?s, nat ?n) else panic)"
    using c r m(1) b v2 cast
    by (simp add: clock_sub_def to_clockid_def i64_checked_def i64_res_def is_i64_def ok_or_def)
  show ?thesis
  proof (cases "?n < 1000000000")
    case True
    then have "clock_sub gettime ca cb = Ok (diff div 1000000000, nat (diff mod 1000000000))"
    proof (cases "?n < 0")
      case True
      have "diff = nanos (?s - 1) (?n + 1000000000)" using d by (simp add: nanos_def algebra_simps)
      then have "diff div 1000000000 = ?s - 1" "diff mod 1000000000 = ?n + 1000000000"
        using True b v2 by (simp_all add: nanos_div_mod)
      then show ?thesis using True eq by simp
    next
      case False
      then have "diff div 1000000000 = ?s" "diff mod 1000000000 = ?n"
        using d True by (simp_all add: nanos_div_mod)
      then show ?thesis using False True eq by simp
    qed
    then show ?thesis ..
  next
    case False
    then have "tv_nsec r2 = 0" "?n = 1000000000" using b v2 by simp_all
    moreover have "diff mod 1000000000 = 0" using d calculation(2) by (simp add: nanos_def)
    ultimately show ?thesis using eq by simp
  qed
qed

definition add_fits :: "int \<Rightarrow> nat \<Rightarrow> int \<Rightarrow> nat \<Rightarrow> bool" where
  "add_fits s n d m \<longleftrightarrow> 0 \<le> s + d + (if n + m > 1000000000 then 1 else 0)
     \<and> s + d + (if n + m > 1000000000 then 1 else 0) < 2 ^ 64 \<and> (n + m > 1000000000 \<longrightarrow> s + 1 < 2 ^ 64)"

lemma time_add_eq:
  assumes "0 \<le> s" "n < 1000000000" "m < 1000000000"
  shows "time_add (s, n) (d, m) = Ok (if add_fits s n d m
     then Some (if n + m > 1000000000 then (s + d + 1, n + m - 1000000000) else (s + d, n + m)) else None)"
  using assms by (simp add: time_add_def add_fits_def u64_checked_def algebra_simps)

lemma wire_nanos_split:
  assumes "0 \<le> s" "s < 2 ^ 64" "n < 2 ^ 32"
  shows "wire_nanos (let (hi, lo) = split_u64 (word_of_int s) in (hi, lo, word_of_nat n)) = nanos s (int n)"
proof -
  have "join_u64 (fst (split_u64 (word_of_int s))) (snd (split_u64 (word_of_int s))) = word_of_int s"
    by (rule join_split_u64)
  moreover have "uint (word_of_int s :: u64) = s" using assms by (simp add: uint_word_of_int)
  moreover have "uint (word_of_nat n :: u32) = int n" using assms by (simp add: uint_nat unat_of_nat)
  ultimately show ?thesis by (simp add: wire_nanos_def split_beta)
qed

text \<open>The translation, with the difference of the clocks already known.\<close>

lemma translate_timestamp_eq:
  assumes "unat nsec < 1000000000" and "m < 1000000000"
    and "(if to_channel then clock_sub gettime CLOCK_REALTIME clock_id
          else clock_sub gettime clock_id CLOCK_REALTIME) = Ok (d, m)"
  shows "translate_timestamp gettime hi lo nsec clock_id to_channel =
    (if add_fits (uint (join_u64 hi lo)) (unat nsec) d m
     then Ok (let (s, n) = (if unat nsec + m > 1000000000
          then (uint (join_u64 hi lo) + d + 1, unat nsec + m - 1000000000)
          else (uint (join_u64 hi lo) + d, unat nsec + m));
        (hi', lo') = split_u64 (word_of_int s) in (hi', lo', word_of_nat n))
     else fail ''overflow'')"
  using assms by (simp add: translate_timestamp_def time_add_eq ok_or_def split_beta Let_def)

lemma translate_timestamp_value:
  assumes "unat nsec < 1000000000" and "m < 1000000000"
    and "(if to_channel then clock_sub gettime CLOCK_REALTIME clock_id
          else clock_sub gettime clock_id CLOCK_REALTIME) = Ok (d, m)"
    and fits: "add_fits (uint (join_u64 hi lo)) (unat nsec) d m"
  shows "\<exists>t. translate_timestamp gettime hi lo nsec clock_id to_channel = Ok t \<and>
    wire_nanos t = nanos (uint (join_u64 hi lo)) (int (unat nsec)) + nanos d (int m)"
proof (cases "unat nsec + m > 1000000000")
  case True
  then have "wire_nanos (let (hi', lo') = split_u64 (word_of_int (uint (join_u64 hi lo) + d + 1))
      in (hi', lo', word_of_nat (unat nsec + m - 1000000000))) =
    nanos (uint (join_u64 hi lo) + d + 1) (int (unat nsec + m - 1000000000))"
    using fits assms(1,2) by (intro wire_nanos_split) (simp_all add: add_fits_def)
  then show ?thesis using True fits translate_timestamp_eq [OF assms(1-3)]
    by (simp add: nanos_def algebra_simps of_nat_diff)
next
  case False
  then have "wire_nanos (let (hi', lo') = split_u64 (word_of_int (uint (join_u64 hi lo) + d))
      in (hi', lo', word_of_nat (unat nsec + m))) = nanos (uint (join_u64 hi lo) + d) (int (unat nsec + m))"
    using fits assms(1,2) by (intro wire_nanos_split) (simp_all add: add_fits_def)
  then show ?thesis using False fits translate_timestamp_eq [OF assms(1-3)]
    by (simp add: nanos_def algebra_simps)
qed

lemma add_fits_False:
  assumes "\<not> add_fits s n d m" and "0 \<le> s" "s < 2 ^ 64" and "n < 1000000000" "m < 1000000000"
  shows "nanos s (int n) + nanos d (int m) \<le> 0 \<or> 2 ^ 64 * 1000000000 \<le> nanos s (int n) + nanos d (int m)
    \<or> s = 2 ^ 64 - 1"
proof (cases "n + m > 1000000000")
  case True
  then have "s + d + 1 < 0 \<or> 2 ^ 64 \<le> s + d + 1 \<or> s = 2 ^ 64 - 1"
    using assms(1-3) by (auto simp: add_fits_def)
  then show ?thesis using True assms(4,5) unfolding nanos_def by (auto simp: algebra_simps)
next
  case False
  then have "s + d \<le> - 1 \<or> 2 ^ 64 \<le> s + d" using assms(1-3) by (auto simp: add_fits_def)
  then show ?thesis using False assms(4,5) unfolding nanos_def by (auto simp: algebra_simps)
qed

section \<open>Properties\<close>

text \<open>
  C26: a translated timestamp is the original one shifted by the measured difference of the two clocks.
  The difference is the midpoint of the two readings of the target clock minus the reading of the source
  clock, to the nanosecond; the target is the realtime clock for a message towards the channel and the
  clock of the message otherwise. An error is only returned where the shifted time is not positive or
  does not fit 64 bits of seconds, or the seconds have their largest value already. A panic needs clocks
  that differ by whole seconds and a source clock read at a whole second.
\<close>

theorem translate_timestamp_shifts:
  assumes "unat nsec < 1000000000" and "uint clock_id \<le> I32_MAX"
    and "(ca, cb) = (if to_channel then (CLOCK_REALTIME, clock_id) else (clock_id, CLOCK_REALTIME))"
    and "gettime 0 (uint ca) = Some r1" and "gettime 1 (uint cb) = Some r2" and "gettime 2 (uint ca) = Some r3"
    and "valid_stamp r1" and "valid_stamp r2" and "valid_stamp r3"
  shows "let target = wire_nanos (hi, lo, nsec) + (stamp_nanos r1 + stamp_nanos r3) div 2 - stamp_nanos r2 in
    case translate_timestamp gettime hi lo nsec clock_id to_channel of
      Inr t \<Rightarrow> wire_nanos t = target
    | Inl Panic \<Rightarrow> (target - uint nsec) mod 1000000000 = 0 \<and> tv_nsec r2 = 0
    | Inl (Err _) \<Rightarrow> target \<le> 0 \<or> 2 ^ 64 * 1000000000 \<le> target \<or> uint (join_u64 hi lo) = 2 ^ 64 - 1
    | Inl UB \<Rightarrow> False"
proof -
  define diff where "diff = (stamp_nanos r1 + stamp_nanos r3) div 2 - stamp_nanos r2"
  define s where "s = uint (join_u64 hi lo)"
  let ?n = "unat nsec" and ?d = "diff div 1000000000" and ?m = "nat (diff mod 1000000000)"
  have c: "uint ca \<le> I32_MAX" "uint cb \<le> I32_MAX" using assms(2,3)
    by (auto simp: CLOCK_REALTIME_def I32_MAX_def split: if_splits)
  have cs: "clock_sub gettime ca cb = (if to_channel then clock_sub gettime CLOCK_REALTIME clock_id
      else clock_sub gettime clock_id CLOCK_REALTIME)" using assms(3) by (auto split: if_splits)
  have n: "uint nsec = int ?n" by simp
  have s: "0 \<le> s" "s < 2 ^ 64" unfolding s_def using uint_lt2p [of "join_u64 hi lo"] by simp_all
  have m: "?m < 1000000000" "nanos ?d (int ?m) = diff" unfolding nanos_def by (simp_all add: nat_less_iff)
  have w: "wire_nanos (hi, lo, nsec) = nanos s (int ?n)" by (simp add: wire_nanos_def s_def)
  have tgt: "wire_nanos (hi, lo, nsec) + (stamp_nanos r1 + stamp_nanos r3) div 2 - stamp_nanos r2
      = nanos s (int ?n) + diff" unfolding w diff_def by simp
  consider (panic) "clock_sub gettime ca cb = panic" "diff mod 1000000000 = 0" "tv_nsec r2 = 0"
    | (ok) "clock_sub gettime ca cb = Ok (?d, ?m)"
    using clock_sub_ok [OF c assms(4-9)] unfolding diff_def by blast
  note cases = this
  let ?C = "case translate_timestamp gettime hi lo nsec clock_id to_channel of
      Inr t \<Rightarrow> wire_nanos t = nanos s (int ?n) + diff
    | Inl Panic \<Rightarrow> (nanos s (int ?n) + diff - uint nsec) mod 1000000000 = 0 \<and> tv_nsec r2 = 0
    | Inl (Err _) \<Rightarrow> nanos s (int ?n) + diff \<le> 0 \<or> 2 ^ 64 * 1000000000 \<le> nanos s (int ?n) + diff
        \<or> uint (join_u64 hi lo) = 2 ^ 64 - 1
    | Inl UB \<Rightarrow> False"
  have ?C using cases
  proof cases
    case panic
    have eq: "nanos s (int ?n) + diff - uint nsec = diff + s * 1000000000" unfolding n nanos_def by simp
    show ?C
      unfolding eq using panic assms(1) cs by (simp add: translate_timestamp_def)
  next
    case ok
    note eq = translate_timestamp_eq [OF assms(1) m(1) ok [unfolded cs], of hi lo, folded s_def]
    note val = translate_timestamp_value [OF assms(1) m(1) ok [unfolded cs], of hi lo, folded s_def, unfolded m(2)]
    show ?C
      using eq val add_fits_False [OF _ s assms(1) m(1), of ?d, unfolded m(2)]
      by (cases "add_fits s ?n ?d ?m") (auto simp: s_def [symmetric])
  qed
  then show ?thesis unfolding Let_def tgt .
qed

theorem translate_timestamp_shifts_witness:
  "\<exists>t. translate_timestamp
      (\<lambda>k c. Some (if c = 0 then \<lparr>tv_sec = 100, tv_nsec = 900000000 + 2 * int k\<rparr> else \<lparr>tv_sec = 7, tv_nsec = 5\<rparr>))
      0 8 300000000 CLOCK_MONOTONIC True = Ok t \<and>
    wire_nanos t = 8300000000 + 100900000002 - 7000000005"
proof -
  let ?g = "\<lambda>(k :: nat) (c :: int). Some (if c = 0 then \<lparr>tv_sec = 100, tv_nsec = 900000000 + 2 * int k\<rparr> else \<lparr>tv_sec = 7, tv_nsec = 5\<rparr>)"
  let ?r1 = "\<lparr>tv_sec = 100, tv_nsec = 900000000\<rparr>" and ?r2 = "\<lparr>tv_sec = 7, tv_nsec = 5\<rparr>"
    and ?r3 = "\<lparr>tv_sec = 100, tv_nsec = 900000004\<rparr>"
  have j: "uint (join_u64 0 8) = 8" by (simp add: join_u64_def)
  have w: "wire_nanos (0, 8, 300000000) = 8300000000" by (simp add: wire_nanos_def j nanos_def)
  show ?thesis
    using translate_timestamp_shifts [of 300000000 CLOCK_MONOTONIC CLOCK_REALTIME CLOCK_MONOTONIC True ?g ?r1 ?r2 ?r3 0 8]
    by (simp add: CLOCK_MONOTONIC_def CLOCK_REALTIME_def I32_MAX_def valid_stamp_def Let_def stamp_nanos_def nanos_def
        w j del: split_paired_Ex split: sum.splits failure.splits)
qed

text \<open>
  C38: a timestamp whose shifted nanoseconds add up to exactly one second is written to the channel with
  \<open>tv_nsec = 10\<^sup>9\<close>, without the carry into the seconds. Whatever clocks the other side of the channel has,
  it refuses to translate that timestamp.
\<close>

theorem whole_second_rejected:
  assumes "unat nsec < 1000000000" and "uint clock_id \<le> I32_MAX"
    and "gettime 0 (uint CLOCK_REALTIME) = Some r1" and "gettime 1 (uint clock_id) = Some r2"
    and "gettime 2 (uint CLOCK_REALTIME) = Some r3"
    and "valid_stamp r1" and "valid_stamp r2" and "valid_stamp r3"
    and "diff = (stamp_nanos r1 + stamp_nanos r3) div 2 - stamp_nanos r2"
    and "uint nsec + diff mod 1000000000 = 1000000000"
    and "0 \<le> uint (join_u64 hi lo) + diff div 1000000000" and "uint (join_u64 hi lo) + diff div 1000000000 < 2 ^ 64"
  shows "\<exists>hi' lo' e. translate_timestamp gettime hi lo nsec clock_id True = Ok (hi', lo', 1000000000) \<and>
    translate_timestamp gettime' hi' lo' 1000000000 clock_id' False = fail e"
proof -
  let ?d = "diff div 1000000000" and ?m = "nat (diff mod 1000000000)"
  have r: "uint CLOCK_REALTIME \<le> I32_MAX" by (simp add: CLOCK_REALTIME_def I32_MAX_def)
  have n: "uint nsec = int (unat nsec)" by simp
  have "uint nsec < 1000000000" using assms(1) by (metis n of_nat_less_iff of_nat_numeral)
  then have "diff mod 1000000000 \<noteq> 0" using assms(10) by linarith
  then have cs: "clock_sub gettime CLOCK_REALTIME clock_id = Ok (?d, ?m)"
    using clock_sub_ok [OF r assms(2-8)] unfolding assms(9) by blast
  have m: "?m < 1000000000" by (simp add: nat_less_iff)
  have nat_sum: "k + nat x = 1000000000" if "int k + x = 1000000000" "0 \<le> x" for k x using that by auto
  have sum: "unat nsec + ?m = 1000000000" by (rule nat_sum [OF assms(10) [unfolded n]]) simp
  have "translate_timestamp gettime hi lo nsec clock_id True =
      Ok (let (hi', lo') = split_u64 (word_of_int (uint (join_u64 hi lo) + ?d)) in (hi', lo', 1000000000))"
    using translate_timestamp_eq [of nsec ?m True gettime clock_id ?d hi lo] assms(1,11,12) m sum cs
    by (simp add: add_fits_def)
  then show ?thesis by (simp add: translate_timestamp_def split_beta)
qed

theorem whole_second_rejected_witness:
  "let g = (\<lambda>(k :: nat) (c :: int). Some (if c = 0 then \<lparr>tv_sec = 100, tv_nsec = 700000000\<rparr> else \<lparr>tv_sec = 7, tv_nsec = 0\<rparr>))
   in \<exists>hi lo e. translate_timestamp g 0 8 300000000 CLOCK_MONOTONIC True = Ok (hi, lo, 1000000000) \<and>
        translate_timestamp g hi lo 1000000000 CLOCK_MONOTONIC False = fail e"
proof -
  let ?g = "\<lambda>(k :: nat) (c :: int). Some (if c = 0 then \<lparr>tv_sec = 100, tv_nsec = 700000000\<rparr> else \<lparr>tv_sec = 7, tv_nsec = 0\<rparr>)"
  let ?r1 = "\<lparr>tv_sec = 100, tv_nsec = 700000000\<rparr>" and ?r2 = "\<lparr>tv_sec = 7, tv_nsec = 0\<rparr>"
  have j: "uint (join_u64 0 8) = 8" by (simp add: join_u64_def)
  show ?thesis
    using whole_second_rejected [of 300000000 CLOCK_MONOTONIC ?g ?r1 ?r2 ?r1 93700000000 0 8 ?g CLOCK_MONOTONIC]
    by (simp add: CLOCK_MONOTONIC_def CLOCK_REALTIME_def I32_MAX_def valid_stamp_def Let_def stamp_nanos_def nanos_def j)
qed

end
