(* ===== verification/Diff_Roundtrip.thy ===== *)
theory Diff_Roundtrip
  imports Diff_Kernel
begin

text \<open>
  Applying what was constructed: \<open>apply_diff\<close> and \<open>apply_diff_one\<close> of kernel.rs replay the
  segments of a diff, \<open>compute_diff_span\<close> bounds the region they write, and a diff made by
  \<open>construct_diff\<close> on one side and applied on the other side brings the copy there up to date.
\<close>

section \<open>Reading encoded segments\<close>

lemma seg_ok_blocks:
  assumes "seg_ok lo hi sg"
  shows "4 * (length (snd sg) div 4) = length (snd sg)" and "0 < length (snd sg) div 4"
    and "fst sg + length (snd sg) div 4 \<le> hi" and "4 dvd length (snd sg)"
  using assms by (auto simp: seg_ok_def elim!: dvdE intro: Nat.gr0I)

lemma sub_slice_append: "sub_slice (p @ x @ y) (length p) (length p + length x) = x"
  by (simp add: sub_slice_def)

lemma read_enc:
  assumes "diff = p @ enc_seg sg @ q" and "fst sg + length (snd sg) div 4 \<le> U32_MAX"
  shows "read_u32_at diff (length p) = Ok (fst sg)"
    and "read_u32_at diff (length p + 4) = Ok (fst sg + length (snd sg) div 4)"
    and "slice_res diff (length p + 8) (length p + 8 + length (snd sg)) = Ok (snd sg)"
proof -
  let ?a = "u32_to_le_bytes (word_of_nat (fst sg))"
  let ?b = "u32_to_le_bytes (word_of_nat (fst sg + length (snd sg) div 4))"
  have n: "unat (word_of_nat k :: u32) = k" if "k \<le> U32_MAX" for k
    using that by (simp add: U32_MAX_def unsigned_of_nat take_bit_nat_eq_self)
  have "sub_slice diff (length p) (length p + 4) = ?a"
    using sub_slice_append [of p ?a "?b @ snd sg @ q"] by (simp add: assms(1) enc_seg_def)
  then show "read_u32_at diff (length p) = Ok (fst sg)"
    using n [of "fst sg"] assms by (simp add: read_u32_at_def slice_res_def enc_seg_def)
  have "sub_slice diff (length p + 4) (length p + 8) = ?b"
    using sub_slice_append [of "p @ ?a" ?b "snd sg @ q"] by (simp add: assms(1) enc_seg_def add.commute)
  then show "read_u32_at diff (length p + 4) = Ok (fst sg + length (snd sg) div 4)"
    using n [OF assms(2)] assms(1) by (simp add: read_u32_at_def slice_res_def enc_seg_def add.commute)
  show "slice_res diff (length p + 8) (length p + 8 + length (snd sg)) = Ok (snd sg)"
    using sub_slice_append [of "p @ ?a @ ?b" "snd sg" q] assms(1) by (simp add: slice_res_def enc_seg_def add.commute)
qed

lemma patch_simps [simp]:
  "patch ms [] m = m"
  "patch ms (sg # sgs) m = patch ms sgs (write_at m (4 * fst sg - ms) (snd sg))"
  "patch ms (sgs @ sgs') m = patch ms sgs' (patch ms sgs m)"
  by (simp_all add: patch_def)

lemma words_of_bytes: "4 dvd length bs \<Longrightarrow> concat (map u32_to_le_bytes (words_of bs)) = bs"
proof (induction bs rule: words_of.induct)
  case (1 a b c d bs)
  then have "4 dvd length bs" by (simp only: length_Cons) presburger
  with 1 show ?case by (simp add: u32_to_from_le_bytes)
qed (simp_all, presburger+)

lemma length_words_of: "length (words_of bs) = length bs div 4"
  by (induction bs rule: words_of.induct) auto

text \<open>Segments between the blocks \<open>lo\<close> and \<open>hi\<close> fit a mirror that starts at byte \<open>ms\<close>.\<close>

lemma mirror_write_seg:
  assumes "seg_ok lo hi sg" and "ms \<le> 4 * lo" and "4 * hi \<le> ms + length m"
  shows "mirror_write m ms (fst sg) (fst sg + length (snd sg) div 4) (snd sg) = Ok (write_at m (4 * fst sg - ms) (snd sg))"
    and "length (write_at m (4 * fst sg - ms) (snd sg)) = length m"
proof -
  have b: "4 * fst sg - ms + length (snd sg) \<le> length m" "ms \<le> 4 * fst sg" "4 * (length (snd sg) div 4) = length (snd sg)"
    using assms by (auto simp: seg_ok_def)
  then show "mirror_write m ms (fst sg) (fst sg + length (snd sg) div 4) (snd sg) = Ok (write_at m (4 * fst sg - ms) (snd sg))"
    by (simp add: mirror_write_def usize_sub_def slice_res_def mult.commute)
  show "length (write_at m (4 * fst sg - ms) (snd sg)) = length m" using b(1) by simp
qed

lemma apply_loop_prefix:
  assumes "diff = p @ enc_segs sgs @ q" and "length p + length (enc_segs sgs) \<le> 4 * nb"
    and "\<forall>sg\<in>set sgs. seg_ok lo hi sg" and "ms \<le> 4 * lo" and "4 * hi \<le> ms + length mirror"
    and "4 * hi \<le> length fd" and "hi \<le> be" and "hi \<le> U32_MAX"
  shows "apply_loop diff nb be ms (length p) fd mirror =
    apply_loop diff nb be ms (length p + length (enc_segs sgs)) (patch 0 sgs fd) (patch ms sgs mirror)"
  using assms
proof (induction sgs arbitrary: p fd mirror)
  case (Cons sg sgs)
  let ?n = "length (snd sg) div 4"
  have ok: "seg_ok lo hi sg" using Cons.prems(3) by simp
  note n = seg_ok_blocks [OF this]
  have "diff = p @ enc_seg sg @ enc_segs sgs @ q" "fst sg + ?n \<le> U32_MAX"
    using Cons.prems(1,8) n(3) by simp_all
  note rd = read_enc [OF this]
  note mw = mirror_write_seg [OF ok Cons.prems(4,5)]
  have fd: "4 * fst sg + length (snd sg) \<le> length fd" using n(1,3) Cons.prems(6) by linarith
  have len: "length (enc_seg sg) = 8 + 4 * ?n" using n(1) by (simp add: length_enc_seg)
  have "apply_loop diff nb be ms (length (p @ enc_seg sg)) (write_at fd (4 * fst sg) (snd sg))
      (write_at mirror (4 * fst sg - ms) (snd sg)) =
    apply_loop diff nb be ms (length (p @ enc_seg sg) + length (enc_segs sgs))
      (patch 0 sgs (write_at fd (4 * fst sg) (snd sg))) (patch ms sgs (write_at mirror (4 * fst sg - ms) (snd sg)))"
    using Cons.prems fd mw(2) by (intro Cons.IH) simp_all
  then show ?case
    using Cons.prems(2,7) n fd rd mw(1) len
    by (subst apply_loop.simps) (simp add: Let_def words_of_bytes add.assoc mult.commute)
qed simp

lemma apply_loop_enc:
  assumes "diff = p @ enc_segs sgs @ q" and "4 * nb = length p + length (enc_segs sgs)"
    and "\<forall>sg\<in>set sgs. seg_ok lo hi sg" and "ms \<le> 4 * lo" and "4 * hi \<le> ms + length mirror"
    and "4 * hi \<le> length fd" and "hi \<le> be" and "hi \<le> U32_MAX"
  shows "apply_loop diff nb be ms (length p) fd mirror = Ok (patch 0 sgs fd, patch ms sgs mirror)"
  using apply_loop_prefix [OF assms(1) _ assms(3-8)] assms(2) by (simp add: apply_loop.simps [of _ _ _ _ "length p + _"])

lemma apply_one_loop_prefix:
  assumes "diff = p @ enc_segs sgs @ q" and "length p + length (enc_segs sgs) \<le> 4 * nb"
    and "\<forall>sg\<in>set sgs. seg_ok lo hi sg" and "ms \<le> 4 * lo" and "4 * hi \<le> ms + length mirror"
    and "hi \<le> be" and "hi \<le> U32_MAX"
  shows "apply_one_loop diff nb be ms (length p) mirror =
    apply_one_loop diff nb be ms (length p + length (enc_segs sgs)) (patch ms sgs mirror)"
  using assms
proof (induction sgs arbitrary: p mirror)
  case (Cons sg sgs)
  let ?n = "length (snd sg) div 4"
  have ok: "seg_ok lo hi sg" using Cons.prems(3) by simp
  note n = seg_ok_blocks [OF this]
  have "diff = p @ enc_seg sg @ enc_segs sgs @ q" "fst sg + ?n \<le> U32_MAX"
    using Cons.prems(1,7) n(3) by simp_all
  note rd = read_enc [OF this]
  note mw = mirror_write_seg [OF ok Cons.prems(4,5)]
  have len: "length (enc_seg sg) = 8 + 4 * ?n" using n(1) by (simp add: length_enc_seg)
  have "apply_one_loop diff nb be ms (length (p @ enc_seg sg)) (write_at mirror (4 * fst sg - ms) (snd sg)) =
      apply_one_loop diff nb be ms (length (p @ enc_seg sg) + length (enc_segs sgs)) (patch ms sgs (write_at mirror (4 * fst sg - ms) (snd sg)))"
    using Cons.prems mw(2) by (intro Cons.IH) simp_all
  then show ?case
    using Cons.prems(2,6) n rd mw(1) len
    by (subst apply_one_loop.simps) (simp add: Let_def add.assoc mult.commute)
qed simp

lemma apply_one_loop_enc:
  assumes "diff = p @ enc_segs sgs @ q" and "4 * nb = length p + length (enc_segs sgs)"
    and "\<forall>sg\<in>set sgs. seg_ok lo hi sg" and "ms \<le> 4 * lo" and "4 * hi \<le> ms + length mirror"
    and "hi \<le> be" and "hi \<le> U32_MAX"
  shows "apply_one_loop diff nb be ms (length p) mirror = Ok (patch ms sgs mirror)"
  using apply_one_loop_prefix [OF assms(1) _ assms(3-7)] assms(2) by (simp add: apply_one_loop.simps [of _ _ _ _ "length p + _"])

lemma length_enc_segs_dvd: "\<forall>sg\<in>set sgs. seg_ok lo hi sg \<Longrightarrow> 4 dvd length (enc_segs sgs)"
  by (induction sgs) (auto simp: length_enc_seg seg_ok_def)

lemma patch_embed:
  assumes "\<forall>sg\<in>set sgs. seg_ok lo hi sg" and "length a \<le> 4 * lo" and "4 * hi \<le> length a + length m"
  shows "patch 0 sgs (a @ m @ b) = a @ patch (length a) sgs m @ b \<and> length (patch (length a) sgs m) = length m"
  using assms
proof (induction sgs arbitrary: m)
  case (Cons sg sgs)
  let ?m = "write_at m (4 * fst sg - length a) (snd sg)"
  have "4 * (length (snd sg) div 4) = length (snd sg)" "length a \<le> 4 * fst sg"
    "4 * fst sg + length (snd sg) \<le> length a + length m"
    using Cons.prems by (auto simp: seg_ok_def)
  then have l: "length ?m = length m" "write_at (a @ m @ b) (4 * fst sg) (snd sg) = a @ ?m @ b"
    by (simp_all add: write_at_def)
  with Cons.IH [of ?m] Cons.prems show ?case by simp
qed simp

section \<open>The diff of a list of intervals\<close>

definition region_update :: "nat \<Rightarrow> bytes \<Rightarrow> (nat \<times> nat) list \<Rightarrow> bytes \<Rightarrow> bytes" where
  "region_update base fd = fold (\<lambda>iv r. write_at r (fst iv - base) (sub_slice fd (fst iv) (snd iv)))"

lemma region_update_simps [simp]:
  "region_update base fd [] r = r"
  "region_update base fd (iv # ivs) r =
     region_update base fd ivs (write_at r (fst iv - base) (sub_slice fd (fst iv) (snd iv)))"
  by (simp_all add: region_update_def)

definition interval_ok :: "nat \<Rightarrow> bytes \<Rightarrow> bytes \<Rightarrow> nat \<times> nat \<Rightarrow> bool" where
  "interval_ok base fd r iv \<longleftrightarrow> 64 dvd fst iv \<and> 64 dvd snd iv \<and> base \<le> fst iv \<and> fst iv < snd iv \<and>
     snd iv \<le> base + length r \<and> snd iv \<le> length fd"

lemma words_of_prefix: "concat (map u32_to_le_bytes (words_of bs)) = take (4 * (length bs div 4)) bs"
proof (induction bs rule: words_of.induct)
  case (1 a b c d bs)
  have "4 * (length (a # b # c # d # bs) div 4) = Suc (Suc (Suc (Suc (4 * (length bs div 4)))))"
    by (simp only: length_Cons) presburger
  with 1 show ?case by (simp only: words_of.simps take_Suc_Cons) (simp add: u32_to_from_le_bytes)
qed simp_all

lemma get_u32_slice:
  assumes "4 * b \<le> length fd" and "a \<le> b"
  shows "slice_res (get_u32 fd) a b = Ok (sub_slice (get_u32 fd) a b)"
    and "concat (map u32_to_le_bytes (sub_slice (get_u32 fd) a b)) = sub_slice fd (4 * a) (4 * b)"
    and "length (sub_slice (get_u32 fd) a b) = b - a"
proof -
  have l: "b \<le> length (get_u32 fd)" using assms(1) by (simp add: get_u32_def length_words_of)
  show "slice_res (get_u32 fd) a b = Ok (sub_slice (get_u32 fd) a b)" using l assms(2) by (simp add: slice_res_def)
  show "length (sub_slice (get_u32 fd) a b) = b - a" using l by (simp add: sub_slice_def)
  have "b \<le> length fd div 4" using assms(1) by linarith
  then show "concat (map u32_to_le_bytes (sub_slice (get_u32 fd) a b)) = sub_slice fd (4 * a) (4 * b)"
    by (simp add: sub_slice_drop_take get_u32_def take_words_bytes drop_words_bytes words_of_prefix min_absorb1)
qed

text \<open>One interval: its segments turn the reference there into the contents of the file.\<close>

lemma construct_interval:
  assumes "interval_ok base fd r iv" and "4 dvd base" and "snd iv \<le> U32_MAX" and "snd iv - fst iv + 8 \<le> U32_MAX"
    and "snd iv - fst iv + 8 \<le> length diff"
  obtains sgs d' it where
    "construct_diff_segment_two_iter shm_next shm_writeback diff
       \<lparr>s_target = sub_slice (get_u32 fd) (fst iv div 4) (snd iv div 4),
        s_reference = sub_slice r (fst iv - base) (snd iv - base), s_pos = 0\<rparr> (fst iv) 16 =
       Some (Ok (length (enc_segs sgs), d', it))"
    and "length d' = length diff" and "take (length (enc_segs sgs)) d' = enc_segs sgs"
    and "s_reference it = sub_slice fd (fst iv) (snd iv)"
    and "patch base sgs r = write_at r (fst iv - base) (sub_slice fd (fst iv) (snd iv))"
    and "\<forall>sg\<in>set sgs. seg_ok (base div 4) ((base + length r) div 4) sg"
    and "length (enc_segs sgs) \<le> snd iv - fst iv + 8"
proof -
  obtain s e where iv: "iv = (64 * s, 64 * e)" using assms(1) by (cases iv) (auto simp: interval_ok_def elim!: dvdE)
  have b: "base \<le> 64 * s" "s < e" "64 * e \<le> base + length r" "64 * e \<le> length fd"
    using assms(1) by (simp_all add: interval_ok_def iv)
  let ?ws = "sub_slice (get_u32 fd) (16 * s) (16 * e)" and ?r = "sub_slice r (64 * s - base) (64 * e - base)"
  let ?t = "sub_slice fd (64 * s) (64 * e)"
  let ?it = "\<lparr>s_target = ?ws, s_reference = ?r, s_pos = 0\<rparr>"
  note ws = get_u32_slice [of "16 * e" fd "16 * s"]
  have l: "length ?r = 64 * (e - s)" "length ?t = 64 * (e - s)" "length ?ws = 16 * (e - s)"
    using b ws by simp_all
  let ?ls = "lines_from (e - s) ?t ?r" and ?sgs = "segs 16 (16 * s) 0 (lines_from (e - s) ?t ?r)"
  have i: "shm_inv ?it" "shm_rest ?it = ?ls"
    using l ws b by (simp_all add: shm_inv_def shm_rest_def shm_bytes_def)
  note ls = lines_from [of "e - s" ?t ?r, unfolded l, OF order_refl order_refl]
  note bd = segs_bounds [OF ls(2), of 16 "16 * s" 0, unfolded ls(1), simplified]
  have "64 * (e - s) + 8 \<le> length diff" "16 * s + 16 * (e - s) \<le> U32_MAX" "64 * (e - s) + 8 \<le> U32_MAX"
    using b assms(3-5) by (simp_all add: iv)
  with shm_lines.construct_iter_spec [OF i, of 16 "64 * s" diff] ls obtain d' it' where
    c: "construct_diff_segment_two_iter shm_next shm_writeback diff ?it (64 * s) 16 = Some (Ok (length (enc_segs ?sgs), d', it'))"
    "length d' = length diff" "take (length (enc_segs ?sgs)) d' = enc_segs ?sgs" "shm_inv it'" "shm_rest it' = []"
    "shm_passed it' = ?t" using l(2) by (auto simp: shm_passed_def)
  have ref: "s_reference it' = ?t"
  proof -
    have "s_pos it' = length (s_target it')" using c(4,5)
      by (cases "(length (s_target it') - s_pos it') div 16") (auto simp: shm_inv_def shm_rest_def elim!: dvdE)
    with c(4,6) show ?thesis by (simp add: shm_inv_def shm_passed_def)
  qed
  have split: "r = take (64 * s - base) r @ ?r @ drop (64 * e - base) r"
    using b by (simp add: sub_slice_def drop_drop flip: append_assoc take_add)
  have "patch base ?sgs (take (64 * s - base) r @ concat (map snd ?ls) @ drop (64 * e - base) r) =
      take (64 * s - base) r @ concat (map fst ?ls) @ drop (64 * e - base) r"
    using b by (intro patch_segs ls(2)) simp_all
  then have p: "patch base ?sgs r = write_at r (64 * s - base) ?t"
  proof -
    have "64 * s - base + length ?t = 64 * e - base" using l(2) b(1,2) by linarith
    with \<open>patch base ?sgs _ = _\<close> split ls(3,4) l show ?thesis by (simp add: write_at_def)
  qed
  have sgs: "\<forall>sg\<in>set ?sgs. seg_ok (base div 4) ((base + length r) div 4) sg"
  proof
    fix sg assume "sg \<in> set ?sgs"
    with bd have "seg_ok (16 * s) (16 * s + 16 * (e - s)) sg" by blast
    then show "seg_ok (base div 4) ((base + length r) div 4) sg"
      by (rule seg_ok_mono) (use b in linarith)+
  qed
  have le: "length (enc_segs ?sgs) \<le> snd iv - fst iv + 8" using bd by (simp add: iv diff_mult_distrib2)
  show thesis
    using c(1-3) ref p sgs le by (intro that [of ?sgs d' it']) (simp_all add: iv)
qed

definition diff_room :: "(nat \<times> nat) list \<Rightarrow> nat" where
  "diff_room ivs = sum_list (map (\<lambda>iv. snd iv - fst iv + 8) ivs)"

lemma construct_diff_loop_spec:
  assumes "\<forall>iv\<in>set ivs. interval_ok base fd r iv" and "4 dvd base" and "base + length r + 8 \<le> U32_MAX"
    and "ol + diff_room ivs \<le> length diff"
  shows "\<exists>sgs d'. construct_diff_loop diff fd r base ol ivs =
      Some (Ok (ol + length (enc_segs sgs), d', region_update base fd ivs r)) \<and>
    length d' = length diff \<and> take (ol + length (enc_segs sgs)) d' = take ol diff @ enc_segs sgs \<and>
    patch base sgs r = region_update base fd ivs r \<and>
    (\<forall>sg\<in>set sgs. seg_ok (base div 4) ((base + length r) div 4) sg) \<and>
    length (enc_segs sgs) \<le> diff_room ivs"
  using assms
proof (induction ivs arbitrary: r ol diff)
  case Nil
  then show ?case by (intro exI [of _ "[]"] exI [of _ diff]) simp
next
  case (Cons iv ivs)
  let ?a = "fst iv - base" and ?b = "snd iv - base"
  have ok: "interval_ok base fd r iv" using Cons.prems(1) by simp
  then have b: "base \<le> fst iv" "fst iv < snd iv" "snd iv \<le> base + length r" "snd iv \<le> length fd"
    "fst iv mod 64 = 0" "snd iv mod 64 = 0" "4 * (fst iv div 4) = fst iv" "4 * (snd iv div 4) = snd iv"
    by (auto simp: interval_ok_def)
  have "snd iv \<le> U32_MAX" "snd iv - fst iv + 8 \<le> U32_MAX" "snd iv - fst iv + 8 \<le> length (drop ol diff)"
    using Cons.prems(3,4) b by (simp_all add: diff_room_def)
  from construct_interval [OF ok Cons.prems(2) this] obtain sgs d' it where
    c: "construct_diff_segment_two_iter shm_next shm_writeback (drop ol diff)
         \<lparr>s_target = sub_slice (get_u32 fd) (fst iv div 4) (snd iv div 4), s_reference = sub_slice r ?a ?b, s_pos = 0\<rparr>
         (fst iv) 16 = Some (Ok (length (enc_segs sgs), d', it))"
    "length d' = length (drop ol diff)" "take (length (enc_segs sgs)) d' = enc_segs sgs"
    "s_reference it = sub_slice fd (fst iv) (snd iv)"
    "patch base sgs r = write_at r ?a (sub_slice fd (fst iv) (snd iv))"
    "\<forall>sg\<in>set sgs. seg_ok (base div 4) ((base + length r) div 4) sg"
    "length (enc_segs sgs) \<le> snd iv - fst iv + 8" by blast
  let ?r = "write_at r ?a (sub_slice fd (fst iv) (snd iv))" and ?d = "take ol diff @ d'"
  have ws: "slice_res (get_u32 fd) (fst iv div 4) (snd iv div 4) = Ok (sub_slice (get_u32 fd) (fst iv div 4) (snd iv div 4))"
    "length (sub_slice (get_u32 fd) (fst iv div 4) (snd iv div 4)) = snd iv div 4 - fst iv div 4"
    using get_u32_slice [of "snd iv div 4" fd "fst iv div 4"] b by simp_all
  have lr: "length ?r = length r" using b by simp
  have "ShmIterator_new (sub_slice (get_u32 fd) (fst iv div 4) (snd iv div 4)) (sub_slice r ?a ?b) =
      Ok \<lparr>s_target = sub_slice (get_u32 fd) (fst iv div 4) (snd iv div 4), s_reference = sub_slice r ?a ?b, s_pos = 0\<rparr>"
    using b ws ok by (simp add: ShmIterator_new_def) (auto simp: interval_ok_def elim!: dvdE)
  moreover have "ol \<le> length diff" "slice_res r ?a ?b = Ok (sub_slice r ?a ?b)"
    using Cons.prems(4) b(1-3) by (simp_all add: diff_room_def)
  ultimately have eq: "construct_diff_loop diff fd r base ol (iv # ivs) =
      construct_diff_loop ?d fd ?r base (ol + length (enc_segs sgs)) ivs"
    using b ws(1) c(1,4) by (simp add: Let_def)
  have len: "length ?d = length diff" using c(2) Cons.prems(4) by (simp add: diff_room_def)
  have "\<forall>iv\<in>set ivs. interval_ok base fd ?r iv" using Cons.prems(1) lr by (auto simp: interval_ok_def)
  with Cons.IH [of ?r "ol + length (enc_segs sgs)" ?d] Cons.prems(2-4) len lr c(7) obtain sgs' d'' where
    i: "construct_diff_loop ?d fd ?r base (ol + length (enc_segs sgs)) ivs =
          Some (Ok (ol + length (enc_segs sgs) + length (enc_segs sgs'), d'', region_update base fd ivs ?r))"
      "length d'' = length ?d"
      "take (ol + length (enc_segs sgs) + length (enc_segs sgs')) d'' =
         take (ol + length (enc_segs sgs)) ?d @ enc_segs sgs'"
      "patch base sgs' ?r = region_update base fd ivs ?r"
      "\<forall>sg\<in>set sgs'. seg_ok (base div 4) ((base + length ?r) div 4) sg"
      "length (enc_segs sgs') \<le> diff_room ivs"
    by (auto simp: diff_room_def)
  have "take (ol + length (enc_segs sgs)) ?d = take ol diff @ enc_segs sgs"
    using c(3) Cons.prems(4) by (simp add: diff_room_def min_absorb2)
  moreover have "length (enc_segs (sgs @ sgs')) \<le> diff_room (iv # ivs)" using i(6) c(7) by (simp add: diff_room_def)
  ultimately show ?case using eq i(1-5) c(5,6) len lr
    by (intro exI [of _ "sgs @ sgs'"] exI [of _ d'']) (auto simp: add.assoc)
qed

lemma length_region_update:
  "\<forall>iv\<in>set ivs. interval_ok base fd r iv \<Longrightarrow> length (region_update base fd ivs r) = length r"
proof (induction ivs arbitrary: r)
  case (Cons iv ivs)
  have "interval_ok base fd r iv" using Cons.prems by simp
  then have "length (write_at r (fst iv - base) (sub_slice fd (fst iv) (snd iv))) = length r"
    by (auto simp: interval_ok_def)
  with Cons show ?case by (simp add: interval_ok_def)
qed simp

lemma nth_region_update:
  assumes "\<forall>iv\<in>set ivs. interval_ok base fd r iv" and "i < length r"
  shows "region_update base fd ivs r ! i =
    (if \<exists>iv\<in>set ivs. fst iv \<le> base + i \<and> base + i < snd iv then fd ! (base + i) else r ! i)"
  using assms
proof (induction ivs arbitrary: r)
  case (Cons iv ivs)
  let ?r = "write_at r (fst iv - base) (sub_slice fd (fst iv) (snd iv))"
  have b: "base \<le> fst iv" "fst iv < snd iv" "snd iv \<le> base + length r" "snd iv \<le> length fd"
    using Cons.prems(1) by (auto simp: interval_ok_def)
  then have l: "length ?r = length r" by simp
  have "?r ! i = (if fst iv \<le> base + i \<and> base + i < snd iv then fd ! (base + i) else r ! i)"
    using b Cons.prems(2) by (auto simp: nth_write_at nth_slice add.commute)
  moreover have "\<forall>iv\<in>set ivs. interval_ok base fd ?r iv" using Cons.prems(1) l by (simp add: interval_ok_def)
  ultimately show ?case using Cons.IH [of ?r] Cons.prems(2) l by auto
qed simp

lemma region_update_covers:
  assumes "\<forall>iv\<in>set ivs. interval_ok base fd r iv" and "base + length r \<le> length fd"
    and "\<forall>i<length r. r ! i = fd ! (base + i) \<or> (\<exists>iv\<in>set ivs. fst iv \<le> base + i \<and> base + i < snd iv)"
  shows "region_update base fd ivs r = sub_slice fd base (base + length r)"
  using assms by (intro nth_equalityI) (auto simp: length_region_update nth_region_update nth_slice)

lemma apply_diff_enc:
  assumes "\<forall>sg\<in>set sgs. seg_ok (length a div 4) ((length a + length m) div 4) sg" and "4 dvd length a"
    and "length a + length m \<le> U32_MAX" and "length t \<le> length m" and "t = [] \<or> b = []"
  shows "apply_diff (enc_segs sgs @ t) (length t) (a @ m @ b) (length a) m =
    (let m' = write_at (patch (length a) sgs m) (length m - length t) t in Ok (a @ m' @ b, m'))"
proof -
  let ?lo = "length a div 4" and ?hi = "(length a + length m) div 4"
  have dv: "4 dvd length (enc_segs sgs)" using assms(1) by (rule length_enc_segs_dvd)
  have hi: "4 * ?hi \<le> length a + length m" by simp
  have "apply_loop (enc_segs sgs @ t) (length (enc_segs sgs) div 4) (length (get_u32 (a @ m @ b))) (length a) 0 (a @ m @ b) m =
      Ok (patch 0 sgs (a @ m @ b), patch (length a) sgs m)"
    using apply_loop_enc [of "enc_segs sgs @ t" "[]" sgs t "length (enc_segs sgs) div 4" ?lo ?hi "length a" m "a @ m @ b"]
      assms(1,2,3) dv by (simp add: get_u32_def length_words_of div_le_mono)
  moreover have p: "patch 0 sgs (a @ m @ b) = a @ patch (length a) sgs m @ b" "length (patch (length a) sgs m) = length m"
    using patch_embed [of sgs ?lo ?hi a m b] assms(1,2) hi by simp_all
  moreover have "4 * (length (enc_segs sgs) div 4) = length (enc_segs sgs)" using dv by simp
  moreover have "sub_slice (enc_segs sgs @ t) (length (enc_segs sgs)) (length (enc_segs sgs) + length t) = t"
    by (simp add: sub_slice_def)
  ultimately show ?thesis
    using assms(4,5) dv
    by (cases "t = []") (auto simp: apply_diff_def usize_sub_def slice_res_def Let_def write_at_def mult.commute)
qed

section \<open>Properties\<close>

text \<open>
  C3: a diff brings the copy of a buffer on the other side up to date. Let \<open>r\<close> be the last known
  contents of the region of the file \<open>fd\<close> that starts at \<open>base\<close>, and let the other side have a
  file with these contents in that region and the same mirror. If the intervals are aligned, lie
  in the region and contain every byte that changed, and the output buffer has room for them
  and 8 bytes per interval, then \<open>construct_diff\<close> returns, its reference becomes the contents of
  the file, and \<open>apply_diff\<close> of what it wrote succeeds on the other side and makes the region
  of the file and the mirror there equal to the contents of the file here, leaving the rest of
  that file alone.
\<close>

theorem diff_replicates:
  assumes "\<forall>iv\<in>set ivs. interval_ok base fd r iv" and "4 dvd base" and "base + length r + 8 \<le> U32_MAX"
    and "diff_room ivs \<le> length diff" and "base + length r \<le> length fd" and "length a = base"
    and "\<forall>i<length r. r ! i = fd ! (base + i) \<or> (\<exists>iv\<in>set ivs. fst iv \<le> base + i \<and> base + i < snd iv)"
  shows "\<exists>n d. construct_diff diff fd ivs r base = Some (Ok (n, d, sub_slice fd base (base + length r))) \<and>
    apply_diff (take n d) 0 (a @ r @ b) base r =
      Ok (a @ sub_slice fd base (base + length r) @ b, sub_slice fd base (base + length r))"
proof -
  let ?r = "region_update base fd ivs r"
  from construct_diff_loop_spec [OF assms(1-3), of 0 diff] assms(4) obtain sgs d where
    c: "construct_diff diff fd ivs r base = Some (Ok (length (enc_segs sgs), d, ?r))"
      "take (length (enc_segs sgs)) d = enc_segs sgs" "patch base sgs r = ?r"
      "\<forall>sg\<in>set sgs. seg_ok (base div 4) ((base + length r) div 4) sg"
    by (auto simp: construct_diff_def)
  from apply_diff_enc [of sgs a r "[]" b] c(3,4) assms(2,3,6)
  have "apply_diff (enc_segs sgs) 0 (a @ r @ b) base r = Ok (a @ ?r @ b, ?r)"
    using length_region_update [OF assms(1)] by (simp add: write_at_def Let_def)
  with c(1,2) region_update_covers [OF assms(1,5,7)] show ?thesis by auto
qed

theorem diff_replicates_witness:
  "\<exists>n d. construct_diff (replicate 72 0) (replicate 64 7) [(0, 64)] (replicate 64 0) 0 =
      Some (Ok (n, d, sub_slice (replicate 64 7) 0 64)) \<and>
    apply_diff (take n d) 0 (replicate 64 0) 0 (replicate 64 0) =
      Ok (sub_slice (replicate 64 7) 0 64, sub_slice (replicate 64 7) 0 64)"
  using diff_replicates [of "[(0, 64)]" 0 "replicate 64 7" "replicate 64 0" "replicate 72 0" "[]" "[]"]
  by (simp add: interval_ok_def diff_room_def U32_MAX_def)

text \<open>
  C36: the in-memory variant: \<open>construct_diff_segment_two\<close> makes the reference equal to the target
  and \<open>apply_diff_one\<close> of what it wrote, followed by any trailing bytes, turns a mirror that
  holds the old reference into the target, the trailing bytes in place.
\<close>

theorem diff_one_replicates:
  assumes "length reference = length target" and "64 dvd length target" and "16 \<le> gap" and "4 dvd refbase"
    and "length target + 8 \<le> length diff" and "refbase + length target + 8 \<le> U32_MAX"
    and "length t \<le> length rest"
  shows "\<exists>n d. construct_diff_segment_two diff target reference refbase gap = Some (Ok (n, d, target)) \<and>
    n \<le> length target + 8 \<and>
    apply_diff_one (take n d @ t) (length t) refbase (reference @ rest) =
      Ok (write_at (target @ rest) (length target + length rest - length t) t)"
proof -
  let ?ls = "lines_from (length target div 64) target reference"
  let ?sgs = "segs gap (refbase div 4) 0 ?ls" and ?be = "refbase + length (reference @ rest)"
  let ?hi = "refbase div 4 + 16 * (length target div 64)"
  from construct_local_spec [OF assms(1-3), of refbase diff] assms(4-6) obtain d where
    c: "construct_diff_segment_two diff target reference refbase gap = Some (Ok (length (enc_segs ?sgs), d, target))"
      "take (length (enc_segs ?sgs)) d = enc_segs ?sgs" by auto
  have l: "length ?ls = length target div 64" "lines_ok ?ls" "concat (map fst ?ls) = target" "concat (map snd ?ls) = reference"
    using lines_from [of "length target div 64" target reference] assms(1,2) by simp_all
  note bd = segs_bounds [OF l(2) assms(3), of "refbase div 4" 0, unfolded l(1), simplified]
  have dv: "4 dvd length (enc_segs ?sgs)" using bd length_enc_segs_dvd by blast
  have nb: "4 * (length (enc_segs ?sgs) div 4) = length (enc_segs ?sgs)" using dv by simp
  have hi: "4 * ?hi = refbase + length target" using assms(2,4) by (auto elim!: dvdE)
  have "apply_one_loop (enc_segs ?sgs @ t) (length (enc_segs ?sgs) div 4) ?be refbase 0 (reference @ rest) =
      Ok (patch refbase ?sgs (reference @ rest))"
    using apply_one_loop_enc [of "enc_segs ?sgs @ t" "[]" ?sgs t "length (enc_segs ?sgs) div 4" "refbase div 4" ?hi refbase
      "reference @ rest" ?be] bd nb hi assms(1,4,6) by simp
  moreover have "patch refbase ?sgs (reference @ rest) = target @ rest"
    using patch_segs [OF l(2) assms(3), of refbase "refbase div 4" "[]" 0 rest] l(3,4) assms(4) by simp
  moreover have "sub_slice (enc_segs ?sgs @ t) (length (enc_segs ?sgs)) (length (enc_segs ?sgs) + length t) = t"
    by (simp add: sub_slice_def)
  ultimately have "apply_diff_one (enc_segs ?sgs @ t) (length t) refbase (reference @ rest) =
      Ok (write_at (target @ rest) (length target + length rest - length t) t)"
    using assms(1,7) dv nb
    by (cases "t = []") (auto simp: apply_diff_one_def usize_sub_def slice_res_def Let_def write_at_def mult.commute)
  moreover have "64 * (length target div 64) = length target" using assms(2) by simp
  ultimately show ?thesis using c bd by auto
qed

theorem diff_one_replicates_witness:
  "\<exists>n d. construct_diff_segment_two (replicate 72 0) (replicate 64 7) (replicate 64 0) 128 16 =
      Some (Ok (n, d, replicate 64 7)) \<and> n \<le> 72 \<and>
    apply_diff_one (take n d @ [5]) 1 128 (replicate 64 0 @ [9, 9]) =
      Ok (write_at (replicate 64 7 @ [9, 9]) 65 [5])"
  using diff_one_replicates [of "replicate 64 0" "replicate 64 7" 16 128 "replicate 72 0" "[5]" "[9, 9]"]
  by (simp add: U32_MAX_def)

section \<open>The span of a diff\<close>

lemma span_loop_enc:
  assumes "diff = p @ enc_segs sgs @ q" and "4 * nb = length p + length (enc_segs sgs)"
    and "\<forall>sg\<in>set sgs. seg_ok lo hi sg" and "hi \<le> U32_MAX"
  shows "span_loop diff nb (length p) s e =
    Ok (fold (\<lambda>sg x. min x (fst sg)) sgs s, fold (\<lambda>sg x. max x (fst sg + length (snd sg) div 4)) sgs e)"
  using assms
proof (induction sgs arbitrary: p s e)
  case Nil
  then show ?case by (subst span_loop.simps) simp
next
  case (Cons sg sgs)
  let ?n = "length (snd sg) div 4"
  have ok: "seg_ok lo hi sg" using Cons.prems(3) by simp
  note n = seg_ok_blocks [OF this]
  have "diff = p @ enc_seg sg @ enc_segs sgs @ q" "fst sg + ?n \<le> U32_MAX" using Cons.prems(1,4) n(3) by simp_all
  note rd = read_enc [OF this]
  have len: "length (enc_seg sg) = 8 + 4 * ?n" using n(1) by (simp add: length_enc_seg)
  have "span_loop diff nb (length (p @ enc_seg sg)) (min s (fst sg)) (max e (fst sg + ?n)) =
      Ok (fold (\<lambda>sg x. min x (fst sg)) sgs (min s (fst sg)),
        fold (\<lambda>sg x. max x (fst sg + length (snd sg) div 4)) sgs (max e (fst sg + ?n)))"
    using Cons.prems by (intro Cons.IH) simp_all
  then show ?case
    using Cons.prems(2) rd len
    by (subst span_loop.simps) (simp add: usize_sub_def mult.commute add.assoc)
qed

lemma fold_min_le:
  "fold (\<lambda>sg x. min x (f sg)) sgs s \<le> (s :: nat) \<and> (\<forall>sg\<in>set sgs. fold (\<lambda>sg x. min x (f sg)) sgs s \<le> f sg)"
proof (induction sgs arbitrary: s)
  case (Cons sg sgs)
  from Cons [of "min s (f sg)"] show ?case by simp
qed simp

lemma fold_max_ge:
  "s \<le> fold (\<lambda>sg x. max x (f sg)) sgs (s :: nat) \<and> (\<forall>sg\<in>set sgs. f sg \<le> fold (\<lambda>sg x. max x (f sg)) sgs s)"
proof (induction sgs arbitrary: s)
  case (Cons sg sgs)
  from Cons [of "max s (f sg)"] show ?case by simp
qed simp

lemma fold_min_in: "fold (\<lambda>sg x. min x (f sg)) sgs s \<in> insert (s :: nat) (f ` set sgs)"
proof (induction sgs arbitrary: s)
  case (Cons sg sgs)
  from Cons [of "min s (f sg)"] show ?case by (auto simp: min_def split: if_splits)
qed simp

lemma fold_max_in: "fold (\<lambda>sg x. max x (f sg)) sgs s \<in> insert (s :: nat) (f ` set sgs)"
proof (induction sgs arbitrary: s)
  case (Cons sg sgs)
  from Cons [of "max s (f sg)"] show ?case by (auto simp: max_def split: if_splits)
qed simp

lemma compute_diff_span_segs:
  assumes "\<forall>sg\<in>set sgs. seg_ok lo hi sg" and "sgs \<noteq> []" and "4 * hi \<le> buf_len" and "hi \<le> U32_MAX"
  shows "\<exists>s e. compute_diff_span (enc_segs sgs @ t) (length t) buf_len = Ok (4 * s, if t = [] then 4 * e else buf_len) \<and>
    (\<exists>sg\<in>set sgs. fst sg = s) \<and> (\<forall>sg\<in>set sgs. s \<le> fst sg) \<and>
    (\<exists>sg\<in>set sgs. fst sg + length (snd sg) div 4 = e) \<and> (\<forall>sg\<in>set sgs. fst sg + length (snd sg) div 4 \<le> e)"
proof -
  let ?s = "fold (\<lambda>sg x. min x (fst sg)) sgs buf_len"
  let ?e = "fold (\<lambda>sg x. max x (fst sg + length (snd sg) div 4)) sgs 0"
  have dv: "4 dvd length (enc_segs sgs)" using assms(1) by (rule length_enc_segs_dvd)
  obtain sg where sg: "sg \<in> set sgs" using assms(2) by (cases sgs) auto
  have n: "0 < length (snd sg) div 4" "fst sg + length (snd sg) div 4 \<le> hi" using seg_ok_blocks [of lo hi sg] assms(1) sg by simp_all
  have le: "?s \<le> fst s'" "fst s' + length (snd s') div 4 \<le> ?e" if "s' \<in> set sgs" for s'
    using fold_min_le [of fst sgs buf_len] fold_max_ge [of 0 "\<lambda>sg. fst sg + length (snd sg) div 4" sgs] that by blast+
  have "?s < buf_len" "0 < ?e" "?s < ?e" using le [OF sg] n assms(3) by linarith+
  then have at: "?s \<in> fst ` set sgs" "?e \<in> (\<lambda>sg. fst sg + length (snd sg) div 4) ` set sgs"
    using fold_min_in [of fst sgs buf_len] fold_max_in [of "\<lambda>sg. fst sg + length (snd sg) div 4" sgs 0] by auto
  have "0 < length (enc_segs sgs)" using assms(2) by (cases sgs) (auto simp: enc_seg_def)
  then have "length (enc_segs sgs) div 4 \<noteq> 0" using dv by (metis dvd_mult_div_cancel mult_0_right less_irrefl)
  moreover have "span_loop (enc_segs sgs @ t) (length (enc_segs sgs) div 4) 0 buf_len 0 = Ok (?s, ?e)"
    using span_loop_enc [of "enc_segs sgs @ t" "[]" sgs t "length (enc_segs sgs) div 4" lo hi] assms(1,4) dv by simp
  ultimately have "compute_diff_span (enc_segs sgs @ t) (length t) buf_len = Ok (4 * ?s, if t = [] then 4 * ?e else buf_len)"
    using \<open>?s < ?e\<close> dv by (simp add: compute_diff_span_def usize_sub_def mult.commute)
  moreover have "\<exists>sg\<in>set sgs. fst sg = ?s" "\<exists>sg\<in>set sgs. fst sg + length (snd sg) div 4 = ?e"
    using at unfolding image_iff by metis+
  ultimately show ?thesis using le by blast
qed

lemma compute_diff_span_enc:
  assumes "\<forall>sg\<in>set sgs. seg_ok lo hi sg" and "sgs \<noteq> []" and "4 * hi \<le> buf_len" and "hi \<le> U32_MAX"
  shows "\<exists>s e. compute_diff_span (enc_segs sgs @ t) (length t) buf_len = Ok (s, e) \<and> e \<le> buf_len \<and>
    4 dvd s \<and> (t = [] \<longrightarrow> 4 dvd e) \<and>
    (\<forall>sg\<in>set sgs. s \<le> 4 * fst sg \<and> 4 * fst sg + length (snd sg) \<le> e) \<and> (t \<noteq> [] \<longrightarrow> e = buf_len)"
proof -
  from compute_diff_span_segs [OF assms, of t] obtain s e b where
    c: "compute_diff_span (enc_segs sgs @ t) (length t) buf_len = Ok (4 * s, if t = [] then 4 * e else buf_len)"
    and s: "\<forall>sg\<in>set sgs. s \<le> fst sg" "b \<in> set sgs" "fst b + length (snd b) div 4 = e"
      "\<forall>sg\<in>set sgs. fst sg + length (snd sg) div 4 \<le> e" by blast
  have n: "4 * (length (snd sg) div 4) = length (snd sg) \<and> fst sg + length (snd sg) div 4 \<le> hi" if "sg \<in> set sgs" for sg
    using seg_ok_blocks [of lo hi sg] assms(1) that by simp
  have "4 * e \<le> buf_len" using n [OF s(2)] s(3) assms(3) by simp
  moreover have "4 * fst sg + length (snd sg) \<le> 4 * e" if "sg \<in> set sgs" for sg
    using n [OF that] bspec [OF s(4) that] by linarith
  ultimately show ?thesis using c s(1) by fastforce
qed

text \<open>The byte intervals that a diff writes in a buffer: its segments, and its trailing bytes at the end.\<close>

definition written_parts :: "segment list \<Rightarrow> bytes \<Rightarrow> nat \<Rightarrow> (nat \<times> nat) set" where
  "written_parts sgs t buf_len = (\<lambda>sg. (4 * fst sg, 4 * fst sg + length (snd sg))) ` set sgs \<union>
     (if t = [] then {} else {(buf_len - length t, buf_len)})"

text \<open>
  C37: the span of a diff is exact. For a diff made of segments that end before its trailing bytes,
  \<open>compute_diff_span\<close> returns the smallest interval that contains all bytes that the diff writes, the
  segments and the trailing bytes at the end of the buffer, also if it has only one kind of them; and the
  error for an empty diff if it has neither.
\<close>

theorem diff_span_exact:
  assumes "\<forall>sg\<in>set sgs. seg_ok lo hi sg" and "4 * hi + length t \<le> buf_len" and "hi \<le> U32_MAX"
  shows "compute_diff_span (enc_segs sgs @ t) (length t) buf_len =
    (if written_parts sgs t buf_len = {} then fail ''computed diff span on empty diff''
     else Ok (Min (fst ` written_parts sgs t buf_len), Max (snd ` written_parts sgs t buf_len)))"
proof (cases "sgs = []")
  case True
  then show ?thesis using assms(2) by (simp add: compute_diff_span_def usize_sub_def written_parts_def)
next
  case False
  have "4 * hi \<le> buf_len" using assms(2) by simp
  from compute_diff_span_segs [OF assms(1) False this assms(3), of t] obtain s e a b where
    c: "compute_diff_span (enc_segs sgs @ t) (length t) buf_len = Ok (4 * s, if t = [] then 4 * e else buf_len)"
    and s: "a \<in> set sgs" "fst a = s" "\<forall>sg\<in>set sgs. s \<le> fst sg"
    and e: "b \<in> set sgs" "fst b + length (snd b) div 4 = e" "\<forall>sg\<in>set sgs. fst sg + length (snd sg) div 4 \<le> e" by blast
  have n: "4 * (length (snd sg) div 4) = length (snd sg) \<and> 0 < length (snd sg) div 4 \<and> fst sg + length (snd sg) div 4 \<le> hi"
    if "sg \<in> set sgs" for sg using seg_ok_blocks [of lo hi sg] assms(1) that by simp
  have end4: "4 * fst sg + length (snd sg) = 4 * (fst sg + length (snd sg) div 4)" if "sg \<in> set sgs" for sg
    using n [OF that] by simp
  have "4 * s \<le> buf_len - length t" using n [OF s(1)] s(2) assms(2) by linarith
  then have "Min (fst ` written_parts sgs t buf_len) = 4 * s"
    using s by (intro Min_eqI) (auto simp: written_parts_def image_iff split: if_splits)
  moreover have "Max (snd ` written_parts sgs t buf_len) = (if t = [] then 4 * e else buf_len)"
  proof (cases "t = []")
    case True
    then have "snd ` written_parts sgs t buf_len = (\<lambda>sg. 4 * (fst sg + length (snd sg) div 4)) ` set sgs"
      by (simp add: written_parts_def image_image end4 cong: image_cong)
    moreover have "Max ((\<lambda>sg. 4 * (fst sg + length (snd sg) div 4)) ` set sgs) = 4 * e"
      using e(3) by (intro Max_eqI) (auto simp: image_iff e(2) [symmetric] intro!: bexI [OF _ e(1)])
    ultimately show ?thesis using True by simp
  next
    case False
    have "4 * fst sg + length (snd sg) \<le> buf_len" if "sg \<in> set sgs" for sg
    proof -
      have "4 * (fst sg + length (snd sg) div 4) \<le> 4 * hi" using n [OF that] by simp
      then show ?thesis using end4 [OF that] assms(2) by simp
    qed
    then show ?thesis using False by (intro Max_eqI) (auto simp: written_parts_def image_iff)
  qed
  moreover have "written_parts sgs t buf_len \<noteq> {}" using s(1) by (auto simp: written_parts_def)
  ultimately show ?thesis using c by simp
qed

theorem diff_span_exact_witness:
  "compute_diff_span (enc_segs [(4, replicate 4 0), (2, replicate 8 0)] @ [1, 2]) (length [1, 2 :: u8]) 66 = Ok (8, 66)"
  using diff_span_exact [of "[(4, replicate 4 0), (2, replicate 8 0)]" 0 16 "[1, 2]" 66]
  by (simp add: seg_ok_def U32_MAX_def written_parts_def)

section \<open>Truncated diffs\<close>



end
