(* ===== verification/Mirror.thy ===== *)
theory Mirror
  imports Util
begin

text \<open>
  The mirror of a buffer, \<open>src/mirror.rs\<close>: a byte vector of which several threads may borrow
  disjoint ranges for writing. The mutex makes each operation atomic, so a run of a
  program is a sequence of operations; the state of a run has the mirror and the ranges that
  are currently borrowed. Whether the kernel grants memory (\<open>mmap\<close>, \<open>mremap\<close>, the allocator)
  is an argument of the operations that ask for it.
\<close>

section \<open>Operations\<close>

datatype MirrorBacking = Alloc (backing_bytes: bytes) | Mmap (backing_bytes: bytes)

record MirrorState =
  backing :: MirrorBacking
  region_size :: nat
  ranges :: "(nat \<times> nat) list"

record MirrorRange =
  span :: "nat \<times> nat"

definition nonempty_range_overlap :: "nat \<times> nat \<Rightarrow> nat \<times> nat \<Rightarrow> bool" where
  "nonempty_range_overlap a b \<longleftrightarrow> fst b < snd a \<and> fst a < snd b"

definition AlignedArray_new :: "bool \<Rightarrow> nat \<Rightarrow> bytes res" where
  "AlignedArray_new granted sz =
     (if sz = 0 then Ok []
      else
        rbind (assert_that (next_multiple_of sz 64 \<le> ISIZE_MAX)) (\<lambda>_.
        rbind (assert_that granted) (\<lambda>_. Ok (replicate sz 0))))"

definition do_mmap :: "bool \<Rightarrow> nat \<Rightarrow> bytes res" where
  "do_mmap granted sz = (if granted then Ok (replicate sz 0) else fail ''Failed to mmap'')"

definition do_mremap :: "bool \<Rightarrow> bytes \<Rightarrow> nat \<Rightarrow> nat \<Rightarrow> bytes res" where
  "do_mremap granted src old_size new_size =
     (if granted then Ok (take old_size src @ replicate (new_size - old_size) 0) else fail ''Failed to remap'')"

definition Mirror_new :: "bool \<Rightarrow> nat \<Rightarrow> bool \<Rightarrow> MirrorState res" where
  "Mirror_new granted sz mmapped =
     (if sz > ISIZE_MAX then fail ''Creating mirror too large''
      else if mmapped then
        rbind (if sz > 0 then do_mmap granted sz else Ok []) (\<lambda>m.
          Ok \<lparr>backing = Mmap m, region_size = sz, ranges = []\<rparr>)
      else
        rbind (AlignedArray_new granted sz) (\<lambda>a. Ok \<lparr>backing = Alloc a, region_size = sz, ranges = []\<rparr>))"

definition get_mut_range :: "MirrorState \<Rightarrow> nat \<times> nat \<Rightarrow> (MirrorRange option \<times> MirrorState) res" where
  "get_mut_range st x =
     (if snd x \<le> fst x then Ok (None, st)
      else if \<exists>sp\<in>set (ranges st). nonempty_range_overlap sp x then Ok (None, st)
      else
        let st = st\<lparr>ranges := List.insert x (ranges st)\<rparr> in
        if snd x > region_size st then Ok (None, st)
        else
          let len = snd x - fst x in
          rbind (assert_that (fst x \<le> ISIZE_MAX)) (\<lambda>_.
            case backing st of
              Mmap p \<Rightarrow> Ok (Some \<lparr>span = x\<rparr>, st)
            | Alloc v \<Rightarrow>
                rbind (assert_that (saturating_add (fst x) len \<le> length v)) (\<lambda>_. Ok (Some \<lparr>span = x\<rparr>, st))))"

text \<open>Dropping a \<open>MirrorRange\<close>.\<close>

definition drop_range :: "MirrorState \<Rightarrow> MirrorRange \<Rightarrow> MirrorState" where
  "drop_range st r = st\<lparr>ranges := removeAll (span r) (ranges st)\<rparr>"

definition extend :: "bool \<Rightarrow> MirrorState \<Rightarrow> nat \<Rightarrow> MirrorState res" where
  "extend granted st new_size =
     (if new_size > ISIZE_MAX then fail ''Extending mirror too large''
      else
        let old_size = region_size st in
        rbind (assert_that (ranges st = [])) (\<lambda>_.
        rbind (assert_that (old_size \<le> new_size)) (\<lambda>_.
          if new_size = old_size then Ok st
          else
            case backing st of
              Mmap p \<Rightarrow>
                rbind (if old_size = 0 then do_mmap granted new_size else do_mremap granted p old_size new_size) (\<lambda>p.
                  Ok (st\<lparr>backing := Mmap p, region_size := new_size\<rparr>))
            | Alloc v \<Rightarrow>
                rbind (AlignedArray_new granted new_size) (\<lambda>new.
                rbind (write_at_res new 0 v) (\<lambda>new.
                  Ok (st\<lparr>backing := Alloc new, region_size := new_size\<rparr>))))))"

definition mirror_len :: "MirrorState \<Rightarrow> nat" where
  "mirror_len st = region_size st"

text \<open>
  The slice \<open>data\<close> of a range: the bytes of its span. It is made from a raw pointer, so an
  access outside the allocation is undefined behaviour.
\<close>

definition backing_put :: "MirrorState \<Rightarrow> bytes \<Rightarrow> MirrorState" where
  "backing_put st bs =
     st\<lparr>backing := (case backing st of Alloc v \<Rightarrow> Alloc bs | Mmap p \<Rightarrow> Mmap bs)\<rparr>"

definition range_read :: "MirrorState \<Rightarrow> MirrorRange \<Rightarrow> bytes res" where
  "range_read st r =
     (if snd (span r) \<le> length (backing_bytes (backing st))
      then Ok (sub_slice (backing_bytes (backing st)) (fst (span r)) (snd (span r))) else Inl UB)"

definition range_write :: "MirrorState \<Rightarrow> MirrorRange \<Rightarrow> nat \<Rightarrow> bytes \<Rightarrow> MirrorState res" where
  "range_write st r i bs =
     (if snd (span r) \<le> length (backing_bytes (backing st)) then
        rbind (assert_that (i + length bs \<le> snd (span r) - fst (span r))) (\<lambda>_.
          Ok (backing_put st (write_at (backing_bytes (backing st)) (fst (span r) + i) bs)))
      else Inl UB)"

section \<open>Invariant\<close>

definition exclusive :: "(nat \<times> nat) set \<Rightarrow> bool" where
  "exclusive xs \<longleftrightarrow> (\<forall>x\<in>xs. fst x < snd x) \<and> (\<forall>x\<in>xs. \<forall>y\<in>xs. x \<noteq> y \<longrightarrow> \<not> nonempty_range_overlap x y)"

definition mirror_inv :: "MirrorState \<Rightarrow> bool" where
  "mirror_inv st \<longleftrightarrow> region_size st = length (backing_bytes (backing st)) \<and> region_size st \<le> ISIZE_MAX \<and>
     exclusive (set (ranges st))"

text \<open>A range that is borrowed: reserved, and inside the vector.\<close>

definition borrowed :: "MirrorState \<Rightarrow> MirrorRange \<Rightarrow> bool" where
  "borrowed st r \<longleftrightarrow> span r \<in> set (ranges st) \<and> snd (span r) \<le> region_size st"

lemma overlap_sym: "nonempty_range_overlap a b \<longleftrightarrow> nonempty_range_overlap b a"
  by (auto simp: nonempty_range_overlap_def)

lemma exclusive_empty [simp]: "exclusive {}"
  by (simp add: exclusive_def)

lemma exclusive_insert:
  "exclusive xs \<Longrightarrow> fst x < snd x \<Longrightarrow> \<forall>y\<in>xs. \<not> nonempty_range_overlap y x \<Longrightarrow> exclusive (insert x xs)"
  using overlap_sym unfolding exclusive_def by blast

lemma exclusive_subset: "exclusive xs \<Longrightarrow> ys \<subseteq> xs \<Longrightarrow> exclusive ys"
  unfolding exclusive_def by blast

lemma Mirror_new_inv: "Mirror_new granted sz mm = Ok st \<Longrightarrow> mirror_inv st \<and> ranges st = [] \<and> region_size st = sz"
  by (auto simp: Mirror_new_def mirror_inv_def do_mmap_def AlignedArray_new_def res_simps assert_that_def split: if_splits)

lemma get_mut_range_cases:
  assumes "mirror_inv st"
  obtains (refused) "get_mut_range st x = Ok (None, st)"
      "snd x \<le> fst x \<or> (\<exists>sp\<in>set (ranges st). nonempty_range_overlap sp x)"
  | (outside) "get_mut_range st x = Ok (None, st\<lparr>ranges := List.insert x (ranges st)\<rparr>)"
      "fst x < snd x" "\<forall>sp\<in>set (ranges st). \<not> nonempty_range_overlap sp x" "region_size st < snd x"
  | (granted) "get_mut_range st x = Ok (Some \<lparr>span = x\<rparr>, st\<lparr>ranges := List.insert x (ranges st)\<rparr>)"
      "fst x < snd x" "\<forall>sp\<in>set (ranges st). \<not> nonempty_range_overlap sp x" "snd x \<le> region_size st"
proof (cases "snd x \<le> fst x \<or> (\<exists>sp\<in>set (ranges st). nonempty_range_overlap sp x)")
  case True
  then show thesis by (intro refused) (auto simp: get_mut_range_def)
next
  case False
  show thesis
  proof (cases "region_size st < snd x")
    case True
    with False show thesis by (intro outside) (auto simp: get_mut_range_def Let_def)
  next
    case inside: False
    then have "saturating_add (fst x) (snd x - fst x) \<le> length (backing_bytes (backing st))" "fst x \<le> ISIZE_MAX"
      using False assms by (auto simp: mirror_inv_def saturating_add_def)
    then have "get_mut_range st x = Ok (Some \<lparr>span = x\<rparr>, st\<lparr>ranges := List.insert x (ranges st)\<rparr>)"
      using False inside by (cases "backing st") (simp_all add: get_mut_range_def Let_def)
    with False inside show thesis by (intro granted) auto
  qed
qed

lemma mirror_inv_insert:
  assumes "mirror_inv st" and "fst x < snd x" and "\<forall>sp\<in>set (ranges st). \<not> nonempty_range_overlap sp x"
  shows "mirror_inv (st\<lparr>ranges := List.insert x (ranges st)\<rparr>)"
  using assms exclusive_insert [of "set (ranges st)" x] by (simp add: mirror_inv_def)

lemma get_mut_range_inv:
  assumes "mirror_inv st" and "get_mut_range st x = Ok (r, st')"
  shows "mirror_inv st'"
  using assms(1)
  by (cases rule: get_mut_range_cases [where x = x]) (use assms mirror_inv_insert in auto)

lemma drop_range_inv: "mirror_inv st \<Longrightarrow> mirror_inv (drop_range st r)"
  using exclusive_subset [of "set (ranges st)" "set (removeAll (span r) (ranges st))"]
  by (auto simp: mirror_inv_def drop_range_def)

lemma backing_put_simps [simp]:
  "backing_bytes (backing (backing_put st bs)) = bs" "region_size (backing_put st bs) = region_size st"
  "ranges (backing_put st bs) = ranges st"
  by (auto simp: backing_put_def split: MirrorBacking.splits)

lemma range_write_inv:
  assumes "mirror_inv st" and "borrowed st r" and "range_write st r i bs = Ok st'"
  shows "mirror_inv st' \<and> ranges st' = ranges st \<and> region_size st' = region_size st"
proof -
  have "fst (span r) < snd (span r)" using assms(1,2) by (auto simp: mirror_inv_def borrowed_def exclusive_def)
  with assms show ?thesis
    by (auto simp: mirror_inv_def borrowed_def range_write_def res_simps assert_that_def split: if_splits)
qed

lemma extend_contents:
  assumes "mirror_inv st" and "extend granted st n = Ok st'"
  shows "mirror_inv st' \<and> ranges st' = [] \<and> region_size st' = n \<and>
    backing_bytes (backing st') = backing_bytes (backing st) @ replicate (n - region_size st) 0"
  using assms
  by (auto simp: extend_def mirror_inv_def Let_def res_simps assert_that_def do_mmap_def do_mremap_def AlignedArray_new_def
      write_at_def split: if_splits MirrorBacking.splits)

section \<open>Stores shared by several owners\<close>

text \<open>
  What a thread relies on: writing through one handle leaves alone what another handle reads,
  and changes no ownership. The consequence for whole sequences of writes by other owners is
  proved once from these laws.
\<close>

primrec wr_all :: "('st \<Rightarrow> 'h \<Rightarrow> 'w \<Rightarrow> 'st res) \<Rightarrow> 'st \<Rightarrow> ('h \<times> 'w) list \<Rightarrow> 'st res" where
  "wr_all wr st [] = Ok st"
| "wr_all wr st (hw # hws) = rbind (wr st (fst hw) (snd hw)) (\<lambda>st. wr_all wr st hws)"

locale shared_store =
  fixes owns :: "'st \<Rightarrow> 'h \<Rightarrow> bool" and apart :: "'h \<Rightarrow> 'h \<Rightarrow> bool"
    and rd :: "'st \<Rightarrow> 'h \<Rightarrow> 'v res" and wr :: "'st \<Rightarrow> 'h \<Rightarrow> 'w \<Rightarrow> 'st res"
  assumes wr_owns: "owns st h \<Longrightarrow> wr st h w = Ok st' \<Longrightarrow> owns st' g \<longleftrightarrow> owns st g"
    and wr_other: "owns st h \<Longrightarrow> owns st g \<Longrightarrow> apart h g \<Longrightarrow> wr st h w = Ok st' \<Longrightarrow> rd st' g = rd st g"
begin

lemma wr_all_other:
  assumes "owns st g" and "\<forall>hw\<in>set hws. owns st (fst hw) \<and> apart (fst hw) g" and "wr_all wr st hws = Ok st'"
  shows "rd st' g = rd st g \<and> owns st' g"
  using assms
proof (induction hws arbitrary: st)
  case (Cons hw hws)
  then obtain st1 where st1: "wr st (fst hw) (snd hw) = Ok st1" "wr_all wr st1 hws = Ok st'"
    by (auto simp: res_simps)
  have o: "owns st1 h \<longleftrightarrow> owns st h" for h using wr_owns [OF _ st1(1)] Cons.prems(2) by simp
  have "rd st1 g = rd st g" using wr_other [OF _ Cons.prems(1) _ st1(1)] Cons.prems(2) by simp
  with Cons.IH [of st1] Cons.prems st1(2) o show ?case by simp
qed simp

end

definition mirror_owns :: "MirrorState \<Rightarrow> MirrorRange \<Rightarrow> bool" where
  "mirror_owns st r \<longleftrightarrow> mirror_inv st \<and> borrowed st r"

definition mirror_put :: "MirrorState \<Rightarrow> MirrorRange \<Rightarrow> nat \<times> bytes \<Rightarrow> MirrorState res" where
  "mirror_put st r w = range_write st r (fst w) (snd w)"

lemma range_write_ok:
  assumes "mirror_owns st r" and "range_write st r i bs = Ok st'"
  shows "backing_bytes (backing st') = write_at (backing_bytes (backing st)) (fst (span r) + i) bs"
    and "i + length bs \<le> snd (span r) - fst (span r)" and "fst (span r) < snd (span r)"
    and "snd (span r) \<le> length (backing_bytes (backing st))"
proof -
  show "fst (span r) < snd (span r)"
    using assms(1) by (auto simp: mirror_owns_def mirror_inv_def borrowed_def exclusive_def)
qed (use assms in \<open>auto simp: mirror_owns_def mirror_inv_def borrowed_def range_write_def res_simps assert_that_def
    split: if_splits\<close>)

lemma range_write_owns:
  assumes "mirror_owns st r" and "range_write st r i bs = Ok st'"
  shows "mirror_owns st' g \<longleftrightarrow> mirror_owns st g"
  using range_write_inv [OF _ _ assms(2)] assms(1) by (auto simp: mirror_owns_def borrowed_def)

lemma range_write_other:
  assumes "mirror_owns st r" and "mirror_owns st g" and "\<not> nonempty_range_overlap (span r) (span g)"
    and "range_write st r i bs = Ok st'"
  shows "range_read st' g = range_read st g"
proof -
  note w = range_write_ok [OF assms(1,4)]
  have "sub_slice (write_at (backing_bytes (backing st)) (fst (span r) + i) bs) (fst (span g)) (snd (span g)) =
      sub_slice (backing_bytes (backing st)) (fst (span g)) (snd (span g))"
  proof -
    consider "snd (span g) \<le> fst (span r)" | "snd (span r) \<le> fst (span g)"
      using assms(3) by (fastforce simp: nonempty_range_overlap_def)
    then show ?thesis
    proof cases
      case 1
      with w(2-4) show ?thesis by (intro slice_write_at_before) auto
    next
      case 2
      with w(2-4) show ?thesis by (intro slice_write_at_after) auto
    qed
  qed
  with w show ?thesis by (simp add: range_read_def)
qed

interpretation mirror_store: shared_store mirror_owns "\<lambda>r g. \<not> nonempty_range_overlap (span r) (span g)" range_read mirror_put
  by unfold_locales (simp_all add: mirror_put_def range_write_owns range_write_other)

section \<open>Runs\<close>

inductive mirror_step :: "MirrorState \<times> MirrorRange list \<Rightarrow> MirrorState \<times> MirrorRange list \<Rightarrow> bool" where
  acquire: "get_mut_range st x = Ok (Some r, st') \<Longrightarrow> mirror_step (st, rs) (st', r # rs)"
| refuse: "get_mut_range st x = Ok (None, st') \<Longrightarrow> mirror_step (st, rs) (st', rs)"
| store: "r \<in> set rs \<Longrightarrow> range_write st r i bs = Ok st' \<Longrightarrow> mirror_step (st, rs) (st', rs)"
| release: "r \<in> set rs \<Longrightarrow> mirror_step (st, rs) (drop_range st r, remove1 r rs)"
| grow: "extend granted st n = Ok st' \<Longrightarrow> mirror_step (st, []) (st', [])"

inductive mirror_run :: "MirrorState \<Rightarrow> MirrorRange list \<Rightarrow> bool" where
  create: "Mirror_new granted sz mmapped = Ok st \<Longrightarrow> mirror_run st []"
| step: "mirror_run st rs \<Longrightarrow> mirror_step (st, rs) (st', rs') \<Longrightarrow> mirror_run st' rs'"

definition mirror_run_inv :: "MirrorState \<Rightarrow> MirrorRange list \<Rightarrow> bool" where
  "mirror_run_inv st rs \<longleftrightarrow> mirror_inv st \<and> distinct (map span rs) \<and> (\<forall>r\<in>set rs. borrowed st r)"

lemma granted_fresh:
  assumes "mirror_inv st" and "get_mut_range st x = Ok (Some r, st')"
  shows "r = \<lparr>span = x\<rparr> \<and> st' = st\<lparr>ranges := List.insert x (ranges st)\<rparr> \<and> snd x \<le> region_size st \<and> x \<notin> set (ranges st)"
  using assms(1)
proof (cases rule: get_mut_range_cases [where x = x])
  case granted
  have "x \<notin> set (ranges st)" using granted(2,3) by (auto simp: nonempty_range_overlap_def)
  with granted assms(2) show ?thesis by auto
qed (use assms(2) in auto)

lemma mirror_step_invariant:
  assumes "mirror_step (st, rs) (st', rs')" and inv: "mirror_run_inv st rs"
  shows "mirror_run_inv st' rs'"
proof -
  have i: "mirror_inv st" using inv by (simp add: mirror_run_inv_def)
  show ?thesis using assms(1)
  proof cases
    case (acquire x r)
    from granted_fresh [OF i acquire(2)] get_mut_range_inv [OF i acquire(2)] acquire(1) inv
    show ?thesis by (auto simp: mirror_run_inv_def borrowed_def)
  next
    case (refuse x)
    from i have "region_size st' = region_size st \<and> set (ranges st) \<subseteq> set (ranges st')"
      by (cases rule: get_mut_range_cases [where x = x]) (use refuse(2) in auto)
    with get_mut_range_inv [OF i refuse(2)] refuse(1) inv show ?thesis by (auto simp: mirror_run_inv_def borrowed_def)
  next
    case (store r k bs)
    then show ?thesis using range_write_inv [of st r k bs st'] inv by (auto simp: mirror_run_inv_def borrowed_def)
  next
    case (release r)
    have "span g \<noteq> span r" if "g \<in> set (remove1 r rs)" for g
      using that release inv by (auto simp: mirror_run_inv_def distinct_map inj_on_def dest: notin_set_remove1)
    with release inv show ?thesis
      using drop_range_inv [of st r]
      by (auto simp: mirror_run_inv_def borrowed_def drop_range_def distinct_map inj_on_def dest: notin_set_remove1)
  next
    case (grow granted n)
    then show ?thesis using extend_contents [OF i] by (auto simp: mirror_run_inv_def)
  qed
qed

lemma mirror_run_invariant: "mirror_run st rs \<Longrightarrow> mirror_run_inv st rs"
proof (induction rule: mirror_run.induct)
  case (create granted sz mmapped st)
  then show ?case using Mirror_new_inv by (auto simp: mirror_run_inv_def)
next
  case (step st rs st' rs')
  then show ?case using mirror_step_invariant by blast
qed

text \<open>A range that is reserved although nobody has it: no step gives it back.\<close>

definition leaked :: "nat \<times> nat \<Rightarrow> MirrorState \<Rightarrow> MirrorRange list \<Rightarrow> bool" where
  "leaked x st rs \<longleftrightarrow> mirror_run_inv st rs \<and> x \<in> set (ranges st) \<and> x \<notin> span ` set rs"

lemma leaked_step:
  assumes "mirror_step (st, rs) (st', rs')" and "leaked x st rs"
  shows "leaked x st' rs'"
proof -
  have i: "mirror_inv st" "mirror_run_inv st rs" using assms(2) by (simp_all add: leaked_def mirror_run_inv_def)
  note inv = mirror_step_invariant [OF assms(1) i(2)]
  show ?thesis using assms(1)
  proof cases
    case (acquire y r)
    from granted_fresh [OF i(1) acquire(2)] show ?thesis using acquire(1) inv assms(2) by (auto simp: leaked_def)
  next
    case (refuse y)
    from i(1) have "set (ranges st) \<subseteq> set (ranges st')"
      by (cases rule: get_mut_range_cases [where x = y]) (use refuse(2) in auto)
    then show ?thesis using refuse(1) inv assms(2) by (auto simp: leaked_def)
  next
    case (store r k bs)
    then show ?thesis using range_write_inv [OF i(1), of r k bs st'] inv assms(2) by (auto simp: leaked_def mirror_run_inv_def)
  next
    case (release r)
    then show ?thesis using inv assms(2) by (auto simp: leaked_def drop_range_def dest: set_remove1_subset [THEN subsetD])
  next
    case (grow granted n)
    then show ?thesis using assms(2) by (auto simp: leaked_def extend_def Let_def res_simps assert_that_def split: if_splits)
  qed
qed

lemma leaked_steps: "mirror_step\<^sup>*\<^sup>* s s' \<Longrightarrow> leaked x (fst s) (snd s) \<Longrightarrow> leaked x (fst s') (snd s')"
proof (induction rule: rtranclp_induct)
  case (step s' s'')
  then show ?case using leaked_step [of "fst s'" "snd s'" "fst s''" "snd s''" x] by simp
qed simp

lemma leaked_refused:
  assumes "leaked x st rs"
  shows "nonempty_range_overlap x y \<Longrightarrow> get_mut_range st y = Ok (None, st)" and "n \<le> ISIZE_MAX \<Longrightarrow> extend granted st n = panic"
  using assms by (auto simp: leaked_def get_mut_range_def extend_def Let_def assert_that_def)

section \<open>Properties\<close>

text \<open>
  C20: borrowed ranges are isolated. In every state that a run of mirror operations reaches, a
  borrowed range can be read without leaving the allocation and has the length of its span,
  and no sequence of writes through other borrowed ranges changes what it reads.
\<close>

theorem mirror_isolation:
  assumes "mirror_run st rs" and "g \<in> set rs" and "\<forall>hw\<in>set hws. fst hw \<in> set rs \<and> fst hw \<noteq> g"
    and "wr_all mirror_put st hws = Ok st'"
  shows "range_read st' g = range_read st g \<and>
    (\<exists>bs. range_read st g = Ok bs \<and> length bs = snd (span g) - fst (span g))"
proof -
  have inv: "mirror_inv st" "distinct (map span rs)" "\<forall>r\<in>set rs. borrowed st r"
    using mirror_run_invariant [OF assms(1)] by (simp_all add: mirror_run_inv_def)
  have ex: "exclusive (set (ranges st))" using inv(1) by (simp add: mirror_inv_def)
  have "\<not> nonempty_range_overlap (span h) (span g)" if "h \<in> set rs" "h \<noteq> g" for h
  proof -
    have "span h \<noteq> span g" using inv(2) that assms(2) by (auto simp: distinct_map inj_on_def)
    with ex inv(3) that assms(2) show ?thesis by (auto simp: exclusive_def borrowed_def)
  qed
  with mirror_store.wr_all_other [of st g hws st'] assms(2-4) inv have "range_read st' g = range_read st g"
    by (auto simp: mirror_owns_def)
  moreover have "fst (span g) < snd (span g)" "snd (span g) \<le> length (backing_bytes (backing st))"
    using inv(1,3) ex assms(2) by (auto simp: borrowed_def mirror_inv_def exclusive_def)
  ultimately show ?thesis by (auto simp: range_read_def)
qed

definition ex_mirror :: MirrorState where
  "ex_mirror = \<lparr>backing = Alloc (replicate 8 0), region_size = 8, ranges = [(4, 8), (0, 4)]\<rparr>"

lemma ex_mirror_run: "mirror_run ex_mirror [\<lparr>span = (4, 8)\<rparr>, \<lparr>span = (0, 4)\<rparr>]"
proof -
  have "mirror_run \<lparr>backing = Alloc (replicate 8 0), region_size = 8, ranges = []\<rparr> []"
    by (rule mirror_run.create [of True 8 False])
      (simp add: Mirror_new_def AlignedArray_new_def ISIZE_MAX_def next_multiple_of_def div_ceil_def)
  from mirror_run.step [OF this acquire [of _ "(0, 4)"]]
  have "mirror_run \<lparr>backing = Alloc (replicate 8 0), region_size = 8, ranges = [(0, 4)]\<rparr> [\<lparr>span = (0, 4)\<rparr>]"
    by (simp add: get_mut_range_def ISIZE_MAX_def USIZE_MAX_def List.insert_def Let_def)
  from mirror_run.step [OF this acquire [of _ "(4, 8)"]] show ?thesis
    by (simp add: get_mut_range_def ISIZE_MAX_def USIZE_MAX_def List.insert_def Let_def nonempty_range_overlap_def ex_mirror_def)
qed

theorem mirror_isolation_witness:
  "range_read \<lparr>backing = Alloc [0, 0, 0, 0, 0, 7, 0, 0], region_size = 8, ranges = [(4, 8), (0, 4)]\<rparr> \<lparr>span = (0, 4)\<rparr> =
      range_read ex_mirror \<lparr>span = (0, 4)\<rparr> \<and>
    (\<exists>bs. range_read ex_mirror \<lparr>span = (0, 4)\<rparr> = Ok bs \<and> length bs = 4 - 0)"
  using mirror_isolation [OF ex_mirror_run, of "\<lparr>span = (0, 4)\<rparr>" "[(\<lparr>span = (4, 8)\<rparr>, (1, [7]))]"]
  by (simp add: ex_mirror_def mirror_put_def range_write_def backing_put_def write_at_def numeral_eq_Suc)

text \<open>
  C25: which requests are granted. In a run where only the borrowed ranges are reserved, a
  request never panics and is granted exactly when it is not empty, lies inside the mirror and
  overlaps no borrowed range.
\<close>

theorem mirror_grants:
  assumes "mirror_run st rs" and "set (ranges st) = span ` set rs"
  shows "(\<exists>r st'. get_mut_range st x = Ok (r, st')) \<and>
    ((\<exists>st'. get_mut_range st x = Ok (Some \<lparr>span = x\<rparr>, st')) \<longleftrightarrow>
       fst x < snd x \<and> snd x \<le> region_size st \<and> (\<forall>r\<in>set rs. \<not> nonempty_range_overlap (span r) x))"
proof -
  have "mirror_inv st" using mirror_run_invariant [OF assms(1)] by (simp add: mirror_run_inv_def)
  then show ?thesis
    by (cases rule: get_mut_range_cases [where x = x]) (use assms(2) in auto)
qed

theorem mirror_grants_witness:
  "(\<exists>r st'. get_mut_range ex_mirror (2, 6) = Ok (r, st')) \<and>
    ((\<exists>st'. get_mut_range ex_mirror (2, 6) = Ok (Some \<lparr>span = (2, 6)\<rparr>, st')) \<longleftrightarrow>
       \<not> nonempty_range_overlap (4, 8) (2, 6) \<and> \<not> nonempty_range_overlap (0, 4) (2, 6))"
  using mirror_grants [OF ex_mirror_run, of "(2, 6)"] by (simp add: ex_mirror_def)

text \<open>
  C32: growing a mirror keeps its contents and fills the rest with zeroes; a run in which no
  range is reserved can always grow it up to the size limit if the memory is granted, and a
  failure leaves no partial state.
\<close>

theorem mirror_extend:
  assumes "mirror_run st rs" and "ranges st = []" and "region_size st \<le> n" and "next_multiple_of n 64 \<le> ISIZE_MAX"
  shows "\<exists>st'. extend True st n = Ok st' \<and> mirror_len st' = n \<and>
    backing_bytes (backing st') = backing_bytes (backing st) @ replicate (n - region_size st) 0"
proof -
  have inv: "mirror_inv st" using mirror_run_invariant [OF assms(1)] by (simp add: mirror_run_inv_def)
  have "n \<le> ISIZE_MAX" using assms(4) next_multiple_of_ge [of 64 n] by simp
  then have "\<exists>st'. extend True st n = Ok st'"
    using assms(2-4) inv
    by (cases "backing st") (auto simp: extend_def Let_def do_mmap_def do_mremap_def AlignedArray_new_def mirror_inv_def)
  then show ?thesis using extend_contents [OF inv] by (auto simp: mirror_len_def)
qed

theorem mirror_extend_witness:
  "\<exists>st'. extend True \<lparr>backing = Mmap [], region_size = 0, ranges = []\<rparr> 3 = Ok st' \<and> mirror_len st' = 3 \<and>
    backing_bytes (backing st') = [] @ replicate (3 - 0) 0"
proof -
  have "mirror_run \<lparr>backing = Mmap [], region_size = 0, ranges = []\<rparr> []"
    by (rule mirror_run.create [of True 0 True]) (simp add: Mirror_new_def)
  from mirror_extend [OF this, of 3] show ?thesis
    by (simp add: ISIZE_MAX_def next_multiple_of_def div_ceil_def)
qed

text \<open>
  C33: a request beyond the end of the mirror leaks its reservation. In any state of a run, a nonempty request
  that overlaps no reserved range and ends behind the mirror is refused, but the range is inserted before the
  bound is checked and no \<open>MirrorRange\<close> is returned that would remove it. In every state that the mirror
  reaches from then on, all borrowed ranges released or not, every request that overlaps the range is
  refused, and \<open>extend\<close> to any permitted size panics.
\<close>

theorem mirror_leak:
  assumes "mirror_run st rs" and "fst x < snd x" and "region_size st < snd x"
    and "\<forall>sp\<in>set (ranges st). \<not> nonempty_range_overlap sp x"
  shows "\<exists>st'. get_mut_range st x = Ok (None, st') \<and>
    (\<forall>st2 rs2. mirror_step\<^sup>*\<^sup>* (st', rs) (st2, rs2) \<longrightarrow>
       (\<forall>y. nonempty_range_overlap x y \<longrightarrow> get_mut_range st2 y = Ok (None, st2)) \<and>
       (\<forall>granted n. n \<le> ISIZE_MAX \<longrightarrow> extend granted st2 n = panic))"
proof -
  let ?st = "st\<lparr>ranges := List.insert x (ranges st)\<rparr>"
  have g: "get_mut_range st x = Ok (None, ?st)" using assms(2-4) by (simp add: get_mut_range_def Let_def)
  have i: "mirror_run_inv st rs" by (rule mirror_run_invariant [OF assms(1)])
  have "x \<notin> span ` set rs" using i assms(3) by (auto simp: mirror_run_inv_def borrowed_def)
  then have "leaked x ?st rs" using mirror_step_invariant [OF refuse [OF g] i] by (simp add: leaked_def)
  then have "leaked x st2 rs2" if "mirror_step\<^sup>*\<^sup>* (?st, rs) (st2, rs2)" for st2 rs2 using leaked_steps [OF that] by simp
  then show ?thesis using g leaked_refused by blast
qed

theorem mirror_leak_witness:
  "\<exists>st'. get_mut_range ex_mirror (8, 20) = Ok (None, st') \<and>
    mirror_step\<^sup>*\<^sup>* (st', [\<lparr>span = (4, 8)\<rparr>, \<lparr>span = (0, 4)\<rparr>]) (drop_range (drop_range st' \<lparr>span = (4, 8)\<rparr>) \<lparr>span = (0, 4)\<rparr>, []) \<and>
    extend True (drop_range (drop_range st' \<lparr>span = (4, 8)\<rparr>) \<lparr>span = (0, 4)\<rparr>) 32 = panic"
proof -
  have "fst (8, 20) < snd ((8, 20) :: nat \<times> nat)" "region_size ex_mirror < snd (8, 20)"
      "\<forall>sp\<in>set (ranges ex_mirror). \<not> nonempty_range_overlap sp (8, 20)"
    by (simp_all add: ex_mirror_def nonempty_range_overlap_def)
  from mirror_leak [OF ex_mirror_run this] obtain st' where st': "get_mut_range ex_mirror (8, 20) = Ok (None, st')"
    "\<forall>st2 rs2. mirror_step\<^sup>*\<^sup>* (st', [\<lparr>span = (4, 8)\<rparr>, \<lparr>span = (0, 4)\<rparr>]) (st2, rs2) \<longrightarrow>
       (\<forall>granted n. n \<le> ISIZE_MAX \<longrightarrow> extend granted st2 n = panic)" by blast
  have "mirror_step (st', [\<lparr>span = (4, 8)\<rparr>, \<lparr>span = (0, 4)\<rparr>]) (drop_range st' \<lparr>span = (4, 8)\<rparr>, [\<lparr>span = (0, 4)\<rparr>])"
    using release [of "\<lparr>span = (4, 8)\<rparr>" "[\<lparr>span = (4, 8)\<rparr>, \<lparr>span = (0, 4)\<rparr>]" st'] by simp
  moreover have "mirror_step (drop_range st' \<lparr>span = (4, 8)\<rparr>, [\<lparr>span = (0, 4)\<rparr>]) (drop_range (drop_range st' \<lparr>span = (4, 8)\<rparr>) \<lparr>span = (0, 4)\<rparr>, [])"
    using release [of "\<lparr>span = (0, 4)\<rparr>" "[\<lparr>span = (0, 4)\<rparr>]" "drop_range st' \<lparr>span = (4, 8)\<rparr>"] by simp
  ultimately have "mirror_step\<^sup>*\<^sup>* (st', [\<lparr>span = (4, 8)\<rparr>, \<lparr>span = (0, 4)\<rparr>]) (drop_range (drop_range st' \<lparr>span = (4, 8)\<rparr>) \<lparr>span = (0, 4)\<rparr>, [])"
    by (rule rtranclp.rtrancl_into_rtrancl [OF r_into_rtranclp])
  moreover have "32 \<le> ISIZE_MAX" by (simp add: ISIZE_MAX_def)
  ultimately show ?thesis using st' by blast
qed

end
