(* ===== verification/Compress.thy ===== *)
theory Compress
  imports Util
begin

text \<open>
  Compression of message contents: the wrappers of \<open>src/compress.rs\<close> around LZ4 and Zstd and the
  functions of \<open>src/mainloop.rs\<close> that choose between them.

  The two libraries are the parameter \<open>compress_lib\<close>: for each entry point the bytes that it writes for
  an input, a level and a capacity (the length is the value that it returns), and whether a context can be
  made. \<open>codec_ok\<close> collects what their documentation promises. The contexts of a thread are kept in
  \<open>ThreadCacheComp\<close>, which records which of them exist.
\<close>

section \<open>The libraries\<close>

record compress_lib =
  LZ4_compressBound :: "nat \<Rightarrow> int"
  LZ4_compress_fast :: "bytes \<Rightarrow> int \<Rightarrow> int \<Rightarrow> bytes"
  LZ4_compress_HC :: "bytes \<Rightarrow> int \<Rightarrow> int \<Rightarrow> bytes"
  LZ4_decompress_safe :: "bytes \<Rightarrow> nat \<Rightarrow> bytes option"
  ZSTD_compressBound :: "nat \<Rightarrow> nat"
  ZSTD_set_level :: "int \<Rightarrow> bool"
  ZSTD_compress2 :: "int \<Rightarrow> bytes \<Rightarrow> nat \<Rightarrow> bytes option"
  ZSTD_decompressDCtx :: "bytes \<Rightarrow> nat \<Rightarrow> bytes option"
  lz4_alloc :: bool
  zstd_alloc_c :: bool
  zstd_alloc_d :: bool

section \<open>Wrappers\<close>

definition to_i32 :: "nat \<Rightarrow> int option" where
  "to_i32 n = (if int n \<le> I32_MAX then Some (int n) else None)"

definition zstd_compress_to_vec :: "compress_lib \<Rightarrow> bytes \<Rightarrow> int \<Rightarrow> nat \<Rightarrow> nat \<Rightarrow> bytes res" where
  "zstd_compress_to_vec lib input level pad_pre pad_post =
     (let max_space = ZSTD_compressBound lib (length input) in
      rbind (ok_or (checked_add max_space pad_pre) Panic) (\<lambda>a.
      rbind (ok_or (checked_add a pad_post) Panic) (\<lambda>req_space.
      rbind (assert_that (req_space \<le> ISIZE_MAX)) (\<lambda>_.
      rbind (assert_that (ZSTD_set_level lib level)) (\<lambda>_.
      rbind (ok_or (ZSTD_compress2 lib level input max_space) Panic) (\<lambda>out.
      rbind (assert_that (length out \<le> max_space)) (\<lambda>_.
      Ok (replicate pad_pre 0 @ out @ replicate pad_post 0))))))))"

definition zstd_decompress_to_vec :: "compress_lib \<Rightarrow> bytes \<Rightarrow> nat \<Rightarrow> bytes option" where
  "zstd_decompress_to_vec lib input uncomp_len =
     (case ZSTD_decompressDCtx lib input uncomp_len of
        None \<Rightarrow> None
      | Some v \<Rightarrow> if length v \<noteq> uncomp_len then None else Some v)"

definition lz4_compress_to_vec :: "compress_lib \<Rightarrow> bytes \<Rightarrow> int \<Rightarrow> nat \<Rightarrow> nat \<Rightarrow> bytes res" where
  "lz4_compress_to_vec lib input level pad_pre pad_post =
     rbind (ok_or (to_i32 (length input)) Panic) (\<lambda>_.
     let max_space = LZ4_compressBound lib (length input) in
     rbind (assert_that (0 \<le> max_space)) (\<lambda>_.
     rbind (ok_or (checked_add (nat max_space) pad_pre) Panic) (\<lambda>a.
     rbind (ok_or (checked_add a pad_post) Panic) (\<lambda>req_space.
     rbind (assert_that (req_space < ISIZE_MAX)) (\<lambda>_.
     let out = (if level \<le> 0 then LZ4_compress_fast lib input max_space (- level)
                else LZ4_compress_HC lib input max_space level) in
     rbind (assert_that (int (length out) \<le> max_space)) (\<lambda>_.
     Ok (replicate pad_pre 0 @ out @ replicate pad_post 0)))))))"

definition lz4_decompress_to_vec :: "compress_lib \<Rightarrow> bytes \<Rightarrow> nat \<Rightarrow> bytes option" where
  "lz4_decompress_to_vec lib input uncomp_len =
     (case (to_i32 (length input), to_i32 uncomp_len) of
        (Some ilen, Some olen) \<Rightarrow>
          (case LZ4_decompress_safe lib input uncomp_len of
             None \<Rightarrow> None
           | Some v \<Rightarrow> if int (length v) \<noteq> olen then None else Some v)
      | _ \<Rightarrow> None)"

section \<open>Choice of the method\<close>

datatype Compression = NoCompression | Lz4 int | Zstd int

record ThreadCacheComp =
  lz4_c :: bool
  zstd_c :: bool
  zstd_d :: bool

definition get_lz4_cctx :: "compress_lib \<Rightarrow> ThreadCacheComp \<Rightarrow> ThreadCacheComp res" where
  "get_lz4_cctx lib cache =
     (if \<not> lz4_c cache
      then rbind (if lz4_alloc lib then Ok () else fail ''Failed to make LZ4 compression context'') (\<lambda>_.
        Ok (cache\<lparr>lz4_c := True\<rparr>))
      else Ok cache)"

definition get_zstd_cctx :: "compress_lib \<Rightarrow> ThreadCacheComp \<Rightarrow> ThreadCacheComp res" where
  "get_zstd_cctx lib cache =
     (if \<not> zstd_c cache
      then rbind (if zstd_alloc_c lib then Ok () else fail ''Failed to make LZ4 compression context'') (\<lambda>_.
        Ok (cache\<lparr>zstd_c := True\<rparr>))
      else Ok cache)"

definition get_zstd_dctx :: "compress_lib \<Rightarrow> ThreadCacheComp \<Rightarrow> ThreadCacheComp res" where
  "get_zstd_dctx lib cache =
     (if \<not> zstd_d cache
      then rbind (if zstd_alloc_d lib then Ok () else fail ''Failed to make LZ4 compression context'') (\<lambda>_.
        Ok (cache\<lparr>zstd_d := True\<rparr>))
      else Ok cache)"

definition comp_into_vec ::
  "compress_lib \<Rightarrow> Compression \<Rightarrow> ThreadCacheComp \<Rightarrow> bytes \<Rightarrow> nat \<Rightarrow> nat \<Rightarrow> (bytes \<times> ThreadCacheComp) res" where
  "comp_into_vec lib compr cache src pad_pre pad_post =
     (case compr of
        NoCompression \<Rightarrow> Ok (replicate pad_pre 0 @ src @ replicate pad_post 0, cache)
      | Lz4 lvl \<Rightarrow> rbind (get_lz4_cctx lib cache) (\<lambda>cache.
          rbind (lz4_compress_to_vec lib src lvl pad_pre pad_post) (\<lambda>v. Ok (v, cache)))
      | Zstd lvl \<Rightarrow> rbind (get_zstd_cctx lib cache) (\<lambda>cache.
          rbind (zstd_compress_to_vec lib src lvl pad_pre pad_post) (\<lambda>v. Ok (v, cache))))"

definition decomp_into_vec ::
  "compress_lib \<Rightarrow> Compression \<Rightarrow> ThreadCacheComp \<Rightarrow> bytes \<Rightarrow> nat \<Rightarrow> (bytes \<times> ThreadCacheComp) res" where
  "decomp_into_vec lib compr cache src uncomp_len =
     (case compr of
        NoCompression \<Rightarrow> rbind (assert_that (length src = uncomp_len)) (\<lambda>_. Ok (src, cache))
      | Lz4 _ \<Rightarrow> rbind (ok_or (lz4_decompress_to_vec lib src uncomp_len) (Err ''Failed to decompress'')) (\<lambda>v. Ok (v, cache))
      | Zstd _ \<Rightarrow> rbind (get_zstd_dctx lib cache) (\<lambda>cache.
          rbind (ok_or (zstd_decompress_to_vec lib src uncomp_len) (Err ''Failed to decompress'')) (\<lambda>v. Ok (v, cache))))"

section \<open>What the libraries promise\<close>

text \<open>
  The documented bounds (\<open>LZ4_COMPRESSBOUND\<close>, \<open>LZ4_MAX_INPUT_SIZE\<close>, \<open>ZSTD_COMPRESSBOUND\<close>), that a
  compressor succeeds when it is given that much room, and that what it wrote decompresses to the
  input.
\<close>

definition lz4_ok :: "compress_lib \<Rightarrow> bool" where
  "lz4_ok lib \<longleftrightarrow> lz4_alloc lib \<and>
     (\<forall>n. n \<le> 0x7E000000 \<longrightarrow> LZ4_compressBound lib n = int (n + n div 255 + 16)) \<and>
     (\<forall>src lvl b. length src \<le> 0x7E000000 \<and> LZ4_compressBound lib (length src) = b \<longrightarrow>
        (\<forall>out \<in> {LZ4_compress_fast lib src b lvl, LZ4_compress_HC lib src b lvl}.
           int (length out) \<le> b \<and> LZ4_decompress_safe lib out (length src) = Some src))"

definition zstd_ok :: "compress_lib \<Rightarrow> bool" where
  "zstd_ok lib \<longleftrightarrow> zstd_alloc_c lib \<and> zstd_alloc_d lib \<and>
     (\<forall>n. ZSTD_compressBound lib n \<le> n + n div 256 + 64) \<and>
     (\<forall>lvl. - 128 \<le> lvl \<and> lvl < 128 \<longrightarrow> ZSTD_set_level lib lvl) \<and>
     (\<forall>src lvl. - 128 \<le> lvl \<and> lvl < 128 \<longrightarrow>
        (\<exists>out. ZSTD_compress2 lib lvl src (ZSTD_compressBound lib (length src)) = Some out \<and>
           length out \<le> ZSTD_compressBound lib (length src) \<and>
           ZSTD_decompressDCtx lib out (length src) = Some src))"

definition codec_ok :: "compress_lib \<Rightarrow> Compression \<Rightarrow> bool" where
  "codec_ok lib compr \<longleftrightarrow>
     (case compr of NoCompression \<Rightarrow> True | Lz4 _ \<Rightarrow> lz4_ok lib | Zstd lvl \<Rightarrow> zstd_ok lib \<and> - 128 \<le> lvl \<and> lvl < 128)"

section \<open>Round trip\<close>

lemma comp_into_vec_shape:
  assumes "codec_ok lib compr" and "length src \<le> 0x70000000" and "pre \<le> 1024" and "post \<le> 1024"
  obtains out cache' where "comp_into_vec lib compr cache src pre post = Ok (replicate pre 0 @ out @ replicate post 0, cache')"
    and "length out \<le> length src + length src div 255 + 64"
    and "\<And>c. \<exists>c'. decomp_into_vec lib compr c out (length src) = Ok (src, c')"
proof (cases compr)
  case NoCompression
  then show ?thesis using that [of src] by (simp add: comp_into_vec_def decomp_into_vec_def)
next
  case (Lz4 lvl)
  define b where "b = LZ4_compressBound lib (length src)"
  define out where "out = (if lvl \<le> 0 then LZ4_compress_fast lib src b (- lvl) else LZ4_compress_HC lib src b lvl)"
  have ok: "lz4_ok lib" using assms(1) Lz4 by (simp add: codec_ok_def)
  have len: "length src \<le> 0x7E000000" "length src div 255 \<le> 7368816"
    using assms(2) div_le_mono [OF assms(2), of 255] by simp_all
  then have b: "b = int (length src + length src div 255 + 16)" "lz4_alloc lib"
    using ok unfolding lz4_ok_def b_def by blast+
  have "\<exists>l. out \<in> {LZ4_compress_fast lib src b l, LZ4_compress_HC lib src b l}" by (auto simp: out_def)
  then have o: "int (length out) \<le> b" "LZ4_decompress_safe lib out (length src) = Some src"
    using ok len(1) b_def unfolding lz4_ok_def by blast+
  have lo: "length out \<le> length src + length src div 255 + 16" using b(1) o(1) by (simp only: of_nat_le_iff)
  have "0 \<le> b" "nat b \<le> 1886417024" using b(1) assms(2) len(2) by simp_all
  then have "lz4_compress_to_vec lib src lvl pre post = Ok (replicate pre 0 @ out @ replicate post 0)"
    using assms(2-4) o(1)
    by (simp add: lz4_compress_to_vec_def to_i32_def I32_MAX_def ok_or_def checked_add_def USIZE_MAX_def ISIZE_MAX_def
        Let_def b_def [symmetric] out_def [symmetric] nat_add_distrib)
  moreover have "lz4_decompress_to_vec lib out (length src) = Some src"
    using assms(2) len lo o(2) by (simp add: lz4_decompress_to_vec_def to_i32_def I32_MAX_def)
  ultimately show ?thesis using that [of out] lo Lz4 b(2)
    by (cases "lz4_c cache")
      (simp_all add: comp_into_vec_def decomp_into_vec_def get_lz4_cctx_def ok_or_def)
next
  case (Zstd lvl)
  then have ok: "zstd_ok lib" "- 128 \<le> lvl \<and> lvl < 128" using assms(1) by (simp_all add: codec_ok_def)
  then obtain out where o: "ZSTD_compress2 lib lvl src (ZSTD_compressBound lib (length src)) = Some out"
      "length out \<le> ZSTD_compressBound lib (length src)" "ZSTD_decompressDCtx lib out (length src) = Some src"
    and l: "ZSTD_set_level lib lvl" "ZSTD_compressBound lib (length src) \<le> length src + length src div 256 + 64"
      "zstd_alloc_c lib" "zstd_alloc_d lib"
    unfolding zstd_ok_def by blast
  have "length src div 256 \<le> length src div 255" "length src div 255 \<le> 7368816"
    using div_le_mono [OF assms(2), of 255] by (simp_all add: div_le_mono2)
  then have "zstd_compress_to_vec lib src lvl pre post = Ok (replicate pre 0 @ out @ replicate post 0)"
      "length out \<le> length src + length src div 255 + 64"
    using assms(2-4) o(1,2) l(1,2)
    by (simp_all add: zstd_compress_to_vec_def ok_or_def checked_add_def USIZE_MAX_def ISIZE_MAX_def Let_def)
  moreover have "zstd_decompress_to_vec lib out (length src) = Some src"
    using o(3) by (simp add: zstd_decompress_to_vec_def)
  ultimately show ?thesis using that [of out] Zstd l(3,4)
    by (cases "zstd_c cache")
      (simp_all add: comp_into_vec_def decomp_into_vec_def get_zstd_cctx_def get_zstd_dctx_def ok_or_def)
qed

end
