(* ===== verification/Split_Damage.thy ===== *)
theory Split_Damage
  imports Util
begin

text \<open>
  Sharding of damage, \<open>split_damage\<close> of \<open>src/mainloop.rs\<close>: the damaged intervals of a buffer are cut at
  the last multiple of 64 bytes and partitioned into parts of at most \<open>DIFF_CHUNKSIZE\<close> bytes, which
  worker threads process independently; the trailing bytes of the buffer are reported separately.
\<close>

section \<open>Definitions\<close>

definition DIFF_CHUNKSIZE :: nat where
  "DIFF_CHUNKSIZE = 262144"

definition as_u32_nat :: "nat \<Rightarrow> nat" where
  "as_u32_nat n = n mod 2 ^ 32"

text \<open>The first pass: the length of what is damaged before the trailing bytes, and whether these are damaged.\<close>

fun net_damage :: "nat \<Rightarrow> nat \<Rightarrow> (nat \<times> nat) list \<Rightarrow> nat \<Rightarrow> bool \<Rightarrow> (nat \<times> bool) res" where
  "net_damage final_chunk buf_size [] net_len has_trailing = Ok (net_len, has_trailing)"
| "net_damage final_chunk buf_size (r # rs) net_len has_trailing =
     rbind (assert_that (fst r < snd r)) (\<lambda>_.
     rbind (assert_that (fst r mod 64 = 0 \<and> snd r mod 64 = 0)) (\<lambda>_.
     if snd r > final_chunk
     then (if fst r < buf_size
       then rbind (assert_that (final_chunk \<ge> fst r)) (\<lambda>_.
         rbind (usize_add net_len (final_chunk - fst r)) (\<lambda>net_len.
         net_damage final_chunk buf_size rs net_len True))
       else net_damage final_chunk buf_size rs net_len has_trailing)
     else rbind (usize_add net_len (snd r - fst r)) (\<lambda>net_len.
       net_damage final_chunk buf_size rs net_len has_trailing)))"

text \<open>The next interval: what is left of the previous one, or the next of the list.\<close>

definition next_interval :: "(nat \<times> nat) option \<Rightarrow> (nat \<times> nat) list \<Rightarrow> ((nat \<times> nat) \<times> (nat \<times> nat) list) option" where
  "next_interval prev_interval intv_iter =
     (case prev_interval of
        Some x \<Rightarrow> Some (x, intv_iter)
      | None \<Rightarrow> (case intv_iter of [] \<Rightarrow> None | y # ys \<Rightarrow> Some (y, ys)))"

definition intervals_left :: "(nat \<times> nat) option \<Rightarrow> (nat \<times> nat) list \<Rightarrow> nat" where
  "intervals_left prev_interval intv_iter = (case prev_interval of None \<Rightarrow> 0 | Some _ \<Rightarrow> 1) + length intv_iter"

lemma next_interval_left:
  "next_interval p it = Some (cur, it') \<Longrightarrow> length it' < intervals_left p it"
  by (auto simp: next_interval_def intervals_left_def split: option.splits list.splits)

text \<open>The inner loop, which fills one part with \<open>remaining\<close> bytes.\<close>

function fill_part ::
  "nat \<Rightarrow> (nat \<times> nat) option \<Rightarrow> (nat \<times> nat) list \<Rightarrow> nat \<Rightarrow> (nat \<times> nat) list \<Rightarrow>
   ((nat \<times> nat) option \<times> (nat \<times> nat) list \<times> (nat \<times> nat) list) res" where
  "fill_part final_chunk prev_interval intv_iter remaining output =
     (if remaining > 0 then
        (case next_interval prev_interval intv_iter of
           None \<Rightarrow> Ok (None, intv_iter, output)
         | Some (cur, intv_iter) \<Rightarrow>
             if snd cur > final_chunk \<and> fst cur \<ge> final_chunk then Ok (None, intv_iter, output)
             else
               let cur = (if snd cur > final_chunk then (fst cur, final_chunk) else cur) in
               rbind (usize_sub (snd cur) (fst cur)) (\<lambda>len.
               if as_u32_nat len \<le> remaining
               then fill_part final_chunk None intv_iter (remaining - as_u32_nat len)
                      (output @ [(as_u32_nat (fst cur), as_u32_nat (snd cur))])
               else rbind (u32_nat (as_u32_nat (fst cur) + remaining)) (\<lambda>e.
                 rbind (usize_add (fst cur) remaining) (\<lambda>rest.
                 Ok (Some (rest, snd cur), intv_iter, output @ [(as_u32_nat (fst cur), e)])))))
      else Ok (prev_interval, intv_iter, output))"
  by pat_completeness auto
termination
  by (relation "measure (\<lambda>(fc, p, it, rem, out). intervals_left p it)")
    (auto simp: intervals_left_def dest: next_interval_left)

declare fill_part.simps [simp del]

text \<open>The outer loop over the parts \<open>i, \<dots>, nshards - 1\<close>.\<close>

function make_parts ::
  "nat \<Rightarrow> nat \<Rightarrow> nat \<Rightarrow> nat \<Rightarrow> (nat \<times> nat) option \<Rightarrow> (nat \<times> nat) list \<Rightarrow> (nat \<times> nat) list list \<Rightarrow>
   (nat \<times> nat) list list res" where
  "make_parts final_chunk net_len nshards i prev_interval intv_iter parts =
     (if i < nshards then
        rbind (split_interval 0 (net_len div 64) nshards i) (\<lambda>a.
        rbind (u32_nat (64 * a)) (\<lambda>start.
        rbind (split_interval 0 (net_len div 64) nshards (i + 1)) (\<lambda>b.
        rbind (u32_nat (64 * b)) (\<lambda>e.
        rbind (usize_sub e start) (\<lambda>remaining.
        rbind (fill_part final_chunk prev_interval intv_iter remaining []) (\<lambda>(prev_interval, intv_iter, output).
        make_parts final_chunk net_len nshards (i + 1) prev_interval intv_iter (parts @ [output])))))))
      else Ok parts)"
  by pat_completeness auto
termination by (relation "measure (\<lambda>(fc, n, ns, i, p, it, ps). ns - i)") auto

declare make_parts.simps [simp del]

definition split_damage :: "(nat \<times> nat) list \<Rightarrow> nat \<Rightarrow> (nat \<times> (nat \<times> nat) list list) res" where
  "split_damage intervals buf_size =
     (let final_chunk = 64 * (buf_size div 64) in
      rbind (net_damage final_chunk buf_size intervals 0 False) (\<lambda>(net_len, has_trailing).
      rbind (u32_nat net_len) (\<lambda>net_len.
      rbind (assert_that (net_len mod 64 = 0)) (\<lambda>_.
      if net_len = 0 then
        (if has_trailing then Ok (buf_size mod 64, [[]]) else Ok (0, []))
      else
        rbind (ceildiv (net_len div 64) (DIFF_CHUNKSIZE div 64)) (\<lambda>nshards.
        let trail_size = buf_size mod 64 in
        rbind (make_parts final_chunk net_len nshards 0 None intervals []) (\<lambda>parts.
        Ok (if has_trailing then trail_size else 0, parts)))))))"

section \<open>Bytes of intervals\<close>

text \<open>The positions below \<open>fc\<close> in a list of intervals, in order.\<close>

definition bytes_of :: "nat \<Rightarrow> (nat \<times> nat) list \<Rightarrow> nat list" where
  "bytes_of fc ivs = concat (map (\<lambda>iv. [fst iv..<min (snd iv) fc]) ivs)"

definition pending :: "(nat \<times> nat) option \<Rightarrow> (nat \<times> nat) list \<Rightarrow> (nat \<times> nat) list" where
  "pending p it = (case p of None \<Rightarrow> it | Some x \<Rightarrow> x # it)"

definition intervals_ok :: "(nat \<times> nat) list \<Rightarrow> bool" where
  "intervals_ok ivs \<longleftrightarrow> (\<forall>iv\<in>set ivs. fst iv < snd iv \<and> 64 dvd fst iv \<and> 64 dvd snd iv) \<and>
     sorted_wrt (\<lambda>a b. snd a \<le> fst b) ivs"

lemma intervals_ok_simps [simp]:
  "intervals_ok []"
  "intervals_ok (iv # ivs) \<longleftrightarrow> fst iv < snd iv \<and> 64 dvd fst iv \<and> 64 dvd snd iv \<and>
     (\<forall>x\<in>set ivs. snd iv \<le> fst x) \<and> intervals_ok ivs"
  by (auto simp: intervals_ok_def)

lemma bytes_of_simps [simp]:
  "bytes_of fc [] = []"
  "bytes_of fc (iv # ivs) = [fst iv..<min (snd iv) fc] @ bytes_of fc ivs"
  "bytes_of fc (ivs @ ivs') = bytes_of fc ivs @ bytes_of fc ivs'"
  by (simp_all add: bytes_of_def)

lemma bytes_of_beyond: "\<forall>iv\<in>set ivs. fc \<le> fst iv \<Longrightarrow> bytes_of fc ivs = []"
  by (induction ivs) auto

lemma next_interval_pending:
  "next_interval p it = (case pending p it of [] \<Rightarrow> None | cur # it' \<Rightarrow> Some (cur, it'))"
  by (auto simp: next_interval_def pending_def split: option.splits list.splits)

definition piece_ok :: "nat \<Rightarrow> nat \<times> nat \<Rightarrow> bool" where
  "piece_ok fc iv \<longleftrightarrow> fst iv < snd iv \<and> snd iv \<le> fc \<and> 64 dvd fst iv \<and> 64 dvd snd iv"

lemma as_u32_nat_id: "n \<le> U32_MAX \<Longrightarrow> as_u32_nat n = n"
  by (simp add: as_u32_nat_def U32_MAX_def)

text \<open>One part takes the first \<open>remaining\<close> bytes of what is pending and leaves the others.\<close>

lemma fill_part_takes:
  assumes "intervals_ok (pending p it)" and "fc \<le> U32_MAX" and "64 dvd fc" and "64 dvd remaining"
  shows "\<exists>p' it' out'. fill_part fc p it remaining out = Ok (p', it', out @ out') \<and>
    bytes_of fc out' = take remaining (bytes_of fc (pending p it)) \<and>
    bytes_of fc (pending p' it') = drop remaining (bytes_of fc (pending p it)) \<and>
    intervals_ok (pending p' it') \<and> list_all (piece_ok fc) out'"
  using assms(1,4)
proof (induction "intervals_left p it" arbitrary: p it remaining out rule: less_induct)
  case less
  show ?case
  proof (cases "remaining = 0 \<or> pending p it = []")
    case True
    then show ?thesis using less.prems next_interval_pending [of p it]
      by (subst fill_part.simps) (auto simp: pending_def split: option.splits)
  next
    case False
    then obtain cur it' where q: "pending p it = cur # it'" "0 < remaining" by (cases "pending p it") auto
    then have nx: "next_interval p it = Some (cur, it')" by (simp add: next_interval_pending)
    have d: "fst cur < snd cur" "64 dvd fst cur" "64 dvd snd cur" "\<forall>x\<in>set it'. snd cur \<le> fst x" "intervals_ok it'"
      using less.prems(1) by (simp_all add: q(1))
    define e where "e = min (snd cur) fc"
    show ?thesis
    proof (cases "fc \<le> fst cur")
      case True
      then have "bytes_of fc it' = []" using d(1,4) by (intro bytes_of_beyond) force
      then show ?thesis using True q d nx
        by (subst fill_part.simps) (auto simp: pending_def)
    next
      case False
      have e: "fst cur < e" "e \<le> fc" "64 dvd e" "(if snd cur > fc then (fst cur, fc) else cur) = (fst cur, e)"
        using False d(1-3) assms(3) by (auto simp: e_def min_def prod_eq_iff)
      have c: "as_u32_nat (fst cur) = fst cur" "as_u32_nat e = e" "as_u32_nat (e - fst cur) = e - fst cur"
        using e(1,2) assms(2) by (simp_all add: as_u32_nat_id)
      have step: "fill_part fc p it remaining out =
          (if e - fst cur \<le> remaining then fill_part fc None it' (remaining - (e - fst cur)) (out @ [(fst cur, e)])
           else Ok (Some (fst cur + remaining, e), it', out @ [(fst cur, fst cur + remaining)]))"
        using nx q(2) False e c assms(2)
        by (subst fill_part.simps)
          (auto simp: Let_def usize_sub_def u32_nat_def usize_add_def usize_def U32_MAX_def USIZE_MAX_def split: if_splits)
      show ?thesis
      proof (cases "e - fst cur \<le> remaining")
        case True
        have "intervals_ok (pending None it')" "64 dvd remaining - (e - fst cur)"
          using d(2,5) e(3) less.prems(2) by (simp_all add: pending_def)
        then obtain p'' it'' out'' where ih:
          "fill_part fc None it' (remaining - (e - fst cur)) (out @ [(fst cur, e)]) = Ok (p'', it'', (out @ [(fst cur, e)]) @ out'')"
          "bytes_of fc out'' = take (remaining - (e - fst cur)) (bytes_of fc it')"
          "bytes_of fc (pending p'' it'') = drop (remaining - (e - fst cur)) (bytes_of fc it')"
          "intervals_ok (pending p'' it'')" "list_all (piece_ok fc) out''"
          using less.hyps [of None it' "remaining - (e - fst cur)" "out @ [(fst cur, e)]"] next_interval_left [OF nx]
          by (auto simp: intervals_left_def pending_def)
        show ?thesis using ih True e d q step
          by (intro exI [of _ p''] exI [of _ it''] exI [of _ "(fst cur, e) # out''"])
            (simp add: piece_ok_def e_def [symmetric])
      next
        case False
        have "min e fc = e" "min (fst cur + remaining) fc = fst cur + remaining" "e \<le> snd cur"
          using False e(2) by (auto simp: e_def)
        then show ?thesis using False step e d q less.prems(2)
          by (intro exI [of _ "Some (fst cur + remaining, e)"] exI [of _ it'] exI [of _ "[(fst cur, fst cur + remaining)]"])
            (auto simp: piece_ok_def pending_def e_def [symmetric])
      qed
    qed
  qed
qed

lemma net_damage_eq:
  assumes "intervals_ok ivs" and "fc = 64 * (buf_size div 64)" and "n + length (bytes_of fc ivs) \<le> USIZE_MAX"
  shows "net_damage fc buf_size ivs n t =
    Ok (n + length (bytes_of fc ivs), t \<or> (\<exists>iv\<in>set ivs. fst iv < buf_size \<and> fc < snd iv))"
  using assms(1,3)
proof (induction ivs arbitrary: n t)
  case (Cons r rs)
  have "fst r \<le> fc" if "fst r < buf_size"
  proof -
    obtain k where k: "fst r = 64 * k" using Cons.prems(1) by auto
    then have "k \<le> buf_size div 64" using that by simp
    then show ?thesis by (simp add: k assms(2))
  qed
  moreover have "64 dvd fst r" "64 dvd snd r" "fst r < snd r" using Cons.prems(1) by simp_all
  moreover have "fc \<le> buf_size" by (simp add: assms(2))
  ultimately show ?case using Cons.IH Cons.prems
    by (cases "snd r \<le> fc"; cases "fst r < buf_size") (auto simp: usize_add_def usize_def)
qed simp

lemma bytes_of_sorted: "intervals_ok ivs \<Longrightarrow> sorted_wrt (<) (bytes_of fc ivs) \<and> (\<forall>x\<in>set (bytes_of fc ivs). \<exists>iv\<in>set ivs. fst iv \<le> x \<and> x < snd iv)"
  by (induction ivs) (fastforce simp: sorted_wrt_append)+

lemma dvd_length_bytes: "intervals_ok ivs \<Longrightarrow> 64 dvd fc \<Longrightarrow> 64 dvd length (bytes_of fc ivs)"
  by (induction ivs) (auto simp: min_def)

lemma length_bytes_le: "intervals_ok ivs \<Longrightarrow> length (bytes_of fc ivs) \<le> fc"
proof -
  assume "intervals_ok ivs"
  then have "distinct (bytes_of fc ivs)" using bytes_of_sorted strict_sorted_iff by blast
  moreover have "set (bytes_of fc ivs) \<subseteq> {0..<fc}" by (auto simp: bytes_of_def)
  ultimately show ?thesis by (metis card_mono distinct_card finite_atLeastLessThan card_atLeastLessThan minus_nat.diff_0)
qed

text \<open>The boundaries of the parts, as positions in the list of damaged bytes.\<close>

definition part_cut :: "nat \<Rightarrow> nat \<Rightarrow> nat \<Rightarrow> nat" where
  "part_cut ns N i = 64 * (i * N div ns)"

lemma part_cut_mono: "i \<le> j \<Longrightarrow> part_cut ns N i \<le> part_cut ns N j"
  by (simp add: part_cut_def div_le_mono)

lemma part_cut_step:
  assumes "0 < ns" and "ns \<le> N" and "N \<le> ns * m"
  shows "0 < part_cut ns N (i + 1) - part_cut ns N i \<and> part_cut ns N (i + 1) - part_cut ns N i \<le> 64 * m"
proof -
  have "(i * N + ns) div ns \<le> (i * N + N) div ns" by (rule div_le_mono) (use assms in simp)
  moreover have "(i * N + N) div ns \<le> (i * N + ns * m) div ns" by (rule div_le_mono) (use assms in simp)
  moreover have "(i * N + ns) div ns = i * N div ns + 1" "(i * N + ns * m) div ns = i * N div ns + m"
    using assms(1) by (simp_all add: div_add_self2)
  moreover have eq: "(i + 1) * N = i * N + N" by simp
  ultimately show ?thesis unfolding part_cut_def eq by auto
qed

lemma make_parts_spec:
  assumes "intervals_ok (pending p it)" and "bytes_of fc (pending p it) = drop (part_cut ns N i) B"
    and "fc \<le> U32_MAX" and "64 dvd fc" and "64 * N \<le> U32_MAX" and "0 < ns" and "ns < 2 ^ 15" and "i \<le> ns"
  shows "\<exists>new. make_parts fc (64 * N) ns i p it parts = Ok (parts @ new) \<and>
    map (bytes_of fc) new = map (\<lambda>j. sub_slice B (part_cut ns N j) (part_cut ns N (j + 1))) [i..<ns] \<and>
    list_all (list_all (piece_ok fc)) new"
  using assms(1,2,8)
proof (induction "ns - i" arbitrary: i p it parts)
  case 0
  then show ?case by (subst make_parts.simps) simp
next
  case (Suc k)
  let ?r = "part_cut ns N (i + 1) - part_cut ns N i"
  have i: "i < ns" using Suc.hyps(2) by simp
  have si: "split_interval 0 N ns j = Ok (j * N div ns)" if "j \<le> ns" for j
    using split_interval_ok [of 0 N ns j] assms(5-7) that by (simp add: U32_MAX_def)
  have le: "part_cut ns N j \<le> 64 * N" if "j \<le> ns" for j
    using part_cut_mono [OF that, of ns N] assms(6) by (simp add: part_cut_def)
  have "64 dvd ?r" by (simp add: part_cut_def)
  from fill_part_takes [OF Suc.prems(1) assms(3,4) this, of "[]"] obtain p' it' out where
    f: "fill_part fc p it ?r [] = Ok (p', it', out)" "bytes_of fc out = take ?r (bytes_of fc (pending p it))"
      "bytes_of fc (pending p' it') = drop ?r (bytes_of fc (pending p it))" "intervals_ok (pending p' it')"
      "list_all (piece_ok fc) out" by auto
  have m: "part_cut ns N i \<le> part_cut ns N (i + 1)" by (simp add: part_cut_mono)
  then have d: "bytes_of fc (pending p' it') = drop (part_cut ns N (i + 1)) B"
    using f(3) Suc.prems(2) by simp
  have k: "k = ns - (i + 1)" using Suc.hyps(2) by simp
  from Suc.hyps(1) [OF k f(4) d, of "parts @ [out]"] i obtain new where
    ih: "make_parts fc (64 * N) ns (i + 1) p' it' (parts @ [out]) = Ok ((parts @ [out]) @ new)"
      "map (bytes_of fc) new = map (\<lambda>j. sub_slice B (part_cut ns N j) (part_cut ns N (j + 1))) [i + 1..<ns]"
      "list_all (list_all (piece_ok fc)) new" by auto
  have "make_parts fc (64 * N) ns i p it parts = make_parts fc (64 * N) ns (i + 1) p' it' (parts @ [out])"
    using i si [of i] si [of "i + 1"] le [of i] le [of "i + 1"] m f(1) assms(5)
    by (subst make_parts.simps) (simp add: u32_nat_def usize_sub_def part_cut_def)
  moreover have "bytes_of fc out = sub_slice B (part_cut ns N i) (part_cut ns N (i + 1))"
    using f(2) Suc.prems(2) by (simp add: sub_slice_def take_drop)
  ultimately show ?case using ih f(5) i by (intro exI [of _ "out # new"]) (simp add: upt_conv_Cons)
qed

lemma sub_slice_adjacent: "a \<le> b \<Longrightarrow> b \<le> c \<Longrightarrow> sub_slice xs a b @ sub_slice xs b c = sub_slice xs a c"
  using take_add [of "b - a" "c - b" "drop a xs"] by (simp add: sub_slice_def)

lemma concat_cuts:
  assumes "mono c" and "i \<le> n"
  shows "concat (map (\<lambda>j. sub_slice B (c j) (c (j + 1))) [i..<n]) = sub_slice B (c i) (c n)"
  using assms(2)
proof (induction n rule: dec_induct)
  case (step n)
  have "c i \<le> c n" "c n \<le> c (Suc n)" using assms(1) step by (simp_all add: monoD)
  then show ?case using step by (simp add: sub_slice_adjacent)
qed (simp add: sub_slice_def)

lemma pieces_sorted:
  assumes "list_all (piece_ok fc) ivs" and "sorted_wrt (<) (bytes_of fc ivs)"
  shows "intervals_ok ivs"
  using assms
proof (induction ivs)
  case (Cons iv ivs)
  have "snd iv \<le> fst x" if x: "x \<in> set ivs" for x
  proof -
    have "snd iv - 1 \<in> set [fst iv..<min (snd iv) fc]" using Cons.prems(1) by (auto simp: piece_ok_def)
    moreover have "fst x \<in> set (bytes_of fc ivs)" using x Cons.prems(1)
      by (force simp: bytes_of_def piece_ok_def list_all_iff)
    ultimately have "snd iv - 1 < fst x" using Cons.prems(2) unfolding bytes_of_simps sorted_wrt_append by blast
    then show ?thesis by simp
  qed
  then show ?case using Cons by (simp add: piece_ok_def sorted_wrt_append)
qed simp

lemma bytes_of_part:
  assumes "sorted_wrt (<) (bytes_of fc (concat parts))" and "part \<in> set parts"
  shows "sorted_wrt (<) (bytes_of fc part)"
proof -
  obtain xs ys where "parts = xs @ part # ys" using assms(2) by (meson split_list)
  then show ?thesis using assms(1) by (simp add: sorted_wrt_append)
qed

lemma bytes_of_concat: "bytes_of fc (concat parts) = concat (map (bytes_of fc) parts)"
  by (induction parts) simp_all

definition last_chunk :: "nat \<Rightarrow> nat" where
  "last_chunk buf_size = 64 * (buf_size div 64)"

definition tail_damaged :: "(nat \<times> nat) list \<Rightarrow> nat \<Rightarrow> bool" where
  "tail_damaged ivs buf_size \<longleftrightarrow> (\<exists>iv\<in>set ivs. fst iv < buf_size \<and> last_chunk buf_size < snd iv)"

text \<open>The number of parts, and their sizes.\<close>

lemma shard_count:
  assumes "0 < N" and "64 * N \<le> U32_MAX"
  obtains ns where "ceildiv N (DIFF_CHUNKSIZE div 64) = Ok ns" and "0 < ns" and "ns < 2 ^ 15" and "ns \<le> N"
    and "N \<le> ns * 4096"
proof -
  let ?q = "(N + 4095) div 4096"
  have q: "div_ceil N 4096 = ?q" by (simp add: div_ceil_def)
  have "?q * 4096 + (N + 4095) mod 4096 = N + 4095" "(N + 4095) mod 4096 < 4096" by simp_all
  then have "N \<le> ?q * 4096" "0 < ?q" "?q \<le> N" using assms(1) by linarith+
  moreover have "?q < 2 ^ 15" using assms(2) by (intro less_mult_imp_div_less) (simp add: U32_MAX_def)
  ultimately have "0 < div_ceil N 4096" "div_ceil N 4096 < 2 ^ 15" "div_ceil N 4096 \<le> N" "N \<le> div_ceil N 4096 * 4096"
    unfolding q by blast+
  then show ?thesis using that [of "div_ceil N 4096"] by (simp add: ceildiv_def DIFF_CHUNKSIZE_def)
qed

lemma part_sizes:
  assumes "map (bytes_of fc) parts = map (\<lambda>j. sub_slice B (part_cut ns N j) (part_cut ns N (j + 1))) [0..<ns]"
    and "part \<in> set parts" and "length B = 64 * N" and "0 < ns" "ns \<le> N" "N \<le> ns * 4096"
  shows "0 < length (bytes_of fc part) \<and> length (bytes_of fc part) \<le> DIFF_CHUNKSIZE"
proof -
  have "bytes_of fc part \<in> set (map (bytes_of fc) parts)" using assms(2) by simp
  then obtain j where j: "j < ns" "bytes_of fc part = sub_slice B (part_cut ns N j) (part_cut ns N (j + 1))"
    unfolding assms(1) by auto
  have "part_cut ns N (j + 1) \<le> length B"
    using part_cut_mono [of "j + 1" ns ns N] j(1) assms(3,4) by (simp add: part_cut_def)
  then show ?thesis using part_cut_step [OF assms(4-6), of j] j(2) part_cut_mono [of j "j + 1" ns N]
    by (simp add: DIFF_CHUNKSIZE_def)
qed

lemma parts_bytes:
  assumes "map (bytes_of fc) parts = map (\<lambda>j. sub_slice B (part_cut ns N j) (part_cut ns N (j + 1))) [0..<ns]"
    and "length B = 64 * N" and "0 < ns"
  shows "bytes_of fc (concat parts) = B"
proof -
  have "mono (part_cut ns N)" by (simp add: mono_def part_cut_mono)
  then have "bytes_of fc (concat parts) = sub_slice B (part_cut ns N 0) (part_cut ns N ns)"
    unfolding bytes_of_concat assms(1) by (rule concat_cuts) simp
  then show ?thesis using assms(2,3) by (simp add: part_cut_def sub_slice_def)
qed

text \<open>If only the tail is damaged then there is a tail.\<close>

lemma tail_only:
  assumes "tail_damaged ivs buf_size" and "bytes_of (last_chunk buf_size) ivs = []"
  shows "0 < buf_size mod 64"
proof -
  let ?fc = "last_chunk buf_size"
  obtain iv where iv: "iv \<in> set ivs" "fst iv < buf_size" "?fc < snd iv"
    using assms(1) unfolding tail_damaged_def by blast
  have "\<forall>x\<in>set ivs. [fst x..<min (snd x) ?fc] = []" using assms(2) unfolding bytes_of_def by simp
  then have "[fst iv..<min (snd iv) ?fc] = []" using iv(1) by blast
  then have "?fc \<le> fst iv" using iv(3) by (auto simp: min_def)
  then have "?fc < buf_size" using iv(2) by simp
  then show ?thesis unfolding last_chunk_def by presburger
qed

lemma split_damage_ok:
  assumes "intervals_ok ivs" and "buf_size \<le> U32_MAX"
  defines "fc \<equiv> last_chunk buf_size"
  obtains trail parts where "split_damage ivs buf_size = Ok (trail, parts)"
    and "bytes_of fc (concat parts) = bytes_of fc ivs"
    and "trail = (if tail_damaged ivs buf_size then buf_size mod 64 else 0)"
    and "list_all (list_all (piece_ok fc)) parts"
    and "\<forall>part\<in>set parts. intervals_ok part \<and> length (bytes_of fc part) \<le> DIFF_CHUNKSIZE"
    and "(\<forall>part\<in>set parts. part \<noteq> []) \<or> parts = [[]] \<and> 0 < trail"
    and "tail_damaged ivs buf_size \<longrightarrow> parts \<noteq> []" and "length parts < 2 ^ 15"
proof -
  let ?B = "bytes_of fc ivs" and ?t = "tail_damaged ivs buf_size"
  have fc: "fc = 64 * (buf_size div 64)" "64 dvd fc" "fc \<le> U32_MAX" "fc \<le> buf_size"
    using assms(2) order_trans by (auto simp: fc_def last_chunk_def)
  obtain N where N: "length ?B = 64 * N" using dvd_length_bytes [OF assms(1) fc(2)] by blast
  have n: "64 * N \<le> U32_MAX" using length_bytes_le [OF assms(1), of fc] fc(3) N by simp
  have nd: "net_damage fc buf_size ivs 0 False = Ok (64 * N, ?t)"
    using net_damage_eq [OF assms(1) fc(1), of 0 False] n N
    by (simp add: tail_damaged_def fc_def U32_MAX_def USIZE_MAX_def)
  show ?thesis
  proof (cases "N = 0")
    case True
    have "0 < buf_size mod 64" if ?t using tail_only [OF that] N True by (simp add: fc_def)
    moreover have "split_damage ivs buf_size = Ok (if ?t then (buf_size mod 64, [[]]) else (0, []))"
      using nd True by (simp add: split_damage_def u32_nat_def fc(1) [symmetric])
    ultimately show ?thesis using that [of "if ?t then buf_size mod 64 else 0" "if ?t then [[]] else []"] N True
      by (cases ?t) simp_all
  next
    case False
    then obtain ns where ns: "ceildiv N (DIFF_CHUNKSIZE div 64) = Ok ns" "0 < ns" "ns < 2 ^ 15" "ns \<le> N" "N \<le> ns * 4096"
      using shard_count n by blast
    obtain parts where p: "make_parts fc (64 * N) ns 0 None ivs [] = Ok parts"
        "map (bytes_of fc) parts = map (\<lambda>j. sub_slice ?B (part_cut ns N j) (part_cut ns N (j + 1))) [0..<ns]"
        "list_all (list_all (piece_ok fc)) parts"
      using make_parts_spec [of None ivs fc ns N 0 ?B "[]"] assms(1) fc(2,3) n ns(2,3)
      by (auto simp: pending_def part_cut_def)
    have c: "bytes_of fc (concat parts) = ?B" by (rule parts_bytes [OF p(2) N ns(2)])
    note sz = part_sizes [OF p(2) _ N ns(2,4,5)]
    have srt: "sorted_wrt (<) (bytes_of fc (concat parts))" using bytes_of_sorted [OF assms(1)] by (simp add: c)
    have "intervals_ok part" if "part \<in> set parts" for part
      using pieces_sorted [OF _ bytes_of_part [OF srt that]] p(3) that by (simp add: list_all_iff)
    moreover have "part \<noteq> []" if "part \<in> set parts" for part using sz [OF that] by auto
    moreover have "split_damage ivs buf_size = Ok (if ?t then buf_size mod 64 else 0, parts)"
      using nd False ns(1) p(1) n by (simp add: split_damage_def u32_nat_def fc(1) [symmetric])
    moreover have "length parts = ns" using arg_cong [OF p(2), of length] by simp
    moreover from this have "parts \<noteq> []" "length parts < 2 ^ 15" using ns(2,3) by auto
    ultimately show ?thesis using sz by (intro that [OF _ c refl p(3)]) simp_all
  qed
qed

section \<open>Properties\<close>

text \<open>
  C27: \<open>split_damage\<close> partitions the damage. For disjoint, sorted intervals aligned to 64 bytes and a
  buffer whose size fits 32 bits it returns: no assertion fails, no 32-bit value overflows and the loops
  end. Concatenated, the parts have exactly the damaged bytes before the last multiple of 64, each once
  and in order; every part is again a sorted list of aligned intervals, is not empty unless there is only
  a tail, and has at most \<open>DIFF_CHUNKSIZE\<close> bytes. The tail is reported if an interval reaches it.
\<close>

theorem split_damage_partition:
  assumes "intervals_ok ivs" and "buf_size \<le> U32_MAX"
  shows "\<exists>trail parts. split_damage ivs buf_size = Ok (trail, parts) \<and>
    bytes_of (last_chunk buf_size) (concat parts) = bytes_of (last_chunk buf_size) ivs \<and>
    trail = (if tail_damaged ivs buf_size then buf_size mod 64 else 0) \<and>
    (\<forall>part\<in>set parts. intervals_ok part \<and> length (bytes_of (last_chunk buf_size) part) \<le> DIFF_CHUNKSIZE) \<and>
    ((\<forall>part\<in>set parts. part \<noteq> []) \<or> parts = [[]] \<and> 0 < trail) \<and>
    (tail_damaged ivs buf_size \<longrightarrow> parts \<noteq> [])"
  using split_damage_ok [OF assms] by metis

theorem split_damage_partition_witness:
  "intervals_ok [(0, 64), (128, 256)] \<and>
   (\<exists>trail parts. split_damage [(0, 64), (128, 256)] 200 = Ok (trail, parts) \<and>
      bytes_of 192 (concat parts) = [0..<64] @ [128..<192] \<and> trail = 8)"
  using split_damage_partition [of "[(0, 64), (128, 256)]" 200]
  by (auto simp: U32_MAX_def last_chunk_def tail_damaged_def)

end
