(* ===== verification/Buffer_Tasks.thy ===== *)
theory Buffer_Tasks
  imports Diff_Roundtrip Mirror Compress Split_Damage
begin

text \<open>
  Tasks that replicate a shared memory file, \<open>src/mainloop.rs\<close>: a \<open>DiffTask\<close> compares the file with its
  mirror and makes a \<open>BufferDiff\<close> message; on the other side a \<open>DecompTask\<close> turns a message into an
  \<open>ApplyTask\<close>, which updates the file and the mirror there. Tasks on Vulkan buffers are not modelled.

  \<open>construct_diff\<close> always returns (theory \<open>Diff_Returns\<close>), so its value is taken with \<open>the\<close>.
\<close>

section \<open>Files and ranges of their mirrors\<close>

record ShadowFdFileCore =
  mem_mirror :: MirrorState
  mapping :: bytes

text \<open>
  Borrow a range of the mirror, use its data, write them back and drop the range: the pattern
  \<open>let m = mirror.get_mut_range(a..b).ok_or(err)?; f(m.data)\<close>.
\<close>

definition with_range ::
  "MirrorState \<Rightarrow> nat \<times> nat \<Rightarrow> string \<Rightarrow> (bytes \<Rightarrow> ('a \<times> bytes) res) \<Rightarrow> ('a \<times> MirrorState) res" where
  "with_range st x err f =
     rbind (get_mut_range st x) (\<lambda>(ro, st).
     rbind (ok_or ro (Err err)) (\<lambda>r.
     rbind (range_read st r) (\<lambda>data.
     rbind (f data) (\<lambda>(v, data).
     rbind (range_write st r 0 data) (\<lambda>st.
     Ok (v, drop_range st r))))))"

section \<open>Making a diff\<close>

record DiffTask =
  dt_rid :: int
  dt_compression :: Compression
  dt_region :: "(nat \<times> nat) option"
  dt_intervals :: "(nat \<times> nat) list"
  dt_trailing :: nat

record ThreadCache =
  large :: bytes
  cache_comp :: ThreadCacheComp

definition diff_inner :: "DiffTask \<Rightarrow> ShadowFdFileCore \<Rightarrow> bytes \<Rightarrow> (nat \<times> nat \<times> bytes \<times> ShadowFdFileCore) res" where
  "diff_inner task core dst =
     (let buflen = length (mapping core) in
      rbind (case dt_region task of
          Some (start, e) \<Rightarrow>
            rbind (assert_that (start mod 64 = 0)) (\<lambda>_.
            rbind (assert_that (e mod 64 = 0)) (\<lambda>_.
            with_range (mem_mirror core) (start, e) ''Failed to acquire mirror for diff'' (\<lambda>data.
              rbind (the (construct_diff dst (mapping core) (dt_intervals task) data start)) (\<lambda>(n, dst, data).
              Ok ((as_u32_nat n, dst), data)))))
        | None \<Rightarrow> Ok ((0, dst), mem_mirror core)) (\<lambda>((diff_len, dst), m).
      rbind (if dt_trailing task > 0 then
          rbind (usize_sub buflen (dt_trailing task)) (\<lambda>tail_start.
          with_range m (tail_start, buflen) ''Failed to acquire trailing mirror'' (\<lambda>data.
            rbind (slice_res dst diff_len (length dst)) (\<lambda>rest.
            rbind (copy_tail_if_diff rest (mapping core) (dt_trailing task) data) (\<lambda>(changed, rest, data).
            Ok ((if changed then dt_trailing task else 0, take diff_len dst @ rest), data)))))
        else Ok ((0, dst), m)) (\<lambda>((ntrailing, dst), m).
      Ok (diff_len, ntrailing, dst, core\<lparr>mem_mirror := m\<rparr>))))"

fun diff_space :: "(nat \<times> nat) list \<Rightarrow> nat \<Rightarrow> nat res" where
  "diff_space [] diffspace = Ok diffspace"
| "diff_space (t # ts) diffspace =
     rbind (u32_nat (8 + snd t)) (\<lambda>a.
     rbind (usize_sub a (fst t)) (\<lambda>b.
     rbind (u32_nat (diffspace + b)) (\<lambda>diffspace. diff_space ts diffspace)))"

text \<open>The end of \<open>run_diff_task\<close>: cut the message to its padded length, clear the padding, write the header.\<close>

definition finish_diff_msg :: "DiffTask \<Rightarrow> bytes \<Rightarrow> nat \<Rightarrow> nat \<Rightarrow> nat \<Rightarrow> bytes res" where
  "finish_diff_msg task msg unpadded_len diff_len ntrailing =
     rbind (align4 unpadded_len) (\<lambda>padded.
     rbind (assert_that (length msg \<ge> padded)) (\<lambda>_.
     let msg = take padded msg in
     rbind (write_at_res msg unpadded_len (replicate (padded - unpadded_len) 0)) (\<lambda>msg.
     rbind (build_wmsg_header BufferDiff unpadded_len) (\<lambda>h.
     let header = cat4x4 (u32_to_le_bytes h) (i32_to_le_bytes (dt_rid task))
                    (u32_to_le_bytes (word_of_nat diff_len)) (u32_to_le_bytes (word_of_nat ntrailing)) in
     write_at_res msg 0 header))))"

definition run_diff_task ::
  "compress_lib \<Rightarrow> DiffTask \<Rightarrow> ShadowFdFileCore \<Rightarrow> ThreadCache \<Rightarrow> (bytes \<times> ShadowFdFileCore \<times> ThreadCache) res" where
  "run_diff_task lib task core cache =
     rbind (diff_space (dt_intervals task) 0) (\<lambda>diffspace.
     rbind (u32_nat (diffspace + dt_trailing task)) (\<lambda>space.
     case dt_compression task of
       NoCompression \<Rightarrow>
         rbind (align4 space) (\<lambda>n.
         let buf = replicate (n + 16) 0 in
         rbind (slice_res buf 16 (16 + space)) (\<lambda>dst.
         rbind (diff_inner task core dst) (\<lambda>(diff_len, ntrailing, dst, core).
         if diff_len = 0 \<and> ntrailing = 0 then Ok ([], core, cache)
         else
           rbind (u32_nat (diff_len + ntrailing)) (\<lambda>raw_len.
           rbind (finish_diff_msg task (write_at buf 16 dst) (16 + raw_len) diff_len ntrailing) (\<lambda>msg.
           Ok (msg, core, cache))))))
     | _ \<Rightarrow>
         let big = large cache @ replicate (max (length (large cache)) space - length (large cache)) 0 in
         rbind (slice_res big 0 space) (\<lambda>dst.
         rbind (diff_inner task core dst) (\<lambda>(diff_len, ntrailing, dst, core).
         let big = write_at big 0 dst in
         if diff_len = 0 \<and> ntrailing = 0 then Ok ([], core, cache\<lparr>large := big\<rparr>)
         else
           rbind (u32_nat (diff_len + ntrailing)) (\<lambda>raw_len.
           rbind (slice_res big 0 raw_len) (\<lambda>raw.
           rbind (comp_into_vec lib (dt_compression task) (cache_comp cache) raw 16 4) (\<lambda>(nxt, cc).
           rbind (usize_sub (length nxt) 20) (\<lambda>sz.
           rbind (finish_diff_msg task nxt (16 + sz) diff_len ntrailing) (\<lambda>msg.
           Ok (msg, core, \<lparr>large = big, cache_comp = cc\<rparr>))))))))))"

section \<open>Decompressing a message\<close>

datatype DecompTarget = DecompFile bool | DecompMirrorOnly bool

record DecompTask =
  dc_sequence :: "nat option"
  msg_view :: bytes
  dc_file_size :: nat
  dc_compression :: Compression
  dc_target :: DecompTarget

record ApplyTask =
  ap_sequence :: nat
  ap_remote_id :: int
  ap_data :: bytes
  is_diff_type :: bool
  ap_ntrailing :: nat
  ap_target :: DecompTarget
  region_start :: nat
  region_end :: nat

definition msg_u32 :: "bytes \<Rightarrow> nat \<Rightarrow> u32 res" where
  "msg_u32 msg p = rbind (slice_res msg p (p + 4)) (\<lambda>b. Ok (u32_from_le_bytes b))"

definition decomp_diff ::
  "compress_lib \<Rightarrow> DecompTask \<Rightarrow> nat \<Rightarrow> int \<Rightarrow> ThreadCacheComp \<Rightarrow> (ApplyTask \<times> ThreadCacheComp) res" where
  "decomp_diff lib task len remote_id cache =
     rbind (msg_u32 (msg_view task) 8) (\<lambda>diff_size.
     rbind (msg_u32 (msg_view task) 12) (\<lambda>ntrailing.
     rbind (slice_res (msg_view task) 16 len) (\<lambda>body.
     rbind (u32_nat (unat diff_size + unat ntrailing)) (\<lambda>n.
     rbind (decomp_into_vec lib (dc_compression task) cache body n) (\<lambda>(diff, cache).
     rbind (compute_diff_span diff (unat ntrailing) (dc_file_size task)) (\<lambda>(rs, re).
     rbind (ok_or (dc_sequence task) Panic) (\<lambda>s.
     Ok (\<lparr>ap_sequence = s, ap_remote_id = remote_id, ap_data = diff, is_diff_type = True,
          ap_ntrailing = unat ntrailing, ap_target = dc_target task, region_start = rs, region_end = re\<rparr>, cache))))))))"

definition decomp_fill ::
  "compress_lib \<Rightarrow> DecompTask \<Rightarrow> nat \<Rightarrow> int \<Rightarrow> ThreadCacheComp \<Rightarrow> (ApplyTask \<times> ThreadCacheComp) res" where
  "decomp_fill lib task len remote_id cache =
     rbind (msg_u32 (msg_view task) 8) (\<lambda>rs.
     rbind (msg_u32 (msg_view task) 12) (\<lambda>re.
     if unat re \<le> unat rs then fail ''Invalid region: {} {}''
     else
       let reg_len = unat re - unat rs in
       rbind (slice_res (msg_view task) 16 len) (\<lambda>body.
       rbind (decomp_into_vec lib (dc_compression task) cache body reg_len) (\<lambda>(fill, cache).
       rbind (ok_or (dc_sequence task) Panic) (\<lambda>s.
       Ok (\<lparr>ap_sequence = s, ap_remote_id = remote_id, ap_data = fill, is_diff_type = False,
            ap_ntrailing = 0, ap_target = dc_target task, region_start = unat rs, region_end = unat re\<rparr>, cache))))))"

definition run_decomp_task ::
  "compress_lib \<Rightarrow> DecompTask \<Rightarrow> ThreadCacheComp \<Rightarrow> (ApplyTask \<times> ThreadCacheComp) res" where
  "run_decomp_task lib task cache =
     rbind (msg_u32 (msg_view task) 0) (\<lambda>header.
     rbind (ok_or (parse_wmsg_header header) Panic) (\<lambda>(len, t).
     rbind (slice_res (msg_view task) 4 8) (\<lambda>b.
     let remote_id = i32_from_le_bytes b in
     if t = BufferDiff then decomp_diff lib task len remote_id cache
     else if t = BufferFill then decomp_fill lib task len remote_id cache
     else panic)))"

section \<open>Applying it\<close>

datatype TaskOutput = MirrorApply | Msg bytes | ApplyDone int

definition run_apply_mirror :: "ApplyTask \<Rightarrow> MirrorState \<Rightarrow> bool \<Rightarrow> (TaskOutput \<times> MirrorState) res" where
  "run_apply_mirror task m notify_on_completion =
     rbind (with_range m (region_start task, region_end task) ''Failed to get mirror segment'' (\<lambda>data.
       if is_diff_type task
       then rbind (apply_diff_one (ap_data task) (ap_ntrailing task) (region_start task) data) (\<lambda>data. Ok ((), data))
       else rbind (assert_that (length data = length (ap_data task))) (\<lambda>_. Ok ((), ap_data task)))) (\<lambda>(_, m).
     Ok (if notify_on_completion then ApplyDone (ap_remote_id task) else MirrorApply, m))"

definition run_apply_shm :: "ApplyTask \<Rightarrow> ShadowFdFileCore \<Rightarrow> bool \<Rightarrow> (TaskOutput \<times> ShadowFdFileCore) res" where
  "run_apply_shm task core skip_mirror =
     (if is_diff_type task then
        rbind (with_range (mem_mirror core) (region_start task, region_end task)
            ''Failed to acquire mirror range {}..{} when applying'' (\<lambda>data.
          apply_diff (ap_data task) (ap_ntrailing task) (mapping core) (region_start task) data)) (\<lambda>(fd, m).
        Ok (ApplyDone (ap_remote_id task), \<lparr>mem_mirror = m, mapping = fd\<rparr>))
      else
        rbind (copy_onto_mapping (ap_data task) (mapping core) (region_start task)) (\<lambda>fd.
        rbind (if \<not> skip_mirror then
            with_range (mem_mirror core) (region_start task, region_end task)
              ''Failed to acquire mirror range {}..{} when applying'' (\<lambda>data.
              rbind (assert_that (length data = length (ap_data task))) (\<lambda>_. Ok ((), ap_data task)))
          else Ok ((), mem_mirror core)) (\<lambda>(_, m).
        Ok (ApplyDone (ap_remote_id task), \<lparr>mem_mirror = m, mapping = fd\<rparr>))))"

definition run_apply_task :: "ApplyTask \<Rightarrow> ShadowFdFileCore \<Rightarrow> (TaskOutput \<times> ShadowFdFileCore) res" where
  "run_apply_task task core =
     (case ap_target task of
        DecompFile skip_mirror \<Rightarrow> run_apply_shm task core skip_mirror
      | DecompMirrorOnly notify \<Rightarrow>
          rbind (run_apply_mirror task (mem_mirror core) notify) (\<lambda>(o1, m). Ok (o1, core\<lparr>mem_mirror := m\<rparr>)))"

end
