(* ===== verification/Diff_Messages.thy ===== *)
theory Diff_Messages
  imports Buffer_Tasks
begin

text \<open>
  What the tasks of theory \<open>Buffer_Tasks\<close> do together: the message of a diff task carries the
  segments and the tail that turn the old contents of the file into the new ones, whatever the
  compression, and decompressing and applying it brings the file and the mirror of the other side
  to the same contents.
\<close>

section \<open>Borrowing a range of an unborrowed mirror\<close>

abbreviation mbytes :: "MirrorState \<Rightarrow> bytes" where
  "mbytes st \<equiv> backing_bytes (backing st)"

definition idle_mirror :: "MirrorState \<Rightarrow> bytes \<Rightarrow> bool" where
  "idle_mirror st bs \<longleftrightarrow> mirror_inv st \<and> ranges st = [] \<and> mbytes st = bs"

lemma with_range_ok:
  assumes "idle_mirror st bs" and "a < b" and "b \<le> length bs"
    and "f (sub_slice bs a b) = Ok (v, d)" and "length d = b - a"
  shows "\<exists>st'. with_range st (a, b) err f = Ok (v, st') \<and> idle_mirror st' (write_at bs a d)"
proof -
  let ?r = "\<lparr>span = (a, b)\<rparr>" and ?st = "st\<lparr>ranges := [(a, b)]\<rparr>"
  have st: "mirror_inv st" "ranges st = []" "mbytes st = bs" "region_size st = length bs"
    using assms(1) by (auto simp: idle_mirror_def mirror_inv_def)
  have g: "get_mut_range st (a, b) = Ok (Some ?r, ?st)"
    using st(1) by (cases rule: get_mut_range_cases [where x = "(a, b)"]) (use st assms(2,3) in \<open>auto simp: List.insert_def\<close>)
  have inv: "mirror_inv ?st" using get_mut_range_inv [OF st(1) g] .
  have w: "range_write ?st ?r 0 d = Ok (backing_put ?st (write_at bs a d))"
    using assms(2,3,5) st(3) by (simp add: range_write_def)
  then have inv': "mirror_inv (backing_put ?st (write_at bs a d))"
    using range_write_inv [OF inv, of ?r 0 d] st assms(3) by (simp add: borrowed_def)
  have "with_range st (a, b) err f = Ok (v, drop_range (backing_put ?st (write_at bs a d)) ?r)"
    using g w assms(3,4) st(3) by (simp add: with_range_def ok_or_def range_read_def)
  moreover have "idle_mirror (drop_range (backing_put ?st (write_at bs a d)) ?r) (write_at bs a d)"
    using drop_range_inv [OF inv', of ?r] by (simp add: idle_mirror_def drop_range_def)
  ultimately show ?thesis by blast
qed

section \<open>What a task updates\<close>

text \<open>\<open>merge\<close> takes the bytes at the positions in \<open>P\<close> from the file and the others from the old contents.\<close>

definition merge :: "bytes \<Rightarrow> bytes \<Rightarrow> (nat \<Rightarrow> bool) \<Rightarrow> bytes" where
  "merge new old P = map (\<lambda>i. if P i then new ! i else old ! i) [0..<length old]"

lemma length_merge [simp]: "length (merge new old P) = length old"
  by (simp add: merge_def)

lemma nth_merge [simp]: "i < length old \<Longrightarrow> merge new old P ! i = (if P i then new ! i else old ! i)"
  by (simp add: merge_def)

lemma merge_merge: "merge new (merge new old P) Q = merge new old (\<lambda>i. P i \<or> Q i)"
  by (rule nth_equalityI) auto

lemma merge_eq_old: "(\<And>i. i < length old \<Longrightarrow> P i \<Longrightarrow> new ! i = old ! i) \<Longrightarrow> merge new old P = old"
  by (rule nth_equalityI) auto

lemma merge_cong: "(\<And>i. i < length old \<Longrightarrow> P i = Q i) \<Longrightarrow> merge new old P = merge new old Q"
  by (rule nth_equalityI) auto

definition touched :: "(nat \<times> nat) list \<Rightarrow> nat \<Rightarrow> bool" where
  "touched ivs i \<longleftrightarrow> (\<exists>iv\<in>set ivs. fst iv \<le> i \<and> i < snd iv)"

lemma region_update_merge:
  assumes "\<forall>iv\<in>set ivs. interval_ok s fd (sub_slice old s e) iv" and "s \<le> e" and "e \<le> length old" and "length fd = length old"
  shows "write_at old s (region_update s fd ivs (sub_slice old s e)) = merge fd old (touched ivs)"
proof (rule nth_equalityI)
  have l: "length (region_update s fd ivs (sub_slice old s e)) = e - s"
    using length_region_update [OF assms(1)] assms(2,3) by simp
  then show len: "length (write_at old s (region_update s fd ivs (sub_slice old s e))) = length (merge fd old (touched ivs))"
    using assms(2,3) by simp
  fix i assume "i < length (write_at old s (region_update s fd ivs (sub_slice old s e)))"
  then have i: "i < length old" using len by simp
  have out: "\<not> touched ivs i" if "i < s \<or> e \<le> i"
    using assms(1-3) that by (auto simp: touched_def interval_ok_def)
  have ins: "region_update s fd ivs (sub_slice old s e) ! (i - s) = (if touched ivs i then fd ! i else old ! i)" if "s \<le> i" "i < e"
  proof -
    have "i - s < e - s" using that by linarith
    moreover from nth_slice [OF assms(2,3) this] have "sub_slice old s e ! (i - s) = old ! i" using that by simp
    ultimately show ?thesis using nth_region_update [OF assms(1), of "i - s"] that assms(2,3)
      by (simp add: touched_def cong: if_cong)
  qed
  show "write_at old s (region_update s fd ivs (sub_slice old s e)) ! i = merge fd old (touched ivs) ! i"
    using i l out ins assms(2,3) by (cases "s \<le> i \<and> i < e") (auto simp: nth_write_at)
qed

text \<open>A task as \<open>collect_updates\<close> makes it, for a file of \<open>n\<close> bytes.\<close>

definition task_ok :: "nat \<Rightarrow> DiffTask \<Rightarrow> bool" where
  "task_ok n task \<longleftrightarrow>
     intervals_ok (dt_intervals task) \<and> list_all (piece_ok (last_chunk n)) (dt_intervals task) \<and>
     length (bytes_of (last_chunk n) (dt_intervals task)) \<le> DIFF_CHUNKSIZE \<and>
     dt_region task = (if dt_intervals task = [] then None
       else Some (fst (hd (dt_intervals task)), snd (last (dt_intervals task)))) \<and>
     (dt_trailing task = 0 \<or> dt_trailing task = n mod 64)"

definition in_task :: "nat \<Rightarrow> DiffTask \<Rightarrow> nat \<Rightarrow> bool" where
  "in_task n task i \<longleftrightarrow> touched (dt_intervals task) i \<or> 0 < dt_trailing task \<and> n - dt_trailing task \<le> i"

lemma last_chunk_le: "last_chunk n \<le> n" "64 dvd last_chunk n" "n - n mod 64 = last_chunk n" "last_chunk n + n mod 64 = n"
  by (simp_all add: last_chunk_def minus_mod_eq_mult_div)

lemma sorted_region:
  assumes "intervals_ok ivs" and "ivs \<noteq> []" and "iv \<in> set ivs"
  shows "fst (hd ivs) \<le> fst iv \<and> snd iv \<le> snd (last ivs)"
  using assms
proof (induction ivs)
  case (Cons x xs)
  show ?case
  proof (cases "xs = []")
    case False
    have "snd x \<le> fst (last xs)" "fst (last xs) < snd (last xs)" using Cons.prems(1) False by (auto simp: intervals_ok_def)
    then have "snd x \<le> snd (last xs)" by simp
    moreover have "fst x < snd x" "\<forall>y\<in>set xs. snd x \<le> fst y" "intervals_ok xs" using Cons.prems(1) by simp_all
    moreover have "snd iv \<le> snd (last xs) \<and> snd x \<le> fst iv" if "iv \<noteq> x"
      using Cons.IH Cons.prems(3) False that calculation(3,4) by simp
    ultimately show ?thesis using False by (cases "iv = x") simp_all
  qed (use Cons in simp)
qed simp

lemma region_intervals_ok:
  assumes "intervals_ok ivs" and "list_all (piece_ok fc) ivs" and "ivs \<noteq> []" and "fc \<le> length old" and "length fd = length old"
  defines "s \<equiv> fst (hd ivs)" and "e \<equiv> snd (last ivs)"
  shows "\<forall>iv\<in>set ivs. interval_ok s fd (sub_slice old s e) iv" and "s < e" and "e \<le> fc" and "64 dvd s" and "64 dvd e"
proof -
  have pc: "piece_ok fc iv" if "iv \<in> set ivs" for iv using assms(2) that by (simp add: list_all_iff)
  note h = pc [OF hd_in_set [OF assms(3)]] and l = pc [OF last_in_set [OF assms(3)]]
  show se: "s < e" using sorted_region [OF assms(1,3) hd_in_set [OF assms(3)]] h by (auto simp: s_def e_def piece_ok_def)
  show e: "e \<le> fc" "64 dvd s" "64 dvd e" using h l by (auto simp: s_def e_def piece_ok_def)
  show "\<forall>iv\<in>set ivs. interval_ok s fd (sub_slice old s e) iv"
  proof
    fix iv assume iv: "iv \<in> set ivs"
    show "interval_ok s fd (sub_slice old s e) iv"
      using pc [OF iv] sorted_region [OF assms(1,3) iv] se e assms(4,5) by (auto simp: interval_ok_def piece_ok_def s_def e_def)
  qed
qed

text \<open>\<open>write_at\<close> with the tail of the file is a merge as well.\<close>

lemma write_tail_merge:
  assumes "length fd = length old" and "k \<le> length old"
  shows "write_at old k (drop k fd) = merge fd old (\<lambda>i. k \<le> i)"
  using assms by (intro nth_equalityI) (auto simp: nth_write_at)

section \<open>The diff of a task\<close>

lemma slice_decomp:
  assumes "a \<le> b"
  shows "take a xs @ sub_slice xs a b @ drop b xs = xs"
proof -
  have "take b xs = take a xs @ sub_slice xs a b" using take_add [of a "b - a" xs] assms by (simp add: sub_slice_def)
  then show ?thesis using append_take_drop_id [of b xs] by simp
qed

text \<open>The segments \<open>sgs\<close> and the tail \<open>t\<close> turn the contents \<open>old\<close> into \<open>new\<close>.\<close>

definition diff_of :: "segment list \<Rightarrow> bytes \<Rightarrow> bytes \<Rightarrow> bytes \<Rightarrow> bool" where
  "diff_of sgs t old new \<longleftrightarrow>
     (\<forall>sg\<in>set sgs. seg_ok 0 (last_chunk (length old) div 4) sg) \<and> (t = [] \<or> length t = length old mod 64) \<and>
     new = write_at (patch 0 sgs old) (length old - length t) t"

lemma length_patch_0:
  assumes "\<forall>sg\<in>set sgs. seg_ok 0 hi sg" and "4 * hi \<le> length old"
  shows "length (patch 0 sgs old) = length old"
  using patch_embed [of sgs 0 hi "[]" old "[]"] assms by simp

lemma region_diff:
  assumes ok: "intervals_ok ivs" "list_all (piece_ok (last_chunk n)) ivs" "ivs \<noteq> []"
    and m: "idle_mirror m old" "length old = n" "length fd = n"
    and b: "n + 8 \<le> U32_MAX" "diff_room ivs \<le> length dst" "length dst \<le> U32_MAX"
  defines "s \<equiv> fst (hd ivs)" and "e \<equiv> snd (last ivs)"
  shows "\<exists>sgs dst' m'. with_range m (s, e) err (\<lambda>data.
      rbind (the (construct_diff dst fd ivs data s)) (\<lambda>(n, dst, data). Ok ((as_u32_nat n, dst), data)))
      = Ok ((length (enc_segs sgs), dst'), m') \<and>
    length dst' = length dst \<and> take (length (enc_segs sgs)) dst' = enc_segs sgs \<and>
    idle_mirror m' (merge fd old (touched ivs)) \<and> diff_of sgs [] old (merge fd old (touched ivs)) \<and>
    length (enc_segs sgs) \<le> diff_room ivs"
proof -
  have fc: "last_chunk n \<le> length old" using last_chunk_le(1) m(2) by simp
  note r = region_intervals_ok [OF ok fc, of fd, folded s_def e_def]
  have se: "s < e" "e \<le> length old" "64 dvd s" "64 dvd e" "e \<le> last_chunk n" using r fc m by simp_all
  let ?r = "sub_slice old s e"
  have lr: "length ?r = e - s" using se by simp
  have d4: "s + length ?r + 8 \<le> U32_MAX" "4 dvd s" using se b(1) m(2) lr by (auto intro: dvd_trans [of 4 64])
  then have s4: "4 * (s div 4) = s" by simp
  from construct_diff_loop_spec [OF r(1) d4(2,1), of 0 dst] m b(2) obtain sgs d' where
    c: "construct_diff dst fd ivs ?r s = Some (Ok (length (enc_segs sgs), d', region_update s fd ivs ?r))"
      "length d' = length dst" "take (length (enc_segs sgs)) d' = enc_segs sgs" "patch s sgs ?r = region_update s fd ivs ?r"
      "\<forall>sg\<in>set sgs. seg_ok (s div 4) ((s + length ?r) div 4) sg" "length (enc_segs sgs) \<le> diff_room ivs"
    by (auto simp: construct_diff_def)
  have len: "length (enc_segs sgs) \<le> U32_MAX" using arg_cong [OF c(3), of length] c(2) b(3) by simp
  have new: "write_at old s (region_update s fd ivs ?r) = merge fd old (touched ivs)"
    using region_update_merge [OF r(1)] se m by simp
  have "patch 0 sgs old = take s old @ region_update s fd ivs ?r @ drop e old"
  proof -
    have "old = take s old @ ?r @ drop e old" using slice_decomp [of s e old] se(1) by simp
    then show ?thesis using patch_embed [of sgs "s div 4" "(s + length ?r) div 4" "take s old" ?r "drop e old"] c(4,5) se lr s4
      by simp
  qed
  moreover have lu: "length (region_update s fd ivs ?r) = e - s" using length_region_update [OF r(1)] m lr by simp
  ultimately have p: "patch 0 sgs old = merge fd old (touched ivs)" using new se by (simp add: write_at_def)
  have hi: "(s + length ?r) div 4 \<le> last_chunk (length old) div 4"
    using se(1,5) m(2) lr by (intro div_le_mono) simp
  have "seg_ok 0 (last_chunk (length old) div 4) sg" if "sg \<in> set sgs" for sg
    using c(5) that by (intro seg_ok_mono [OF _ le0 hi]) blast
  then have d: "diff_of sgs [] old (merge fd old (touched ivs))" using p by (simp add: diff_of_def write_at_def)
  let ?f = "\<lambda>data. rbind (the (construct_diff dst fd ivs data s)) (\<lambda>(n, dst, data). Ok ((as_u32_nat n, dst), data))"
  have "?f ?r = Ok ((length (enc_segs sgs), d'), region_update s fd ivs ?r)" using c(1) len by (simp add: as_u32_nat_id)
  from with_range_ok [where f = ?f, OF m(1) se(1,2) this lu, of err] c(2,3,6) d new show ?thesis by auto
qed

lemma tail_diff:
  assumes m: "idle_mirror m old" "length old = n" "length fd = n" and tr: "0 < tr" "tr \<le> n" and k: "k + tr \<le> length dst"
  shows "\<exists>dst' m'. with_range m (n - tr, n) err (\<lambda>data.
      rbind (slice_res dst k (length dst)) (\<lambda>rest.
      rbind (copy_tail_if_diff rest fd tr data) (\<lambda>(changed, rest, data).
      Ok ((if changed then tr else 0, take k dst @ rest), data))))
      = Ok ((if drop (n - tr) fd \<noteq> drop (n - tr) old then tr else 0, dst'), m') \<and>
    length dst' = length dst \<and> take (k + tr) dst' = take k dst @ drop (n - tr) fd \<and>
    idle_mirror m' (merge fd old (\<lambda>i. n - tr \<le> i))"
proof -
  let ?t = "drop (n - tr) fd"
  let ?f = "\<lambda>data. rbind (slice_res dst k (length dst)) (\<lambda>rest.
      rbind (copy_tail_if_diff rest fd tr data) (\<lambda>(changed, rest, data).
      Ok ((if changed then tr else 0, take k dst @ rest), data)))"
  have old: "sub_slice old (n - tr) n = drop (n - tr) old" using m(2) tr by (simp add: sub_slice_def)
  have "slice_res dst k (length dst) = Ok (drop k dst)" using k by (simp add: slice_res_def sub_slice_def)
  then have "?f (sub_slice old (n - tr) n) =
      Ok ((if ?t \<noteq> drop (n - tr) old then tr else 0, take k dst @ write_at (drop k dst) 0 ?t), ?t)"
    using m(2,3) tr k unfolding old by (simp add: copy_tail_if_diff_def usize_sub_def)
  moreover have "length ?t = n - (n - tr)" "n - tr < n" "n \<le> length old" using m(2,3) tr by simp_all
  ultimately obtain m' where w: "with_range m (n - tr, n) err ?f =
      Ok ((if ?t \<noteq> drop (n - tr) old then tr else 0, take k dst @ write_at (drop k dst) 0 ?t), m')"
    "idle_mirror m' (write_at old (n - tr) ?t)"
    using with_range_ok [where f = ?f, OF m(1)] by blast
  have "write_at old (n - tr) ?t = merge fd old (\<lambda>i. n - tr \<le> i)" using m(2,3) by (intro write_tail_merge) simp_all
  moreover have "take (k + tr) (take k dst @ write_at (drop k dst) 0 ?t) = take k dst @ ?t"
    using k tr m(3) by (simp add: write_at_def)
  moreover have "length (take k dst @ write_at (drop k dst) 0 ?t) = length dst" using k tr m(3) by simp
  ultimately show ?thesis using w by auto
qed

lemma touched_before: "list_all (piece_ok fc) ivs \<Longrightarrow> touched ivs i \<Longrightarrow> i < fc"
  by (auto simp: touched_def list_all_iff piece_ok_def)

lemma merge_drop:
  assumes "\<And>i. P i \<Longrightarrow> i < k"
  shows "drop k (merge fd old P) = drop k old"
proof (rule nth_equalityI)
  fix i assume i: "i < length (drop k (merge fd old P))"
  have "\<not> P (k + i)" using assms [of "k + i"] by auto
  then show "drop k (merge fd old P) ! i = drop k old ! i" using i by simp
qed simp

text \<open>If the tails agree then merging them changes nothing.\<close>

lemma merge_same_tail:
  assumes "drop k fd = drop k old" and "length fd = length old"
  shows "merge fd old (\<lambda>i. k \<le> i) = old"
proof (rule merge_eq_old)
  fix i assume "i < length old" "k \<le> i"
  then show "fd ! i = old ! i" using arg_cong [OF assms(1), of "\<lambda>xs. xs ! (i - k)"] assms(2) by simp
qed

lemma diff_inner_ok:
  assumes task: "task_ok n task" and m: "idle_mirror (mem_mirror core) old" "length old = n" "length (mapping core) = n"
    and b: "n + 8 \<le> U32_MAX" "length dst = diff_room (dt_intervals task) + dt_trailing task" "length dst \<le> U32_MAX"
  defines "new \<equiv> merge (mapping core) old (in_task n task)"
  shows "\<exists>sgs t dst' core'. diff_inner task core dst = Ok (length (enc_segs sgs), length t, dst', core') \<and>
    length dst' = length dst \<and> take (length (enc_segs sgs) + length t) dst' = enc_segs sgs @ t \<and>
    mapping core' = mapping core \<and> idle_mirror (mem_mirror core') new \<and> diff_of sgs t old new"
proof -
  let ?ivs = "dt_intervals task" and ?tr = "dt_trailing task" and ?fd = "mapping core"
  let ?mid = "merge ?fd old (touched ?ivs)"
  have ok: "intervals_ok ?ivs" "list_all (piece_ok (last_chunk n)) ?ivs" and tr: "?tr = 0 \<or> ?tr = n mod 64"
    using task by (simp_all add: task_ok_def)
  obtain sgs dst1 m1 where r: "(case dt_region task of
      Some (start, e) \<Rightarrow>
        rbind (assert_that (start mod 64 = 0)) (\<lambda>_.
        rbind (assert_that (e mod 64 = 0)) (\<lambda>_.
        with_range (mem_mirror core) (start, e) ''Failed to acquire mirror for diff'' (\<lambda>data.
          rbind (the (construct_diff dst ?fd ?ivs data start)) (\<lambda>(n, dst, data).
          Ok ((as_u32_nat n, dst), data)))))
    | None \<Rightarrow> Ok ((0, dst), mem_mirror core)) = Ok ((length (enc_segs sgs), dst1), m1)"
    "length dst1 = length dst" "take (length (enc_segs sgs)) dst1 = enc_segs sgs" "idle_mirror m1 ?mid" "diff_of sgs [] old ?mid"
    "length (enc_segs sgs) \<le> diff_room ?ivs"
  proof (cases "?ivs = []")
    case True
    then have "?mid = old" by (intro merge_eq_old) (simp add: touched_def)
    then show ?thesis using that [of "[]" dst "mem_mirror core"] True task m(1)
      by (simp add: task_ok_def diff_of_def write_at_def)
  next
    case False
    note rg = region_diff [OF ok False m b(1) _ b(3), of "''Failed to acquire mirror for diff''"]
    note iv = region_intervals_ok(4,5) [OF ok False _ , of old ?fd]
    show ?thesis using rg iv that False task b(2) last_chunk_le(1) [of n] m(2,3) by (auto simp: task_ok_def)
  qed
  show ?thesis
  proof (cases "?tr = 0")
    case True
    then have "new = ?mid" unfolding new_def by (intro merge_cong) (simp add: in_task_def)
    then show ?thesis using r True 
      by (intro exI [of _ sgs] exI [of _ "[]"] exI [of _ dst1] exI [of _ "core\<lparr>mem_mirror := m1\<rparr>"])
        (simp add: diff_inner_def Let_def)
  next
    case False
    then have t: "?tr = n mod 64" "0 < ?tr" "?tr \<le> n" "n - ?tr = last_chunk n" using tr last_chunk_le(3) [of n] by auto
    let ?k = "length (enc_segs sgs)" and ?t = "drop (n - ?tr) ?fd"
    let ?ch = "?t \<noteq> drop (n - ?tr) ?mid"
    have nw: "new = merge ?fd ?mid (\<lambda>i. n - ?tr \<le> i)"
      unfolding new_def merge_merge using t(2) by (intro merge_cong) (auto simp: in_task_def)
    obtain dst2 m2 where w: "with_range m1 (n - ?tr, n) ''Failed to acquire trailing mirror'' (\<lambda>data.
        rbind (slice_res dst1 ?k (length dst1)) (\<lambda>rest.
        rbind (copy_tail_if_diff rest ?fd ?tr data) (\<lambda>(changed, rest, data).
        Ok ((if changed then ?tr else 0, take ?k dst1 @ rest), data)))) = Ok ((if ?ch then ?tr else 0, dst2), m2)"
      "length dst2 = length dst1" "take (?k + ?tr) dst2 = take ?k dst1 @ ?t" "idle_mirror m2 new"
      using tail_diff [OF r(4) _ m(3) t(2,3), of ?k dst1 "''Failed to acquire trailing mirror''"] m(2) r(2,6) b(2)
      unfolding nw by auto
    let ?t' = "if ?ch then ?t else []"
    have lt: "length ?t = ?tr" using m(3) t(3) by simp
    have "diff_of sgs ?t' old new"
    proof (cases ?ch)
      case True
      have "write_at ?mid (n - ?tr) ?t = new" unfolding nw using m by (intro write_tail_merge) simp_all
      moreover have "patch 0 sgs old = ?mid" "\<forall>sg\<in>set sgs. seg_ok 0 (last_chunk n div 4) sg"
        using r(5) m(2) by (simp_all add: diff_of_def write_at_def)
      ultimately show ?thesis using True t(1) m(2) lt by (simp add: diff_of_def del: length_drop)
    next
      case False
      then have "new = ?mid" unfolding nw using m by (intro merge_same_tail) simp_all
      then show ?thesis using False r(5) by simp
    qed
    moreover have "take (?k + length ?t') dst2 = enc_segs sgs @ ?t'"
    proof (cases ?ch)
      case False
      have "take ?k (take (?k + ?tr) dst2) = take ?k (take ?k dst1 @ ?t)" using w(3) by simp
      then show ?thesis using False r(3) by (simp add: min_def)
    qed (use w(3) r(3) lt in \<open>simp del: length_drop\<close>)
    moreover have "diff_inner task core dst = Ok (?k, length ?t', dst2, core\<lparr>mem_mirror := m2\<rparr>)"
      using r(1) w(1) m(3) t lt by (simp add: diff_inner_def Let_def usize_sub_def del: length_drop)
    ultimately show ?thesis using w(2,4) r(2)
      by (intro exI [of _ sgs] exI [of _ ?t'] exI [of _ dst2] exI [of _ "core\<lparr>mem_mirror := m2\<rparr>"]) simp
  qed
qed

section \<open>The message of a task\<close>

lemma diff_space_eq:
  assumes "\<forall>iv\<in>set ivs. fst iv \<le> snd iv \<and> snd iv + 8 \<le> U32_MAX" and "acc + diff_room ivs \<le> U32_MAX"
  shows "diff_space ivs acc = Ok (acc + diff_room ivs)"
  using assms
proof (induction ivs arbitrary: acc)
  case (Cons iv ivs)
  have r: "diff_room (iv # ivs) = (8 + snd iv - fst iv) + diff_room ivs" "fst iv \<le> snd iv" "8 + snd iv \<le> U32_MAX"
    using Cons.prems(1) by (simp_all add: diff_room_def)
  then have "diff_space ivs (acc + (8 + snd iv - fst iv)) = Ok (acc + diff_room (iv # ivs))"
    using Cons.IH [of "acc + (8 + snd iv - fst iv)"] Cons.prems by (simp add: add.assoc)
  then show ?case using r Cons.prems(2) by (simp add: u32_nat_def usize_sub_def)
qed (simp add: diff_room_def)

lemma diff_room_le:
  assumes "list_all (piece_ok fc) ivs"
  shows "diff_room ivs = length (bytes_of fc ivs) + 8 * length ivs \<and> 64 * length ivs \<le> length (bytes_of fc ivs)"
  using assms
proof (induction ivs)
  case (Cons iv ivs)
  have p: "piece_ok fc iv" using Cons.prems by simp
  then have "64 dvd snd iv - fst iv" "0 < snd iv - fst iv" by (auto simp: piece_ok_def)
  then have "64 \<le> snd iv - fst iv" by (rule dvd_imp_le)
  then show ?case using Cons p by (auto simp: diff_room_def piece_ok_def min_def)
qed (simp add: diff_room_def)

lemma task_room:
  assumes "task_ok n task"
  shows "diff_room (dt_intervals task) + dt_trailing task \<le> 294975"
proof -
  have "dt_trailing task \<le> 63" using assms mod_less_divisor [of 64 n] by (auto simp: task_ok_def)
  moreover have "diff_room (dt_intervals task) \<le> 294912"
    using diff_room_le [of "last_chunk n" "dt_intervals task"] assms by (simp add: task_ok_def DIFF_CHUNKSIZE_def)
  ultimately show ?thesis by simp
qed

definition buffer_header :: "int \<Rightarrow> u32 \<Rightarrow> nat \<Rightarrow> nat \<Rightarrow> bytes" where
  "buffer_header rid h a b =
     u32_to_le_bytes h @ i32_to_le_bytes rid @ u32_to_le_bytes (word_of_nat a) @ u32_to_le_bytes (word_of_nat b)"

lemma length_buffer_header [simp]: "length (buffer_header rid h a b) = 16"
  by (simp add: buffer_header_def)

lemma finish_diff_msg_ok:
  assumes "length pre = 16" and "16 + length body < 2 ^ 27" and "take (16 + length body) msg = pre @ body"
    and "next_multiple_of (16 + length body) 4 \<le> length msg"
  obtains h k where "build_wmsg_header BufferDiff (16 + length body) = Ok h"
    and "finish_diff_msg task msg (16 + length body) dl nt = Ok (buffer_header (dt_rid task) h dl nt @ body @ replicate k 0)"
proof -
  let ?u = "16 + length body" and ?p = "next_multiple_of (16 + length body) 4"
  obtain h where h: "build_wmsg_header BufferDiff ?u = Ok h" using build_wmsg_header_ok [OF assms(2)] by blast
  have a: "align4 ?u = Ok ?p" using assms(2) by (intro align4_ok) (simp add: USIZE_MAX_def)
  have le: "?u \<le> ?p" by (simp add: next_multiple_of_def div_ceil_def)
  have "take ?p msg = pre @ body @ drop ?u (take ?p msg)"
    using assms(3) le append_take_drop_id [of ?u "take ?p msg"] by (simp add: min_def)
  then obtain r where r: "take ?p msg = pre @ body @ r" "length r = ?p - ?u"
    using assms(4) by (metis length_drop length_take min_absorb2)
  have "write_at_res (take ?p msg) ?u (replicate (?p - ?u) 0) = Ok (pre @ body @ replicate (?p - ?u) 0)"
    unfolding r(1) using r(2) assms(1) by (simp add: write_at_res_def write_at_def)
  moreover have "cat4x4 (u32_to_le_bytes h) (i32_to_le_bytes (dt_rid task)) (u32_to_le_bytes (word_of_nat dl))
      (u32_to_le_bytes (word_of_nat nt)) = buffer_header (dt_rid task) h dl nt"
    by (simp add: cat4x4_append buffer_header_def)
  moreover have "write_at_res (pre @ body @ replicate (?p - ?u) 0) 0 (buffer_header (dt_rid task) h dl nt) =
      Ok (buffer_header (dt_rid task) h dl nt @ body @ replicate (?p - ?u) 0)"
    using assms(1) by (simp add: write_at_res_def write_at_def)
  ultimately have "finish_diff_msg task msg ?u dl nt = Ok (buffer_header (dt_rid task) h dl nt @ body @ replicate (?p - ?u) 0)"
    using a h assms(4) by (simp add: finish_diff_msg_def Let_def del: write_at_res_ok)
  then show ?thesis using that h by blast
qed

text \<open>What a message carries: the compressed segments and the tail, behind a header with their lengths.\<close>

definition carries :: "compress_lib \<Rightarrow> DiffTask \<Rightarrow> bytes \<Rightarrow> segment list \<Rightarrow> bytes \<Rightarrow> bool" where
  "carries lib task msg sgs t \<longleftrightarrow> length (enc_segs sgs @ t) \<le> U32_MAX \<and>
     (\<exists>h body k. build_wmsg_header BufferDiff (16 + length body) = Ok h \<and> 16 + length body < 2 ^ 27 \<and>
        msg = buffer_header (dt_rid task) h (length (enc_segs sgs)) (length t) @ body @ replicate k 0 \<and>
        (\<forall>c. \<exists>c'. decomp_into_vec lib (dt_compression task) c body (length (enc_segs sgs @ t)) = Ok (enc_segs sgs @ t, c')))"

lemma enc_segs_eq_Nil: "enc_segs sgs = [] \<longleftrightarrow> sgs = []"
  by (cases sgs) (auto dest: arg_cong [of _ _ length] simp: length_enc_seg)

lemma next_multiple_4: "next_multiple_of (16 + a) 4 = 16 + next_multiple_of a 4" "a \<le> b \<Longrightarrow> next_multiple_of a 4 \<le> next_multiple_of b 4"
    "next_multiple_of a 4 < a + 4" "a \<le> next_multiple_of a 4"
  unfolding next_multiple_of_def div_ceil_def by presburger+

definition task_space :: "DiffTask \<Rightarrow> nat" where
  "task_space task = diff_room (dt_intervals task) + dt_trailing task"

lemma task_space_eq:
  assumes "task_ok n task" and "n + 8 \<le> U32_MAX"
  shows "rbind (diff_space (dt_intervals task) 0) (\<lambda>d. rbind (u32_nat (d + dt_trailing task)) f) = f (task_space task)"
proof -
  have room: "task_space task \<le> 294975" unfolding task_space_def by (rule task_room [OF assms(1)])
  have "snd iv \<le> n \<and> fst iv \<le> snd iv" if "iv \<in> set (dt_intervals task)" for iv
    using assms(1) that last_chunk_le(1) [of n] by (auto simp: task_ok_def list_all_iff piece_ok_def)
  then have "diff_space (dt_intervals task) 0 = Ok (diff_room (dt_intervals task))"
    using diff_space_eq [of "dt_intervals task" 0] assms(2) room by (force simp: U32_MAX_def task_space_def)
  then show ?thesis using room by (simp add: u32_nat_def U32_MAX_def task_space_def)
qed

text \<open>The result of a task: the mirror has the new contents, and the message carries the change if there is one.\<close>

definition diffs_to :: "compress_lib \<Rightarrow> DiffTask \<Rightarrow> bytes \<Rightarrow> bytes \<Rightarrow> bytes \<Rightarrow> (bytes \<times> ShadowFdFileCore \<times> ThreadCache) res \<Rightarrow> bool" where
  "diffs_to lib task fd old new result \<longleftrightarrow>
     (\<exists>sgs t msg core' cache'. result = Ok (msg, core', cache') \<and> mapping core' = fd \<and>
        idle_mirror (mem_mirror core') new \<and> diff_of sgs t old new \<and>
        (if sgs = [] \<and> t = [] then msg = [] else carries lib task msg sgs t))"

lemma task_inner:
  assumes task: "task_ok n task" and m: "idle_mirror (mem_mirror core) old" "length old = n" "length (mapping core) = n"
    and b: "n + 8 \<le> U32_MAX" and "length dst = task_space task"
  defines "new \<equiv> merge (mapping core) old (in_task n task)"
  shows "\<exists>sgs t dst' core'. diff_inner task core dst = Ok (length (enc_segs sgs), length t, dst', core') \<and>
    length dst' = task_space task \<and> take (length (enc_segs sgs) + length t) dst' = enc_segs sgs @ t \<and>
    mapping core' = mapping core \<and> idle_mirror (mem_mirror core') new \<and> diff_of sgs t old new"
  using diff_inner_ok [OF task m b, of dst] assms(6) task_room [OF task] unfolding new_def task_space_def by (simp add: U32_MAX_def)

lemma run_diff_task_plain:
  assumes task: "task_ok n task" and m: "idle_mirror (mem_mirror core) old" "length old = n" "length (mapping core) = n"
    and b: "n + 8 \<le> U32_MAX" and True: "dt_compression task = NoCompression"
  defines "new \<equiv> merge (mapping core) old (in_task n task)"
  shows "diffs_to lib task (mapping core) old new (run_diff_task lib task core cache)"
proof -
  let ?sp = "task_space task"
  have room: "?sp \<le> 294975" unfolding task_space_def by (rule task_room [OF task])
  let ?n4 = "next_multiple_of ?sp 4"
  let ?buf = "replicate (?n4 + 16) 0 :: bytes"
  have al: "align4 ?sp = Ok ?n4" using room by (intro align4_ok) (simp add: USIZE_MAX_def)
  have sl: "slice_res ?buf 16 (16 + ?sp) = Ok (replicate ?sp 0)"
    using next_multiple_4(4) [of ?sp] by (simp add: slice_res_def sub_slice_def min_def)
  obtain sgs t dst' core' where i: "diff_inner task core (replicate ?sp 0) = Ok (length (enc_segs sgs), length t, dst', core')"
    "length dst' = ?sp" "take (length (enc_segs sgs) + length t) dst' = enc_segs sgs @ t"
    "mapping core' = mapping core" "idle_mirror (mem_mirror core') new" "diff_of sgs t old new"
    using task_inner [OF task m b, of "replicate ?sp 0"] unfolding new_def by auto
  let ?body = "enc_segs sgs @ t"
  have len: "length ?body \<le> ?sp" using arg_cong [OF i(3), of length] i(2) by simp
  have "take (16 + length ?body) (write_at ?buf 16 dst') = replicate 16 0 @ ?body"
    using i(2,3) len next_multiple_4(4) [of ?sp] by (simp add: write_at_def)
  moreover have "next_multiple_of (16 + length ?body) 4 \<le> length (write_at ?buf 16 dst')"
    unfolding next_multiple_4(1) using next_multiple_4(2) [OF len] next_multiple_4(4) [of ?sp] i(2) by simp
  moreover have "16 + length ?body < 2 ^ 27" using len room by simp
  ultimately obtain h k where f: "build_wmsg_header BufferDiff (16 + length ?body) = Ok h"
      "finish_diff_msg task (write_at ?buf 16 dst') (16 + length ?body) (length (enc_segs sgs)) (length t) =
        Ok (buffer_header (dt_rid task) h (length (enc_segs sgs)) (length t) @ ?body @ replicate k 0)"
    using finish_diff_msg_ok [of "replicate 16 0" ?body "write_at ?buf 16 dst'"] by (metis length_replicate)
  then have "carries lib task (buffer_header (dt_rid task) h (length (enc_segs sgs)) (length t) @ ?body @ replicate k 0) sgs t"
    using True len room unfolding carries_def
    by (intro conjI exI [of _ h] exI [of _ ?body] exI [of _ k]) (simp_all add: decomp_into_vec_def U32_MAX_def)
  moreover have "run_diff_task lib task core cache = (if sgs = [] \<and> t = [] then Ok ([], core', cache)
      else Ok (buffer_header (dt_rid task) h (length (enc_segs sgs)) (length t) @ ?body @ replicate k 0, core', cache))"
    unfolding run_diff_task_def task_space_eq [OF task b] using True al sl i(1) f(2) len room
    by (simp add: Let_def enc_segs_eq_Nil u32_nat_def U32_MAX_def)
  ultimately show ?thesis unfolding diffs_to_def using i(4-6)
    by - (rule exI [of _ sgs], rule exI [of _ t], cases "sgs = [] \<and> t = []"; auto)
qed

lemma run_diff_task_compressed:
  assumes task: "task_ok n task" and m: "idle_mirror (mem_mirror core) old" "length old = n" "length (mapping core) = n"
    and b: "n + 8 \<le> U32_MAX" and codec: "codec_ok lib (dt_compression task)"
    and False: "dt_compression task \<noteq> NoCompression"
  defines "new \<equiv> merge (mapping core) old (in_task n task)"
  shows "diffs_to lib task (mapping core) old new (run_diff_task lib task core cache)"
proof -
  let ?sp = "task_space task"
  have room: "?sp \<le> 294975" unfolding task_space_def by (rule task_room [OF task])
  let ?big = "large cache @ replicate (max (length (large cache)) ?sp - length (large cache)) 0"
  have sl: "slice_res ?big 0 ?sp = Ok (take ?sp ?big)" "length (take ?sp ?big) = ?sp"
    by (simp_all add: slice_res_def sub_slice_def)
  obtain sgs t dst' core' where i: "diff_inner task core (take ?sp ?big) = Ok (length (enc_segs sgs), length t, dst', core')"
    "length dst' = ?sp" "take (length (enc_segs sgs) + length t) dst' = enc_segs sgs @ t"
    "mapping core' = mapping core" "idle_mirror (mem_mirror core') new" "diff_of sgs t old new"
    using task_inner [OF task m b sl(2)] unfolding new_def by blast
  let ?raw = "enc_segs sgs @ t" and ?big' = "write_at ?big 0 dst'"
  have len: "length ?raw \<le> ?sp" using arg_cong [OF i(3), of length] i(2) by simp
  have raw: "slice_res ?big' 0 (length ?raw) = Ok ?raw"
    using i(2,3) len by (simp add: slice_res_def sub_slice_def write_at_def)
  obtain out cc where c: "comp_into_vec lib (dt_compression task) (cache_comp cache) ?raw 16 4 =
        Ok (replicate 16 0 @ out @ replicate 4 0, cc)"
      "length out \<le> length ?raw + length ?raw div 255 + 64"
      "\<And>c. \<exists>c'. decomp_into_vec lib (dt_compression task) c out (length ?raw) = Ok (?raw, c')"
    using comp_into_vec_shape [OF codec, of ?raw 16 4 "cache_comp cache"] len room by auto
  let ?nxt = "replicate 16 0 @ out @ replicate 4 0 :: bytes"
  have small: "16 + length out < 2 ^ 27" using c(2) len room div_le_dividend [of "length ?raw" 255] by simp
  moreover have "take (16 + length out) ?nxt = replicate 16 0 @ out" by simp
  moreover have "next_multiple_of (16 + length out) 4 \<le> length ?nxt" using next_multiple_4(3) [of "16 + length out"] by simp
  ultimately obtain h k where f: "build_wmsg_header BufferDiff (16 + length out) = Ok h"
      "finish_diff_msg task ?nxt (16 + length out) (length (enc_segs sgs)) (length t) =
        Ok (buffer_header (dt_rid task) h (length (enc_segs sgs)) (length t) @ out @ replicate k 0)"
    using finish_diff_msg_ok [of "replicate 16 0" out ?nxt] by (metis length_replicate)
  then have "carries lib task (buffer_header (dt_rid task) h (length (enc_segs sgs)) (length t) @ out @ replicate k 0) sgs t"
    using small c(3) len room unfolding carries_def by (intro conjI exI [of _ h] exI [of _ out] exI [of _ k]) (simp_all add: U32_MAX_def)
  moreover have "\<exists>cache'. run_diff_task lib task core cache = (if sgs = [] \<and> t = [] then Ok ([], core', cache')
      else Ok (buffer_header (dt_rid task) h (length (enc_segs sgs)) (length t) @ out @ replicate k 0, core', cache'))"
    unfolding run_diff_task_def task_space_eq [OF task b] using False sl(1) i(1) raw c(1) f(2) len room
    by (cases "dt_compression task"; cases "sgs = [] \<and> t = []")
      (auto simp: Let_def enc_segs_eq_Nil u32_nat_def U32_MAX_def usize_sub_def)
  ultimately show ?thesis unfolding diffs_to_def using i(4-6)
    by - (elim exE, rule exI [of _ sgs], rule exI [of _ t], cases "sgs = [] \<and> t = []"; auto)
qed

section \<open>The other side\<close>

definition recv_task :: "Compression \<Rightarrow> nat \<Rightarrow> DecompTarget \<Rightarrow> nat \<Rightarrow> bytes \<Rightarrow> DecompTask" where
  "recv_task comprn n tg q msg =
     \<lparr>dc_sequence = Some q, msg_view = msg, dc_file_size = n, dc_compression = comprn, dc_target = tg\<rparr>"

lemma diff_span:
  assumes "diff_of sgs t old new" and "sgs \<noteq> [] \<or> t \<noteq> []" and "length old \<le> U32_MAX"
  shows "\<exists>rs re. compute_diff_span (enc_segs sgs @ t) (length t) (length old) = Ok (rs, re) \<and> 4 dvd rs \<and> rs < re \<and>
    re \<le> length old \<and> (\<forall>sg\<in>set sgs. seg_ok (rs div 4) (re div 4) sg) \<and> (t \<noteq> [] \<longrightarrow> re = length old \<and> rs + length t \<le> re)"
proof -
  let ?n = "length old" and ?hi = "last_chunk (length old) div 4"
  have sg: "\<forall>sg\<in>set sgs. seg_ok 0 ?hi sg" and t: "t = [] \<or> length t = ?n mod 64"
    using assms(1) by (simp_all add: diff_of_def)
  have hi: "4 * ?hi \<le> ?n" "?hi \<le> U32_MAX" using last_chunk_le(1) [of ?n] assms(3) by simp_all
  show ?thesis
  proof (cases "sgs = []")
    case True
    then have "length t = ?n mod 64" "t \<noteq> []" using t assms(2) by auto
    moreover have "4 dvd ?n - ?n mod 64" unfolding last_chunk_le(3) by (rule dvd_trans [OF _ last_chunk_le(2)]) simp
    moreover have "0 < ?n mod 64" using calculation(1,2) by (metis length_greater_0_conv)
    moreover have "?n mod 64 \<le> ?n" by simp
    moreover from calculation have "?n - ?n mod 64 < ?n" by linarith
    ultimately show ?thesis using True by (simp add: compute_diff_span_def usize_sub_def)
  next
    case False
    obtain rs re where s: "compute_diff_span (enc_segs sgs @ t) (length t) ?n = Ok (rs, re)" "re \<le> ?n" "4 dvd rs"
        "t = [] \<longrightarrow> 4 dvd re" "\<forall>sg\<in>set sgs. rs \<le> 4 * fst sg \<and> 4 * fst sg + length (snd sg) \<le> re" "t \<noteq> [] \<longrightarrow> re = ?n"
      using compute_diff_span_enc [OF sg False hi, of t] by blast
    have ok: "seg_ok (rs div 4) (re div 4) x" if "x \<in> set sgs" for x
    proof -
      have "rs \<le> 4 * fst x" "4 * fst x + length (snd x) \<le> re" using s(5) that by blast+
      moreover have "seg_ok 0 ?hi x" using sg that by blast
      ultimately show ?thesis unfolding seg_ok_def by linarith
    qed
    obtain x where x: "x \<in> set sgs" using False by (meson list.set_sel(1))
    have "seg_ok 0 ?hi x" "rs \<le> 4 * fst x" "4 * fst x + length (snd x) \<le> re" using sg s(5) x by blast+
    moreover from this seg_ok_blocks [OF this(1)] have "rs < re" "rs < 4 * ?hi" by linarith+
    moreover have "4 * ?hi \<le> last_chunk ?n" by simp
    ultimately show ?thesis using s ok t last_chunk_le(4) [of ?n] by (intro exI [of _ rs] exI [of _ re]) auto
  qed
qed

lemma msg_fields:
  assumes "msg = buffer_header rid h a b @ body @ pad" and "a \<le> U32_MAX" and "b \<le> U32_MAX" and "is_i32 rid"
  shows "msg_u32 msg 0 = Ok h" and "rbind (slice_res msg 4 8) (\<lambda>x. Ok (i32_from_le_bytes x)) = Ok rid"
    and "rbind (msg_u32 msg 8) (\<lambda>x. Ok (unat x)) = Ok a" and "rbind (msg_u32 msg 12) (\<lambda>x. Ok (unat x)) = Ok b"
    and "slice_res msg 16 (16 + length body) = Ok body"
proof -
  have n: "unat (word_of_nat k :: u32) = k" if "k \<le> U32_MAX" for k
    using that by (simp add: U32_MAX_def unsigned_of_nat take_bit_nat_eq_self)
  let ?w = "u32_to_le_bytes h" and ?x = "i32_to_le_bytes rid"
  let ?y = "u32_to_le_bytes (word_of_nat a)" and ?z = "u32_to_le_bytes (word_of_nat b)"
  have l: "16 \<le> length msg" using assms(1) by simp
  have "sub_slice msg 0 4 = ?w" using sub_slice_append [of "[]" ?w "?x @ ?y @ ?z @ body @ pad"] assms(1) by (simp add: buffer_header_def)
  then show "msg_u32 msg 0 = Ok h" using l by (simp add: msg_u32_def slice_res_def)
  have "sub_slice msg 4 8 = ?x" using sub_slice_append [of ?w ?x "?y @ ?z @ body @ pad"] assms(1) by (simp add: buffer_header_def)
  then show "rbind (slice_res msg 4 8) (\<lambda>x. Ok (i32_from_le_bytes x)) = Ok rid"
    using l assms(4) by (simp add: slice_res_def)
  have "sub_slice msg 8 12 = ?y" using sub_slice_append [of "?w @ ?x" ?y "?z @ body @ pad"] assms(1) by (simp add: buffer_header_def)
  then show "rbind (msg_u32 msg 8) (\<lambda>x. Ok (unat x)) = Ok a" using l n [OF assms(2)] by (simp add: msg_u32_def slice_res_def)
  have "sub_slice msg 12 16 = ?z" using sub_slice_append [of "?w @ ?x @ ?y" ?z "body @ pad"] assms(1) by (simp add: buffer_header_def)
  then show "rbind (msg_u32 msg 12) (\<lambda>x. Ok (unat x)) = Ok b" using l n [OF assms(3)] by (simp add: msg_u32_def slice_res_def)
  have "sub_slice msg 16 (16 + length body) = body"
    using sub_slice_append [of "buffer_header rid h a b" body pad] assms(1) by simp
  then show "slice_res msg 16 (16 + length body) = Ok body" using assms(1) by (simp add: slice_res_def)
qed

lemma run_decomp_carried:
  assumes "carries lib task msg sgs t" and "is_i32 (dt_rid task)"
    and "compute_diff_span (enc_segs sgs @ t) (length t) n = Ok (rs, re)"
  shows "\<exists>c'. run_decomp_task lib (recv_task (dt_compression task) n tg q msg) c =
    Ok (\<lparr>ap_sequence = q, ap_remote_id = dt_rid task, ap_data = enc_segs sgs @ t, is_diff_type = True,
         ap_ntrailing = length t, ap_target = tg, region_start = rs, region_end = re\<rparr>, c')"
proof -
  obtain h body k where c: "build_wmsg_header BufferDiff (16 + length body) = Ok h" "16 + length body < 2 ^ 27"
      "msg = buffer_header (dt_rid task) h (length (enc_segs sgs)) (length t) @ body @ replicate k 0"
    and len: "length (enc_segs sgs @ t) \<le> U32_MAX"
    and d: "\<exists>c'. decomp_into_vec lib (dt_compression task) c body (length (enc_segs sgs @ t)) = Ok (enc_segs sgs @ t, c')"
    using assms(1) unfolding carries_def by blast
  have p: "parse_wmsg_header h = Some (16 + length body, BufferDiff)"
    using parse_header_word [OF c(2), of BufferDiff] build_wmsg_header_ok [OF c(2), of BufferDiff] c(1) by simp
  have "length (enc_segs sgs) \<le> U32_MAX" "length t \<le> U32_MAX" using len by simp_all
  note f = msg_fields [OF c(3) this assms(2)]
  obtain x y z where x: "msg_u32 msg 8 = Ok x" "unat x = length (enc_segs sgs)" "msg_u32 msg 12 = Ok y" "unat y = length t"
      "slice_res msg 4 8 = Ok z" "i32_from_le_bytes z = dt_rid task"
    using f(2-4) by (auto simp: rbind_eq_Inr_iff)
  show ?thesis using d f(1,5) p x len assms(3)
    by (auto simp: run_decomp_task_def decomp_diff_def recv_task_def ok_or_def u32_nat_def Let_def)
qed

lemma write_at_Nil [simp]: "write_at xs k [] = xs"
  by (simp add: write_at_def)

lemma run_apply_diff:
  assumes d: "diff_of sgs t old new" and n: "length old \<le> U32_MAX"
    and r: "4 dvd rs" "rs < re" "re \<le> length old" "\<forall>sg\<in>set sgs. seg_ok (rs div 4) (re div 4) sg"
      "t \<noteq> [] \<longrightarrow> re = length old \<and> rs + length t \<le> re"
    and R: "idle_mirror (mem_mirror R) old" "mapping R = old"
  shows "\<exists>R'. run_apply_task \<lparr>ap_sequence = q, ap_remote_id = rid, ap_data = enc_segs sgs @ t, is_diff_type = True,
         ap_ntrailing = length t, ap_target = DecompFile skip, region_start = rs, region_end = re\<rparr> R = Ok (ApplyDone rid, R') \<and>
    mapping R' = new \<and> idle_mirror (mem_mirror R') new"
proof -
  let ?a = "take rs old" and ?m = "sub_slice old rs re" and ?b = "drop re old"
  let ?m' = "write_at (patch rs sgs ?m) (length ?m - length t) t"
  have la: "length ?a = rs" and lm: "length ?m = re - rs" and old: "?a @ ?m @ ?b = old"
    using r(2,3) slice_decomp [of rs re old] by simp_all
  have tl: "length t \<le> length ?m" "t = [] \<or> ?b = []" using r(2,3,5) lm by auto
  have ap: "apply_diff (enc_segs sgs @ t) (length t) old rs ?m = Ok (?a @ ?m' @ ?b, ?m')"
    using apply_diff_enc [of sgs ?a ?m t ?b] la lm old r n tl by (simp add: Let_def)
  have pe: "patch 0 sgs old = ?a @ patch rs sgs ?m @ ?b" "length (patch rs sgs ?m) = length ?m"
    using patch_embed [of sgs "rs div 4" "re div 4" ?a ?m ?b] la lm old r(1-4) by auto
  have new: "?a @ ?m' @ ?b = new"
  proof (cases "t = []")
    case True
    then show ?thesis using d pe(1) by (simp add: diff_of_def)
  next
    case False
    then have "?b = []" "length old - length t = rs + (length ?m - length t)" using r(2,5) lm by auto
    then show ?thesis using d pe la by (simp add: diff_of_def write_at_def)
  qed
  have l': "length ?m' = re - rs" using pe(2) tl(1) lm by simp
  then have "write_at old rs ?m' = new" unfolding new [symmetric] using r(2) by (simp add: write_at_def)
  then obtain m' where w: "with_range (mem_mirror R) (rs, re) ''Failed to acquire mirror range {}..{} when applying'' (\<lambda>data.
      apply_diff (enc_segs sgs @ t) (length t) old rs data) = Ok (?a @ ?m' @ ?b, m')" "idle_mirror m' new"
    using with_range_ok [where f = "\<lambda>data. apply_diff (enc_segs sgs @ t) (length t) old rs data", OF R(1) r(2,3) ap l'] by auto
  then show ?thesis using R(2) new by (simp add: run_apply_task_def run_apply_shm_def)
qed

section \<open>One task, from one side to the other\<close>

text \<open>Run a task on one side and, unless its message is empty, decompress and apply the message on the other.\<close>

definition exchange ::
  "compress_lib \<Rightarrow> DiffTask \<Rightarrow> ShadowFdFileCore \<times> ThreadCache \<Rightarrow> ShadowFdFileCore \<times> ThreadCacheComp \<Rightarrow>
   ((ShadowFdFileCore \<times> ThreadCache) \<times> (ShadowFdFileCore \<times> ThreadCacheComp)) res" where
  "exchange lib task S R =
     rbind (run_diff_task lib task (fst S) (snd S)) (\<lambda>(msg, core, cache).
     if msg = [] then Ok ((core, cache), R)
     else
       rbind (run_decomp_task lib (recv_task (dt_compression task) (length (mapping (fst R))) (DecompFile False) 0 msg) (snd R))
         (\<lambda>(a, c).
       rbind (run_apply_task a (fst R)) (\<lambda>(_, core'). Ok ((core, cache), (core', c)))))"

definition in_step :: "ShadowFdFileCore \<Rightarrow> ShadowFdFileCore \<Rightarrow> bytes \<Rightarrow> bool" where
  "in_step S R bs \<longleftrightarrow> idle_mirror (mem_mirror S) bs \<and> idle_mirror (mem_mirror R) bs \<and> mapping R = bs"

lemma task_message:
  assumes "task_ok n task" and "idle_mirror (mem_mirror core) old" and "length old = n"
    and "length (mapping core) = n" and "n + 8 \<le> U32_MAX" and "codec_ok lib (dt_compression task)"
  shows "diffs_to lib task (mapping core) old (merge (mapping core) old (in_task n task)) (run_diff_task lib task core cache)"
  using run_diff_task_plain [OF assms(1-5)] run_diff_task_compressed [OF assms] by metis

lemma exchange_ok:
  assumes task: "task_ok n task" "is_i32 (dt_rid task)" and st: "in_step (fst S) (fst R) old" "length old = n"
    and b: "length (mapping (fst S)) = n" "n + 8 \<le> U32_MAX" and codec: "codec_ok lib (dt_compression task)"
  shows "\<exists>S' R'. exchange lib task S R = Ok (S', R') \<and> mapping (fst S') = mapping (fst S) \<and>
    in_step (fst S') (fst R') (merge (mapping (fst S)) old (in_task n task))"
proof -
  let ?new = "merge (mapping (fst S)) old (in_task n task)"
  obtain sgs t msg core cache where r: "run_diff_task lib task (fst S) (snd S) = Ok (msg, core, cache)"
      "mapping core = mapping (fst S)" "idle_mirror (mem_mirror core) ?new" "diff_of sgs t old ?new"
      "if sgs = [] \<and> t = [] then msg = [] else carries lib task msg sgs t"
    using task_message [OF task(1) _ st(2) b codec] st(1) unfolding in_step_def diffs_to_def by metis
  show ?thesis
  proof (cases "sgs = [] \<and> t = []")
    case True
    then have "?new = old" using r(4) by (simp add: diff_of_def patch_def)
    then show ?thesis using True r(1,2,3,5) st(1) by (simp add: exchange_def in_step_def)
  next
    case False
    then have c: "carries lib task msg sgs t" and ne: "sgs \<noteq> [] \<or> t \<noteq> []" using r(5) by (auto split: if_splits)
    have n: "length old \<le> U32_MAX" using st(2) b(2) by simp
    obtain rs re where s: "compute_diff_span (enc_segs sgs @ t) (length t) (length old) = Ok (rs, re)"
        "4 dvd rs" "rs < re" "re \<le> length old" "\<forall>sg\<in>set sgs. seg_ok (rs div 4) (re div 4) sg"
        "t \<noteq> [] \<longrightarrow> re = length old \<and> rs + length t \<le> re"
      using diff_span [OF r(4) ne n] by blast
    have R: "idle_mirror (mem_mirror (fst R)) old" "mapping (fst R) = old" using st(1) by (simp_all add: in_step_def)
    obtain c' where dc: "run_decomp_task lib (recv_task (dt_compression task) (length old) (DecompFile False) 0 msg) (snd R) =
        Ok (\<lparr>ap_sequence = 0, ap_remote_id = dt_rid task, ap_data = enc_segs sgs @ t, is_diff_type = True,
           ap_ntrailing = length t, ap_target = DecompFile False, region_start = rs, region_end = re\<rparr>, c')"
      using run_decomp_carried [OF c task(2) s(1)] by blast
    have "msg \<noteq> []" using c unfolding carries_def by (auto simp: buffer_header_def dest: arg_cong [of _ _ length])
    then show ?thesis using r(1-3) dc R run_apply_diff [OF r(4) n s(2-6) R, of 0 "dt_rid task" False]
      by (auto simp: exchange_def in_step_def)
  qed
qed

end
