(* ===== verification/Damage.thy ===== *)
theory Damage
  imports Waypipe_Prelude "HOL-Library.Multiset"
begin

text \<open>
  Damage merging, \<open>src/damage.rs\<close>: from damaged rectangles of an image to the byte ranges of the
  buffer that may have changed (\<open>compute_damaged_segments\<close>), and the union of two such lists of
  ranges (\<open>union_damage\<close>).

  The parameters that the functions of the source hand on to each other unchanged (alignment,
  minimum gap, offset, stride, bytes per pixel) are a record. Coordinates are the \<open>u32\<close> and
  positions the \<open>usize\<close> of the source, with overflow as a panic where the source does not
  saturate.
\<close>

section \<open>Rectangles and the intervals they span\<close>

record Rect =
  x1 :: nat
  x2 :: nat
  y1 :: nat
  y2 :: nat

record Layout =
  align_bits :: nat
  min_gap :: nat
  offset :: nat
  stride :: nat
  bpp :: nat

definition bounding_interval :: "Layout \<Rightarrow> Rect \<Rightarrow> nat \<times> nat" where
  "bounding_interval ly r =
     (saturating_add (saturating_add (offset ly) (saturating_mul (y1 r) (stride ly)))
        (saturating_mul (x1 r) (bpp ly)),
      saturating_add (saturating_add (offset ly) (saturating_mul (y2 r) (stride ly)))
        (saturating_mul (x2 r) (bpp ly)))"

definition align_down :: "nat \<Rightarrow> nat \<Rightarrow> nat res" where
  "align_down x bits = (if bits < 64 then Ok (x div 2 ^ bits * 2 ^ bits) else panic)"

definition align_up :: "nat \<Rightarrow> nat \<Rightarrow> nat res" where
  "align_up x bits =
     (if bits < 64 then ok_or (checked_next_multiple_of x (2 ^ bits)) Panic else panic)"

definition aligned_bounding_interval :: "Layout \<Rightarrow> Rect \<Rightarrow> (nat \<times> nat) res" where
  "aligned_bounding_interval ly r =
     (let x = bounding_interval ly r in
      rbind (align_down (fst x) (align_bits ly)) (\<lambda>a.
      rbind (align_up (snd x) (align_bits ly)) (\<lambda>b. Ok (a, b))))"

text \<open>\<open>offset + y * stride + x * bpp\<close> in \<open>usize\<close> arithmetic.\<close>

definition pixel_pos :: "Layout \<Rightarrow> nat \<Rightarrow> nat \<Rightarrow> nat res" where
  "pixel_pos ly y x =
     rbind (usize_mul y (stride ly)) (\<lambda>ys.
     rbind (usize_add (offset ly) ys) (\<lambda>a.
     rbind (usize_mul x (bpp ly)) (\<lambda>xs. usize_add a xs)))"

section \<open>The priority queue\<close>

text \<open>
  \<open>BinaryHeap<(Reverse<usize>, usize)>\<close>: \<open>pop\<close> returns the entry with the least start position
  and, among those, the greatest index. The model is an unordered list.
\<close>

type_synonym rect_heap = "(nat \<times> nat) list"

definition heap_before :: "nat \<times> nat \<Rightarrow> nat \<times> nat \<Rightarrow> bool" where
  "heap_before a b \<longleftrightarrow> fst a < fst b \<or> fst a = fst b \<and> snd b \<le> snd a"

definition heap_push :: "nat \<times> nat \<Rightarrow> rect_heap \<Rightarrow> rect_heap" where
  "heap_push e h = e # h"

fun heap_top :: "nat \<times> nat \<Rightarrow> rect_heap \<Rightarrow> nat \<times> nat" where
  "heap_top e [] = e"
| "heap_top e (f # h) = heap_top (if heap_before e f then e else f) h"

definition heap_pop :: "rect_heap \<Rightarrow> ((nat \<times> nat) \<times> rect_heap) option" where
  "heap_pop h = (case h of [] \<Rightarrow> None | e # t \<Rightarrow> (let m = heap_top e t in Some (m, remove1 m h)))"

text \<open>The interface of such a queue, and what a client needs of a sequence of pops.\<close>

locale priority_queue =
  fixes before :: "'e \<Rightarrow> 'e \<Rightarrow> bool"
    and push :: "'e \<Rightarrow> 'h \<Rightarrow> 'h"
    and pop :: "'h \<Rightarrow> ('e \<times> 'h) option"
    and elems :: "'h \<Rightarrow> 'e multiset"
  assumes elems_push: "elems (push e h) = add_mset e (elems h)"
    and pop_None: "pop h = None \<longleftrightarrow> elems h = {#}"
    and pop_elems: "pop h = Some (e, h') \<Longrightarrow> elems h = add_mset e (elems h')"
    and pop_before: "pop h = Some (e, h') \<Longrightarrow> f \<in># elems h' \<Longrightarrow> before e f"
begin

lemma pop_mem: "pop h = Some (e, h') \<Longrightarrow> e \<in># elems h"
  by (simp add: pop_elems)

lemma pop_size: "pop h = Some (e, h') \<Longrightarrow> size (elems h) = Suc (size (elems h'))"
  by (simp add: pop_elems)

lemma pop_subset: "pop h = Some (e, h') \<Longrightarrow> f \<in># elems h' \<Longrightarrow> f \<in># elems h"
  by (simp add: pop_elems)

lemma pop_push_mem: "pop h = Some (e, h') \<Longrightarrow> f \<in># elems (push g h') \<Longrightarrow> f = g \<or> f \<in># elems h"
  by (auto simp: elems_push pop_elems)

end

lemma heap_before_linear: "heap_before a b \<or> heap_before b a"
  by (auto simp: heap_before_def)

lemma heap_before_trans: "heap_before a b \<Longrightarrow> heap_before b c \<Longrightarrow> heap_before a c"
  by (auto simp: heap_before_def)

lemma heap_top_spec: "heap_top e h \<in> set (e # h) \<and> (\<forall>f\<in>set (e # h). heap_before (heap_top e h) f)"
proof (induction h arbitrary: e)
  case Nil
  then show ?case by (simp add: heap_before_def)
next
  case (Cons g h)
  let ?m = "if heap_before e g then e else g"
  have "heap_before ?m e" "heap_before ?m g"
    using heap_before_linear [of e g] by (auto simp: heap_before_def)
  moreover have m: "heap_top ?m h \<in> set (?m # h)" "\<forall>f\<in>set (?m # h). heap_before (heap_top ?m h) f"
    using Cons.IH [of ?m] by blast+
  moreover have "heap_before (heap_top ?m h) ?m" using m(2) by simp
  ultimately have "heap_before (heap_top ?m h) e" "heap_before (heap_top ?m h) g"
    using heap_before_trans by blast+
  moreover have "heap_top ?m h \<in> set (e # g # h)" using m(1) by auto
  ultimately show ?case using m(2) by simp
qed

interpretation rect_queue: priority_queue heap_before heap_push heap_pop mset
proof unfold_locales
  fix e f :: "nat \<times> nat" and h h' :: rect_heap
  show "mset (heap_push e h) = add_mset e (mset h)" by (simp add: heap_push_def)
  show "heap_pop h = None \<longleftrightarrow> mset h = {#}" by (simp add: heap_pop_def Let_def split: list.splits)
  assume "heap_pop h = Some (e, h')"
  then obtain g t where h: "h = g # t" "e = heap_top g t" "h' = remove1 e h"
    by (auto simp: heap_pop_def Let_def split: list.splits)
  with heap_top_spec [of g t] show "mset h = add_mset e (mset h')"
    by auto
  assume "f \<in># mset h'"
  then have "f \<in> set h" using h(3) by (metis notin_set_remove1 set_mset_mset)
  with h heap_top_spec [of g t] show "heap_before e f" by auto
qed

section \<open>Processing a group of rectangles\<close>

fun ilog2 :: "nat \<Rightarrow> nat" where
  "ilog2 n = (if n < 2 then 0 else Suc (ilog2 (n div 2)))"

declare ilog2.simps [simp del]

text \<open>
  The row counter \<open>usize::MAX\<close> marks a rectangle whose rows are so close that they are merged
  into one segment.
\<close>

definition is_merged :: "Layout \<Rightarrow> Rect \<Rightarrow> bool res" where
  "is_merged ly r =
     rbind (usize_sub (x2 r) (x1 r)) (\<lambda>w.
     rbind (usize_mul w (bpp ly)) (\<lambda>l. Ok (l > stride ly - min_gap ly)))"

definition row_start :: "Layout \<Rightarrow> Rect \<Rightarrow> nat \<Rightarrow> nat res" where
  "row_start ly r k = rbind (pixel_pos ly (y1 r + k) (x1 r)) (\<lambda>p. align_down p (align_bits ly))"

definition row_end :: "Layout \<Rightarrow> Rect \<Rightarrow> nat \<Rightarrow> nat res" where
  "row_end ly r k = rbind (pixel_pos ly (y1 r + k) (x2 r)) (\<lambda>p. align_up p (align_bits ly))"

definition merged_end :: "Layout \<Rightarrow> Rect \<Rightarrow> nat res" where
  "merged_end ly r =
     rbind (usize_sub (y2 r) 1) (\<lambda>y.
     rbind (pixel_pos ly y (x2 r)) (\<lambda>p. align_up p (align_bits ly)))"

fun fill_heap :: "Layout \<Rightarrow> nat \<Rightarrow> Rect list \<Rightarrow> rect_heap \<Rightarrow> nat list \<Rightarrow> (rect_heap \<times> nat list) res" where
  "fill_heap ly i [] heap row_counters = Ok (heap, row_counters)"
| "fill_heap ly i (r # rs) heap row_counters =
     rbind (is_merged ly r) (\<lambda>m.
     rbind (row_start ly r 0) (\<lambda>start_pos.
       fill_heap ly (Suc i) rs (heap_push (start_pos, i) heap)
         (row_counters @ [if m then USIZE_MAX else 0])))"

definition merge_cur ::
  "nat \<Rightarrow> nat \<times> nat \<Rightarrow> (nat \<times> nat) option \<Rightarrow> (nat \<times> nat) list \<Rightarrow>
    (nat \<times> nat) \<times> (nat \<times> nat) list" where
  "merge_cur gap se cur output =
     (case cur of
        Some cv \<Rightarrow>
          if fst se \<le> snd cv \<or> fst se - snd cv < gap then ((fst cv, max (snd cv) (snd se)), output)
          else (se, output @ [cv])
      | None \<Rightarrow> (se, output))"

text \<open>
  The main loop. Indexing is bounds checked. The number of rows left in the heap decreases.
\<close>

definition rows_left :: "Rect list \<Rightarrow> nat list \<Rightarrow> nat \<Rightarrow> nat" where
  "rows_left rects rc i = (if rc ! i = USIZE_MAX then 0 else y2 (rects ! i) - y1 (rects ! i) - rc ! i)"

definition next_row ::
  "Layout \<Rightarrow> Rect list \<Rightarrow> nat \<Rightarrow> rect_heap \<Rightarrow> nat list \<Rightarrow> (rect_heap \<times> nat list) res" where
  "next_row ly rects i heap rc =
     (if rc ! i = USIZE_MAX then Ok (heap, rc)
      else
        let rc = rc[i := rc ! i + 1] in
        rbind (usize_sub (y2 (rects ! i)) (y1 (rects ! i))) (\<lambda>rows.
          if rc ! i < rows
          then rbind (row_start ly (rects ! i) (rc ! i)) (\<lambda>start_pos.
                 Ok (heap_push (start_pos, i) heap, rc))
          else Ok (heap, rc)))"

definition segment_end :: "Layout \<Rightarrow> Rect \<Rightarrow> nat \<Rightarrow> nat res" where
  "segment_end ly r c = (if c = USIZE_MAX then merged_end ly r else row_end ly r c)"

lemma heap_measure_next_row:
  assumes "next_row ly rects i heap rc = Inr (heap', rc')" and "i < length rc"
  shows "(\<Sum>e\<leftarrow>heap'. Suc (rows_left rects rc' (snd e))) <
    Suc (rows_left rects rc i) + (\<Sum>e\<leftarrow>heap. Suc (rows_left rects rc (snd e)))"
proof -
  have le: "(\<Sum>e\<leftarrow>heap. Suc (rows_left rects rc' (snd e))) \<le> (\<Sum>e\<leftarrow>heap. Suc (rows_left rects rc (snd e)))"
    if "rc' = rc \<or> rc ! i \<noteq> USIZE_MAX \<and> rc' = rc[i := rc ! i + 1]"
    using that by (auto intro!: sum_list_mono simp: rows_left_def nth_list_update assms(2))
  consider "rc' = rc" "heap' = heap"
    | "rc ! i \<noteq> USIZE_MAX" "rc' = rc[i := rc ! i + 1]" "heap' = heap"
    | s where "rc ! i \<noteq> USIZE_MAX" "rc' = rc[i := rc ! i + 1]" "heap' = heap_push (s, i) heap"
        "rc' ! i < y2 (rects ! i) - y1 (rects ! i)"
    using assms by (auto simp: next_row_def Let_def res_simps usize_sub_def split: if_splits)
  then show ?thesis
  proof cases
    case 3
    then have "rows_left rects rc' i < rows_left rects rc i"
      using assms(2) by (auto simp: rows_left_def)
    with 3 le show ?thesis by (auto simp: heap_push_def)
  qed (use le in auto)
qed

lemma heap_pop_sum:
  assumes "heap_pop h = Some (e, h')"
  shows "(\<Sum>x\<leftarrow>h. f x) = (f e :: nat) + (\<Sum>x\<leftarrow>h'. f x)"
proof -
  have "sum_mset (image_mset f (mset h)) = sum_mset (image_mset f (add_mset e (mset h')))"
    using rect_queue.pop_elems [OF assms] by simp
  then show ?thesis by (simp flip: mset_map add: sum_mset_sum_list)
qed

function group_loop ::
  "Layout \<Rightarrow> Rect list \<Rightarrow> nat \<times> nat \<Rightarrow> (nat \<times> nat) list \<Rightarrow> rect_heap \<Rightarrow> nat list \<Rightarrow>
    (nat \<times> nat) option \<Rightarrow> nat \<Rightarrow> (nat \<times> nat) list res" where
  "group_loop ly rects bound output heap rc cur work_estimate =
     (case heap_pop heap of
        None \<Rightarrow> Ok (case cur of None \<Rightarrow> output | Some cv \<Rightarrow> output @ [cv])
      | Some ((start, i), heap) \<Rightarrow>
          rbind (assert_that (i < length rects \<and> i < length rc)) (\<lambda>_.
          rbind (segment_end ly (rects ! i) (rc ! i)) (\<lambda>e.
            let (cv, output) = merge_cur (min_gap ly) (start, e) cur output in
          rbind (next_row ly rects i heap rc) (\<lambda>hr.
            let work_estimate = work_estimate + ilog2 (max 16 (length (fst hr))) in
          rbind (usize_sub (snd bound) (fst bound)) (\<lambda>len.
            if work_estimate > len div 8 then Ok (output @ [(fst cv, snd bound)])
            else group_loop ly rects bound output (fst hr) (snd hr) (Some cv) work_estimate)))))"
  by pat_completeness auto
termination
proof (relation "measure (\<lambda>(ly, rects, bound, output, heap, rc, cur, w).
    \<Sum>e\<leftarrow>heap. Suc (rows_left rects rc (snd e)))", goal_cases)
  case (2 ly rects bnd outp heap rc cur w popped ent heap0 start i)
  then show ?case
    using heap_measure_next_row [of ly rects i heap0 rc]
      heap_pop_sum [of heap "(start, i)" heap0 "\<lambda>e. Suc (rows_left rects rc (snd e))"]
    by auto
qed simp

declare group_loop.simps [simp del]

definition process_group ::
  "Layout \<Rightarrow> Rect list \<Rightarrow> nat \<times> nat \<Rightarrow> (nat \<times> nat) list \<Rightarrow> (nat \<times> nat) list res" where
  "process_group ly rects bound output =
     rbind (fill_heap ly 0 rects [] []) (\<lambda>(heap, row_counters).
       group_loop ly rects bound output heap row_counters None 0)"

section \<open>Grouping\<close>

record Group =
  i_start :: nat
  i_end :: nat
  region :: "nat \<times> nat"

fun group_spans :: "Layout \<Rightarrow> Group \<Rightarrow> nat \<Rightarrow> Rect list \<Rightarrow> Group list res" where
  "group_spans ly current i [] = Ok [current]"
| "group_spans ly current i (rect # rects) =
     rbind (aligned_bounding_interval ly rect) (\<lambda>b.
       if fst b \<le> snd (region current) \<or> fst b - snd (region current) < min_gap ly
       then group_spans ly
         \<lparr>i_start = i_start current, i_end = i + 1,
           region = (fst (region current), max (snd (region current)) (snd b))\<rparr> (i + 1) rects
       else rbind (group_spans ly \<lparr>i_start = i, i_end = i + 1, region = b\<rparr> (i + 1) rects) (\<lambda>spans.
              Ok (current # spans)))"

fun process_spans ::
  "Layout \<Rightarrow> Rect list \<Rightarrow> Group list \<Rightarrow> (nat \<times> nat) list \<Rightarrow> (nat \<times> nat) list res" where
  "process_spans ly rects [] output = Ok output"
| "process_spans ly rects (g # spans) output =
     rbind (slice_res rects (i_start g) (i_end g)) (\<lambda>rs.
     rbind (process_group ly rs (region g) output) (\<lambda>output.
       process_spans ly rects spans output))"

text \<open>
  \<open>sort_unstable_by_key\<close> is a parameter \<open>srt\<close>: the order of elements with equal keys is not
  specified, so the results hold for every function that returns a sorted permutation.
\<close>

definition sorts_by_key :: "((Rect \<Rightarrow> nat) \<Rightarrow> Rect list \<Rightarrow> Rect list) \<Rightarrow> bool" where
  "sorts_by_key srt \<longleftrightarrow> (\<forall>key xs. mset (srt key xs) = mset xs \<and> sorted (map key (srt key xs)))"

definition compute_damaged_segments ::
  "((Rect \<Rightarrow> nat) \<Rightarrow> Rect list \<Rightarrow> Rect list) \<Rightarrow> Layout \<Rightarrow> Rect list \<Rightarrow> (nat \<times> nat) list res" where
  "compute_damaged_segments srt ly rects =
     (if rects = [] then Ok []
      else
        rbind (assert_that (bpp ly > 0)) (\<lambda>_.
        rbind (assert_that (list_all (\<lambda>r. x1 r < x2 r \<and> y1 r < y2 r) rects)) (\<lambda>_.
          let rects = srt (\<lambda>r. fst (bounding_interval ly r)) rects in
        rbind (aligned_bounding_interval ly (hd rects)) (\<lambda>b.
        rbind (group_spans ly \<lparr>i_start = 0, i_end = 1, region = b\<rparr> 1 (tl rects)) (\<lambda>spans.
          process_spans ly rects spans [])))))"

section \<open>Validation and union\<close>

fun validate_each :: "nat \<Rightarrow> (nat \<times> nat) list \<Rightarrow> unit res" where
  "validate_each bits [] = Ok ()"
| "validate_each bits ((x, y) # a) =
     (if x \<ge> y then fail ''negative or empty interval''
      else if bits \<ge> 64 then panic
      else if x mod 2 ^ bits \<noteq> 0 \<or> y mod 2 ^ bits \<noteq> 0 then fail ''misaligned''
      else validate_each bits a)"

fun validate_gaps :: "nat \<Rightarrow> (nat \<times> nat) list \<Rightarrow> unit res" where
  "validate_gaps gap ((x, y) # (x', y') # a) =
     (if x' < y then fail ''overlapping''
      else rbind (usize_add y gap) (\<lambda>l.
        if x' < l then fail ''min gap too small'' else validate_gaps gap ((x', y') # a)))"
| "validate_gaps gap a = Ok ()"

definition validate_output :: "(nat \<times> nat) list \<Rightarrow> nat \<Rightarrow> nat \<Rightarrow> unit res" where
  "validate_output a bits gap = rbind (validate_each bits a) (\<lambda>_. validate_gaps gap a)"

definition union_step ::
  "nat \<Rightarrow> nat \<times> nat \<Rightarrow> (nat \<times> nat) option \<Rightarrow> (nat \<times> nat) list \<Rightarrow>
    (nat \<times> nat) option \<times> (nat \<times> nat) list" where
  "union_step gap nxt lst output =
     (case lst of
        None \<Rightarrow> (Some nxt, output)
      | Some y \<Rightarrow>
          if fst nxt \<le> snd y \<or> fst nxt - snd y < gap then (Some (fst y, max (snd y) (snd nxt)), output)
          else (Some nxt, output @ [y]))"

fun union_loop ::
  "nat \<Rightarrow> (nat \<times> nat) list \<Rightarrow> (nat \<times> nat) list \<Rightarrow> (nat \<times> nat) option \<Rightarrow> (nat \<times> nat) list \<Rightarrow>
    (nat \<times> nat) list" where
  "union_loop gap (ea # as) (eb # bs) lst output =
     (if fst ea \<le> fst eb
      then (let (lst, output) = union_step gap ea lst output in union_loop gap as (eb # bs) lst output)
      else (let (lst, output) = union_step gap eb lst output in union_loop gap (ea # as) bs lst output))"
| "union_loop gap (ea # as) [] lst output =
     (let (lst, output) = union_step gap ea lst output in union_loop gap as [] lst output)"
| "union_loop gap [] (eb # bs) lst output =
     (let (lst, output) = union_step gap eb lst output in union_loop gap [] bs lst output)"
| "union_loop gap [] [] lst output = (case lst of None \<Rightarrow> output | Some e \<Rightarrow> output @ [e])"

definition union_damage ::
  "(nat \<times> nat) list \<Rightarrow> (nat \<times> nat) list \<Rightarrow> nat \<Rightarrow> (nat \<times> nat) list res" where
  "union_damage a b gap =
     (case validate_output a 0 gap of
        Inl _ \<Rightarrow> panic
      | Inr _ \<Rightarrow>
          (case validate_output b 0 gap of
             Inl _ \<Rightarrow> panic
           | Inr _ \<Rightarrow> Ok (union_loop gap a b None [])))"

section \<open>Lists of intervals\<close>

definition valid_ivs :: "nat \<Rightarrow> nat \<Rightarrow> (nat \<times> nat) list \<Rightarrow> bool" where
  "valid_ivs bits gap out \<longleftrightarrow>
     (\<forall>(x, y)\<in>set out. x < y \<and> 2 ^ bits dvd x \<and> 2 ^ bits dvd y) \<and>
     sorted_wrt (\<lambda>a b. snd a + gap \<le> fst b) out"

definition incl :: "nat \<times> nat \<Rightarrow> (nat \<times> nat) list \<Rightarrow> bool" where
  "incl iv out \<longleftrightarrow> (\<exists>c\<in>set out. fst c \<le> fst iv \<and> snd iv \<le> snd c)"

definition acc :: "(nat \<times> nat) option \<Rightarrow> (nat \<times> nat) list \<Rightarrow> (nat \<times> nat) list" where
  "acc cur out = out @ (case cur of None \<Rightarrow> [] | Some c \<Rightarrow> [c])"

lemma acc_simps [simp]: "acc None out = out" "acc (Some c) out = out @ [c]"
  by (simp_all add: acc_def)

lemma incl_append [simp]: "incl iv (xs @ ys) \<longleftrightarrow> incl iv xs \<or> incl iv ys"
  by (auto simp: incl_def)

lemma incl_Cons [simp]: "incl iv (c # cs) \<longleftrightarrow> fst c \<le> fst iv \<and> snd iv \<le> snd c \<or> incl iv cs"
  by (simp add: incl_def)

lemma incl_mono: "incl iv out \<Longrightarrow> fst iv \<le> fst jv \<Longrightarrow> snd jv \<le> snd iv \<Longrightarrow> incl jv out"
  unfolding incl_def by (meson le_trans)

lemma incl_Nil [simp]: "\<not> incl iv []"
  by (simp add: incl_def)

lemma valid_ivs_snoc:
  "valid_ivs bits gap (out @ [c]) \<longleftrightarrow> valid_ivs bits gap out \<and>
     fst c < snd c \<and> 2 ^ bits dvd fst c \<and> 2 ^ bits dvd snd c \<and> (\<forall>d\<in>set out. snd d + gap \<le> fst c)"
  by (cases c) (auto simp: valid_ivs_def sorted_wrt_append)

text \<open>
  One step of a left-to-right sweep, shared by both algorithms: the next interval starts at
  or after the current one, and is merged with it or begins a new one.
\<close>

definition sweep_ok :: "nat \<Rightarrow> nat \<Rightarrow> (nat \<times> nat) option \<Rightarrow> (nat \<times> nat) list \<Rightarrow> nat \<Rightarrow> bool" where
  "sweep_ok bits gap cur out s \<longleftrightarrow> valid_ivs bits gap (acc cur out) \<and>
     (case cur of Some c \<Rightarrow> fst c \<le> s | None \<Rightarrow> (\<forall>d\<in>set out. snd d + gap \<le> s))"

lemma sweep_ok_mono: "sweep_ok bits gap cur out s \<Longrightarrow> s \<le> s' \<Longrightarrow> sweep_ok bits gap cur out s'"
  by (auto simp: sweep_ok_def split: option.splits)

lemma merge_cur_cases [consumes 1]:
  assumes "merge_cur gap se cur out = (cv, out')"
  obtains "cur = None" "cv = se" "out' = out"
    | c where "cur = Some c" "cv = (fst c, max (snd c) (snd se))" "out' = out"
    | c where "cur = Some c" "snd c + gap \<le> fst se" "cv = se" "out' = out @ [c]"
proof (cases cur)
  case None
  with assms show thesis by (intro that(1)) (simp_all add: merge_cur_def)
next
  case (Some c)
  show thesis
  proof (cases "fst se \<le> snd c \<or> fst se - snd c < gap")
    case True
    with Some assms show thesis by (intro that(2) [of c]) (simp_all add: merge_cur_def)
  next
    case False
    then have "snd c + gap \<le> fst se" by linarith
    with Some False assms show thesis by (intro that(3) [of c]) (simp_all add: merge_cur_def)
  qed
qed

lemma merge_cur_spec:
  assumes "sweep_ok bits gap cur out (fst se)" and "fst se < snd se"
    and "2 ^ bits dvd fst se" and "2 ^ bits dvd snd se" and "merge_cur gap se cur out = (cv, out')"
  shows "sweep_ok bits gap (Some cv) out' (fst se)" and "incl se (out' @ [cv])"
    and "incl iv (acc cur out) \<Longrightarrow> incl iv (out' @ [cv])"
    and "fst cv = fst se \<or> (\<exists>c. cur = Some c \<and> fst cv = fst c)"
    and "d \<in> set (out' @ [cv]) \<Longrightarrow> snd d \<le> snd se \<or> (\<exists>d'\<in>set (acc cur out). snd d = snd d')"
proof -
  note cs = merge_cur_cases [OF assms(5)]
  show "sweep_ok bits gap (Some cv) out' (fst se)"
    using cs
  proof cases
    case 1
    with assms(1-4) show ?thesis by (simp add: sweep_ok_def valid_ivs_snoc)
  next
    case (2 c)
    then have "snd cv = snd c \<or> snd cv = snd se" "snd c \<le> snd cv" by (auto simp: max_def)
    with 2 assms(1-4) show ?thesis by (auto simp: sweep_ok_def valid_ivs_snoc)
  next
    case (3 c)
    then have c: "valid_ivs bits gap (out @ [c])" "fst c \<le> fst se" using assms(1) by (simp_all add: sweep_ok_def)
    have "snd d + gap \<le> fst se" if "d \<in> set out" for d
    proof -
      have "snd d + gap \<le> fst c" using c(1) that by (simp add: valid_ivs_snoc)
      with c(2) show ?thesis by simp
    qed
    with 3(2) have "\<forall>d\<in>set (out @ [c]). snd d + gap \<le> fst se" by simp
    with c 3 assms(2-4) show ?thesis
      by (simp add: sweep_ok_def valid_ivs_snoc [of _ _ "out @ [c]"] del: append_assoc)
  qed
  show "incl se (out' @ [cv])"
    using cs assms(1) by cases (simp_all add: sweep_ok_def)
  show "incl iv (out' @ [cv])" if "incl iv (acc cur out)"
    using cs
  proof cases
    case (2 c)
    with that show ?thesis by (auto simp: le_max_iff_disj)
  qed (use that in auto)
  show "fst cv = fst se \<or> (\<exists>c. cur = Some c \<and> fst cv = fst c)"
    using cs by cases simp_all
  show "snd d \<le> snd se \<or> (\<exists>d'\<in>set (acc cur out). snd d = snd d')" if "d \<in> set (out' @ [cv])"
    using cs
  proof cases
    case (2 c)
    then have "snd cv = snd c \<or> snd cv = snd se" "c \<in> set (acc cur out)" by (auto simp: max_def)
    with 2 that show ?thesis by auto
  qed (use that in auto)
qed

section \<open>Arithmetic of rows\<close>

definition rpos :: "Layout \<Rightarrow> nat \<Rightarrow> nat \<Rightarrow> nat" where
  "rpos ly y x = offset ly + y * stride ly + x * bpp ly"

definition dn :: "Layout \<Rightarrow> nat \<Rightarrow> nat" where
  "dn ly p = p div 2 ^ align_bits ly * 2 ^ align_bits ly"

definition up :: "Layout \<Rightarrow> nat \<Rightarrow> nat" where
  "up ly p = next_multiple_of p (2 ^ align_bits ly)"

definition fits :: "Layout \<Rightarrow> Rect \<Rightarrow> bool" where
  "fits ly r \<longleftrightarrow> align_bits ly < 64 \<and> 0 < bpp ly \<and> x1 r < x2 r \<and> y1 r < y2 r \<and> y2 r \<le> U32_MAX \<and>
     rpos ly (y2 r) (x2 r) + 2 ^ align_bits ly \<le> USIZE_MAX"

definition seg :: "Layout \<Rightarrow> Rect \<Rightarrow> nat \<Rightarrow> nat \<times> nat" where
  "seg ly r k = (dn ly (rpos ly (y1 r + k) (x1 r)), up ly (rpos ly (y1 r + k) (x2 r)))"

lemma rpos_mono: "y \<le> y' \<Longrightarrow> x \<le> x' \<Longrightarrow> rpos ly y x \<le> rpos ly y' x'"
  by (simp add: rpos_def add_mono mult_le_mono1)

lemma dn_mono: "p \<le> q \<Longrightarrow> dn ly p \<le> dn ly q"
  by (simp add: dn_def div_le_mono)

lemma up_mono: "p \<le> q \<Longrightarrow> up ly p \<le> up ly q"
  by (simp add: up_def next_multiple_of_def div_ceil_mono)

lemma dn_le: "dn ly p \<le> p"
  by (simp add: dn_def)

lemma up_ge: "p \<le> up ly p"
  by (simp add: up_def next_multiple_of_ge)

lemma dvd_dn_up [simp]: "2 ^ align_bits ly dvd dn ly p" "2 ^ align_bits ly dvd up ly p"
  by (simp_all add: dn_def up_def)

lemma align_up_ok:
  "align_bits ly < 64 \<Longrightarrow> p + 2 ^ align_bits ly \<le> USIZE_MAX \<Longrightarrow> align_up p (align_bits ly) = Inr (up ly p)"
  using next_multiple_of_less [of "2 ^ align_bits ly" p]
  by (simp add: align_up_def checked_next_multiple_of_def up_def)

lemma pixel_pos_ok:
  assumes "fits ly r" and "y \<le> y2 r" and "x \<le> x2 r"
  shows "pixel_pos ly y x = Inr (rpos ly y x)" and "rpos ly y x + 2 ^ align_bits ly \<le> USIZE_MAX"
proof -
  have "rpos ly y x \<le> rpos ly (y2 r) (x2 r)" by (rule rpos_mono [OF assms(2,3)])
  with assms(1) show b: "rpos ly y x + 2 ^ align_bits ly \<le> USIZE_MAX" by (simp add: fits_def)
  then show "pixel_pos ly y x = Inr (rpos ly y x)" by (simp add: pixel_pos_def rpos_def)
qed

lemma row_ops_ok:
  assumes "fits ly r" and "k < y2 r - y1 r"
  shows "row_start ly r k = Inr (fst (seg ly r k))" and "row_end ly r k = Inr (snd (seg ly r k))"
proof -
  have k: "y1 r + k \<le> y2 r" "x1 r \<le> x2 r" "align_bits ly < 64" using assms by (auto simp: fits_def)
  note p = pixel_pos_ok [OF assms(1) k(1)]
  show "row_start ly r k = Inr (fst (seg ly r k))"
    using p [OF k(2)] k(3) by (simp add: row_start_def align_down_def seg_def dn_def)
  show "row_end ly r k = Inr (snd (seg ly r k))"
    using p [OF order_refl] k(3) by (simp add: row_end_def seg_def align_up_ok)
qed

lemma merged_end_ok:
  assumes "fits ly r"
  shows "merged_end ly r = Inr (snd (seg ly r (y2 r - y1 r - 1)))"
proof -
  have "y1 r + (y2 r - y1 r - 1) = y2 r - 1" "1 \<le> y2 r" using assms by (auto simp: fits_def)
  with assms pixel_pos_ok [OF assms, of "y2 r - 1" "x2 r"] show ?thesis
    by (simp add: merged_end_def seg_def align_up_ok fits_def)
qed

lemma seg_mono:
  "j \<le> k \<Longrightarrow> fst (seg ly r j) \<le> fst (seg ly r k) \<and> snd (seg ly r j) \<le> snd (seg ly r k)"
  by (simp add: seg_def dn_mono up_mono rpos_mono)

lemma seg_less: "fits ly r \<Longrightarrow> fst (seg ly r k) < snd (seg ly r k)"
proof -
  assume f: "fits ly r"
  have "rpos ly (y1 r + k) (x1 r) < rpos ly (y1 r + k) (x2 r)"
    using f by (simp add: rpos_def fits_def)
  then show ?thesis
    using dn_le [of ly "rpos ly (y1 r + k) (x1 r)"] up_ge [of "rpos ly (y1 r + k) (x2 r)" ly]
    by (simp add: seg_def)
qed

section \<open>The loop covers its rectangles\<close>

definition rows :: "Rect \<Rightarrow> nat" where
  "rows r = y2 r - y1 r"

text \<open>
  An entry of the heap is the next row of its rectangle, or the first one of a merged rectangle.
\<close>

definition entry_ok :: "Layout \<Rightarrow> Rect list \<Rightarrow> nat list \<Rightarrow> nat \<times> nat \<Rightarrow> bool" where
  "entry_ok ly rects rc e \<longleftrightarrow> snd e < length rects \<and>
     (if rc ! snd e = USIZE_MAX then fst e = fst (seg ly (rects ! snd e) 0)
      else rc ! snd e < rows (rects ! snd e) \<and> fst e = fst (seg ly (rects ! snd e) (rc ! snd e)))"

definition still_queued :: "rect_heap \<Rightarrow> nat list \<Rightarrow> nat \<Rightarrow> nat \<Rightarrow> bool" where
  "still_queued heap rc i k \<longleftrightarrow> i \<in> snd ` set heap \<and> (rc ! i = USIZE_MAX \<or> rc ! i \<le> k)"

definition group_ok :: "Layout \<Rightarrow> Rect list \<Rightarrow> nat \<times> nat \<Rightarrow> bool" where
  "group_ok ly rects bound \<longleftrightarrow>
     (\<forall>r\<in>set rects. fits ly r \<and> fst bound \<le> fst (seg ly r 0) \<and> up ly (rpos ly (y2 r) (x2 r)) \<le> snd bound) \<and>
     2 ^ align_bits ly dvd snd bound"

definition loop_inv ::
  "Layout \<Rightarrow> Rect list \<Rightarrow> nat \<times> nat \<Rightarrow> (nat \<times> nat) list \<Rightarrow> rect_heap \<Rightarrow> nat list \<Rightarrow>
    (nat \<times> nat) option \<Rightarrow> bool" where
  "loop_inv ly rects bound out heap rc cur \<longleftrightarrow>
     length rc = length rects \<and> distinct (map snd heap) \<and> (\<forall>e\<in>set heap. entry_ok ly rects rc e) \<and>
     (\<forall>e\<in>set heap. sweep_ok (align_bits ly) (min_gap ly) cur out (fst e)) \<and>
     valid_ivs (align_bits ly) (min_gap ly) (acc cur out) \<and>
     (\<forall>d\<in>set (acc cur out). snd d \<le> snd bound) \<and>
     (\<forall>i<length rects. \<forall>k<rows (rects ! i).
        incl (seg ly (rects ! i) k) (acc cur out) \<or> still_queued heap rc i k)"

definition group_done ::
  "Layout \<Rightarrow> Rect list \<Rightarrow> nat \<times> nat \<Rightarrow> (nat \<times> nat) list \<Rightarrow> bool" where
  "group_done ly rects bound out \<longleftrightarrow> valid_ivs (align_bits ly) (min_gap ly) out \<and>
     (\<forall>d\<in>set out. snd d \<le> snd bound) \<and> (\<forall>r\<in>set rects. \<forall>k<rows r. incl (seg ly r k) out)"

lemma seg_in_bound:
  assumes "group_ok ly rects bound" and "i < length rects" and "k < rows (rects ! i)"
  shows "fits ly (rects ! i)" and "fst bound \<le> fst (seg ly (rects ! i) k)" and "snd (seg ly (rects ! i) k) \<le> snd bound"
proof -
  let ?r = "rects ! i"
  have r: "fits ly ?r" "fst bound \<le> fst (seg ly ?r 0)" "up ly (rpos ly (y2 ?r) (x2 ?r)) \<le> snd bound"
    using assms by (auto simp: group_ok_def)
  show "fits ly ?r" by (rule r(1))
  show "fst bound \<le> fst (seg ly ?r k)" using r(2) seg_mono [of 0 k ly ?r] by simp
  have "rpos ly (y1 ?r + k) (x2 ?r) \<le> rpos ly (y2 ?r) (x2 ?r)"
    by (rule rpos_mono) (use assms(3) in \<open>auto simp: rows_def\<close>)
  then have "snd (seg ly ?r k) \<le> up ly (rpos ly (y2 ?r) (x2 ?r))" by (simp add: seg_def up_mono)
  with r(3) show "snd (seg ly ?r k) \<le> snd bound" by simp
qed

lemma group_done_final:
  assumes "loop_inv ly rects bound out [] rc cur"
  shows "group_done ly rects bound (acc cur out)"
  using assms by (auto simp: loop_inv_def group_done_def still_queued_def in_set_conv_nth)

lemma group_done_early:
  assumes "loop_inv ly rects bound out heap rc (Some cv)" and "group_ok ly rects bound"
  shows "group_done ly rects bound (out @ [(fst cv, snd bound)])"
proof -
  have i: "valid_ivs (align_bits ly) (min_gap ly) (out @ [cv])" "snd cv \<le> snd bound"
      "\<forall>d\<in>set out. snd d \<le> snd bound" using assms(1) by (simp_all add: loop_inv_def)
  then have "valid_ivs (align_bits ly) (min_gap ly) (out @ [(fst cv, snd bound)])"
    using assms(2) by (auto simp: valid_ivs_snoc group_ok_def)
  moreover have "incl (seg ly (rects ! j) k) (out @ [(fst cv, snd bound)])"
    if jk: "j < length rects" "k < rows (rects ! j)" for j k
  proof (cases "incl (seg ly (rects ! j) k) (out @ [cv])")
    case True
    with i(2) show ?thesis by auto
  next
    case False
    with jk assms(1) have "still_queued heap rc j k" by (auto simp: loop_inv_def)
    then obtain e where e: "e \<in> set heap" "snd e = j" "rc ! j = USIZE_MAX \<or> rc ! j \<le> k"
      by (auto simp: still_queued_def)
    with assms(1) have "entry_ok ly rects rc e" "fst cv \<le> fst e" by (auto simp: loop_inv_def sweep_ok_def)
    then have "fst cv \<le> fst (seg ly (rects ! j) k)"
      using e seg_mono [of 0 k ly "rects ! j"] seg_mono [of "rc ! j" k ly "rects ! j"]
      by (auto simp: entry_ok_def split: if_splits)
    with seg_in_bound(3) [OF assms(2) jk] show ?thesis by simp
  qed
  ultimately show ?thesis
    using i by (simp add: group_done_def all_set_conv_all_nth [of rects] del: incl_append)
qed

text \<open>One iteration of the loop keeps the invariant.\<close>

lemma heap_pop_entries:
  assumes "heap_pop heap = Some (e, heap0)" and "distinct (map snd heap)"
  shows "set heap = insert e (set heap0)" and "distinct (map snd heap0)" and "snd e \<notin> snd ` set heap0"
    and "\<forall>f\<in>set heap0. fst e \<le> fst f"
proof -
  have m: "mset heap = add_mset e (mset heap0)" by (rule rect_queue.pop_elems [OF assms(1)])
  then have "mset (map snd heap) = mset (map snd (e # heap0))" by simp
  then have "distinct (map snd (e # heap0))" using assms(2) mset_eq_imp_distinct_iff by blast
  then show "distinct (map snd heap0)" "snd e \<notin> snd ` set heap0" by simp_all
  show "set heap = insert e (set heap0)"
    using arg_cong [OF m, of set_mset] by simp
  show "\<forall>f\<in>set heap0. fst e \<le> fst f"
  proof
    fix f assume "f \<in> set heap0"
    then have "heap_before e f" by (intro rect_queue.pop_before [OF assms(1)]) simp
    then show "fst e \<le> fst f" by (auto simp: heap_before_def)
  qed
qed

lemma segment_end_ok:
  assumes "fits ly r" and "c = USIZE_MAX \<or> c < rows r"
  shows "segment_end ly r c = Inr (snd (seg ly r (if c = USIZE_MAX then rows r - 1 else c)))"
  using assms merged_end_ok [OF assms(1)] row_ops_ok(2) [OF assms(1), of c]
  by (auto simp: segment_end_def rows_def)

text \<open>The segment popped from the heap covers every row of its rectangle that it stands for.\<close>

definition popped_seg :: "Layout \<Rightarrow> Rect \<Rightarrow> nat \<Rightarrow> nat \<times> nat" where
  "popped_seg ly r c =
     (if c = USIZE_MAX then (fst (seg ly r 0), snd (seg ly r (rows r - 1))) else seg ly r c)"

lemma popped_seg_covers:
  assumes "incl (popped_seg ly r c) out" and "k < rows r" and "c = USIZE_MAX \<or> c = k"
  shows "incl (seg ly r k) out"
proof -
  have "fst (popped_seg ly r c) \<le> fst (seg ly r k) \<and> snd (seg ly r k) \<le> snd (popped_seg ly r c)"
    using assms(2,3) seg_mono [of 0 k ly r] seg_mono [of k "rows r - 1" ly r]
    by (auto simp: popped_seg_def)
  with assms(1) show ?thesis by (blast intro: incl_mono)
qed

lemma popped_seg_ok:
  assumes "group_ok ly rects bound" and "i < length rects" and "c = USIZE_MAX \<or> c < rows (rects ! i)"
  defines "sg \<equiv> popped_seg ly (rects ! i) c"
  shows "fst sg < snd sg" and "2 ^ align_bits ly dvd fst sg" and "2 ^ align_bits ly dvd snd sg"
    and "snd sg \<le> snd bound"
proof -
  let ?r = "rects ! i"
  have f: "fits ly ?r" using assms(1,2) by (simp add: group_ok_def)
  then have r: "rows ?r - 1 < rows ?r" by (auto simp: rows_def fits_def)
  show "fst sg < snd sg"
    using seg_less [OF f, of c] seg_less [OF f, of 0] seg_mono [of 0 "rows ?r - 1" ly ?r]
    by (auto simp: sg_def popped_seg_def)
  show "2 ^ align_bits ly dvd fst sg" "2 ^ align_bits ly dvd snd sg"
    by (simp_all add: sg_def popped_seg_def seg_def)
  show "snd sg \<le> snd bound"
    using seg_in_bound(3) [OF assms(1,2) r] seg_in_bound(3) [OF assms(1,2), of c] assms(3)
    by (auto simp: sg_def popped_seg_def)
qed

lemma entry_ok_popped:
  "entry_ok ly rects rc (s, i) \<Longrightarrow> s = fst (popped_seg ly (rects ! i) (rc ! i)) \<and> i < length rects \<and>
     (rc ! i = USIZE_MAX \<or> rc ! i < rows (rects ! i))"
  by (auto simp: entry_ok_def popped_seg_def)

lemma next_row_cases:
  assumes "fits ly (rects ! i)" and "i < length rc" and "rc ! i = USIZE_MAX \<or> rc ! i < rows (rects ! i)"
  obtains "rc ! i = USIZE_MAX" "next_row ly rects i heap rc = Inr (heap, rc)"
    | "rc ! i \<noteq> USIZE_MAX" "rc ! i + 1 < rows (rects ! i)"
      "next_row ly rects i heap rc =
        Inr ((fst (seg ly (rects ! i) (rc ! i + 1)), i) # heap, rc[i := rc ! i + 1])"
    | "rc ! i \<noteq> USIZE_MAX" "rc ! i + 1 = rows (rects ! i)"
      "next_row ly rects i heap rc = Inr (heap, rc[i := rc ! i + 1])"
proof -
  have sub: "usize_sub (y2 (rects ! i)) (y1 (rects ! i)) = Inr (rows (rects ! i))"
    using assms(1) by (simp add: fits_def rows_def)
  consider "rc ! i = USIZE_MAX" | "rc ! i \<noteq> USIZE_MAX" "rc ! i + 1 < rows (rects ! i)"
    | "rc ! i \<noteq> USIZE_MAX" "rc ! i + 1 = rows (rects ! i)" using assms(3) by linarith
  then show thesis
  proof cases
    case 1
    then show thesis by (intro that(1)) (simp_all add: next_row_def)
  next
    case 2
    then have "row_start ly (rects ! i) (rc ! i + 1) = Inr (fst (seg ly (rects ! i) (rc ! i + 1)))"
      by (intro row_ops_ok(1) assms(1)) (simp add: rows_def)
    with 2 assms(2) show thesis
      by (intro that(2)) (simp_all add: next_row_def Let_def sub heap_push_def)
  next
    case 3
    with assms(2) show thesis by (intro that(3)) (simp_all add: next_row_def Let_def sub)
  qed
qed

text \<open>
  What becomes of the heap and the row counters: the other entries stay as they were, the popped
  rectangle returns with its next row if it has one, and no row but the popped ones leaves the
  queue.
\<close>

lemma next_row_spec:
  assumes "group_ok ly rects bound" and "length rc = length rects" and "distinct (map snd heap0)"
    and "i \<notin> snd ` set heap0" and "\<forall>e\<in>set heap0. entry_ok ly rects rc e"
    and "i < length rects" and "rc ! i = USIZE_MAX \<or> rc ! i < rows (rects ! i)"
  shows "\<exists>heap' rc'. next_row ly rects i heap0 rc = Inr (heap', rc') \<and> length rc' = length rects \<and>
    distinct (map snd heap') \<and> (\<forall>e\<in>set heap'. entry_ok ly rects rc' e) \<and>
    (\<forall>e\<in>set heap'. e \<in> set heap0 \<or> fst (popped_seg ly (rects ! i) (rc ! i)) \<le> fst e) \<and>
    (\<forall>j k. still_queued heap0 rc j k \<longrightarrow> still_queued heap' rc' j k) \<and>
    (\<forall>k<rows (rects ! i). rc ! i \<noteq> USIZE_MAX \<and> rc ! i < k \<longrightarrow> still_queued heap' rc' i k)"
proof -
  let ?r = "rects ! i"
  have f: "fits ly ?r" using assms(1,6) by (simp add: group_ok_def)
  have small: "rc ! i + 1 \<noteq> USIZE_MAX" if "rc ! i < rows ?r"
    using f that by (auto simp: fits_def rows_def machine_bounds)
  have ent: "entry_ok ly rects (rc[i := c]) e" if "e \<in> set heap0" for c e
  proof -
    have "snd e \<noteq> i" using that assms(4) by blast
    with that assms(5) show ?thesis by (auto simp: entry_ok_def)
  qed
  have sq: "still_queued heap0 (rc[i := c]) j k" if "still_queued heap0 rc j k" for c j k
  proof -
    have "j \<noteq> i" using that assms(4) by (auto simp: still_queued_def)
    with that show ?thesis by (simp add: still_queued_def)
  qed
  show ?thesis
    using f assms(6) [folded assms(2)] assms(7)
  proof (cases rule: next_row_cases [where heap = heap0])
    case 1
    with assms show ?thesis by auto
  next
    case 2
    let ?e = "(fst (seg ly ?r (rc ! i + 1)), i)"
    have "entry_ok ly rects (rc[i := rc ! i + 1]) ?e"
      using 2 assms(2,6,7) small by (auto simp: entry_ok_def)
    moreover have "fst (popped_seg ly ?r (rc ! i)) \<le> fst ?e"
      using 2 seg_mono [of "rc ! i" "rc ! i + 1" ly ?r] by (simp add: popped_seg_def)
    moreover have "still_queued (?e # heap0) (rc[i := rc ! i + 1]) i k" if "rc ! i < k" for k
      using that assms(2,6) by (auto simp: still_queued_def)
    moreover have "still_queued (?e # heap0) (rc[i := rc ! i + 1]) j k" if "still_queued heap0 rc j k" for j k
      using sq [OF that] by (auto simp: still_queued_def)
    ultimately show ?thesis
      using 2(3) assms(2,3,4) ent
      by (intro exI [of _ "?e # heap0"] exI [of _ "rc[i := rc ! i + 1]"]) auto
  next
    case 3
    then show ?thesis
      using assms(2,3) ent sq by (intro exI [of _ heap0] exI [of _ "rc[i := rc ! i + 1]"]) auto
  qed
qed

lemma loop_step:
  assumes "loop_inv ly rects bound out heap rc cur" and "group_ok ly rects bound"
    and "heap_pop heap = Some ((start, i), heap0)"
  shows "i < length rects \<and> i < length rc \<and>
    (\<exists>e cv out' heap' rc'. segment_end ly (rects ! i) (rc ! i) = Inr e \<and>
      merge_cur (min_gap ly) (start, e) cur out = (cv, out') \<and>
      next_row ly rects i heap0 rc = Inr (heap', rc') \<and> loop_inv ly rects bound out' heap' rc' (Some cv))"
proof -
  let ?r = "rects ! i" and ?sg = "popped_seg ly (rects ! i) (rc ! i)"
  note inv = assms(1) [unfolded loop_inv_def]
  have len: "length rc = length rects" using inv by simp
  note h = heap_pop_entries [OF assms(3)]
  have eo: "entry_ok ly rects rc (start, i)" using inv h(1) by auto
  have st: "start = fst ?sg" "i < length rects" "rc ! i = USIZE_MAX \<or> rc ! i < rows ?r"
    using entry_ok_popped [OF eo] by auto
  have f: "fits ly ?r" using assms(2) st(2) by (simp add: group_ok_def)
  have e: "segment_end ly ?r (rc ! i) = Inr (snd ?sg)"
    using segment_end_ok [OF f st(3)] by (auto simp: popped_seg_def)
  obtain cv out' where mc: "merge_cur (min_gap ly) ?sg cur out = (cv, out')" by fastforce
  note ps = popped_seg_ok [OF assms(2) st(2,3)]
  have sw: "sweep_ok (align_bits ly) (min_gap ly) cur out (fst ?sg)"
    using inv h(1) st(1) by auto
  note ms = merge_cur_spec [OF sw ps(1-3) mc]
  have d: "distinct (map snd heap)" "\<forall>e\<in>set heap0. entry_ok ly rects rc e"
    using inv h(1) by auto
  have ni: "i \<notin> snd ` set heap0" using h(3) [OF d(1)] by simp
  obtain heap' rc' where nr: "next_row ly rects i heap0 rc = Inr (heap', rc')" "length rc' = length rects"
      "distinct (map snd heap')" "\<forall>e\<in>set heap'. entry_ok ly rects rc' e"
      "\<forall>e\<in>set heap'. e \<in> set heap0 \<or> fst ?sg \<le> fst e"
      "\<forall>j k. still_queued heap0 rc j k \<longrightarrow> still_queued heap' rc' j k"
      "\<forall>k<rows ?r. rc ! i \<noteq> USIZE_MAX \<and> rc ! i < k \<longrightarrow> still_queued heap' rc' i k"
    using next_row_spec [OF assms(2) len h(2) [OF d(1)] ni d(2) st(2,3)] by blast
  have "fst ?sg \<le> fst e" if "e \<in> set heap'" for e
    using that nr(5) h(4) [OF d(1)] st(1) by auto
  then have "\<forall>e\<in>set heap'. sweep_ok (align_bits ly) (min_gap ly) (Some cv) out' (fst e)"
    using sweep_ok_mono [OF ms(1)] by blast
  moreover have "\<forall>d\<in>set (out' @ [cv]). snd d \<le> snd bound"
    using ms(5) ps(4) inv by (metis le_trans)
  moreover have "incl (seg ly (rects ! j) k) (out' @ [cv]) \<or> still_queued heap' rc' j k"
    if jk: "j < length rects" "k < rows (rects ! j)" for j k
  proof -
    have "incl (seg ly (rects ! j) k) (acc cur out) \<or> still_queued heap rc j k" using inv jk by blast
    then consider "incl (seg ly (rects ! j) k) (acc cur out)" | "still_queued heap0 rc j k"
      | "j = i" "rc ! i = USIZE_MAX \<or> rc ! i \<le> k"
      using h(1) [OF d(1)] unfolding still_queued_def by force
    then show ?thesis
    proof cases
      case 3
      with jk nr(7) popped_seg_covers [OF ms(2), of k] show ?thesis by (cases "rc ! i = k") auto
    qed (use ms(3) nr(6) in blast)+
  qed
  moreover have "valid_ivs (align_bits ly) (min_gap ly) (out' @ [cv])" using ms(1) by (simp add: sweep_ok_def)
  ultimately have "loop_inv ly rects bound out' heap' rc' (Some cv)"
    using nr(2-4) unfolding loop_inv_def by (simp del: incl_append)
  with e mc nr(1) st len show ?thesis
    by (intro conjI exI [of _ "snd ?sg"] exI [of _ cv] exI [of _ out'] exI [of _ heap'] exI [of _ rc']) simp_all
qed

lemma group_loop_spec:
  assumes "loop_inv ly rects bound out heap rc cur" and "group_ok ly rects bound" and "fst bound \<le> snd bound"
  shows "\<exists>res. group_loop ly rects bound out heap rc cur w = Inr res \<and> group_done ly rects bound res"
  using assms
proof (induction ly rects bound out heap rc cur w rule: group_loop.induct)
  case (1 ly rects bound out heap rc cur w)
  show ?case
  proof (cases "heap_pop heap")
    case None
    then have "heap = []" using rect_queue.pop_None [of heap] by simp
    with "1.prems"(1) group_done_final have "group_done ly rects bound (acc cur out)" by blast
    moreover from None have "group_loop ly rects bound out heap rc cur w = Inr (acc cur out)"
      by (simp add: group_loop.simps acc_def split: option.split)
    ultimately show ?thesis by blast
  next
    case (Some eh)
    obtain start i heap0 where eh: "eh = ((start, i), heap0)" by (metis surj_pair)
    note pop = Some [unfolded eh]
    from loop_step [OF "1.prems"(1,2) pop] obtain e cv out' heap' rc'
      where i: "i < length rects" "i < length rc" and e: "segment_end ly (rects ! i) (rc ! i) = Inr e"
        and mc: "merge_cur (min_gap ly) (start, e) cur out = (cv, out')"
        and nr: "next_row ly rects i heap0 rc = Inr (heap', rc')"
        and inv: "loop_inv ly rects bound out' heap' rc' (Some cv)" by blast
    let ?w = "w + ilog2 (max 16 (length heap'))"
    have step: "group_loop ly rects bound out heap rc cur w =
        (if ?w > (snd bound - fst bound) div 8 then Ok (out' @ [(fst cv, snd bound)])
         else group_loop ly rects bound out' heap' rc' (Some cv) ?w)"
      unfolding group_loop.simps [of ly rects bound out heap] pop
      using i e mc nr "1.prems"(3) by (simp add: Let_def)
    show ?thesis
    proof (cases "?w > (snd bound - fst bound) div 8")
      case True
      with group_done_early [OF inv "1.prems"(2)] step show ?thesis by simp
    next
      case False
      have "\<exists>res. group_loop ly rects bound out' heap' rc' (Some cv) ?w = Inr res \<and> group_done ly rects bound res"
        using "1.IH" [OF pop refl refl _ e refl mc [symmetric] nr refl _ _ _ "1.prems"(2,3)] i inv False "1.prems"(3)
        by simp
      with False step show ?thesis by simp
    qed
  qed
qed

lemma merge_cur_extends: "merge_cur gap se cur out = (cv, out') \<Longrightarrow> \<exists>more. out' = out @ more"
  by (auto simp: merge_cur_def split: option.splits if_splits)

lemma group_loop_extends:
  "group_loop ly rects bound out heap rc cur w = Inr res \<Longrightarrow> \<exists>more. res = out @ more"
proof (induction ly rects bound out heap rc cur w arbitrary: res rule: group_loop.induct)
  case (1 ly rects bound out heap rc cur w)
  show ?case
  proof (cases "heap_pop heap")
    case None
    with "1.prems" show ?thesis by (auto simp: group_loop.simps [of ly rects bound out heap] split: option.splits)
  next
    case (Some eh)
    obtain start i heap0 where eh: "eh = ((start, i), heap0)" by (metis surj_pair)
    note pop = Some [unfolded eh]
    from "1.prems" pop obtain e hr where i: "i < length rects" "i < length rc"
      and e: "segment_end ly (rects ! i) (rc ! i) = Inr e" and nr: "next_row ly rects i heap0 rc = Inr hr"
      and b: "fst bound \<le> snd bound"
      by (auto simp: group_loop.simps [of ly rects bound out heap] Let_def res_simps usize_sub_def split_beta split: if_splits)
    obtain cv out' where mc: "merge_cur (min_gap ly) (start, e) cur out = (cv, out')" by fastforce
    let ?w = "w + ilog2 (max 16 (length (fst hr)))"
    have "Inr res = (if ?w > (snd bound - fst bound) div 8 then Ok (out' @ [(fst cv, snd bound)])
         else group_loop ly rects bound out' (fst hr) (snd hr) (Some cv) ?w)"
      unfolding "1.prems" [symmetric] group_loop.simps [of ly rects bound out heap] pop
      using i e mc nr b by (simp add: Let_def)
    then have "\<exists>more. res = out' @ more"
      using "1.IH" [OF pop refl refl _ e refl mc [symmetric] nr refl] i b by (auto split: if_splits)
    with merge_cur_extends [OF mc] show ?thesis by auto
  qed
qed

lemma fill_heap_spec:
  assumes "\<forall>r\<in>set rs. fits ly r" and "length rc = i"
  shows "\<exists>heap' rc'. fill_heap ly i rs heap rc = Inr (heap', rc @ rc') \<and> length rc' = length rs \<and>
    set heap' = set heap \<union> (\<lambda>j. (fst (seg ly (rs ! j) 0), i + j)) ` {..<length rs} \<and>
    (distinct (map snd heap) \<and> (\<forall>e\<in>set heap. snd e < i) \<longrightarrow> distinct (map snd heap')) \<and>
    (\<forall>c\<in>set rc'. c = USIZE_MAX \<or> c = 0)"
  using assms
proof (induction rs arbitrary: i heap rc)
  case Nil
  then show ?case by auto
next
  case (Cons r rs)
  have f: "fits ly r" and fs: "\<forall>r\<in>set rs. fits ly r" using Cons.prems by simp_all
  have "(x2 r - x1 r) * bpp ly \<le> x2 r * bpp ly" by (rule mult_le_mono1) simp
  also have "\<dots> \<le> USIZE_MAX" using f by (auto simp: fits_def rpos_def)
  finally obtain m where m: "is_merged ly r = Inr m" using f by (simp add: is_merged_def fits_def)
  let ?c = "if m then USIZE_MAX else 0" and ?e = "(fst (seg ly r 0), i)"
  have s: "row_start ly r 0 = Inr (fst (seg ly r 0))" by (rule row_ops_ok(1) [OF f]) (use f in \<open>simp add: fits_def\<close>)
  have "length (rc @ [?c]) = Suc i" using Cons.prems by simp
  from Cons.IH [OF fs this, of "?e # heap"] obtain heap' rc'
    where h: "fill_heap ly (Suc i) rs (?e # heap) (rc @ [?c]) = Inr (heap', (rc @ [?c]) @ rc')"
      "length rc' = length rs"
      "set heap' = set (?e # heap) \<union> (\<lambda>j. (fst (seg ly (rs ! j) 0), Suc i + j)) ` {..<length rs}"
      "distinct (map snd (?e # heap)) \<and> (\<forall>e\<in>set (?e # heap). snd e < Suc i) \<longrightarrow> distinct (map snd heap')"
      "\<forall>c\<in>set rc'. c = USIZE_MAX \<or> c = 0" by auto
  have img: "(\<lambda>j. (fst (seg ly ((r # rs) ! j) 0), i + j)) ` {..<length (r # rs)} =
      insert ?e ((\<lambda>j. (fst (seg ly (rs ! j) 0), Suc i + j)) ` {..<length rs})"
    by (simp add: lessThan_Suc_eq_insert_0 image_image)
  have "fill_heap ly i (r # rs) heap rc = Inr (heap', rc @ (?c # rc'))"
    using m s h(1) by (simp add: heap_push_def)
  moreover have "distinct (map snd heap) \<and> (\<forall>e\<in>set heap. snd e < i) \<longrightarrow> distinct (map snd heap')"
    using h(4) by fastforce
  ultimately show ?case
    using h(2,3,5) img by (intro exI [of _ heap'] exI [of _ "?c # rc'"]) auto
qed

lemma process_group_spec:
  assumes "group_ok ly rects bound" and "fst bound \<le> snd bound"
    and "valid_ivs (align_bits ly) (min_gap ly) out" and "\<forall>d\<in>set out. snd d + min_gap ly \<le> fst bound"
  shows "\<exists>more. process_group ly rects bound out = Inr (out @ more) \<and> group_done ly rects bound (out @ more)"
proof -
  have f: "\<forall>r\<in>set rects. fits ly r" using assms(1) by (simp add: group_ok_def)
  from fill_heap_spec [OF f, of "[]" 0 "[]"] obtain heap rc
    where h: "fill_heap ly 0 rects [] [] = Inr (heap, rc)" "length rc = length rects"
      "set heap = (\<lambda>j. (fst (seg ly (rects ! j) 0), j)) ` {..<length rects}" "distinct (map snd heap)"
      "\<forall>c\<in>set rc. c = USIZE_MAX \<or> c = 0" by auto
  have rc: "rc ! j = USIZE_MAX \<or> rc ! j = 0" if "j < length rects" for j
    using that h(2,5) by auto
  have r0: "0 < rows (rects ! j)" if "j < length rects" for j
    using that f by (auto simp: fits_def rows_def)
  have "entry_ok ly rects rc (fst (seg ly (rects ! j) 0), j)" if "j < length rects" for j
    using rc [OF that] r0 [OF that] that by (auto simp: entry_ok_def)
  then have "\<forall>e\<in>set heap. entry_ok ly rects rc e" by (auto simp: h(3))
  moreover have "sweep_ok (align_bits ly) (min_gap ly) None out (fst e)" if "e \<in> set heap" for e
  proof -
    have "fst bound \<le> fst e" using that assms(1) by (auto simp: h(3) group_ok_def)
    with assms(3,4) show ?thesis by (auto simp: sweep_ok_def intro: le_trans)
  qed
  moreover have "still_queued heap rc j k" if "j < length rects" for j k
    using rc [OF that] that by (auto simp: h(3) still_queued_def image_image)
  moreover have "\<forall>d\<in>set out. snd d \<le> snd bound" using assms(2,4) by force
  ultimately have "loop_inv ly rects bound out heap rc None"
    using h(2,4) assms(3) by (simp add: loop_inv_def)
  from group_loop_spec [OF this assms(1,2), of 0] obtain res
    where res: "group_loop ly rects bound out heap rc None 0 = Inr res" "group_done ly rects bound res" by blast
  with group_loop_extends [OF res(1)] h(1) show ?thesis by (auto simp: process_group_def)
qed

section \<open>The groups partition the rectangles\<close>

definition ab :: "Layout \<Rightarrow> Rect \<Rightarrow> nat \<times> nat" where
  "ab ly r = (dn ly (rpos ly (y1 r) (x1 r)), up ly (rpos ly (y2 r) (x2 r)))"

lemma bounding_interval_ok:
  assumes "fits ly r"
  shows "bounding_interval ly r = (rpos ly (y1 r) (x1 r), rpos ly (y2 r) (x2 r))"
proof -
  have "y1 r \<le> y2 r" "x1 r \<le> x2 r" using assms by (auto simp: fits_def)
  then have "rpos ly (y1 r) (x1 r) \<le> USIZE_MAX" "rpos ly (y2 r) (x2 r) \<le> USIZE_MAX"
    using pixel_pos_ok(2) [OF assms, of "y1 r" "x1 r"] pixel_pos_ok(2) [OF assms, of "y2 r" "x2 r"] by auto
  then show ?thesis by (simp add: bounding_interval_def rpos_def)
qed

lemma aligned_bounding_interval_ok: "fits ly r \<Longrightarrow> aligned_bounding_interval ly r = Inr (ab ly r)"
  by (simp add: aligned_bounding_interval_def bounding_interval_ok ab_def align_down_def dn_def
      align_up_ok fits_def)

lemma ab_props:
  assumes "fits ly r"
  shows "fst (ab ly r) \<le> snd (ab ly r)" and "fst (ab ly r) = fst (seg ly r 0)"
    and "snd (ab ly r) = up ly (rpos ly (y2 r) (x2 r))" and "2 ^ align_bits ly dvd snd (ab ly r)"
proof -
  have "rpos ly (y1 r) (x1 r) \<le> rpos ly (y2 r) (x2 r)"
    by (rule rpos_mono) (use assms in \<open>auto simp: fits_def\<close>)
  then show "fst (ab ly r) \<le> snd (ab ly r)"
    using dn_le [of ly "rpos ly (y1 r) (x1 r)"] up_ge [of "rpos ly (y2 r) (x2 r)" ly] by (simp add: ab_def)
qed (simp_all add: ab_def seg_def)

fun spans_ok :: "Layout \<Rightarrow> nat \<Rightarrow> Rect list \<Rightarrow> nat \<Rightarrow> Group list \<Rightarrow> bool" where
  "spans_ok ly M R s [] \<longleftrightarrow> s = length R"
| "spans_ok ly M R s (g # gs) \<longleftrightarrow> i_start g = s \<and> s < i_end g \<and> i_end g \<le> length R \<and>
     group_ok ly (sub_slice R s (i_end g)) (region g) \<and> fst (region g) \<le> snd (region g) \<and> snd (region g) \<le> M \<and>
     (\<forall>h\<in>set gs. snd (region g) + min_gap ly \<le> fst (region h)) \<and> spans_ok ly M R (i_end g) gs"

lemma sub_slice_snoc: "s \<le> i \<Longrightarrow> i < length R \<Longrightarrow> sub_slice R s (Suc i) = sub_slice R s i @ [R ! i]"
  using slice_concat [of s i "Suc i" R] by (simp add: sub_slice_def [of R i] take_Suc_conv_app_nth Cons_nth_drop_Suc [symmetric])

lemma group_ok_append:
  "group_ok ly (xs @ ys) b \<longleftrightarrow> group_ok ly xs b \<and> group_ok ly ys b"
  by (auto simp: group_ok_def)

lemma group_ok_mono:
  "group_ok ly xs b \<Longrightarrow> snd b \<le> m \<Longrightarrow> 2 ^ align_bits ly dvd m \<Longrightarrow> group_ok ly xs (fst b, m)"
  by (auto simp: group_ok_def intro: le_trans)

lemma group_ok_single:
  "fits ly r \<Longrightarrow> l \<le> fst (ab ly r) \<Longrightarrow> snd (ab ly r) \<le> m \<Longrightarrow> 2 ^ align_bits ly dvd m \<Longrightarrow> group_ok ly [r] (l, m)"
  by (simp add: group_ok_def ab_props)

lemma group_spans_spec:
  assumes "\<forall>r\<in>set R. fits ly r" and "drop i R = rest" and "i_start cur < i_end cur" and "i_end cur = i" and "i \<le> length R"
    and "group_ok ly (sub_slice R (i_start cur) i) (region cur)" and "fst (region cur) \<le> snd (region cur)"
    and "snd (region cur) \<le> M" and "\<forall>r\<in>set rest. snd (ab ly r) \<le> M"
    and "sorted (fst (region cur) # map (\<lambda>r. fst (ab ly r)) rest)"
  shows "\<exists>spans. group_spans ly cur i rest = Inr spans \<and> spans_ok ly M R (i_start cur) spans \<and>
    (\<forall>h\<in>set spans. fst (region cur) \<le> fst (region h))"
  using assms(2-)
proof (induction rest arbitrary: cur i)
  case Nil
  then have "i = length R" by simp
  with Nil show ?case by simp
next
  case (Cons r rest)
  have i: "i < length R" "R ! i = r" "drop (Suc i) R = rest"
    using Cons.prems(1,4) by (metis drop_eq_Nil le_neq_implies_less list.distinct(1) order_refl,
        metis drop_eq_Nil hd_drop_conv_nth leI list.distinct(1) list.sel(1), metis drop_Suc list.sel(3) tl_drop)
  have f: "fits ly r" using assms(1) i by auto
  have sl: "sub_slice R (i_start cur) (Suc i) = sub_slice R (i_start cur) i @ [r]"
    using sub_slice_snoc [of "i_start cur" i R] Cons.prems(2,3) i by simp
  have srt: "fst (region cur) \<le> fst (ab ly r)" "sorted (fst (ab ly r) # map (\<lambda>r. fst (ab ly r)) rest)"
      "sorted (fst (region cur) # map (\<lambda>r. fst (ab ly r)) rest)" using Cons.prems(9) by auto
  let ?m = "max (snd (region cur)) (snd (ab ly r))"
  have dm: "2 ^ align_bits ly dvd ?m" using Cons.prems(5) ab_props(4) [OF f] by (simp add: group_ok_def max_def)
  show ?case
  proof (cases "fst (ab ly r) \<le> snd (region cur) \<or> fst (ab ly r) - snd (region cur) < min_gap ly")
    case True
    let ?cur = "\<lparr>i_start = i_start cur, i_end = i + 1, region = (fst (region cur), ?m)\<rparr>"
    have "group_ok ly (sub_slice R (i_start cur) (Suc i)) (fst (region cur), ?m)"
      unfolding sl group_ok_append
      using group_ok_mono [OF Cons.prems(5) _ dm] group_ok_single [OF f srt(1) _ dm] by simp
    then have "\<exists>spans. group_spans ly ?cur (Suc i) rest = Inr spans \<and> spans_ok ly M R (i_start ?cur) spans \<and>
        (\<forall>h\<in>set spans. fst (region ?cur) \<le> fst (region h))"
      by (intro Cons.IH) (use i srt(3) Cons.prems in auto)
    with True aligned_bounding_interval_ok [OF f] show ?thesis by simp
  next
    case False
    let ?cur = "\<lparr>i_start = i, i_end = i + 1, region = ab ly r\<rparr>"
    have "group_ok ly (sub_slice R i (Suc i)) (ab ly r)"
      using group_ok_single [OF f order_refl order_refl ab_props(4) [OF f]] sub_slice_snoc [of i i R] i by simp
    then have "\<exists>spans. group_spans ly ?cur (Suc i) rest = Inr spans \<and> spans_ok ly M R (i_start ?cur) spans \<and>
        (\<forall>h\<in>set spans. fst (region ?cur) \<le> fst (region h))"
      by (intro Cons.IH) (use i srt(2) ab_props(1) [OF f] Cons.prems(8) in auto)
    then obtain spans where sp: "group_spans ly ?cur (Suc i) rest = Inr spans" "spans_ok ly M R i spans"
        "\<forall>h\<in>set spans. fst (ab ly r) \<le> fst (region h)" by auto
    have gap: "snd (region cur) + min_gap ly \<le> fst (ab ly r)" using False by linarith
    have "group_spans ly cur i (r # rest) = Inr (cur # spans)"
      using False aligned_bounding_interval_ok [OF f] sp(1) by simp
    moreover have "spans_ok ly M R (i_start cur) (cur # spans)"
      using sp(2,3) gap Cons.prems i by (auto intro: le_trans)
    ultimately show ?thesis using sp(3) srt(1) by (auto intro: le_trans)
  qed
qed

lemma process_spans_spec:
  assumes "spans_ok ly M R s spans" and "valid_ivs (align_bits ly) (min_gap ly) out" and "\<forall>d\<in>set out. snd d \<le> M"
    and "\<forall>d\<in>set out. \<forall>g\<in>set spans. snd d + min_gap ly \<le> fst (region g)"
  shows "\<exists>more. process_spans ly R spans out = Inr (out @ more) \<and>
    valid_ivs (align_bits ly) (min_gap ly) (out @ more) \<and> (\<forall>d\<in>set (out @ more). snd d \<le> M) \<and>
    (\<forall>r\<in>set (drop s R). \<forall>k<rows r. incl (seg ly r k) (out @ more))"
  using assms
proof (induction spans arbitrary: s out)
  case Nil
  then show ?case by simp
next
  case (Cons g gs)
  let ?rs = "sub_slice R s (i_end g)"
  from process_group_spec [of ly ?rs "region g" out] Cons.prems obtain m1
    where m1: "process_group ly ?rs (region g) out = Inr (out @ m1)" "group_done ly ?rs (region g) (out @ m1)" by auto
  have v: "valid_ivs (align_bits ly) (min_gap ly) (out @ m1)" and e: "\<forall>d\<in>set (out @ m1). snd d \<le> snd (region g)"
    using m1(2) by (simp_all add: group_done_def)
  have "\<forall>h\<in>set gs. snd (region g) + min_gap ly \<le> fst (region h)" and sp: "spans_ok ly M R (i_end g) gs"
    using Cons.prems(1) by simp_all
  with e have "\<forall>d\<in>set (out @ m1). \<forall>h\<in>set gs. snd d + min_gap ly \<le> fst (region h)"
    by (meson add_le_mono1 le_trans)
  moreover have "\<forall>d\<in>set (out @ m1). snd d \<le> M" using e Cons.prems(1) by (auto intro: le_trans)
  ultimately have "\<exists>more. process_spans ly R gs (out @ m1) = Inr ((out @ m1) @ more) \<and>
      valid_ivs (align_bits ly) (min_gap ly) ((out @ m1) @ more) \<and> (\<forall>d\<in>set ((out @ m1) @ more). snd d \<le> M) \<and>
      (\<forall>r\<in>set (drop (i_end g) R). \<forall>k<rows r. incl (seg ly r k) ((out @ m1) @ more))"
    by (intro Cons.IH sp v)
  then obtain m2 where m2: "process_spans ly R gs (out @ m1) = Inr (out @ m1 @ m2)"
      "valid_ivs (align_bits ly) (min_gap ly) (out @ m1 @ m2)" "\<forall>d\<in>set (out @ m1 @ m2). snd d \<le> M"
      "\<forall>r\<in>set (drop (i_end g) R). \<forall>k<rows r. incl (seg ly r k) (out @ m1 @ m2)" by auto
  have "drop s R = ?rs @ drop (i_end g) R"
    using Cons.prems(1) slice_concat [of s "i_end g" "length R" R] by (simp add: sub_slice_def)
  moreover have "\<forall>r\<in>set ?rs. \<forall>k<rows r. incl (seg ly r k) (out @ m1 @ m2)"
    using m1(2) by (auto simp: group_done_def)
  ultimately have "\<forall>r\<in>set (drop s R). \<forall>k<rows r. incl (seg ly r k) (out @ m1 @ m2)"
    using m2(4) by (simp add: ball_Un del: incl_append)
  moreover have "process_spans ly R (g # gs) out = Inr (out @ m1 @ m2)"
    using Cons.prems(1) m1(1) m2(1) by simp
  ultimately show ?case using m2(2,3) by blast
qed

lemma compute_damaged_segments_spec:
  assumes "sorts_by_key srt" and "\<forall>r\<in>set rects. fits ly r" and "\<forall>r\<in>set rects. snd (ab ly r) \<le> M"
  shows "\<exists>out. compute_damaged_segments srt ly rects = Inr out \<and>
    valid_ivs (align_bits ly) (min_gap ly) out \<and> (\<forall>d\<in>set out. snd d \<le> M) \<and> (\<forall>r\<in>set rects. \<forall>k<rows r. incl (seg ly r k) out)"
proof (cases "rects = []")
  case True
  then show ?thesis by (simp add: compute_damaged_segments_def valid_ivs_def)
next
  case False
  let ?R = "srt (\<lambda>r. fst (bounding_interval ly r)) rects"
  have perm: "mset ?R = mset rects" and sorted: "sorted (map (\<lambda>r. fst (bounding_interval ly r)) ?R)"
    using assms(1) by (auto simp: sorts_by_key_def)
  then have set: "set ?R = set rects" by (metis set_mset_mset)
  then obtain r rest where R: "?R = r # rest" using False by (cases ?R) auto
  have f: "\<forall>q\<in>set ?R. fits ly q" using assms(2) set by simp
  have "sorted (map (\<lambda>q. fst (ab ly q)) ?R)"
    using f sorted unfolding sorted_wrt_map
    by (elim sorted_wrt_mono_rel [rotated]) (simp add: bounding_interval_ok ab_def dn_mono)
  then have srt: "sorted (fst (ab ly r) # map (\<lambda>q. fst (ab ly q)) rest)" unfolding R by simp
  have fr: "fits ly r" using f R by simp
  have "group_ok ly (sub_slice ?R 0 1) (ab ly r)"
    using group_ok_single [OF fr order_refl order_refl ab_props(4) [OF fr]] R by (simp add: sub_slice_def)
  then have "\<exists>spans. group_spans ly \<lparr>i_start = 0, i_end = 1, region = ab ly r\<rparr> 1 rest = Inr spans \<and>
      spans_ok ly M ?R (i_start \<lparr>i_start = 0, i_end = 1, region = ab ly r\<rparr>) spans \<and>
      (\<forall>h\<in>set spans. fst (region \<lparr>i_start = 0, i_end = 1, region = ab ly r\<rparr>) \<le> fst (region h))"
    by (intro group_spans_spec [OF f]) (use R srt ab_props(1) [OF fr] assms(3) [folded set] in auto)
  then obtain spans where sp: "group_spans ly \<lparr>i_start = 0, i_end = 1, region = ab ly r\<rparr> 1 rest = Inr spans"
      "spans_ok ly M ?R 0 spans" by auto
  from process_spans_spec [OF sp(2), of "[]"] obtain out
    where out: "process_spans ly ?R spans [] = Inr out" "valid_ivs (align_bits ly) (min_gap ly) out"
      "\<forall>d\<in>set out. snd d \<le> M" "\<forall>q\<in>set ?R. \<forall>k<rows q. incl (seg ly q k) out" by (auto simp: valid_ivs_def)
  have "0 < bpp ly" "list_all (\<lambda>r. x1 r < x2 r \<and> y1 r < y2 r) rects"
    using assms(2) fr by (auto simp: fits_def list_all_iff)
  with False R sp(1) out(1) aligned_bounding_interval_ok [OF fr]
  have "compute_damaged_segments srt ly rects = Inr out"
    by (simp add: compute_damaged_segments_def Let_def)
  with out set show ?thesis by auto
qed

section \<open>Validation and union\<close>

lemma validate_each_iff:
  "validate_each bits a = Inr () \<longleftrightarrow>
     (\<forall>(x, y)\<in>set a. x < y \<and> bits < 64 \<and> 2 ^ bits dvd x \<and> 2 ^ bits dvd y)"
  by (induction bits a rule: validate_each.induct) (auto simp flip: dvd_eq_mod_eq_0)

lemma validate_gaps_iff:
  "\<forall>(x, y)\<in>set a. x < y \<and> y \<le> USIZE_MAX \<Longrightarrow>
     validate_gaps gap a = Inr () \<longleftrightarrow> sorted_wrt (\<lambda>c d. snd c + gap \<le> fst d) a"
proof (induction gap a rule: validate_gaps.induct)
  case (1 gap x y x' y' a)
  have "sorted_wrt (\<lambda>c d. snd c + gap \<le> fst d) ((x, y) # (x', y') # a) \<longleftrightarrow>
      y + gap \<le> x' \<and> sorted_wrt (\<lambda>c d. snd c + gap \<le> fst d) ((x', y') # a)"
    using 1(2) by fastforce
  moreover have "usize_add y gap = (if y + gap \<le> USIZE_MAX then Inr (y + gap) else panic)"
    by (simp add: usize_add_def usize_def)
  ultimately show ?case using 1 by auto
qed auto

lemma validate_output_iff:
  assumes "\<forall>(x, y)\<in>set a. y \<le> USIZE_MAX" and "bits < 64"
  shows "validate_output a bits gap = Inr () \<longleftrightarrow> valid_ivs bits gap a"
proof (cases "validate_each bits a = Inr ()")
  case True
  then have "\<forall>(x, y)\<in>set a. x < y \<and> y \<le> USIZE_MAX" using assms(1) by (auto simp: validate_each_iff)
  moreover have "validate_output a bits gap = validate_gaps gap a" using True by (simp add: validate_output_def)
  ultimately show ?thesis
    using validate_gaps_iff [of a gap] True [unfolded validate_each_iff] by (auto simp: valid_ivs_def)
next
  case False
  with assms(2) have "\<not> valid_ivs bits gap a" by (auto simp: validate_each_iff valid_ivs_def)
  moreover have "validate_output a bits gap \<noteq> Inr ()"
    using False by (auto simp: validate_output_def res_simps)
  ultimately show ?thesis by simp
qed

lemma union_step_merge: "union_step gap nxt lst out = (let (cv, out') = merge_cur gap nxt lst out in (Some cv, out'))"
  by (simp add: union_step_def merge_cur_def split: option.split)

text \<open>
  Invariant of the union loop: both rests are valid, start at or after the current interval, and
  every interval taken so far is included.
\<close>

definition union_inv ::
  "nat \<Rightarrow> nat \<Rightarrow> nat \<Rightarrow> (nat \<times> nat) list \<Rightarrow> (nat \<times> nat) list \<Rightarrow> (nat \<times> nat) option \<Rightarrow>
    (nat \<times> nat) list \<Rightarrow> bool" where
  "union_inv M bits gap as bs lst out \<longleftrightarrow> valid_ivs bits gap as \<and> valid_ivs bits gap bs \<and>
     valid_ivs bits gap (acc lst out) \<and> (lst = None \<longrightarrow> out = []) \<and>
     (\<forall>c. lst = Some c \<longrightarrow> (\<forall>d\<in>set as \<union> set bs. fst c \<le> fst d)) \<and>
     (\<forall>d\<in>set as \<union> set bs \<union> set (acc lst out). snd d \<le> M)"

lemma union_inv_sym: "union_inv M bits gap as bs lst out \<longleftrightarrow> union_inv M bits gap bs as lst out"
  by (auto simp: union_inv_def)

lemma valid_ivs_Cons:
  "valid_ivs bits gap (c # cs) \<Longrightarrow>
     valid_ivs bits gap cs \<and> fst c < snd c \<and> 2 ^ bits dvd fst c \<and> 2 ^ bits dvd snd c \<and> (\<forall>d\<in>set cs. fst c \<le> fst d)"
  by (cases c) (fastforce simp: valid_ivs_def)

lemma union_take:
  assumes "union_inv M bits gap (nxt # as) bs lst out" and "\<forall>d\<in>set bs. fst nxt \<le> fst d"
    and "union_step gap nxt lst out = (lst', out')"
  shows "union_inv M bits gap as bs lst' out'"
    and "incl iv (nxt # acc lst out) \<Longrightarrow> incl iv (acc lst' out')"
proof -
  obtain cv where m: "merge_cur gap nxt lst out = (cv, out')" "lst' = Some cv"
    using assms(3) by (auto simp: union_step_merge split: prod.splits)
  note n = valid_ivs_Cons [of bits gap nxt as]
  have v: "valid_ivs bits gap (nxt # as)" using assms(1) by (simp add: union_inv_def)
  have "sweep_ok bits gap lst out (fst nxt)"
    using assms(1) by (auto simp: union_inv_def sweep_ok_def split: option.splits)
  note s = merge_cur_spec [OF this _ _ _ m(1)]
  have sw: "sweep_ok bits gap (Some cv) out' (fst nxt)" by (rule s(1)) (use n v in auto)
  have "snd d \<le> M" if d: "d \<in> set (out' @ [cv])" for d
  proof -
    have "snd d \<le> snd nxt \<or> (\<exists>d'\<in>set (acc lst out). snd d = snd d')"
      by (rule s(5) [OF _ _ _ d]) (use n v in auto)
    moreover have "snd nxt \<le> M" "\<forall>d'\<in>set (acc lst out). snd d' \<le> M"
      using assms(1) unfolding union_inv_def by simp_all
    ultimately show ?thesis by (metis le_trans)
  qed
  with sw show "union_inv M bits gap as bs lst' out'"
    using assms(1,2) n [OF v] m(2) by (auto simp: union_inv_def sweep_ok_def intro: le_trans)
  have 1: "incl nxt (out' @ [cv])" by (rule s(2)) (use n v in auto)
  have 2: "incl iv (out' @ [cv])" if "incl iv (acc lst out)" by (rule s(3) [OF _ _ _ that]) (use n v in auto)
  show "incl iv (acc lst' out')" if "incl iv (nxt # acc lst out)"
    using that 2 incl_mono [OF 1, of iv] unfolding m(2) acc_simps incl_Cons by blast
qed

lemma union_loop_spec:
  assumes "union_inv M bits gap as bs lst out"
  shows "valid_ivs bits gap (union_loop gap as bs lst out) \<and> (\<forall>d\<in>set (union_loop gap as bs lst out). snd d \<le> M) \<and>
    (\<forall>iv. incl iv as \<or> incl iv bs \<or> incl iv (acc lst out) \<longrightarrow> incl iv (union_loop gap as bs lst out))"
  using assms
proof (induction gap as bs lst out rule: union_loop.induct)
  case (1 gap ea as eb bs lst out)
  show ?case
  proof (cases "fst ea \<le> fst eb")
    case True
    obtain l' o' where st: "union_step gap ea lst out = (l', o')" by fastforce
    have b: "\<forall>d\<in>set (eb # bs). fst ea \<le> fst d"
      using True "1.prems" valid_ivs_Cons [of bits gap eb bs] by (auto simp: union_inv_def intro: le_trans)
    note t = union_take [OF "1.prems" b st]
    from "1.IH"(1) [OF True st [symmetric] refl t(1)] t(2) st True show ?thesis by auto
  next
    case False
    obtain l' o' where st: "union_step gap eb lst out = (l', o')" by fastforce
    have b: "\<forall>d\<in>set (ea # as). fst eb \<le> fst d"
      using False "1.prems" valid_ivs_Cons [of bits gap ea as] by (auto simp: union_inv_def intro: le_trans)
    note t = union_take [OF "1.prems" [unfolded union_inv_sym [of M bits gap "ea # as"]] b st]
    from "1.IH"(2) [OF False st [symmetric] refl t(1) [unfolded union_inv_sym [of M bits gap bs]]] t(2) st False
    show ?thesis by auto
  qed
next
  case (2 gap ea as lst out)
  obtain l' o' where st: "union_step gap ea lst out = (l', o')" by fastforce
  note t = union_take [OF "2.prems" _ st]
  from "2.IH" [OF st [symmetric] refl t(1)] t(2) st show ?case by auto
next
  case (3 gap eb bs lst out)
  obtain l' o' where st: "union_step gap eb lst out = (l', o')" by fastforce
  note t = union_take [OF "3.prems" [unfolded union_inv_sym [of M bits gap "[]"]] _ st]
  from "3.IH" [OF st [symmetric] refl t(1) [unfolded union_inv_sym [of M bits gap bs]]] t(2) st show ?case
    by auto
next
  case (4 gap lst out)
  then show ?case by (auto simp: union_inv_def split: option.splits)
qed

lemma valid_ivs_weaken: "valid_ivs bits gap a \<Longrightarrow> valid_ivs 0 gap a"
  by (auto simp: valid_ivs_def)

section \<open>Properties\<close>

text \<open>
  The byte at position \<open>p\<close> belongs to a list of intervals.
\<close>

definition covered :: "nat \<Rightarrow> (nat \<times> nat) list \<Rightarrow> bool" where
  "covered p out \<longleftrightarrow> (\<exists>c\<in>set out. fst c \<le> p \<and> p < snd c)"

lemma incl_covered: "incl iv out \<Longrightarrow> fst iv \<le> p \<Longrightarrow> p < snd iv \<Longrightarrow> covered p out"
  unfolding incl_def covered_def by (meson le_trans less_le_trans)

lemma pixel_in_seg:
  assumes "y1 r \<le> y" and "x1 r \<le> x" and "x < x2 r" and "b < bpp ly"
  shows "fst (seg ly r (y - y1 r)) \<le> rpos ly y x + b" and "rpos ly y x + b < snd (seg ly r (y - y1 r))"
proof -
  have y: "y1 r + (y - y1 r) = y" using assms(1) by simp
  have "rpos ly y (x1 r) \<le> rpos ly y x" by (rule rpos_mono) (use assms in auto)
  then show "fst (seg ly r (y - y1 r)) \<le> rpos ly y x + b"
    using dn_le [of ly "rpos ly y (x1 r)"] y by (simp add: seg_def)
  have "rpos ly y (Suc x) \<le> rpos ly y (x2 r)" by (rule rpos_mono) (use assms in auto)
  moreover have "rpos ly y x + b < rpos ly y (Suc x)" using assms(4) by (simp add: rpos_def)
  ultimately show "rpos ly y x + b < snd (seg ly r (y - y1 r))"
    using up_ge [of "rpos ly y (x2 r)" ly] y by (simp add: seg_def)
qed

lemma compute_damaged_segments_covers:
  assumes "sorts_by_key srt" and "align_bits ly < 64" and "0 < bpp ly"
    and "\<forall>r\<in>set rects. x1 r < x2 r \<and> y1 r < y2 r \<and> y2 r \<le> U32_MAX \<and>
      offset ly + y2 r * stride ly + x2 r * bpp ly \<le> B"
    and "B + 2 ^ align_bits ly \<le> USIZE_MAX"
  shows "\<exists>out. compute_damaged_segments srt ly rects = Inr out \<and>
    validate_output out (align_bits ly) (min_gap ly) = Inr () \<and>
    (\<forall>(lo, hi)\<in>set out. hi \<le> next_multiple_of B (2 ^ align_bits ly)) \<and>
    (\<forall>r\<in>set rects. \<forall>y x b. y1 r \<le> y \<and> y < y2 r \<and> x1 r \<le> x \<and> x < x2 r \<and> b < bpp ly \<longrightarrow>
      covered (offset ly + y * stride ly + x * bpp ly + b) out)"
proof -
  have f: "\<forall>r\<in>set rects. fits ly r"
    using assms by (fastforce simp: fits_def rpos_def)
  have m: "\<forall>r\<in>set rects. snd (ab ly r) \<le> up ly B"
    using assms(4) by (auto simp: ab_def rpos_def intro: up_mono)
  have "up ly B < B + 2 ^ align_bits ly" unfolding up_def by (rule next_multiple_of_less) simp
  then have M: "up ly B \<le> USIZE_MAX" using assms(5) by simp
  from compute_damaged_segments_spec [OF assms(1) f m] obtain out
    where out: "compute_damaged_segments srt ly rects = Inr out" "valid_ivs (align_bits ly) (min_gap ly) out"
      "\<forall>d\<in>set out. snd d \<le> up ly B" "\<forall>r\<in>set rects. \<forall>k<rows r. incl (seg ly r k) out" by blast
  have "validate_output out (align_bits ly) (min_gap ly) = Inr ()"
    using validate_output_iff [of out "align_bits ly" "min_gap ly"] out(2,3) M assms(2) by fastforce
  moreover have "covered (rpos ly y x + b) out"
    if "r \<in> set rects" "y1 r \<le> y" "y < y2 r" "x1 r \<le> x" "x < x2 r" "b < bpp ly" for r y x b
    using that out(4) pixel_in_seg [OF that(2,4,5,6)]
    by (intro incl_covered [of "seg ly r (y - y1 r)"]) (auto simp: rows_def)
  moreover have "\<forall>(lo, hi)\<in>set out. hi \<le> next_multiple_of B (2 ^ align_bits ly)"
    using out(3) by (auto simp: up_def)
  ultimately show ?thesis using out(1) by (auto simp: rpos_def)
qed

text \<open>
  C15: the damaged segments are well formed and miss nothing. Let \<open>B\<close> bound the end
  \<open>offset + y2 * stride + x2 * bpp\<close> of the bounding interval of every rectangle (one row further than its last
  pixel), and be such that it can be aligned without overflow. Then, whatever order the unstable sort leaves equal
  keys in, \<open>compute_damaged_segments\<close> returns (no assertion fails, nothing overflows, the early
  exit included) a list that \<open>validate_output\<close> accepts: nonempty aligned intervals, sorted,
  disjoint and at least the minimum gap apart; none ends behind the aligned \<open>B\<close>; and every byte of every
  pixel of every rectangle lies in one of them. The aligned end of the buffer itself is not a bound: see
  \<open>early_exit_behind_buffer\<close> below.
\<close>

theorem compute_damaged_segments_correct:
  assumes "sorts_by_key srt" and "align_bits ly < 64" and "0 < bpp ly"
    and "\<forall>r\<in>set rects. x1 r < x2 r \<and> y1 r < y2 r \<and> y2 r \<le> U32_MAX \<and>
      offset ly + y2 r * stride ly + x2 r * bpp ly \<le> B"
    and "B + 2 ^ align_bits ly \<le> USIZE_MAX"
  shows "\<exists>out. compute_damaged_segments srt ly rects = Inr out \<and>
    validate_output out (align_bits ly) (min_gap ly) = Inr () \<and>
    (\<forall>(lo, hi)\<in>set out. hi \<le> next_multiple_of B (2 ^ align_bits ly)) \<and>
    (\<forall>r\<in>set rects. \<forall>y x b. y1 r \<le> y \<and> y < y2 r \<and> x1 r \<le> x \<and> x < x2 r \<and> b < bpp ly \<longrightarrow>
      covered (offset ly + y * stride ly + x * bpp ly + b) out)"
  using assms by (rule compute_damaged_segments_covers)

text \<open>
  A 30 by 4 pixel buffer of 4 byte pixels with two overlapping rectangles and a distant one.
\<close>

definition ex_layout :: Layout where
  "ex_layout = \<lparr>align_bits = 2, min_gap = 8, offset = 16, stride = 120, bpp = 4\<rparr>"

definition ex_rects :: "Rect list" where
  "ex_rects = [\<lparr>x1 = 20, x2 = 22, y1 = 1, y2 = 4\<rparr>, \<lparr>x1 = 1, x2 = 3, y1 = 0, y2 = 2\<rparr>, \<lparr>x1 = 2, x2 = 5, y1 = 1, y2 = 3\<rparr>]"

theorem compute_damaged_segments_correct_witness:
  "sorts_by_key sort_key \<and>
   (\<exists>out. compute_damaged_segments sort_key ex_layout ex_rects = Inr out \<and>
      validate_output out 2 8 = Inr () \<and> (\<forall>(lo, hi)\<in>set out. hi \<le> 600) \<and>
      covered (16 + 3 * 120 + 21 * 4 + 3) out)"
proof -
  have s: "sorts_by_key sort_key" by (simp add: sorts_by_key_def)
  from compute_damaged_segments_correct [OF s, of ex_layout ex_rects 600]
  obtain out where o: "compute_damaged_segments sort_key ex_layout ex_rects = Inr out"
      "validate_output out 2 8 = Inr ()" "\<forall>(lo, hi)\<in>set out. hi \<le> 600"
      "\<forall>r\<in>set ex_rects. \<forall>y x b. y1 r \<le> y \<and> y < y2 r \<and> x1 r \<le> x \<and> x < x2 r \<and> b < 4 \<longrightarrow>
        covered (16 + y * 120 + x * 4 + b) out"
    by (auto simp: ex_layout_def ex_rects_def USIZE_MAX_def U32_MAX_def next_multiple_of_def div_ceil_def)
  have "\<lparr>x1 = 20, x2 = 22, y1 = 1, y2 = 4\<rparr> \<in> set ex_rects" by (simp add: ex_rects_def)
  from o(4) [rule_format, OF this, of 3 21 3] have "covered (16 + 3 * 120 + 21 * 4 + 3) out" by simp
  with s o(1-3) show ?thesis by blast
qed

lemma rbind_weak_cong: "x = y \<Longrightarrow> rbind x f = rbind y f"
  by simp

lemma ilog2_16: "ilog2 16 = 4"
  by (simp add: ilog2.simps)

lemma upt8: "[0..<8] = [0, 1, 2, 3, 4, 5, 6, 7::nat]"
  by (simp add: upt_rec)

text \<open>
  The early exit closes the last interval at the end of the bounding interval of the group, a row behind the
  rectangles: eight columns of one pixel each, in a buffer of 8 by 4 pixels of 4 bytes, give an interval that
  ends at 192, where the buffer ends at 128 and this is aligned to 64.
\<close>

lemma early_exit_behind_buffer:
  "compute_damaged_segments sort_key \<lparr>align_bits = 6, min_gap = 128, offset = 0, stride = 32, bpp = 4\<rparr>
     (map (\<lambda>i. \<lparr>x1 = i, x2 = i + 1, y1 = 0, y2 = 4\<rparr>) [0..<8]) = Inr [(0, 192)]"
  by (simp add: upt8 compute_damaged_segments_def bounding_interval_def aligned_bounding_interval_def saturating_add_def saturating_mul_def
      align_down_def align_up_def checked_next_multiple_of_def next_multiple_of_def div_ceil_def USIZE_MAX_def slice_res_def sub_slice_def process_group_def
      is_merged_def row_start_def pixel_pos_def usize_mul_def usize_add_def usize_sub_def usize_def heap_push_def Let_def
      group_loop.simps heap_pop_def heap_before_def segment_end_def merged_end_def merge_cur_def next_row_def ilog2_16 ok_or_def
      cong: rbind_weak_cong if_weak_cong option.case_cong_weak)

lemma union_damage_covers:
  assumes "validate_output a bits gap = Inr ()" and "validate_output b bits gap = Inr ()" and "bits < 64"
    and "\<forall>(lo, hi)\<in>set a \<union> set b. hi \<le> M" and "M \<le> USIZE_MAX"
  shows "\<exists>out. union_damage a b gap = Inr out \<and> validate_output out bits gap = Inr () \<and>
    (\<forall>(lo, hi)\<in>set out. hi \<le> M) \<and> (\<forall>p. covered p a \<or> covered p b \<longrightarrow> covered p out)"
proof -
  have "\<forall>(lo, hi)\<in>set a. hi \<le> USIZE_MAX" "\<forall>(lo, hi)\<in>set b. hi \<le> USIZE_MAX" using assms(4,5) by (auto simp: ball_Un split_def intro: le_trans)
  note i = validate_output_iff [OF this(1)] validate_output_iff [OF this(2)]
  have v: "valid_ivs bits gap a" "valid_ivs bits gap b" using i assms(1-3) by blast+
  then have z: "validate_output a 0 gap = Inr ()" "validate_output b 0 gap = Inr ()"
    using i [of 0 gap] valid_ivs_weaken by auto
  let ?out = "union_loop gap a b None []"
  have "union_inv M bits gap a b None []" using v assms(4) by (auto simp: union_inv_def valid_ivs_def)
  from union_loop_spec [OF this]
  have u: "valid_ivs bits gap ?out" "\<forall>d\<in>set ?out. snd d \<le> M" "\<forall>iv. incl iv a \<or> incl iv b \<longrightarrow> incl iv ?out" by auto
  have "validate_output ?out bits gap = Inr ()"
    using validate_output_iff [of ?out bits gap] u(1,2) assms(3,5) by fastforce
  moreover have "covered p ?out" if "covered p a \<or> covered p b" for p
  proof -
    from that obtain iv where "iv \<in> set a \<union> set b" "fst iv \<le> p" "p < snd iv" by (auto simp: covered_def)
    moreover from this have "incl iv a \<or> incl iv b" by (auto simp: incl_def)
    then have "incl iv ?out" using u(3) by blast
    ultimately show ?thesis by (blast intro: incl_covered)
  qed
  moreover have "\<forall>(lo, hi)\<in>set ?out. hi \<le> M" using u(2) by auto
  moreover have "union_damage a b gap = Inr ?out" using z by (simp add: union_damage_def)
  ultimately show ?thesis by blast
qed

text \<open>
  C16: the union of two damage lists. If both lists pass validation at an alignment and gap, the
  union does not panic, passes the same validation (so it keeps the alignment of the endpoints
  and the minimum gap), and covers every byte that either list covers; no interval extends
  beyond the greatest end of the inputs.
\<close>

theorem union_damage_correct:
  assumes "validate_output a bits gap = Inr ()" and "validate_output b bits gap = Inr ()" and "bits < 64"
    and "\<forall>(lo, hi)\<in>set a \<union> set b. hi \<le> M" and "M \<le> USIZE_MAX"
  shows "\<exists>out. union_damage a b gap = Inr out \<and> validate_output out bits gap = Inr () \<and>
    (\<forall>(lo, hi)\<in>set out. hi \<le> M) \<and> (\<forall>p. covered p a \<or> covered p b \<longrightarrow> covered p out)"
  using assms by (rule union_damage_covers)

theorem union_damage_correct_witness:
  "\<exists>out. union_damage [(0, 64), (256, 320)] [(64, 128), (512, 576)] 32 = Inr out \<and>
     validate_output out 6 32 = Inr () \<and> (\<forall>(lo, hi)\<in>set out. hi \<le> 576) \<and>
     (\<forall>p. covered p [(0, 64), (256, 320)] \<or> covered p [(64, 128), (512, 576)] \<longrightarrow> covered p out)"
  by (rule union_damage_correct) (simp_all add: validate_output_def USIZE_MAX_def usize_add_def usize_def)

end
