(* ===== verification/Surface_Transform.thy ===== *)
theory Surface_Transform
  imports Damage Complex_Main
begin

text \<open>
  Coordinates of surfaces and buffers, \<open>src/tracking.rs\<close>: rectangles of damage in the coordinates
  of a surface or of a buffer, and the transforms between them by the viewport, the buffer scale and
  the output transform.

  An \<open>i32\<close> is an \<open>int\<close>; a \<open>u32\<close>, \<open>u64\<close> or \<open>u128\<close> is a \<open>nat\<close> with the overflow checks written out
  (the bounds of \<open>u64\<close> are those of \<open>usize\<close>; a product of a \<open>u64\<close> and a \<open>u32\<close> fits a \<open>u128\<close>); \<open>as\<close>
  casts wrap. The transforms are compared with the same maps on points with real coordinates.
\<close>

section \<open>Machine arithmetic\<close>

definition i32_saturating_add :: "int \<Rightarrow> int \<Rightarrow> int" where
  "i32_saturating_add a b = max I32_MIN (min I32_MAX (a + b))"

definition clamp :: "'a :: linorder \<Rightarrow> 'a \<Rightarrow> 'a \<Rightarrow> 'a res" where
  "clamp v lo hi = rbind (assert_that (lo \<le> hi)) (\<lambda>_. Ok (max lo (min v hi)))"

definition as_u32 :: "int \<Rightarrow> nat" where
  "as_u32 i = nat (i mod 2 ^ 32)"

definition as_u64 :: "int \<Rightarrow> nat" where
  "as_u64 i = nat (i mod 2 ^ 64)"

definition as_i32 :: "nat \<Rightarrow> int" where
  "as_i32 n = sint (word_of_nat n :: u32)"

definition i32_div :: "int \<Rightarrow> int \<Rightarrow> int res" where
  "i32_div a b = rbind (assert_that (b \<noteq> 0 \<and> \<not> (a = I32_MIN \<and> b = - 1))) (\<lambda>_.
     Ok (sgn a * sgn b * (\<bar>a\<bar> div \<bar>b\<bar>)))"

definition u64_div :: "nat \<Rightarrow> nat \<Rightarrow> nat res" where
  "u64_div a b = rbind (assert_that (b \<noteq> 0)) (\<lambda>_. Ok (a div b))"

definition u64_div_ceil :: "nat \<Rightarrow> nat \<Rightarrow> nat res" where
  "u64_div_ceil a b = rbind (assert_that (b \<noteq> 0)) (\<lambda>_. Ok (div_ceil a b))"

section \<open>Rectangles\<close>

record WlRect =
  rx :: int
  ry :: int
  rwidth :: int
  rheight :: int

definition clip_wlrect_to_buffer :: "WlRect \<Rightarrow> int \<Rightarrow> int \<Rightarrow> Rect option res" where
  "clip_wlrect_to_buffer a w h =
     rbind (clamp (rx a) 0 w) (\<lambda>nx1.
     rbind (clamp (i32_saturating_add (rx a) (rwidth a)) 0 w) (\<lambda>nx2.
     rbind (clamp (ry a) 0 h) (\<lambda>ny1.
     rbind (clamp (i32_saturating_add (ry a) (rheight a)) 0 h) (\<lambda>ny2.
       Ok (if nx2 > nx1 \<and> ny2 > ny1
           then Some \<lparr>x1 = as_u32 nx1, x2 = as_u32 nx2, y1 = as_u32 ny1, y2 = as_u32 ny2\<rparr>
           else None)))))"

type_synonym view_src = "(int \<times> int \<times> int \<times> int) option"
type_synonym view_dst = "(int \<times> int) option"

definition source_floor :: "int \<Rightarrow> int \<Rightarrow> int \<Rightarrow> int \<Rightarrow> nat res" where
  "source_floor v dst src_sz_fixed src_offset_fixed =
     rbind (usize_mul (as_u64 v) (as_u64 src_sz_fixed)) (\<lambda>m.
     rbind (u64_div m (as_u64 dst)) (\<lambda>q.
     rbind (usize_add q (as_u64 src_offset_fixed)) (\<lambda>s. Ok (s div 256 mod 2 ^ 32))))"

definition source_ceil :: "int \<Rightarrow> int \<Rightarrow> int \<Rightarrow> int \<Rightarrow> nat res" where
  "source_ceil v dst src_sz_fixed src_offset_fixed =
     rbind (usize_mul (as_u64 v) (as_u64 src_sz_fixed)) (\<lambda>m.
     rbind (u64_div_ceil m (as_u64 dst)) (\<lambda>q.
     rbind (usize_add q (as_u64 src_offset_fixed)) (\<lambda>s. Ok (div_ceil s 256 mod 2 ^ 32))))"

definition scale_floor :: "int \<Rightarrow> int \<Rightarrow> int \<Rightarrow> nat res" where
  "scale_floor v bsz dst =
     rbind (usize_mul (as_u64 v) (as_u64 bsz)) (\<lambda>m. rbind (u64_div m (as_u64 dst)) (\<lambda>q. Ok (q mod 2 ^ 32)))"

definition scale_ceil :: "int \<Rightarrow> int \<Rightarrow> int \<Rightarrow> nat res" where
  "scale_ceil v bsz dst =
     rbind (usize_mul (as_u64 v) (as_u64 bsz)) (\<lambda>m. rbind (u64_div_ceil m (as_u64 dst)) (\<lambda>q. Ok (q mod 2 ^ 32)))"

definition viewport_size :: "int \<times> int \<Rightarrow> view_src \<Rightarrow> view_dst \<Rightarrow> int \<times> int" where
  "viewport_size buffer_size src dst =
     (case dst of Some x \<Rightarrow> x
      | None \<Rightarrow>
          (case src of
             Some (sx, sy, sw, sh) \<Rightarrow> (as_i32 (div_ceil (as_u32 sw) 256), as_i32 (div_ceil (as_u32 sh) 256))
           | None \<Rightarrow> buffer_size))"

definition apply_viewport_transform ::
  "WlRect \<Rightarrow> int \<times> int \<Rightarrow> view_src \<Rightarrow> view_dst \<Rightarrow> Rect option res" where
  "apply_viewport_transform a buffer_size src vdst =
     rbind (assert_that (rwidth a \<ge> 0 \<and> rheight a \<ge> 0)) (\<lambda>_.
       let dst = viewport_size buffer_size src vdst in
     rbind (clamp (rx a) 0 (fst dst)) (\<lambda>px1.
     rbind (clamp (i32_saturating_add (rx a) (rwidth a)) 0 (fst dst)) (\<lambda>px2.
     rbind (clamp (ry a) 0 (snd dst)) (\<lambda>py1.
     rbind (clamp (i32_saturating_add (ry a) (rheight a)) 0 (snd dst)) (\<lambda>py2.
       if px2 \<le> px1 \<or> py2 \<le> py1 then Ok None
       else
         case src of
           Some (vx, vy, vw, vh) \<Rightarrow>
             rbind (assert_that (vx \<ge> 0 \<and> vy \<ge> 0 \<and> vw > 0 \<and> vh > 0)) (\<lambda>_.
             rbind (source_floor px1 (fst dst) vw vx) (\<lambda>fx1.
             rbind (source_ceil px2 (fst dst) vw vx) (\<lambda>fx2.
             rbind (source_floor py1 (snd dst) vh vy) (\<lambda>fy1.
             rbind (source_ceil py2 (snd dst) vh vy) (\<lambda>fy2.
               let sx1 = min fx1 (as_u32 (fst buffer_size)); sx2 = min fx2 (as_u32 (fst buffer_size));
                   sy1 = min fy1 (as_u32 (snd buffer_size)); sy2 = min fy2 (as_u32 (snd buffer_size)) in
               Ok (if sx1 \<ge> sx2 \<or> sy1 \<ge> sy2 then None
                   else Some \<lparr>x1 = sx1, x2 = sx2, y1 = sy1, y2 = sy2\<rparr>))))))
         | None \<Rightarrow>
             rbind (scale_floor px1 (fst buffer_size) (fst dst)) (\<lambda>sx1.
             rbind (scale_ceil px2 (fst buffer_size) (fst dst)) (\<lambda>sx2.
             rbind (scale_floor py1 (snd buffer_size) (snd dst)) (\<lambda>sy1.
             rbind (scale_ceil py2 (snd buffer_size) (snd dst)) (\<lambda>sy2.
               Ok (Some \<lparr>x1 = sx1, x2 = sx2, y1 = sy1, y2 = sy2\<rparr>))))))))))"

datatype WlOutputTransform =
    Normal | Item90 | Item180 | Item270 | Flipped | Flipped90 | Flipped180 | Flipped270

primrec transform_index :: "WlOutputTransform \<Rightarrow> nat" where
  "transform_index Normal = 0"
| "transform_index Item90 = 1"
| "transform_index Item180 = 2"
| "transform_index Item270 = 3"
| "transform_index Flipped = 4"
| "transform_index Flipped90 = 5"
| "transform_index Flipped180 = 6"
| "transform_index Flipped270 = 7"

definition transform_code :: "WlOutputTransform \<Rightarrow> nat" where
  "transform_code t = [0, 3, 6, 5, 2, 1, 4, 7] ! transform_index t"

definition swap_xy :: "WlOutputTransform \<Rightarrow> bool" where
  "swap_xy t = (transform_code t mod 2 \<noteq> 0)"

definition flip_x :: "WlOutputTransform \<Rightarrow> bool" where
  "flip_x t = (transform_code t div 2 mod 2 \<noteq> 0)"

definition flip_y :: "WlOutputTransform \<Rightarrow> bool" where
  "flip_y t = (transform_code t div 4 mod 2 \<noteq> 0)"

definition flip_pair :: "bool \<Rightarrow> nat \<Rightarrow> nat \<Rightarrow> nat \<Rightarrow> (nat \<times> nat) res" where
  "flip_pair flip e l h =
     (if flip then rbind (usize_sub e h) (\<lambda>l'. rbind (usize_sub e l) (\<lambda>h'. Ok (l', h'))) else Ok (l, h))"

definition apply_damage_rect_transform ::
  "WlRect \<Rightarrow> nat \<Rightarrow> WlOutputTransform \<Rightarrow> view_src \<Rightarrow> view_dst \<Rightarrow> int \<Rightarrow> int \<Rightarrow> Rect option res" where
  "apply_damage_rect_transform a scale transform src vdst width height =
     rbind (i32_div width (as_i32 scale)) (\<lambda>w.
     rbind (i32_div height (as_i32 scale)) (\<lambda>h.
       let pre_vp_size = (if swap_xy transform then (h, w) else (w, h)) in
     rbind (apply_viewport_transform a pre_vp_size src vdst) (\<lambda>ob.
       case ob of
         None \<Rightarrow> Ok None
       | Some b \<Rightarrow>
           rbind (u32_nat (x1 b * scale)) (\<lambda>xl.
           rbind (u32_nat (y1 b * scale)) (\<lambda>yl.
           rbind (u32_nat (x2 b * scale)) (\<lambda>xh.
           rbind (u32_nat (y2 b * scale)) (\<lambda>yh.
             let end_w = as_u32 (if swap_xy transform then height else width);
                 end_h = as_u32 (if swap_xy transform then width else height) in
           rbind (flip_pair (flip_x transform) end_w xl xh) (\<lambda>(xl, xh).
           rbind (flip_pair (flip_y transform) end_h yl yh) (\<lambda>(yl, yh).
             Ok (Some (if swap_xy transform then \<lparr>x1 = yl, x2 = yh, y1 = xl, y2 = xh\<rparr>
                       else \<lparr>x1 = xl, x2 = xh, y1 = yl, y2 = yh\<rparr>)))))))))))"


definition clip_to_src :: "Rect \<Rightarrow> view_src \<Rightarrow> (nat \<times> nat \<times> nat \<times> nat) option res" where
  "clip_to_src a vsrc =
     (case vsrc of
        Some (sx, sy, sw, sh) \<Rightarrow>
          rbind (assert_that (sx \<ge> 0 \<and> sy \<ge> 0 \<and> sw > 0 \<and> sh > 0)) (\<lambda>_.
          rbind (usize_add (as_u64 sx) (as_u64 sw)) (\<lambda>e0.
          rbind (usize_add (as_u64 sy) (as_u64 sh)) (\<lambda>e1.
          rbind (clamp (x1 a * 256) (as_u64 sx) e0) (\<lambda>cx1.
          rbind (clamp (x2 a * 256) (as_u64 sx) e0) (\<lambda>cx2.
          rbind (clamp (y1 a * 256) (as_u64 sy) e1) (\<lambda>cy1.
          rbind (clamp (y2 a * 256) (as_u64 sy) e1) (\<lambda>cy2.
            let nx1 = cx1 - as_u64 sx; nx2 = cx2 - as_u64 sx; ny1 = cy1 - as_u64 sy; ny2 = cy2 - as_u64 sy in
            Ok (if nx2 \<le> nx1 \<or> ny2 \<le> ny1 then None else Some (nx1, nx2, ny1, ny2)))))))))
      | None \<Rightarrow> Ok (Some (x1 a * 256, x2 a * 256, y1 a * 256, y2 a * 256)))"

definition inverse_dst :: "int \<times> int \<Rightarrow> view_src \<Rightarrow> view_dst \<Rightarrow> (nat \<times> nat) res" where
  "inverse_dst buffer_size vsrc vdst =
     (case vdst of
        Some (dw, dh) \<Rightarrow> rbind (assert_that (dw > 0 \<and> dh > 0)) (\<lambda>_. Ok (as_u32 dw, as_u32 dh))
      | None \<Rightarrow>
          (case vsrc of Some (sx, sy, sw, sh) \<Rightarrow> Ok (div_ceil (as_u32 sw) 256, div_ceil (as_u32 sh) 256)
           | None \<Rightarrow> Ok (as_u32 (fst buffer_size), as_u32 (snd buffer_size))))"

definition inverse_viewport_transform ::
  "Rect \<Rightarrow> int \<times> int \<Rightarrow> view_src \<Rightarrow> view_dst \<Rightarrow> WlRect option res" where
  "inverse_viewport_transform a buffer_size vsrc vdst =
     rbind (assert_that (fst buffer_size > 0 \<and> snd buffer_size > 0)) (\<lambda>_.
     rbind (assert_that (x1 a < x2 a \<and> y1 a < y2 a \<and> x2 a \<le> as_u32 (fst buffer_size) \<and>
       y2 a \<le> as_u32 (snd buffer_size))) (\<lambda>_.
     rbind (clip_to_src a vsrc) (\<lambda>clipped.
       case clipped of
         None \<Rightarrow> Ok None
       | Some (fx1, fx2, fy1, fy2) \<Rightarrow>
           let src = (case vsrc of Some (sx, sy, sw, sh) \<Rightarrow> (as_u64 sw, as_u64 sh)
                      | None \<Rightarrow> (as_u64 (fst buffer_size) * 256, as_u64 (snd buffer_size) * 256)) in
           rbind (inverse_dst buffer_size vsrc vdst) (\<lambda>dst.
           rbind (u64_div (fx1 * fst dst) (fst src)) (\<lambda>xl.
           rbind (u64_div_ceil (fx2 * fst dst) (fst src)) (\<lambda>xh.
           rbind (u64_div (fy1 * snd dst) (snd src)) (\<lambda>yl.
           rbind (u64_div_ceil (fy2 * snd dst) (snd src)) (\<lambda>yh.
           rbind (assert_that (xh > xl \<and> yh > yl)) (\<lambda>_.
           rbind (assert_that (int xh \<le> I32_MAX \<and> int yh \<le> I32_MAX)) (\<lambda>_.
             Ok (Some \<lparr>rx = as_i32 xl, ry = as_i32 yl, rwidth = as_i32 (xh - xl), rheight = as_i32 (yh - yl)\<rparr>)))))))))))"

definition inverse_damage_rect_transform ::
  "WlRect \<Rightarrow> nat \<Rightarrow> WlOutputTransform \<Rightarrow> view_src \<Rightarrow> view_dst \<Rightarrow> int \<Rightarrow> int \<Rightarrow> WlRect option res" where
  "inverse_damage_rect_transform a scale transform vsrc vdst buf_width buf_height =
     rbind (assert_that (buf_width > 0 \<and> buf_height > 0 \<and> scale > 0)) (\<lambda>_.
     rbind (assert_that (rwidth a > 0 \<and> rheight a > 0)) (\<lambda>_.
     rbind (clamp (rx a) 0 buf_width) (\<lambda>cxl.
     rbind (clamp (i32_saturating_add (rx a) (rwidth a)) 0 buf_width) (\<lambda>cxh.
     rbind (clamp (ry a) 0 buf_height) (\<lambda>cyl.
     rbind (clamp (i32_saturating_add (ry a) (rheight a)) 0 buf_height) (\<lambda>cyh.
       let xl = as_u32 cxl; xh = as_u32 cxh; yl = as_u32 cyl; yh = as_u32 cyh in
       if xh \<le> xl \<or> yh \<le> yl then Ok None
       else
         let end_w = as_u32 (if swap_xy transform then buf_height else buf_width);
             end_h = as_u32 (if swap_xy transform then buf_width else buf_height);
             (xl, xh, yl, yh) = (if swap_xy transform then (yl, yh, xl, xh) else (xl, xh, yl, yh)) in
         rbind (flip_pair (flip_y transform) end_h yl yh) (\<lambda>(yl, yh).
         rbind (flip_pair (flip_x transform) end_w xl xh) (\<lambda>(xl, xh).
           let w = as_i32 (div_ceil (as_u32 buf_width) scale);
               h = as_i32 (div_ceil (as_u32 buf_height) scale);
               post_vp_size = (if swap_xy transform then (h, w) else (w, h)) in
           inverse_viewport_transform
             \<lparr>x1 = xl div scale, x2 = div_ceil xh scale, y1 = yl div scale, y2 = div_ceil yh scale\<rparr>
             post_vp_size vsrc vdst))))))))"

section \<open>Attachments\<close>

record BufferAttachment =
  att_scale :: nat
  att_transform :: WlOutputTransform
  viewport_src :: view_src
  viewport_dst :: view_dst
  buffer_uid :: nat
  buffer_size :: "int \<times> int"

definition surface_to_current :: "BufferAttachment \<Rightarrow> WlRect \<Rightarrow> Rect option res" where
  "surface_to_current att w =
     apply_damage_rect_transform w (att_scale att) (att_transform att) (viewport_src att) (viewport_dst att)
       (fst (buffer_size att)) (snd (buffer_size att))"

section \<open>Geometry\<close>

text \<open>
  The reference for the transforms, on points with real coordinates: a surface point is mapped by
  the viewport (crop and scale), multiplied by the buffer scale, and turned by the output transform
  to a point of the buffer.
\<close>

type_synonym point = "real \<times> real"

definition viewport_map :: "int \<times> int \<Rightarrow> view_src \<Rightarrow> view_dst \<Rightarrow> point \<Rightarrow> point" where
  "viewport_map bsz src dst p =
     (let (dw, dh) = viewport_size bsz src dst in
      case src of
        Some (sx, sy, sw, sh) \<Rightarrow>
          ((real_of_int sx + fst p * real_of_int sw / real_of_int dw) / 256,
           (real_of_int sy + snd p * real_of_int sh / real_of_int dh) / 256)
      | None \<Rightarrow> (fst p * real_of_int (fst bsz) / real_of_int dw, snd p * real_of_int (snd bsz) / real_of_int dh))"

fun orient :: "WlOutputTransform \<Rightarrow> real \<Rightarrow> real \<Rightarrow> point \<Rightarrow> point" where
  "orient Normal w h (x, y) = (x, y)"
| "orient Item90 w h (x, y) = (y, h - x)"
| "orient Item180 w h (x, y) = (w - x, h - y)"
| "orient Item270 w h (x, y) = (w - y, x)"
| "orient Flipped w h (x, y) = (w - x, y)"
| "orient Flipped90 w h (x, y) = (y, x)"
| "orient Flipped180 w h (x, y) = (x, h - y)"
| "orient Flipped270 w h (x, y) = (w - y, h - x)"

definition scaled :: "nat \<Rightarrow> point \<Rightarrow> point" where
  "scaled s p = (real s * fst p, real s * snd p)"

definition in_rect :: "Rect \<Rightarrow> point \<Rightarrow> bool" where
  "in_rect r p \<longleftrightarrow> real (x1 r) < fst p \<and> fst p < real (x2 r) \<and> real (y1 r) < snd p \<and> snd p < real (y2 r)"

definition in_wlrect :: "WlRect \<Rightarrow> point \<Rightarrow> bool" where
  "in_wlrect a p \<longleftrightarrow> real_of_int (rx a) < fst p \<and> fst p < real_of_int (rx a + rwidth a) \<and>
     real_of_int (ry a) < snd p \<and> snd p < real_of_int (ry a + rheight a)"

definition in_size :: "int \<times> int \<Rightarrow> point \<Rightarrow> bool" where
  "in_size sz p \<longleftrightarrow> 0 < fst p \<and> fst p < real_of_int (fst sz) \<and> 0 < snd p \<and> snd p < real_of_int (snd sz)"

definition pos_i32 :: "int \<Rightarrow> bool" where
  "pos_i32 i \<longleftrightarrow> 0 < i \<and> i \<le> I32_MAX"

definition size_ok :: "int \<times> int \<Rightarrow> bool" where
  "size_ok sz \<longleftrightarrow> pos_i32 (fst sz) \<and> pos_i32 (snd sz)"

definition view_ok :: "view_src \<Rightarrow> view_dst \<Rightarrow> bool" where
  "view_ok src dst \<longleftrightarrow>
     (case src of None \<Rightarrow> True
      | Some (sx, sy, sw, sh) \<Rightarrow> 0 \<le> sx \<and> sx \<le> I32_MAX \<and> 0 \<le> sy \<and> sy \<le> I32_MAX \<and> pos_i32 sw \<and> pos_i32 sh) \<and>
     (case dst of None \<Rightarrow> True | Some sz \<Rightarrow> size_ok sz)"

definition wlrect_ok :: "WlRect \<Rightarrow> bool" where
  "wlrect_ok a \<longleftrightarrow> is_i32 (rx a) \<and> is_i32 (ry a) \<and> pos_i32 (rwidth a) \<and> pos_i32 (rheight a)"

section \<open>One axis\<close>

lemma clamp_ok [simp]: "lo \<le> hi \<Longrightarrow> clamp v lo hi = Inr (max lo (min v hi))"
  by (simp add: clamp_def)

lemma u64_div_ok [simp]: "0 < b \<Longrightarrow> u64_div a b = Inr (a div b)"
  by (simp add: u64_div_def)

lemma u64_div_ceil_ok [simp]: "0 < b \<Longrightarrow> u64_div_ceil a b = Inr (div_ceil a b)"
  by (simp add: u64_div_ceil_def)

lemma as_u32_ok: "0 \<le> i \<Longrightarrow> i \<le> I32_MAX \<Longrightarrow> as_u32 i = nat i"
  by (simp add: as_u32_def I32_MAX_def)

lemma as_u64_ok: "0 \<le> i \<Longrightarrow> i \<le> I32_MAX \<Longrightarrow> as_u64 i = nat i"
  by (simp add: as_u64_def I32_MAX_def)

lemma as_i32_ok: "int n \<le> I32_MAX \<Longrightarrow> as_i32 n = int n"
  unfolding as_i32_def
  by (subst signed_of_nat) (simp add: I32_MAX_def signed_take_bit_int_eq_self)

lemma sat_clamp:
  assumes "is_i32 a" "0 \<le> w" "d \<le> I32_MAX" "0 \<le> d"
  shows "max 0 (min (i32_saturating_add a w) d) = max 0 (min (a + w) d)"
  using assms by (auto simp: i32_saturating_add_def is_i32_def I32_MIN_def I32_MAX_def min_def max_def)

lemma div_le_real: "real (a div b) \<le> real a / real b"
  by (cases "b = 0") (simp_all add: field_simps flip: of_nat_mult)

lemma div_ceil_ge_real: "0 < b \<Longrightarrow> real a / real b \<le> real (div_ceil a b)"
  using div_ceil_ge [of b a] by (simp add: field_simps flip: of_nat_mult)

lemma mult_le_i32:
  assumes "a < 2 ^ 31" "b < 2 ^ 31"
  shows "a * b \<le> (2 ^ 62 :: nat)"
proof -
  have "a * b \<le> 2 ^ 31 * 2 ^ 31" using assms by (intro mult_mono) auto
  then show ?thesis by simp
qed

lemma nat_i32_less: "i \<le> I32_MAX \<Longrightarrow> nat i < 2 ^ 31"
  by (simp add: I32_MAX_def)

lemma scaled_floor_ceil:
  fixes n m s d :: nat
  assumes "n < m" "m \<le> d" "0 < s" "s < 2 ^ 31" "d < 2 ^ 31"
  shows "n * s \<le> 2 ^ 62" "m * s \<le> 2 ^ 62" "n * s div d < div_ceil (m * s) d" "div_ceil (m * s) d \<le> s"
proof -
  have nm: "n < 2 ^ 31" "m < 2 ^ 31" using assms by linarith+
  show "n * s \<le> 2 ^ 62" "m * s \<le> 2 ^ 62"
    by (rule mult_le_i32 [OF nm(1) assms(4)], rule mult_le_i32 [OF nm(2) assms(4)])
  show "n * s div d < div_ceil (m * s) d" using assms by (intro div_less_div_ceil) auto
  show "div_ceil (m * s) d \<le> s" using assms by (simp add: div_ceil_le_iff mult.commute)
qed

lemma scale_axis:
  assumes "0 \<le> v" "v < w" "w \<le> d" "pos_i32 d" "pos_i32 b"
  shows "scale_floor v b d = Inr (nat v * nat b div nat d)" "scale_ceil w b d = Inr (div_ceil (nat w * nat b) (nat d))"
proof -
  have l: "nat v < nat w" "nat w \<le> nat d" "0 < nat b" "nat b < 2 ^ 31" "nat d < 2 ^ 31" "0 < nat d"
    using assms by (auto simp: pos_i32_def I32_MAX_def)
  note fc = scaled_floor_ceil [OF l(1-5)]
  have u: "as_u64 v = nat v" "as_u64 w = nat w" "as_u64 b = nat b" "as_u64 d = nat d"
    using assms by (auto simp: pos_i32_def intro!: as_u64_ok)
  have "nat v * nat b div nat d < 2 ^ 32" "div_ceil (nat w * nat b) (nat d) < 2 ^ 32"
    using fc(3,4) l(4) by simp_all
  then show "scale_floor v b d = Inr (nat v * nat b div nat d)" "scale_ceil w b d = Inr (div_ceil (nat w * nat b) (nat d))"
    using fc(1,2) l by (simp_all add: scale_floor_def scale_ceil_def u USIZE_MAX_def)
qed

lemma source_axis:
  assumes "0 \<le> v" "v < w" "w \<le> d" "pos_i32 d" "pos_i32 s" "0 \<le> off" "off \<le> I32_MAX"
  shows "source_floor v d s off = Inr ((nat v * nat s div nat d + nat off) div 256)"
    "source_ceil w d s off = Inr (div_ceil (div_ceil (nat w * nat s) (nat d) + nat off) 256)"
proof -
  have l: "nat v < nat w" "nat w \<le> nat d" "0 < nat s" "nat s < 2 ^ 31" "nat d < 2 ^ 31" "0 < nat d" "nat off < 2 ^ 31"
    using assms by (auto simp: pos_i32_def I32_MAX_def)
  note fc = scaled_floor_ceil [OF l(1-5)]
  have u: "as_u64 v = nat v" "as_u64 w = nat w" "as_u64 s = nat s" "as_u64 d = nat d" "as_u64 off = nat off"
    using assms by (auto simp: pos_i32_def intro!: as_u64_ok)
  have b: "nat v * nat s div nat d + nat off < 2 ^ 32" "div_ceil (nat w * nat s) (nat d) + nat off < 2 ^ 32"
    using fc(3,4) l(4,7) by simp_all
  have c: "(nat v * nat s div nat d + nat off) div 256 < 2 ^ 32"
    using b(1) by simp
  have e: "div_ceil (div_ceil (nat w * nat s) (nat d) + nat off) 256 < 2 ^ 32"
    using b(2) div_ceil_le_iff [of 256 "div_ceil (nat w * nat s) (nat d) + nat off" "2 ^ 24"] by simp
  show "source_floor v d s off = Inr ((nat v * nat s div nat d + nat off) div 256)"
    "source_ceil w d s off = Inr (div_ceil (div_ceil (nat w * nat s) (nat d) + nat off) 256)"
    using fc(1,2) l b c e by (simp_all add: source_floor_def source_ceil_def u USIZE_MAX_def)
qed

lemma scale_axis_bounds:
  fixes p :: real
  assumes "real_of_int v < p" "p < real_of_int w" "0 \<le> v" "0 < d" "0 < b"
  shows "real (nat v * nat b div nat d) < p * real_of_int b / real_of_int d"
    and "p * real_of_int b / real_of_int d < real (div_ceil (nat w * nat b) (nat d))"
proof -
  have "real (nat v * nat b) / real (nat d) < p * real_of_int b / real_of_int d"
    using assms by (simp add: divide_strict_right_mono)
  then show "real (nat v * nat b div nat d) < p * real_of_int b / real_of_int d"
    using div_le_real [of "nat v * nat b" "nat d"] by linarith
  have w: "0 \<le> w" using assms by linarith
  then have "p * real_of_int b / real_of_int d < real (nat w * nat b) / real (nat d)"
    using assms by (simp add: divide_strict_right_mono)
  then show "p * real_of_int b / real_of_int d < real (div_ceil (nat w * nat b) (nat d))"
    using div_ceil_ge_real [of "nat d" "nat w * nat b"] assms by linarith
qed

lemma source_axis_bounds:
  fixes p :: real
  assumes "real_of_int v < p" "p < real_of_int w" "0 \<le> v" "0 < d" "0 < s" "0 \<le> off"
  shows "real ((nat v * nat s div nat d + nat off) div 256) < (real_of_int off + p * real_of_int s / real_of_int d) / 256"
    and "(real_of_int off + p * real_of_int s / real_of_int d) / 256 <
      real (div_ceil (div_ceil (nat w * nat s) (nat d) + nat off) 256)"
proof -
  note b = scale_axis_bounds [OF assms(1,2,3,4,5)]
  have "real ((nat v * nat s div nat d + nat off) div 256) \<le> real (nat v * nat s div nat d + nat off) / 256"
    using div_le_real [of "nat v * nat s div nat d + nat off" 256] by simp
  then show "real ((nat v * nat s div nat d + nat off) div 256) < (real_of_int off + p * real_of_int s / real_of_int d) / 256"
    using b(1) assms(6) by (simp add: field_simps)
  have "real (div_ceil (nat w * nat s) (nat d) + nat off) / 256 \<le> real (div_ceil (div_ceil (nat w * nat s) (nat d) + nat off) 256)"
    using div_ceil_ge_real [of 256 "div_ceil (nat w * nat s) (nat d) + nat off"] by simp
  then show "(real_of_int off + p * real_of_int s / real_of_int d) / 256 <
      real (div_ceil (div_ceil (nat w * nat s) (nat d) + nat off) 256)"
    using b(2) assms(6) by (simp add: field_simps)
qed

section \<open>Surface to buffer\<close>

lemma viewport_size_ok:
  assumes "size_ok bsz" "view_ok src dst"
  shows "size_ok (viewport_size bsz src dst)"
proof (cases "dst = None \<and> src \<noteq> None")
  case True
  then obtain sx sy sw sh where src: "src = Some (sx, sy, sw, sh)" and dst: "dst = None" by auto
  have *: "pos_i32 (as_i32 (div_ceil (as_u32 s) 256))" if "pos_i32 s" for s
  proof -
    have "as_u32 s = nat s" using that by (simp add: as_u32_ok pos_i32_def)
    moreover have "div_ceil (nat s) 256 \<le> nat s" by (simp add: div_ceil_le_iff)
    then have "int (div_ceil (nat s) 256) \<le> I32_MAX" using that by (auto simp: pos_i32_def)
    moreover have "div_ceil (nat s) 256 \<noteq> 0" using that div_ceil_le_iff [of 256 "nat s" 0] by (simp add: pos_i32_def)
    ultimately show ?thesis by (simp add: as_i32_ok pos_i32_def)
  qed
  show ?thesis using assms(2) * by (simp add: viewport_size_def src dst view_ok_def size_ok_def)
next
  case False
  then show ?thesis using assms by (auto simp: viewport_size_def view_ok_def split: option.splits)
qed

text \<open>The four coordinates that are clipped to the destination size, and what a point inside says of them.\<close>

lemma clipped_point:
  fixes p :: real
  assumes "real_of_int a < p" "p < real_of_int (a + w)" "0 < p" "p < real_of_int d"
  shows "real_of_int (max 0 (min a d)) < p" "p < real_of_int (max 0 (min (a + w) d))"
    "max 0 (min a d) < max 0 (min (a + w) d)"
proof -
  show 1: "real_of_int (max 0 (min a d)) < p" "p < real_of_int (max 0 (min (a + w) d))"
    using assms by (auto simp: max_def min_def)
  show "max 0 (min a d) < max 0 (min (a + w) d)" using 1 by linarith
qed

lemma min_point:
  fixes p :: real
  assumes "real f < p" "p < real c" "0 < p" "p < real_of_int b" "0 \<le> b"
  shows "real (min f (nat b)) < p" "p < real (min c (nat b))" "min f (nat b) < min c (nat b)"
proof -
  show 1: "real (min f (nat b)) < p" "p < real (min c (nat b))" using assms by (auto simp: min_def)
  show "min f (nat b) < min c (nat b)" using 1 by linarith
qed

definition nonempty_in :: "Rect \<Rightarrow> int \<times> int \<Rightarrow> bool" where
  "nonempty_in R sz \<longleftrightarrow> x1 R < x2 R \<and> y1 R < y2 R \<and> int (x2 R) \<le> fst sz \<and> int (y2 R) \<le> snd sz"

lemma apply_viewport_transform_src:
  assumes a: "is_i32 (rx a)" "is_i32 (ry a)" "0 \<le> rwidth a" "0 \<le> rheight a"
    and bsz: "size_ok bsz" and v: "view_ok (Some (sx, sy, sw, sh)) dst"
  shows "\<exists>r. apply_viewport_transform a bsz (Some (sx, sy, sw, sh)) dst = Inr r \<and> (\<forall>R. r = Some R \<longrightarrow> nonempty_in R bsz) \<and>
    (\<forall>p. in_wlrect a p \<and> in_size (viewport_size bsz (Some (sx, sy, sw, sh)) dst) p \<and>
         in_size bsz (viewport_map bsz (Some (sx, sy, sw, sh)) dst p) \<longrightarrow>
       (\<exists>R. r = Some R \<and> in_rect R (viewport_map bsz (Some (sx, sy, sw, sh)) dst p)))"
proof -
  obtain dw dh where d: "viewport_size bsz (Some (sx, sy, sw, sh)) dst = (dw, dh)" by force
  with viewport_size_ok [OF bsz v] have dp: "pos_i32 dw" "pos_i32 dh" by (simp_all add: size_ok_def)
  obtain bw bh where b: "fst bsz = bw" "snd bsz = bh" by blast
  have sp: "0 \<le> sx" "sx \<le> I32_MAX" "0 \<le> sy" "sy \<le> I32_MAX" "pos_i32 sw" "pos_i32 sh" "0 < sw" "0 < sh" "0 < dw" "0 < dh"
    using v dp by (simp_all add: view_ok_def pos_i32_def)
  have bp: "as_u32 bw = nat bw" "as_u32 bh = nat bh" "0 \<le> bw" "0 \<le> bh"
    using bsz b by (simp_all add: size_ok_def pos_i32_def as_u32_ok)
  define u1 u2 where "u1 = max 0 (min (rx a) dw)" and "u2 = max 0 (min (rx a + rwidth a) dw)"
  define v1 v2 where "v1 = max 0 (min (ry a) dh)" and "v2 = max 0 (min (ry a + rheight a) dh)"
  have uv: "0 \<le> u1" "u2 \<le> dw" "0 \<le> v1" "v2 \<le> dh"
    using dp by (auto simp: u1_def u2_def v1_def v2_def pos_i32_def)
  have cl: "max 0 (min (i32_saturating_add (rx a) (rwidth a)) dw) = u2"
    "max 0 (min (i32_saturating_add (ry a) (rheight a)) dh) = v2"
    using a dp by (simp_all add: sat_clamp u2_def v2_def pos_i32_def)
  define fx where "fx = min ((nat u1 * nat sw div nat dw + nat sx) div 256) (nat bw)"
  define cx where "cx = min (div_ceil (div_ceil (nat u2 * nat sw) (nat dw) + nat sx) 256) (nat bw)"
  define fy where "fy = min ((nat v1 * nat sh div nat dh + nat sy) div 256) (nat bh)"
  define cy where "cy = min (div_ceil (div_ceil (nat v2 * nat sh) (nat dh) + nat sy) 256) (nat bh)"
  define r where "r = (if u2 \<le> u1 \<or> v2 \<le> v1 \<or> fx \<ge> cx \<or> fy \<ge> cy then None else Some \<lparr>x1 = fx, x2 = cx, y1 = fy, y2 = cy\<rparr>)"
  have ap: "apply_viewport_transform a bsz (Some (sx, sy, sw, sh)) dst = Inr r"
  proof (cases "u2 \<le> u1 \<or> v2 \<le> v1")
    case True
    then show ?thesis using a dp
      by (auto simp: apply_viewport_transform_def d cl r_def pos_i32_def simp flip: u1_def v1_def)
  next
    case False
    with source_axis [OF uv(1) _ uv(2) dp(1) sp(5) sp(1,2)] source_axis [OF uv(3) _ uv(4) dp(2) sp(6) sp(3,4)]
    show ?thesis using a dp sp
      by (simp add: apply_viewport_transform_def d cl r_def b bp fx_def cx_def fy_def cy_def pos_i32_def Let_def flip: u1_def v1_def)
  qed
  have "cx \<le> nat bw" "cy \<le> nat bh" by (simp_all add: cx_def cy_def)
  then have "nonempty_in R bsz" if "r = Some R" for R
    using that bp(3,4) by (auto simp: r_def nonempty_in_def b split: if_splits)
  moreover have "\<exists>R. r = Some R \<and> in_rect R (viewport_map bsz (Some (sx, sy, sw, sh)) dst p)"
    if p: "in_wlrect a p" "in_size (dw, dh) p" "in_size bsz (viewport_map bsz (Some (sx, sy, sw, sh)) dst p)" for p
  proof -
    have cp: "real_of_int u1 < fst p" "fst p < real_of_int u2" "u1 < u2" "real_of_int v1 < snd p" "snd p < real_of_int v2" "v1 < v2"
      using p(1,2) clipped_point [of "rx a" "fst p" "rwidth a" dw] clipped_point [of "ry a" "snd p" "rheight a" dh]
      by (simp_all add: in_wlrect_def in_size_def u1_def u2_def v1_def v2_def)
    define q where "q = viewport_map bsz (Some (sx, sy, sw, sh)) dst p"
    have q: "fst q = (real_of_int sx + fst p * real_of_int sw / real_of_int dw) / 256"
      "snd q = (real_of_int sy + snd p * real_of_int sh / real_of_int dh) / 256"
      by (simp_all add: q_def viewport_map_def d)
    have s: "0 < fst q" "fst q < real_of_int bw" "0 < snd q" "snd q < real_of_int bh"
      using p(3) by (simp_all add: in_size_def b q_def)
    note mx = min_point [OF source_axis_bounds [OF cp(1,2) uv(1) sp(9,7,1), folded q] s(1,2) bp(3), folded fx_def cx_def]
    note my = min_point [OF source_axis_bounds [OF cp(4,5) uv(3) sp(10,8,3), folded q] s(3,4) bp(4), folded fy_def cy_def]
    from cp mx my show ?thesis by (simp add: r_def in_rect_def flip: q_def)
  qed
  ultimately show ?thesis using ap d by auto
qed

lemma apply_viewport_transform_nosrc:
  assumes a: "is_i32 (rx a)" "is_i32 (ry a)" "0 \<le> rwidth a" "0 \<le> rheight a"
    and bsz: "size_ok bsz" and v: "view_ok None dst"
  shows "\<exists>r. apply_viewport_transform a bsz None dst = Inr r \<and> (\<forall>R. r = Some R \<longrightarrow> nonempty_in R bsz) \<and>
    (\<forall>p. in_wlrect a p \<and> in_size (viewport_size bsz None dst) p \<and> in_size bsz (viewport_map bsz None dst p) \<longrightarrow>
       (\<exists>R. r = Some R \<and> in_rect R (viewport_map bsz None dst p)))"
proof -
  obtain dw dh where d: "viewport_size bsz None dst = (dw, dh)" by force
  with viewport_size_ok [OF bsz v] have dp: "pos_i32 dw" "pos_i32 dh" by (simp_all add: size_ok_def)
  obtain bw bh where b: "fst bsz = bw" "snd bsz = bh" by blast
  have bp: "pos_i32 bw" "pos_i32 bh" "0 < bw" "0 < bh" "0 < dw" "0 < dh"
    using bsz b dp by (simp_all add: size_ok_def pos_i32_def)
  define u1 u2 where "u1 = max 0 (min (rx a) dw)" and "u2 = max 0 (min (rx a + rwidth a) dw)"
  define v1 v2 where "v1 = max 0 (min (ry a) dh)" and "v2 = max 0 (min (ry a + rheight a) dh)"
  have uv: "0 \<le> u1" "u2 \<le> dw" "0 \<le> v1" "v2 \<le> dh"
    using dp by (auto simp: u1_def u2_def v1_def v2_def pos_i32_def)
  have cl: "max 0 (min (i32_saturating_add (rx a) (rwidth a)) dw) = u2"
    "max 0 (min (i32_saturating_add (ry a) (rheight a)) dh) = v2"
    using a dp by (simp_all add: sat_clamp u2_def v2_def pos_i32_def)
  define fx cx where "fx = nat u1 * nat bw div nat dw" and "cx = div_ceil (nat u2 * nat bw) (nat dw)"
  define fy cy where "fy = nat v1 * nat bh div nat dh" and "cy = div_ceil (nat v2 * nat bh) (nat dh)"
  define r where "r = (if u2 \<le> u1 \<or> v2 \<le> v1 then None else Some \<lparr>x1 = fx, x2 = cx, y1 = fy, y2 = cy\<rparr>)"
  have ap: "apply_viewport_transform a bsz None dst = Inr r"
  proof (cases "u2 \<le> u1 \<or> v2 \<le> v1")
    case True
    then show ?thesis using a dp
      by (auto simp: apply_viewport_transform_def d cl r_def pos_i32_def simp flip: u1_def v1_def)
  next
    case False
    with scale_axis [OF uv(1) _ uv(2) dp(1) bp(1)] scale_axis [OF uv(3) _ uv(4) dp(2) bp(2)]
    show ?thesis using a dp
      by (simp add: apply_viewport_transform_def d cl r_def b fx_def cx_def fy_def cy_def pos_i32_def Let_def flip: u1_def v1_def)
  qed
  have "nonempty_in R bsz" if "r = Some R" for R
  proof -
    have lt: "nat u1 < nat u2" "nat u2 \<le> nat dw" "nat v1 < nat v2" "nat v2 \<le> nat dh"
      and R: "R = \<lparr>x1 = fx, x2 = cx, y1 = fy, y2 = cy\<rparr>"
      using that uv by (auto simp: r_def split: if_splits)
    have n: "0 < nat bw" "nat bw < 2 ^ 31" "0 < nat bh" "nat bh < 2 ^ 31" "nat dw < 2 ^ 31" "nat dh < 2 ^ 31"
      using bp dp by (auto simp: pos_i32_def I32_MAX_def)
    note fx = scaled_floor_ceil(3,4) [OF lt(1,2) n(1,2,5), folded fx_def cx_def]
    note fy = scaled_floor_ceil(3,4) [OF lt(3,4) n(3,4,6), folded fy_def cy_def]
    show ?thesis using fx fy bp(3,4) by (auto simp: R nonempty_in_def b)
  qed
  moreover have "\<exists>R. r = Some R \<and> in_rect R (viewport_map bsz None dst p)"
    if p: "in_wlrect a p" "in_size (dw, dh) p" for p
  proof -
    have cp: "real_of_int u1 < fst p" "fst p < real_of_int u2" "u1 < u2" "real_of_int v1 < snd p" "snd p < real_of_int v2" "v1 < v2"
      using p(1,2) clipped_point [of "rx a" "fst p" "rwidth a" dw] clipped_point [of "ry a" "snd p" "rheight a" dh]
      by (simp_all add: in_wlrect_def in_size_def u1_def u2_def v1_def v2_def)
    define q where "q = viewport_map bsz None dst p"
    have q: "fst q = fst p * real_of_int bw / real_of_int dw" "snd q = snd p * real_of_int bh / real_of_int dh"
      by (simp_all add: q_def viewport_map_def d b)
    note mx = scale_axis_bounds [OF cp(1,2) uv(1) bp(5,3), folded q fx_def cx_def]
    note my = scale_axis_bounds [OF cp(4,5) uv(3) bp(6,4), folded q fy_def cy_def]
    from cp mx my show ?thesis by (simp add: r_def in_rect_def flip: q_def)
  qed
  ultimately show ?thesis using ap d by auto
qed

lemma apply_viewport_transform_covers:
  assumes "wlrect_ok a" "size_ok bsz" "view_ok src dst"
  shows "\<exists>r. apply_viewport_transform a bsz src dst = Inr r \<and> (\<forall>R. r = Some R \<longrightarrow> nonempty_in R bsz) \<and>
    (\<forall>p. in_wlrect a p \<and> in_size (viewport_size bsz src dst) p \<and> in_size bsz (viewport_map bsz src dst p) \<longrightarrow>
       (\<exists>R. r = Some R \<and> in_rect R (viewport_map bsz src dst p)))"
proof (cases src)
  case None
  then show ?thesis
    using apply_viewport_transform_nosrc [of a bsz dst] assms by (simp add: wlrect_ok_def pos_i32_def)
next
  case (Some s)
  obtain sx sy sw sh where "s = (sx, sy, sw, sh)" by (cases s) auto
  then show ?thesis
    using apply_viewport_transform_src [of a bsz sx sy sw sh dst] assms Some by (simp add: wlrect_ok_def pos_i32_def)
qed

text \<open>The size of the surface content before the viewport: the buffer size over the scale, turned.\<close>

definition content_size :: "nat \<Rightarrow> WlOutputTransform \<Rightarrow> int \<times> int \<Rightarrow> int \<times> int" where
  "content_size s t sz =
     (let w = fst sz div int s; h = snd sz div int s in if swap_xy t then (h, w) else (w, h))"

definition surface_size :: "BufferAttachment \<Rightarrow> int \<times> int" where
  "surface_size att = viewport_size (content_size (att_scale att) (att_transform att) (buffer_size att))
     (viewport_src att) (viewport_dst att)"

definition content_point :: "BufferAttachment \<Rightarrow> point \<Rightarrow> point" where
  "content_point att = viewport_map (content_size (att_scale att) (att_transform att) (buffer_size att))
     (viewport_src att) (viewport_dst att)"

definition buffer_point :: "BufferAttachment \<Rightarrow> point \<Rightarrow> point" where
  "buffer_point att p = orient (att_transform att) (real_of_int (fst (buffer_size att)))
     (real_of_int (snd (buffer_size att))) (scaled (att_scale att) (content_point att p))"

definition att_ok :: "BufferAttachment \<Rightarrow> bool" where
  "att_ok att \<longleftrightarrow> size_ok (buffer_size att) \<and> view_ok (viewport_src att) (viewport_dst att) \<and> 0 < att_scale att \<and>
     int (att_scale att) \<le> fst (buffer_size att) \<and> int (att_scale att) \<le> snd (buffer_size att)"

text \<open>
  What the request handlers guarantee of an attachment: unlike \<open>att_ok\<close>, it does not bound the scale by
  the buffer size.
\<close>

definition att_valid :: "BufferAttachment \<Rightarrow> bool" where
  "att_valid att \<longleftrightarrow> size_ok (buffer_size att) \<and> view_ok (viewport_src att) (viewport_dst att) \<and> 0 < att_scale att \<and>
     int (att_scale att) \<le> I32_MAX"

lemma att_ok_valid: "att_ok att \<Longrightarrow> att_valid att"
  by (auto simp: att_ok_def att_valid_def size_ok_def pos_i32_def)

text \<open>A rectangle inside a size that may be empty.\<close>

definition rect_in :: "Rect \<Rightarrow> int \<times> int \<Rightarrow> bool" where
  "rect_in r sz \<longleftrightarrow> x1 r \<le> x2 r \<and> int (x2 r) \<le> fst sz \<and> y1 r \<le> y2 r \<and> int (y2 r) \<le> snd sz"

lemma nonempty_in_rect_in: "nonempty_in r sz \<longleftrightarrow> rect_in r sz \<and> x1 r < x2 r \<and> y1 r < y2 r"
  by (auto simp: nonempty_in_def rect_in_def)

lemma transform_codes [simp]:
  "swap_xy Normal = False" "swap_xy Item90 = True" "swap_xy Item180 = False" "swap_xy Item270 = True"
  "swap_xy Flipped = False" "swap_xy Flipped90 = True" "swap_xy Flipped180 = False" "swap_xy Flipped270 = True"
  "flip_x Normal = False" "flip_x Item90 = True" "flip_x Item180 = True" "flip_x Item270 = False"
  "flip_x Flipped = True" "flip_x Flipped90 = False" "flip_x Flipped180 = False" "flip_x Flipped270 = True"
  "flip_y Normal = False" "flip_y Item90 = False" "flip_y Item180 = True" "flip_y Item270 = True"
  "flip_y Flipped = False" "flip_y Flipped90 = False" "flip_y Flipped180 = True" "flip_y Flipped270 = True"
  by (simp_all add: swap_xy_def flip_x_def flip_y_def transform_code_def)

lemma i32_div_ok: "0 \<le> a \<Longrightarrow> 0 < b \<Longrightarrow> i32_div a b = Inr (a div b)"
  by (cases "a = 0") (auto simp: i32_div_def)

lemma content_size_ok:
  assumes "att_ok att"
  shows "size_ok (content_size (att_scale att) (att_transform att) (buffer_size att))"
proof -
  have "pos_i32 (i div int (att_scale att))" if "pos_i32 i" "int (att_scale att) \<le> i" for i
  proof -
    have "i div int (att_scale att) \<le> i" "0 < i div int (att_scale att)"
      using that assms zdiv_mono2 [of i 1 "int (att_scale att)"] by (auto simp: att_ok_def pos_i32_def pos_imp_zdiv_pos_iff)
    then show ?thesis using that by (simp add: pos_i32_def)
  qed
  then show ?thesis using assms by (simp add: content_size_def att_ok_def size_ok_def Let_def)
qed

lemma div_times_le_int: "x div int s * int s \<le> x" if "0 \<le> x" for x :: int
  using that by (cases "s = 0") (simp_all add: minus_mod_eq_div_mult [symmetric])

lemma u32_nat_ok [simp]: "n \<le> U32_MAX \<Longrightarrow> u32_nat n = Inr n"
  by (simp add: u32_nat_def)

lemma flip_pair_ok [simp]: "l \<le> e \<Longrightarrow> h \<le> e \<Longrightarrow> flip_pair f e l h = Inr (if f then (e - h, e - l) else (l, h))"
  by (simp add: flip_pair_def)

text \<open>The rectangle that the scale and the output transform make of a content rectangle.\<close>

definition turn_rect :: "nat \<Rightarrow> WlOutputTransform \<Rightarrow> nat \<Rightarrow> nat \<Rightarrow> Rect \<Rightarrow> Rect" where
  "turn_rect s t end_w end_h b =
     (let (xl, xh) = (if flip_x t then (end_w - x2 b * s, end_w - x1 b * s) else (x1 b * s, x2 b * s));
          (yl, yh) = (if flip_y t then (end_h - y2 b * s, end_h - y1 b * s) else (y1 b * s, y2 b * s)) in
      if swap_xy t then \<lparr>x1 = yl, x2 = yh, y1 = xl, y2 = xh\<rparr> else \<lparr>x1 = xl, x2 = xh, y1 = yl, y2 = yh\<rparr>)"

lemma turn_rect_in:
  assumes "x1 b < x2 b" "y1 b < y2 b" "x2 b * s \<le> ew" "y2 b * s \<le> eh" "0 < s"
  shows "nonempty_in (turn_rect s t ew eh b) (if swap_xy t then (int eh, int ew) else (int ew, int eh))"
proof -
  define l h m n where "l = x1 b * s" and "h = x2 b * s" and "m = y1 b * s" and "n = y2 b * s"
  have "l < h" "m < n" using assms by (simp_all add: l_def h_def m_def n_def)
  moreover have "h \<le> ew" "n \<le> eh" using assms by (simp_all add: h_def n_def)
  ultimately show ?thesis by (cases t) (auto simp: turn_rect_def nonempty_in_def simp flip: l_def h_def m_def n_def)
qed

lemma turn_rect_point:
  assumes "in_rect b q" "x2 b * s \<le> ew" "y2 b * s \<le> eh" "0 < s"
  shows "in_rect (turn_rect s t ew eh b)
    (orient t (real (if swap_xy t then eh else ew)) (real (if swap_xy t then ew else eh)) (scaled s q))"
proof -
  define l h m n where "l = x1 b * s" and "h = x2 b * s" and "m = y1 b * s" and "n = y2 b * s"
  have q: "real l < real s * fst q" "real s * fst q < real h" "real m < real s * snd q" "real s * snd q < real n"
    using assms by (simp_all add: l_def h_def m_def n_def in_rect_def mult.commute)
  then have "l < h" "m < n" by linarith+
  moreover have "h \<le> ew" "n \<le> eh" using assms by (simp_all add: h_def n_def)
  ultimately show ?thesis
    using q by (cases t) (simp_all add: turn_rect_def in_rect_def scaled_def of_nat_diff flip: l_def h_def m_def n_def)
qed

lemma apply_damage_rect_transform_eq:
  assumes att: "att_valid att"
    and b: "apply_viewport_transform w (content_size (att_scale att) (att_transform att) (buffer_size att))
      (viewport_src att) (viewport_dst att) = Inr ob"
    and fits: "\<forall>b. ob = Some b \<longrightarrow> rect_in b (content_size (att_scale att) (att_transform att) (buffer_size att))"
  shows "surface_to_current att w = Inr (map_option (turn_rect (att_scale att) (att_transform att)
      (nat (if swap_xy (att_transform att) then snd (buffer_size att) else fst (buffer_size att)))
      (nat (if swap_xy (att_transform att) then fst (buffer_size att) else snd (buffer_size att)))) ob)"
    and "ob = Some b \<Longrightarrow>
      x2 b * att_scale att \<le> nat (if swap_xy (att_transform att) then snd (buffer_size att) else fst (buffer_size att)) \<and>
      y2 b * att_scale att \<le> nat (if swap_xy (att_transform att) then fst (buffer_size att) else snd (buffer_size att))"
proof -
  obtain bw bh where sz: "buffer_size att = (bw, bh)" by force
  define s t where "s = att_scale att" and "t = att_transform att"
  define ew eh where "ew = (if swap_xy t then bh else bw)" and "eh = (if swap_xy t then bw else bh)"
  have p: "0 < bw" "bw \<le> I32_MAX" "0 < bh" "bh \<le> I32_MAX" "0 < s" "int s \<le> I32_MAX"
    using att by (simp_all add: att_valid_def sz size_ok_def pos_i32_def s_def)
  have e: "0 < ew" "ew \<le> I32_MAX" "0 < eh" "eh \<le> I32_MAX" using p by (simp_all add: ew_def eh_def)
  have c: "content_size s t (bw, bh) = (ew div int s, eh div int s)"
    by (simp add: content_size_def ew_def eh_def)
  have pre: "as_i32 s = int s" using p by (simp add: as_i32_ok)
  have k: "x2 b * s \<le> nat ew \<and> y2 b * s \<le> nat eh" if "ob = Some b" for b
  proof -
    have "int (x2 b) \<le> ew div int s" "int (y2 b) \<le> eh div int s"
      using fits that by (simp_all add: rect_in_def sz c flip: s_def t_def)
    then have "int (x2 b) * int s \<le> ew" "int (y2 b) * int s \<le> eh"
      using p(5) mult_right_mono [of "int (x2 b)" "ew div int s" "int s"] mult_right_mono [of "int (y2 b)" "eh div int s" "int s"]
        div_times_le_int [of ew s] div_times_le_int [of eh s] e by linarith+
    then show ?thesis using e by (simp add: nat_le_iff le_nat_iff)
  qed
  then show "ob = Some b \<Longrightarrow> x2 b * att_scale att \<le> nat (if swap_xy (att_transform att) then snd (buffer_size att) else fst (buffer_size att)) \<and>
      y2 b * att_scale att \<le> nat (if swap_xy (att_transform att) then fst (buffer_size att) else snd (buffer_size att))"
    by (cases "swap_xy t") (simp_all add: sz ew_def eh_def flip: s_def t_def)
  have i: "i32_div bw (int s) = Inr (bw div int s)" "i32_div bh (int s) = Inr (bh div int s)"
    using p by (simp_all add: i32_div_ok)
  have u: "as_u32 ew = nat ew" "as_u32 eh = nat eh" using e by (simp_all add: as_u32_ok)
  have "surface_to_current att w = Inr (map_option (turn_rect s t (nat ew) (nat eh)) ob)"
  proof (cases ob)
    case None
    then show ?thesis using b
      by (cases "swap_xy t") (simp_all add: surface_to_current_def apply_damage_rect_transform_def sz pre i content_size_def
          Let_def flip: s_def t_def)
  next
    case (Some r)
    have k': "x2 r * s \<le> nat ew" "y2 r * s \<le> nat eh" "x1 r * s \<le> x2 r * s" "y1 r * s \<le> y2 r * s"
      using k [OF Some] fits Some by (simp_all add: rect_in_def)
    moreover have "nat ew \<le> U32_MAX" "nat eh \<le> U32_MAX" using e by (auto simp: I32_MAX_def U32_MAX_def)
    ultimately have "x2 r * s \<le> U32_MAX" "y2 r * s \<le> U32_MAX" "x1 r * s \<le> U32_MAX" "y1 r * s \<le> U32_MAX"
      "x1 r * s \<le> nat ew" "y1 r * s \<le> nat eh" by linarith+
    with k' u show ?thesis using b Some
      by (cases "swap_xy t") (simp_all add: surface_to_current_def apply_damage_rect_transform_def sz pre i content_size_def
          Let_def turn_rect_def ew_def eh_def split_beta flip: s_def t_def)
  qed
  then show "surface_to_current att w = Inr (map_option (turn_rect (att_scale att) (att_transform att)
      (nat (if swap_xy (att_transform att) then snd (buffer_size att) else fst (buffer_size att)))
      (nat (if swap_xy (att_transform att) then fst (buffer_size att) else snd (buffer_size att)))) ob)"
    by (cases "swap_xy t") (simp_all add: sz ew_def eh_def flip: s_def t_def)
qed

lemma surface_to_current_covers:
  assumes "att_ok att" "wlrect_ok w"
  shows "\<exists>r. surface_to_current att w = Inr r \<and> (\<forall>R. r = Some R \<longrightarrow> nonempty_in R (buffer_size att)) \<and>
    (\<forall>p. in_wlrect w p \<and> in_size (surface_size att) p \<and>
         in_size (content_size (att_scale att) (att_transform att) (buffer_size att)) (content_point att p) \<longrightarrow>
       (\<exists>R. r = Some R \<and> in_rect R (buffer_point att p)))"
proof -
  let ?c = "content_size (att_scale att) (att_transform att) (buffer_size att)"
  obtain bw bh where sz: "buffer_size att = (bw, bh)" by force
  have s: "0 < att_scale att" "0 < bw" "0 < bh" using assms by (simp_all add: att_ok_def sz size_ok_def pos_i32_def)
  from apply_viewport_transform_covers [OF assms(2) content_size_ok [OF assms(1)], of "viewport_src att" "viewport_dst att"] assms(1)
  obtain ob where ob: "apply_viewport_transform w ?c (viewport_src att) (viewport_dst att) = Inr ob"
      "\<forall>R. ob = Some R \<longrightarrow> nonempty_in R ?c"
      "\<forall>p. in_wlrect w p \<and> in_size (surface_size att) p \<and> in_size ?c (content_point att p) \<longrightarrow>
        (\<exists>R. ob = Some R \<and> in_rect R (content_point att p))"
    by (auto simp: att_ok_def surface_size_def content_point_def)
  have "\<forall>R. ob = Some R \<longrightarrow> rect_in R ?c" using ob(2) by (simp add: nonempty_in_rect_in)
  note eq = apply_damage_rect_transform_eq [OF att_ok_valid [OF assms(1)] ob(1) this]
  show ?thesis
  proof (cases ob)
    case None
    then show ?thesis using eq(1) ob(3) by auto
  next
    case (Some b)
    from eq(2) [OF Some, unfolded sz fst_conv snd_conv] have k: "x2 b * att_scale att \<le> nat (if swap_xy (att_transform att) then bh else bw)"
      "y2 b * att_scale att \<le> nat (if swap_xy (att_transform att) then bw else bh)" by blast+
    have n: "x1 b < x2 b" "y1 b < y2 b" using ob(2) Some by (simp_all add: nonempty_in_def)
    have "in_rect b (content_point att p) \<Longrightarrow> in_rect (turn_rect (att_scale att) (att_transform att)
      (nat (if swap_xy (att_transform att) then bh else bw)) (nat (if swap_xy (att_transform att) then bw else bh)) b)
      (buffer_point att p)" for p
      using turn_rect_point [OF _ k s(1), of "content_point att p" "att_transform att"] s
      by (cases "swap_xy (att_transform att)") (simp_all add: buffer_point_def sz)
    then show ?thesis using eq(1) turn_rect_in [OF n k s(1), of "att_transform att"] s ob(3) Some
      by (cases "swap_xy (att_transform att)") (auto simp: sz)
  qed
qed

lemma clip_wlrect_covers:
  assumes "wlrect_ok w" "size_ok sz"
  shows "\<exists>r. clip_wlrect_to_buffer w (fst sz) (snd sz) = Inr r \<and> (\<forall>R. r = Some R \<longrightarrow> nonempty_in R sz) \<and>
    (\<forall>p. in_wlrect w p \<and> in_size sz p \<longrightarrow> (\<exists>R. r = Some R \<and> in_rect R p))"
proof -
  obtain bw bh where b: "fst sz = bw" "snd sz = bh" by blast
  have p: "0 < bw" "bw \<le> I32_MAX" "0 < bh" "bh \<le> I32_MAX" using assms b by (simp_all add: size_ok_def pos_i32_def)
  have w: "is_i32 (rx w)" "is_i32 (ry w)" "0 \<le> rwidth w" "0 \<le> rheight w" using assms by (simp_all add: wlrect_ok_def pos_i32_def)
  define u1 u2 where "u1 = max 0 (min (rx w) bw)" and "u2 = max 0 (min (rx w + rwidth w) bw)"
  define v1 v2 where "v1 = max 0 (min (ry w) bh)" and "v2 = max 0 (min (ry w + rheight w) bh)"
  have uv: "0 \<le> u1" "0 \<le> u2" "0 \<le> v1" "0 \<le> v2" "u1 \<le> bw" "u2 \<le> bw" "v1 \<le> bh" "v2 \<le> bh"
    using p by (auto simp: u1_def u2_def v1_def v2_def)
  have cl: "max 0 (min (i32_saturating_add (rx w) (rwidth w)) bw) = u2"
    "max 0 (min (i32_saturating_add (ry w) (rheight w)) bh) = v2"
    using w p by (simp_all add: sat_clamp u2_def v2_def)
  have as: "as_u32 u1 = nat u1" "as_u32 u2 = nat u2" "as_u32 v1 = nat v1" "as_u32 v2 = nat v2"
    using uv p by (auto intro!: as_u32_ok)
  have r: "clip_wlrect_to_buffer w bw bh =
    Inr (if u2 > u1 \<and> v2 > v1 then Some \<lparr>x1 = nat u1, x2 = nat u2, y1 = nat v1, y2 = nat v2\<rparr> else None)"
    using p by (simp add: clip_wlrect_to_buffer_def cl as flip: u1_def v1_def)
  have "u1 < u2 \<and> v1 < v2 \<and> in_rect \<lparr>x1 = nat u1, x2 = nat u2, y1 = nat v1, y2 = nat v2\<rparr> q"
    if "in_wlrect w q" "in_size sz q" for q
  proof -
    have "real_of_int u1 < fst q" "fst q < real_of_int u2" "u1 < u2" "real_of_int v1 < snd q" "snd q < real_of_int v2" "v1 < v2"
      using that clipped_point [of "rx w" "fst q" "rwidth w" bw] clipped_point [of "ry w" "snd q" "rheight w" bh]
      by (simp_all add: in_wlrect_def in_size_def b u1_def u2_def v1_def v2_def)
    then show ?thesis using uv by (simp add: in_rect_def)
  qed
  then show ?thesis using r uv by (auto simp: nonempty_in_def b)
qed

section \<open>Buffer to surface\<close>

lemma inverse_axis:
  fixes p :: real and l h d s :: nat
  assumes "real l < p * real s / real d" "p * real s / real d < real h" "0 < s" "0 < d"
  shows "real (l * d div s) < p" "p < real (div_ceil (h * d) s)"
proof -
  have "real (l * d) / real s < p" "p < real (h * d) / real s" using assms by (simp_all add: field_simps)
  then show "real (l * d div s) < p" "p < real (div_ceil (h * d) s)"
    using div_le_real [of "l * d" s] div_ceil_ge_real [OF assms(3), of "h * d"] by linarith+
qed

lemma inverse_axis_size:
  fixes l h d s :: nat
  assumes "l < h" "h \<le> s" "0 < d"
  shows "l * d div s < div_ceil (h * d) s" "div_ceil (h * d) s \<le> d"
  using assms by (auto intro!: div_less_div_ceil simp: div_ceil_le_iff mult.commute)

lemma clip_src_axis:
  fixes n off s :: nat and P q :: real
  assumes "0 < P" "P < real s" "q = (real off + P) / 256"
  shows "real n < q \<Longrightarrow> real (max off (min (n * 256) (off + s)) - off) < P"
    and "q < real n \<Longrightarrow> P < real (max off (min (n * 256) (off + s)) - off)"
  using assms by (auto simp: max_def min_def of_nat_diff field_simps)

text \<open>Size and offset of the viewport source in 24.8 fixed point.\<close>

definition src_fixed :: "int \<times> int \<Rightarrow> view_src \<Rightarrow> nat \<times> nat" where
  "src_fixed bsz src = (case src of Some (sx, sy, sw, sh) \<Rightarrow> (nat sw, nat sh) | None \<Rightarrow> (nat (fst bsz) * 256, nat (snd bsz) * 256))"

definition src_off :: "view_src \<Rightarrow> nat \<times> nat" where
  "src_off src = (case src of Some (sx, sy, sw, sh) \<Rightarrow> (nat sx, nat sy) | None \<Rightarrow> (0, 0))"

lemma viewport_map_fixed:
  assumes "size_ok bsz" "view_ok src dst" "viewport_size bsz src dst = (dw, dh)"
  shows "fst (viewport_map bsz src dst p) = (real (fst (src_off src)) + fst p * real (fst (src_fixed bsz src)) / real (nat dw)) / 256"
    "snd (viewport_map bsz src dst p) = (real (snd (src_off src)) + snd p * real (snd (src_fixed bsz src)) / real (nat dh)) / 256"
  using assms viewport_size_ok [OF assms(1,2)]
  by (auto simp: viewport_map_def src_fixed_def src_off_def view_ok_def size_ok_def pos_i32_def split: option.splits)

lemma inverse_dst_eq:
  assumes "size_ok bsz" "view_ok src dst" "viewport_size bsz src dst = (dw, dh)"
  shows "inverse_dst bsz src dst = Inr (nat dw, nat dh)"
proof (cases "dst = None \<and> src \<noteq> None")
  case True
  then obtain sx sy sw sh where src: "src = Some (sx, sy, sw, sh)" and dst: "dst = None" by auto
  have *: "nat (as_i32 (div_ceil (as_u32 s) 256)) = div_ceil (as_u32 s) 256" if "pos_i32 s" for s
  proof -
    have "as_u32 s = nat s" using that by (simp add: as_u32_ok pos_i32_def)
    moreover have "div_ceil (nat s) 256 \<le> nat s" by (simp add: div_ceil_le_iff)
    then have "int (div_ceil (nat s) 256) \<le> I32_MAX" using that by (auto simp: pos_i32_def)
    ultimately show ?thesis by (simp add: as_i32_ok)
  qed
  show ?thesis using assms(2,3) * by (auto simp: viewport_size_def src dst view_ok_def inverse_dst_def)
next
  case False
  then show ?thesis using assms
    by (auto simp: viewport_size_def view_ok_def inverse_dst_def size_ok_def pos_i32_def as_u32_ok split: option.splits)
qed

lemma clip_to_src_spec:
  assumes a: "nonempty_in a bsz" and sz: "size_ok bsz" and v: "view_ok src dst"
    and d: "viewport_size bsz src dst = (dw, dh)"
  shows "\<exists>c. clip_to_src a src = Inr c \<and>
    (\<forall>fx1 fx2 fy1 fy2. c = Some (fx1, fx2, fy1, fy2) \<longrightarrow>
       fx1 < fx2 \<and> fx2 \<le> fst (src_fixed bsz src) \<and> fy1 < fy2 \<and> fy2 \<le> snd (src_fixed bsz src)) \<and>
    (\<forall>p. in_size (dw, dh) p \<and> in_rect a (viewport_map bsz src dst p) \<longrightarrow>
      (\<exists>fx1 fx2 fy1 fy2. c = Some (fx1, fx2, fy1, fy2) \<and>
        real fx1 < fst p * real (fst (src_fixed bsz src)) / real (nat dw) \<and>
        fst p * real (fst (src_fixed bsz src)) / real (nat dw) < real fx2 \<and>
        real fy1 < snd p * real (snd (src_fixed bsz src)) / real (nat dh) \<and>
        snd p * real (snd (src_fixed bsz src)) / real (nat dh) < real fy2))"
proof -
  note q = viewport_map_fixed [OF sz v d]
  have dp: "0 < dw" "0 < dh" using viewport_size_ok [OF sz v] d by (auto simp: size_ok_def pos_i32_def)
  show ?thesis
  proof (cases src)
    case None
    then have off: "src_off src = (0, 0)" by (simp add: src_off_def)
    have "in_rect a (viewport_map bsz src dst p) \<Longrightarrow>
      real (x1 a * 256) < fst p * real (fst (src_fixed bsz src)) / real (nat dw) \<and>
      fst p * real (fst (src_fixed bsz src)) / real (nat dw) < real (x2 a * 256) \<and>
      real (y1 a * 256) < snd p * real (snd (src_fixed bsz src)) / real (nat dh) \<and>
      snd p * real (snd (src_fixed bsz src)) / real (nat dh) < real (y2 a * 256)" for p
      by (simp add: in_rect_def q off)
    then show ?thesis using None a by (auto simp: clip_to_src_def src_fixed_def nonempty_in_def le_nat_iff)
  next
    case (Some s)
    then obtain sx sy sw sh where s: "src = Some (sx, sy, sw, sh)" by (cases s) auto
    have sp: "0 \<le> sx" "sx \<le> I32_MAX" "0 \<le> sy" "sy \<le> I32_MAX" "0 < sw" "sw \<le> I32_MAX" "0 < sh" "sh \<le> I32_MAX"
      using v by (simp_all add: view_ok_def pos_i32_def s)
    have u: "as_u64 sx = nat sx" "as_u64 sy = nat sy" "as_u64 sw = nat sw" "as_u64 sh = nat sh"
      using sp by (simp_all add: as_u64_ok)
    have add: "usize_add (nat sx) (nat sw) = Inr (nat sx + nat sw)" "usize_add (nat sy) (nat sh) = Inr (nat sy + nat sh)"
      using sp by (auto simp: I32_MAX_def USIZE_MAX_def)
    define f where "f off n s = max off (min (n * 256) (off + s)) - off" for off n s :: nat
    have fle: "f off n s \<le> s" for off n s by (auto simp: f_def max_def min_def)
    define c where "c = (if f (nat sx) (x2 a) (nat sw) \<le> f (nat sx) (x1 a) (nat sw) \<or>
        f (nat sy) (y2 a) (nat sh) \<le> f (nat sy) (y1 a) (nat sh) then None
      else Some (f (nat sx) (x1 a) (nat sw), f (nat sx) (x2 a) (nat sw), f (nat sy) (y1 a) (nat sh), f (nat sy) (y2 a) (nat sh)))"
    have c: "clip_to_src a src = Inr c"
      using sp by (simp add: clip_to_src_def s u add c_def f_def Let_def)
    have "\<exists>fx1 fx2 fy1 fy2. c = Some (fx1, fx2, fy1, fy2) \<and>
        real fx1 < fst p * real (nat sw) / real (nat dw) \<and> fst p * real (nat sw) / real (nat dw) < real fx2 \<and>
        real fy1 < snd p * real (nat sh) / real (nat dh) \<and> snd p * real (nat sh) / real (nat dh) < real fy2"
      if p: "in_size (dw, dh) p" "in_rect a (viewport_map bsz src dst p)" for p
    proof -
      define P Q where "P = fst p * real (nat sw) / real (nat dw)" and "Q = snd p * real (nat sh) / real (nat dh)"
      have PQ: "0 < P" "P < real (nat sw)" "0 < Q" "Q < real (nat sh)"
        using p(1) dp sp by (simp_all add: P_def Q_def in_size_def field_simps)
      have b: "real (x1 a) < (real (nat sx) + P) / 256" "(real (nat sx) + P) / 256 < real (x2 a)"
        "real (y1 a) < (real (nat sy) + Q) / 256" "(real (nat sy) + Q) / 256 < real (y2 a)"
        using p(2) q [of p] by (simp_all add: in_rect_def s src_off_def src_fixed_def P_def Q_def)
      have "real (f (nat sx) (x1 a) (nat sw)) < P" "P < real (f (nat sx) (x2 a) (nat sw))"
        "real (f (nat sy) (y1 a) (nat sh)) < Q" "Q < real (f (nat sy) (y2 a) (nat sh))"
        using clip_src_axis [OF PQ(1,2) refl] clip_src_axis [OF PQ(3,4) refl] b by (simp_all add: f_def)
      then show ?thesis by (auto simp: c_def simp flip: P_def Q_def)
    qed
    then show ?thesis using c fle by (auto simp: c_def src_fixed_def s split: if_splits)
  qed
qed

lemma inverse_viewport_transform_covers:
  assumes a: "nonempty_in a bsz" and sz: "size_ok bsz" and v: "view_ok src dst"
  shows "\<exists>r. inverse_viewport_transform a bsz src dst = Inr r \<and> (\<forall>s. r = Some s \<longrightarrow> wlrect_ok s) \<and>
    (\<forall>p. in_size (viewport_size bsz src dst) p \<and> in_rect a (viewport_map bsz src dst p) \<longrightarrow>
       (\<exists>s. r = Some s \<and> in_wlrect s p))"
proof -
  obtain dw dh where d: "viewport_size bsz src dst = (dw, dh)" by force
  have dp: "0 < dw" "dw \<le> I32_MAX" "0 < dh" "dh \<le> I32_MAX"
    using viewport_size_ok [OF sz v] d by (auto simp: size_ok_def pos_i32_def)
  define S where "S = src_fixed bsz src"
  have Sp: "0 < fst S" "0 < snd S"
    using sz v by (auto simp: S_def src_fixed_def size_ok_def view_ok_def pos_i32_def split: option.splits)
  have Seq: "(case src of Some (sx, sy, sw, sh) \<Rightarrow> (as_u64 sw, as_u64 sh)
      | None \<Rightarrow> (as_u64 (fst bsz) * 256, as_u64 (snd bsz) * 256)) = S"
    using sz v by (auto simp: S_def src_fixed_def size_ok_def view_ok_def pos_i32_def as_u64_ok split: option.splits)
  have pre: "fst bsz > 0 \<and> snd bsz > 0" "x1 a < x2 a \<and> y1 a < y2 a \<and> x2 a \<le> as_u32 (fst bsz) \<and> y2 a \<le> as_u32 (snd bsz)"
    using a sz by (simp_all add: nonempty_in_def size_ok_def pos_i32_def as_u32_ok le_nat_iff)
  from clip_to_src_spec [OF a sz v d, folded S_def] obtain c where c: "clip_to_src a src = Inr c"
      "\<forall>fx1 fx2 fy1 fy2. c = Some (fx1, fx2, fy1, fy2) \<longrightarrow> fx1 < fx2 \<and> fx2 \<le> fst S \<and> fy1 < fy2 \<and> fy2 \<le> snd S"
      "\<forall>p. in_size (dw, dh) p \<and> in_rect a (viewport_map bsz src dst p) \<longrightarrow>
        (\<exists>fx1 fx2 fy1 fy2. c = Some (fx1, fx2, fy1, fy2) \<and>
          real fx1 < fst p * real (fst S) / real (nat dw) \<and> fst p * real (fst S) / real (nat dw) < real fx2 \<and>
          real fy1 < snd p * real (snd S) / real (nat dh) \<and> snd p * real (snd S) / real (nat dh) < real fy2)"
    by (elim exE conjE)
  show ?thesis
  proof (cases c)
    case None
    then have "inverse_viewport_transform a bsz src dst = Inr None"
      using pre c(1) by (simp add: inverse_viewport_transform_def)
    then show ?thesis using c(3) None d by auto
  next
    case (Some t)
    then obtain fx1 fx2 fy1 fy2 where t: "c = Some (fx1, fx2, fy1, fy2)" by (cases t) auto
    from c(2) t have f: "fx1 < fx2" "fx2 \<le> fst S" "fy1 < fy2" "fy2 \<le> snd S" by blast+
    define xl xh where "xl = fx1 * nat dw div fst S" and "xh = div_ceil (fx2 * nat dw) (fst S)"
    define yl yh where "yl = fy1 * nat dh div snd S" and "yh = div_ceil (fy2 * nat dh) (snd S)"
    have b: "xl < xh" "xh \<le> nat dw" "yl < yh" "yh \<le> nat dh"
      using inverse_axis_size [OF f(1,2), of "nat dw"] inverse_axis_size [OF f(3,4), of "nat dh"] dp
      by (simp_all add: xl_def xh_def yl_def yh_def)
    then have m: "int xh \<le> I32_MAX" "int yh \<le> I32_MAX" "int xl \<le> I32_MAX" "int yl \<le> I32_MAX"
      "int (xh - xl) \<le> I32_MAX" "int (yh - yl) \<le> I32_MAX" using dp by (simp_all add: le_nat_iff)
    let ?s = "\<lparr>rx = int xl, ry = int yl, rwidth = int (xh - xl), rheight = int (yh - yl)\<rparr>"
    have "inverse_viewport_transform a bsz src dst = Inr (Some ?s)"
      using pre c(1) t b(1,3) m Sp inverse_dst_eq [OF sz v d]
      by (simp add: inverse_viewport_transform_def Seq as_i32_ok flip: xl_def xh_def yl_def yh_def)
    moreover have "wlrect_ok ?s" using m b by (simp add: wlrect_ok_def is_i32_def pos_i32_def I32_MIN_def)
    moreover have "in_wlrect ?s p" if p: "in_size (dw, dh) p" "in_rect a (viewport_map bsz src dst p)" for p
    proof -
      have P: "real fx1 < fst p * real (fst S) / real (nat dw)" "fst p * real (fst S) / real (nat dw) < real fx2"
        "real fy1 < snd p * real (snd S) / real (nat dh)" "snd p * real (snd S) / real (nat dh) < real fy2"
        using c(3) [rule_format, OF conjI, OF p] t by simp_all
      have "real xl < fst p" "fst p < real xh" "real yl < snd p" "snd p < real yh"
        using inverse_axis [OF P(1,2) Sp(1)] inverse_axis [OF P(3,4) Sp(2)] dp by (simp_all add: xl_def xh_def yl_def yh_def)
      then show ?thesis using b by (simp add: in_wlrect_def of_nat_diff)
    qed
    ultimately show ?thesis using d by auto
  qed
qed

text \<open>The content rectangle that the inverse transform makes of a clipped buffer rectangle.\<close>

definition unturn_rect :: "nat \<Rightarrow> WlOutputTransform \<Rightarrow> nat \<Rightarrow> nat \<Rightarrow> Rect \<Rightarrow> Rect" where
  "unturn_rect s t end_w end_h b =
     (let (xl, xh, yl, yh) = (if swap_xy t then (y1 b, y2 b, x1 b, x2 b) else (x1 b, x2 b, y1 b, y2 b));
          (yl, yh) = (if flip_y t then (end_h - yh, end_h - yl) else (yl, yh));
          (xl, xh) = (if flip_x t then (end_w - xh, end_w - xl) else (xl, xh)) in
      \<lparr>x1 = xl div s, x2 = div_ceil xh s, y1 = yl div s, y2 = div_ceil yh s\<rparr>)"

lemma unturn_lo: "real l < real s * q \<Longrightarrow> 0 < s \<Longrightarrow> real (l div s) < q"
  using div_le_real [of l s] by (rule le_less_trans) (simp add: field_simps)

lemma unturn_hi: "real s * q < real h \<Longrightarrow> 0 < s \<Longrightarrow> q < real (div_ceil h s)"
  by (rule less_le_trans [OF _ div_ceil_ge_real]) (simp_all add: field_simps)

lemma unturn_rect_in:
  assumes "x1 b < x2 b" "y1 b < y2 b" "0 < s"
    and "x2 b \<le> (if swap_xy t then eh else ew)" "y2 b \<le> (if swap_xy t then ew else eh)"
  shows "nonempty_in (unturn_rect s t ew eh b) (int (div_ceil ew s), int (div_ceil eh s))"
  using assms by (cases t) (auto simp: unturn_rect_def nonempty_in_def intro!: div_less_div_ceil div_ceil_mono)

lemma unturn_rect_point:
  assumes "in_rect b (orient t (real (if swap_xy t then eh else ew)) (real (if swap_xy t then ew else eh)) (scaled s q))"
    and "0 < s" "x2 b \<le> (if swap_xy t then eh else ew)" "y2 b \<le> (if swap_xy t then ew else eh)"
  shows "in_rect (unturn_rect s t ew eh b) q"
proof -
  have "real (x1 b) < real (x2 b)" "real (y1 b) < real (y2 b)" using assms(1) unfolding in_rect_def by linarith+
  then have lt: "x1 b < x2 b" "y1 b < y2 b" by simp_all
  show ?thesis
    using assms lt
    by (cases t) (auto simp: unturn_rect_def in_rect_def scaled_def of_nat_diff intro!: unturn_lo unturn_hi)
qed

lemma inverse_damage_rect_transform_eq:
  assumes sz: "size_ok (W, H)" and s: "0 < s" and w: "wlrect_ok w"
    and clip: "clip_wlrect_to_buffer w W H = Inr ob" and ob: "\<forall>b. ob = Some b \<longrightarrow> nonempty_in b (W, H)"
  shows "inverse_damage_rect_transform w s t src dst W H =
    (case ob of None \<Rightarrow> Inr None
     | Some b \<Rightarrow> inverse_viewport_transform (unturn_rect s t (nat (if swap_xy t then H else W)) (nat (if swap_xy t then W else H)) b)
         (int (div_ceil (nat (if swap_xy t then H else W)) s), int (div_ceil (nat (if swap_xy t then W else H)) s)) src dst)"
proof -
  have p: "0 < W" "W \<le> I32_MAX" "0 < H" "H \<le> I32_MAX" using sz by (simp_all add: size_ok_def pos_i32_def)
  define u1 u2 where "u1 = max 0 (min (rx w) W)" and "u2 = max 0 (min (i32_saturating_add (rx w) (rwidth w)) W)"
  define v1 v2 where "v1 = max 0 (min (ry w) H)" and "v2 = max 0 (min (i32_saturating_add (ry w) (rheight w)) H)"
  define a1 a2 b1 b2 where "a1 = nat u1" and "a2 = nat u2" and "b1 = nat v1" and "b2 = nat v2"
  note abs = a1_def a2_def b1_def b2_def
  have as: "as_u32 u1 = a1" "as_u32 u2 = a2" "as_u32 v1 = b1" "as_u32 v2 = b2" "as_u32 W = nat W" "as_u32 H = nat H"
    using p by (auto simp: u1_def u2_def v1_def v2_def abs intro!: as_u32_ok)
  have le: "a2 \<le> nat W" "b2 \<le> nat H" "0 \<le> u1" "0 \<le> v1" using p by (auto simp: u1_def v1_def u2_def v2_def abs)
  have o: "ob = (if u2 > u1 \<and> v2 > v1 then Some \<lparr>x1 = a1, x2 = a2, y1 = b1, y2 = b2\<rparr> else None)"
    using clip p by (simp add: clip_wlrect_to_buffer_def as cong: if_cong flip: u1_def u2_def v1_def v2_def)
  have dc: "as_i32 (div_ceil n s) = int (div_ceil n s)" if "n = nat W \<or> n = nat H" for n
  proof (rule as_i32_ok)
    have "n * 1 \<le> n * s" using s by (intro mult_left_mono) auto
    then have "div_ceil n s \<le> n" using s by (simp add: div_ceil_le_iff)
    then show "int (div_ceil n s) \<le> I32_MAX" using p that by auto
  qed
  have pos: "0 < rwidth w \<and> 0 < rheight w" using w by (simp add: wlrect_ok_def pos_i32_def)
  show ?thesis
  proof (cases "u2 > u1 \<and> v2 > v1")
    case False
    then have "a2 \<le> a1 \<or> b2 \<le> b1" by (auto simp: abs)
    moreover have "ob = None" using o False by auto
    ultimately show ?thesis using p s pos
      by (simp add: inverse_damage_rect_transform_def as Let_def flip: u1_def u2_def v1_def v2_def)
  next
    case True
    then have lt: "a1 < a2" "b1 < b2" using le by (auto simp: abs)
    then have "a1 \<le> nat W" "b1 \<le> nat H" using le by linarith+
    moreover have "ob = Some \<lparr>x1 = a1, x2 = a2, y1 = b1, y2 = b2\<rparr>" using o True by simp
    ultimately show ?thesis using lt le(1,2) p s pos dc
      by (cases t) (simp_all add: inverse_damage_rect_transform_def as Let_def unturn_rect_def flip: u1_def u2_def v1_def v2_def)
  qed
qed

definition divisible :: "BufferAttachment \<Rightarrow> bool" where
  "divisible att \<longleftrightarrow> int (att_scale att) dvd fst (buffer_size att) \<and> int (att_scale att) dvd snd (buffer_size att)"

lemma div_ceil_exact: "int s dvd i \<Longrightarrow> 0 \<le> i \<Longrightarrow> 0 < s \<Longrightarrow> int (div_ceil (nat i) s) = i div int s"
  by (auto simp: nat_mult_distrib mult.commute [of s] zero_le_mult_iff elim!: dvdE)

lemma buffer_to_surface_covers:
  assumes att: "att_ok att" and d: "divisible att" and w: "wlrect_ok w"
  shows "\<exists>r. inverse_damage_rect_transform w (att_scale att) (att_transform att) (viewport_src att) (viewport_dst att)
      (fst (buffer_size att)) (snd (buffer_size att)) = Inr r \<and> (\<forall>R. r = Some R \<longrightarrow> wlrect_ok R) \<and>
    (\<forall>p. in_wlrect w (buffer_point att p) \<and> in_size (buffer_size att) (buffer_point att p) \<and> in_size (surface_size att) p \<longrightarrow>
       (\<exists>R. r = Some R \<and> in_wlrect R p))"
proof -
  obtain W H where sz: "buffer_size att = (W, H)" by force
  define s t where "s = att_scale att" and "t = att_transform att"
  define ew eh where "ew = nat (if swap_xy t then H else W)" and "eh = nat (if swap_xy t then W else H)"
  have so: "size_ok (W, H)" "0 < s" "view_ok (viewport_src att) (viewport_dst att)" "0 < W" "0 < H"
    using att by (simp_all add: att_ok_def sz s_def size_ok_def pos_i32_def)
  have dv: "int (div_ceil (nat W) s) = W div int s" "int (div_ceil (nat H) s) = H div int s"
    using d so by (auto simp: divisible_def sz s_def div_ceil_exact)
  have c: "content_size s t (W, H) = (int (div_ceil ew s), int (div_ceil eh s))"
    using dv by (simp add: content_size_def ew_def eh_def)
  from clip_wlrect_covers [OF w so(1)] obtain ob where ob: "clip_wlrect_to_buffer w W H = Inr ob"
    "\<forall>R. ob = Some R \<longrightarrow> nonempty_in R (W, H)"
    "\<forall>p. in_wlrect w p \<and> in_size (W, H) p \<longrightarrow> (\<exists>R. ob = Some R \<and> in_rect R p)" by auto
  note eq = inverse_damage_rect_transform_eq [OF so(1,2) w ob(1,2), of t "viewport_src att" "viewport_dst att",
      folded ew_def eh_def c]
  show ?thesis
  proof (cases ob)
    case None
    then show ?thesis using eq ob(3) by (auto simp: sz s_def t_def simp del: split_paired_All)
  next
    case (Some b)
    have b: "x1 b < x2 b" "y1 b < y2 b" "x2 b \<le> (if swap_xy t then eh else ew)" "y2 b \<le> (if swap_xy t then ew else eh)"
      using ob(2) Some so by (auto simp: nonempty_in_def ew_def eh_def)
    have csz: "size_ok (content_size s t (W, H))" using content_size_ok [OF att] by (simp add: s_def t_def sz)
    from inverse_viewport_transform_covers [OF unturn_rect_in [OF b(1,2) so(2) b(3,4), folded c] csz so(3)]
    obtain r where r: "inverse_viewport_transform (unturn_rect s t ew eh b) (content_size s t (W, H))
        (viewport_src att) (viewport_dst att) = Inr r" "\<forall>s. r = Some s \<longrightarrow> wlrect_ok s"
      "\<forall>p. in_size (surface_size att) p \<and> in_rect (unturn_rect s t ew eh b) (content_point att p) \<longrightarrow> (\<exists>s. r = Some s \<and> in_wlrect s p)"
      by (auto simp: surface_size_def content_point_def sz s_def t_def)
    have "in_rect (unturn_rect s t ew eh b) (content_point att p)"
      if "in_wlrect w (buffer_point att p)" "in_size (W, H) (buffer_point att p)" for p
    proof -
      have "in_rect b (buffer_point att p)" using ob(3) that Some by (auto simp del: split_paired_All)
      then show ?thesis using unturn_rect_point [OF _ so(2) b(3,4), of "content_point att p"] so
        by (cases "swap_xy t") (simp_all add: buffer_point_def sz s_def t_def ew_def eh_def)
    qed
    then show ?thesis using eq r Some by (auto simp: sz s_def t_def simp del: split_paired_All)
  qed
qed

section \<open>Properties\<close>

text \<open>
  C6: no surface damage is lost on the way to the buffer. For valid attachment parameters (positive
  buffer size, scale at most the buffer size, a valid viewport) and a valid rectangle,
  \<open>apply_damage_rect_transform\<close> does not panic; what it returns is a nonempty rectangle inside the
  buffer; and every point of the surface inside the damaged rectangle and inside the surface, that
  the viewport maps into the buffer, is mapped by viewport, scale and output transform into the
  returned rectangle. In particular the result is \<open>None\<close> only if no such point exists.
\<close>

theorem damage_transform_covers:
  assumes "att_ok att" and "wlrect_ok w" and "buffer_size att = (width, height)"
  shows "\<exists>r. apply_damage_rect_transform w (att_scale att) (att_transform att) (viewport_src att) (viewport_dst att) width height = Inr r \<and>
    (\<forall>R. r = Some R \<longrightarrow> nonempty_in R (width, height)) \<and>
    (\<forall>p. in_wlrect w p \<and> in_size (surface_size att) p \<and>
         in_size (content_size (att_scale att) (att_transform att) (width, height)) (content_point att p) \<longrightarrow>
       (\<exists>R. r = Some R \<and> in_rect R (buffer_point att p)))"
  using surface_to_current_covers [OF assms(1,2)] assms(3) by (simp add: surface_to_current_def)

text \<open>
  A 20 by 10 buffer at scale 2, rotated by 90 degrees (so a content of 5 by 10), with the lower
  right part of the content shown enlarged.
\<close>

definition ex_att :: BufferAttachment where
  "ex_att = \<lparr>att_scale = 2, att_transform = Item90, viewport_src = Some (256, 512, 1024, 2048),
     viewport_dst = Some (16, 24), buffer_uid = 1, buffer_size = (20, 10)\<rparr>"

lemma ex_att_simps [simp]:
  "att_scale ex_att = 2" "att_transform ex_att = Item90" "viewport_src ex_att = Some (256, 512, 1024, 2048)"
  "viewport_dst ex_att = Some (16, 24)" "buffer_size ex_att = (20, 10)"
  by (simp_all add: ex_att_def)

lemma ex_att_ok: "att_ok ex_att" "divisible ex_att"
  by (simp_all add: att_ok_def divisible_def size_ok_def view_ok_def pos_i32_def I32_MAX_def)

lemma ex_att_point:
  "in_size (surface_size ex_att) (6, 9)" "content_point ex_att (6, 9) = (5 / 2, 5)" "buffer_point ex_att (6, 9) = (10, 5)"
  "in_size (content_size (att_scale ex_att) (att_transform ex_att) (20, 10)) (content_point ex_att (6, 9))"
  "in_size (buffer_size ex_att) (buffer_point ex_att (6, 9))"
  by (simp_all add: surface_size_def viewport_size_def in_size_def content_point_def viewport_map_def
      content_size_def buffer_point_def scaled_def)

theorem damage_transform_covers_witness:
  "\<exists>R. apply_damage_rect_transform \<lparr>rx = 5, ry = 8, rwidth = 3, rheight = 1000\<rparr> 2 Item90 (Some (256, 512, 1024, 2048))
     (Some (16, 24)) 20 10 = Inr (Some R) \<and> nonempty_in R (20, 10) \<and> in_rect R (10, 5)"
proof -
  let ?w = "\<lparr>rx = 5, ry = 8, rwidth = 3, rheight = 1000\<rparr>"
  have w: "wlrect_ok ?w" by (simp add: wlrect_ok_def is_i32_def pos_i32_def I32_MIN_def I32_MAX_def)
  from damage_transform_covers [OF ex_att_ok(1) w, of 20 10] obtain r
    where r: "apply_damage_rect_transform ?w 2 Item90 (Some (256, 512, 1024, 2048)) (Some (16, 24)) 20 10 = Inr r"
      "\<forall>R. r = Some R \<longrightarrow> nonempty_in R (20, 10)"
      and p: "\<forall>p. in_wlrect ?w p \<and> in_size (surface_size ex_att) p \<and> in_size (content_size 2 Item90 (20, 10)) (content_point ex_att p) \<longrightarrow>
        (\<exists>R. r = Some R \<and> in_rect R (buffer_point ex_att p))"
    by (auto simp del: split_paired_All)
  have "in_wlrect ?w (6, 9)" by (simp add: in_wlrect_def)
  with p [rule_format, of "(6, 9)"] r show ?thesis using ex_att_point by auto
qed

text \<open>
  C7: no buffer damage is lost on the way to the surface. For valid attachment parameters with a
  scale that divides the buffer size, \<open>inverse_damage_rect_transform\<close> does not panic, its result is
  a valid rectangle, and every point of the surface that the attachment maps to a point of the buffer
  inside the damaged rectangle lies in it.
\<close>

theorem inverse_transform_covers:
  assumes "att_ok att" and "divisible att" and "wlrect_ok w" and "buffer_size att = (width, height)"
  shows "\<exists>r. inverse_damage_rect_transform w (att_scale att) (att_transform att) (viewport_src att) (viewport_dst att) width height = Inr r \<and>
    (\<forall>R. r = Some R \<longrightarrow> wlrect_ok R) \<and>
    (\<forall>p. in_wlrect w (buffer_point att p) \<and> in_size (width, height) (buffer_point att p) \<and> in_size (surface_size att) p \<longrightarrow>
       (\<exists>R. r = Some R \<and> in_wlrect R p))"
  using buffer_to_surface_covers [OF assms(1-3)] assms(4) by simp

theorem inverse_transform_covers_witness:
  "\<exists>R. inverse_damage_rect_transform \<lparr>rx = 9, ry = 4, rwidth = 3, rheight = 2\<rparr> 2 Item90 (Some (256, 512, 1024, 2048))
     (Some (16, 24)) 20 10 = Inr (Some R) \<and> wlrect_ok R \<and> in_wlrect R (6, 9)"
proof -
  let ?w = "\<lparr>rx = 9, ry = 4, rwidth = 3, rheight = 2\<rparr>"
  have w: "wlrect_ok ?w" by (simp add: wlrect_ok_def is_i32_def pos_i32_def I32_MIN_def I32_MAX_def)
  from inverse_transform_covers [OF ex_att_ok w, of 20 10] obtain r
    where r: "inverse_damage_rect_transform ?w 2 Item90 (Some (256, 512, 1024, 2048)) (Some (16, 24)) 20 10 = Inr r"
      "\<forall>R. r = Some R \<longrightarrow> wlrect_ok R"
      and p: "\<forall>p. in_wlrect ?w (buffer_point ex_att p) \<and> in_size (20, 10) (buffer_point ex_att p) \<and> in_size (surface_size ex_att) p \<longrightarrow>
        (\<exists>R. r = Some R \<and> in_wlrect R p)"
    by (auto simp del: split_paired_All)
  have "in_wlrect ?w (10, 5)" by (simp add: in_wlrect_def)
  with p [rule_format, of "(6, 9)"] r show ?thesis using ex_att_point by auto
qed

end
