(* ===== verification/Shm_Format.thy ===== *)
theory Shm_Format
  imports Waypipe_Prelude
begin

text \<open>
  Pixel formats: the enumeration \<open>WlShmFormat\<close> of \<open>src/wayland_gen.rs\<close> with its conversion from a
  format code, and \<open>fourcc\<close>, \<open>drm_to_wayland\<close> and \<open>get_shm_format_layout\<close> of \<open>src/util.rs\<close>, the
  table of plane layouts from which the memory touched by a damaged pixel is computed. Format codes
  are \<open>u32\<close>s, represented by naturals; the 123 enumerators by their names, and the arms of the
  \<open>match\<close> over them by a list with the names and the planes of each arm.
\<close>

section \<open>Format codes\<close>

type_synonym WlShmFormat = string

definition WlShmFormat_table :: "(nat \<times> WlShmFormat) list" where
  "WlShmFormat_table = [
    (0, ''Argb8888''), (1, ''Xrgb8888''), (0x20203843, ''C8''), (0x38424752, ''Rgb332''),
    (0x38524742, ''Bgr233''), (0x32315258, ''Xrgb4444''), (0x32314258, ''Xbgr4444''), (0x32315852, ''Rgbx4444''),
    (0x32315842, ''Bgrx4444''), (0x32315241, ''Argb4444''), (0x32314241, ''Abgr4444''), (0x32314152, ''Rgba4444''),
    (0x32314142, ''Bgra4444''), (0x35315258, ''Xrgb1555''), (0x35314258, ''Xbgr1555''), (0x35315852, ''Rgbx5551''),
    (0x35315842, ''Bgrx5551''), (0x35315241, ''Argb1555''), (0x35314241, ''Abgr1555''), (0x35314152, ''Rgba5551''),
    (0x35314142, ''Bgra5551''), (0x36314752, ''Rgb565''), (0x36314742, ''Bgr565''), (0x34324752, ''Rgb888''),
    (0x34324742, ''Bgr888''), (0x34324258, ''Xbgr8888''), (0x34325852, ''Rgbx8888''), (0x34325842, ''Bgrx8888''),
    (0x34324241, ''Abgr8888''), (0x34324152, ''Rgba8888''), (0x34324142, ''Bgra8888''), (0x30335258, ''Xrgb2101010''),
    (0x30334258, ''Xbgr2101010''), (0x30335852, ''Rgbx1010102''), (0x30335842, ''Bgrx1010102''), (0x30335241, ''Argb2101010''),
    (0x30334241, ''Abgr2101010''), (0x30334152, ''Rgba1010102''), (0x30334142, ''Bgra1010102''), (0x56595559, ''Yuyv''),
    (0x55595659, ''Yvyu''), (0x59565955, ''Uyvy''), (0x59555956, ''Vyuy''), (0x56555941, ''Ayuv''),
    (0x3231564e, ''Nv12''), (0x3132564e, ''Nv21''), (0x3631564e, ''Nv16''), (0x3136564e, ''Nv61''),
    (0x39565559, ''Yuv410''), (0x39555659, ''Yvu410''), (0x31315559, ''Yuv411''), (0x31315659, ''Yvu411''),
    (0x32315559, ''Yuv420''), (0x32315659, ''Yvu420''), (0x36315559, ''Yuv422''), (0x36315659, ''Yvu422''),
    (0x34325559, ''Yuv444''), (0x34325659, ''Yvu444''), (0x20203852, ''R8''), (0x20363152, ''R16''),
    (0x38384752, ''Rg88''), (0x38385247, ''Gr88''), (0x32334752, ''Rg1616''), (0x32335247, ''Gr1616''),
    (0x48345258, ''Xrgb16161616f''), (0x48344258, ''Xbgr16161616f''), (0x48345241, ''Argb16161616f''), (0x48344241, ''Abgr16161616f''),
    (0x56555958, ''Xyuv8888''), (0x34325556, ''Vuy888''), (0x30335556, ''Vuy101010''), (0x30313259, ''Y210''),
    (0x32313259, ''Y212''), (0x36313259, ''Y216''), (0x30313459, ''Y410''), (0x32313459, ''Y412''),
    (0x36313459, ''Y416''), (0x30335658, ''Xvyu2101010''), (0x36335658, ''Xvyu1216161616''), (0x38345658, ''Xvyu16161616''),
    (0x304c3059, ''Y0l0''), (0x304c3058, ''X0l0''), (0x324c3059, ''Y0l2''), (0x324c3058, ''X0l2''),
    (0x38305559, ''Yuv4208bit''), (0x30315559, ''Yuv42010bit''), (0x38415258, ''Xrgb8888A8''), (0x38414258, ''Xbgr8888A8''),
    (0x38415852, ''Rgbx8888A8''), (0x38415842, ''Bgrx8888A8''), (0x38413852, ''Rgb888A8''), (0x38413842, ''Bgr888A8''),
    (0x38413552, ''Rgb565A8''), (0x38413542, ''Bgr565A8''), (0x3432564e, ''Nv24''), (0x3234564e, ''Nv42''),
    (0x30313250, ''P210''), (0x30313050, ''P010''), (0x32313050, ''P012''), (0x36313050, ''P016''),
    (0x30314241, ''Axbxgxrx106106106106''), (0x3531564e, ''Nv15''), (0x30313451, ''Q410''), (0x31303451, ''Q401''),
    (0x38345258, ''Xrgb16161616''), (0x38344258, ''Xbgr16161616''), (0x38345241, ''Argb16161616''), (0x38344241, ''Abgr16161616''),
    (0x20203143, ''C1''), (0x20203243, ''C2''), (0x20203443, ''C4''), (0x20203144, ''D1''),
    (0x20203244, ''D2''), (0x20203444, ''D4''), (0x20203844, ''D8''), (0x20203152, ''R1''),
    (0x20203252, ''R2''), (0x20203452, ''R4''), (0x20303152, ''R10''), (0x20323152, ''R12''),
    (0x59555641, ''Avuy8888''), (0x59555658, ''Xvuy8888''), (0x30333050, ''P030'')]"

definition WlShmFormat_try_from :: "nat \<Rightarrow> WlShmFormat option" where
  "WlShmFormat_try_from v = map_of WlShmFormat_table v"

definition fourcc :: "char \<Rightarrow> char \<Rightarrow> char \<Rightarrow> char \<Rightarrow> nat" where
  "fourcc a b c d = unat (u32_from_le_bytes [of_char a, of_char b, of_char c, of_char d])"

definition drm_to_wayland :: "nat \<Rightarrow> nat" where
  "drm_to_wayland drm_format =
     (if drm_format = fourcc (CHR ''A'') (CHR ''R'') (CHR ''2'') (CHR ''4'') then 0
      else if drm_format = fourcc (CHR ''X'') (CHR ''R'') (CHR ''2'') (CHR ''4'') then 1
      else drm_format)"

section \<open>Plane layouts\<close>

record PlaneLayout =
  bpt :: nat
  hsub :: nat
  vsub :: nat
  htex :: nat
  vtex :: nat

record FormatLayout =
  planes :: "PlaneLayout list"

abbreviation plane :: "nat \<Rightarrow> nat \<Rightarrow> nat \<Rightarrow> nat \<Rightarrow> nat \<Rightarrow> PlaneLayout" where
  "plane b hs vs ht vt \<equiv> \<lparr>bpt = b, hsub = hs, vsub = vs, htex = ht, vtex = vt\<rparr>"

abbreviation SIMPLE_1 :: PlaneLayout where
  "SIMPLE_1 \<equiv> plane 1 1 1 1 1"

abbreviation SIMPLE_2 :: PlaneLayout where
  "SIMPLE_2 \<equiv> plane 2 1 1 1 1"

definition single_plane_arms :: "(WlShmFormat list \<times> PlaneLayout list option) list" where
  "single_plane_arms = [
     ([''R8'', ''C8'', ''D8'', ''Rgb332'', ''Bgr233''],
       Some [SIMPLE_1]),
     ([''Xrgb4444'', ''Xbgr4444'', ''Rgbx4444'', ''Bgrx4444'', ''Argb4444'', ''Abgr4444'', ''Rgba4444'',
       ''Bgra4444'', ''Xrgb1555'', ''Xbgr1555'', ''Rgbx5551'', ''Bgrx5551'', ''Argb1555'', ''Abgr1555'',
       ''Rgba5551'', ''Bgra5551'', ''Rgb565'', ''Bgr565'', ''R10'', ''R12'', ''R16'',
       ''Rg88'', ''Gr88''],
       Some [SIMPLE_2]),
     ([''Rgb888'', ''Bgr888'', ''Vuy888''],
       Some [plane 3 1 1 1 1]),
     ([''Argb8888'', ''Xrgb8888'', ''Xbgr8888'', ''Rgbx8888'', ''Bgrx8888'', ''Abgr8888'', ''Rgba8888'',
       ''Bgra8888'', ''Xrgb2101010'', ''Xbgr2101010'', ''Rgbx1010102'', ''Bgrx1010102'', ''Argb2101010'', ''Abgr2101010'',
       ''Rgba1010102'', ''Bgra1010102'', ''Ayuv'', ''Avuy8888'', ''Xvuy8888'', ''Xyuv8888'', ''Xvyu2101010'',
       ''Rg1616'', ''Gr1616'', ''Y410''],
       Some [plane 4 1 1 1 1]),
     ([''Xrgb16161616f'', ''Xbgr16161616f'', ''Argb16161616f'', ''Abgr16161616f'', ''Xrgb16161616'', ''Xbgr16161616'', ''Argb16161616'',
       ''Abgr16161616'', ''Axbxgxrx106106106106'', ''Xvyu1216161616'', ''Xvyu16161616'', ''Y412'', ''Y416''],
       Some [plane 8 1 1 1 1]),
     ([''R1'', ''C1'', ''D1''],
       Some [plane 1 8 1 8 1]),
     ([''R2'', ''C2'', ''D2''],
       Some [plane 1 4 1 4 1]),
     ([''R4'', ''C4'', ''D4''],
       Some [plane 1 2 1 2 1]),
     ([''Yuyv'', ''Yvyu'', ''Uyvy'', ''Vyuy''],
       Some [plane 4 2 1 2 1]),
     ([''Y210'', ''Y212'', ''Y216''],
       Some [plane 8 2 1 2 1]),
     ([''Y0l0'', ''X0l0'', ''Y0l2'', ''X0l2''],
       Some [plane 8 2 2 2 2])]"

definition two_plane_arms :: "(WlShmFormat list \<times> PlaneLayout list option) list" where
  "two_plane_arms = [
     ([''Rgb565A8'', ''Bgr565A8''],
       Some [SIMPLE_2, SIMPLE_1]),
     ([''Rgb888A8'', ''Bgr888A8''],
       Some [plane 3 1 1 1 1, SIMPLE_1]),
     ([''Xrgb8888A8'', ''Xbgr8888A8'', ''Rgbx8888A8'', ''Bgrx8888A8''],
       Some [plane 4 1 1 1 1, SIMPLE_1]),
     ([''Nv12'', ''Nv21''],
       Some [SIMPLE_1, plane 2 2 2 1 1]),
     ([''Nv16'', ''Nv61''],
       Some [SIMPLE_1, plane 2 2 1 1 1]),
     ([''Nv24'', ''Nv42''],
       Some [SIMPLE_1, SIMPLE_2]),
     ([''Nv15''],
       Some [plane 5 4 1 4 1, plane 5 4 2 2 1]),
     ([''P210'', ''P010'', ''P012'', ''P016''],
       Some [SIMPLE_2, plane 4 2 2 1 1]),
     ([''P030''],
       Some [plane 4 3 1 3 1, plane 8 6 2 3 1])]"

definition three_plane_arms :: "(WlShmFormat list \<times> PlaneLayout list option) list" where
  "three_plane_arms = [
     ([''Yuv410'', ''Yvu410''],
       Some [SIMPLE_1, plane 1 4 4 1 1, plane 1 4 4 1 1]),
     ([''Yuv411'', ''Yvu411''],
       Some [SIMPLE_1, plane 1 4 1 1 1, plane 1 4 1 1 1]),
     ([''Yuv420'', ''Yvu420''],
       Some [SIMPLE_1, plane 1 2 2 1 1, plane 1 2 2 1 1]),
     ([''Yuv422'', ''Yvu422''],
       Some [SIMPLE_1, plane 1 2 1 1 1, plane 1 2 1 1 1]),
     ([''Yuv444'', ''Yvu444''],
       Some [SIMPLE_1, SIMPLE_1, SIMPLE_1]),
     ([''Q401'', ''Q410''],
       Some [SIMPLE_2, SIMPLE_2, SIMPLE_2]),
     ([''Yuv4208bit'', ''Yuv42010bit'', ''Vuy101010''],
       None)]"

definition format_arms :: "(WlShmFormat list \<times> PlaneLayout list option) list" where
  "format_arms = single_plane_arms @ two_plane_arms @ three_plane_arms"

fun format_planes :: "(WlShmFormat list \<times> PlaneLayout list option) list \<Rightarrow> WlShmFormat \<Rightarrow> PlaneLayout list option" where
  "format_planes [] f = None"
| "format_planes ((fs, ps) # arms) f = (if f \<in> set fs then ps else format_planes arms f)"

definition get_shm_format_layout :: "nat \<Rightarrow> FormatLayout option" where
  "get_shm_format_layout format =
     (if format = fourcc (CHR ''N'') (CHR ''V'') (CHR ''2'') (CHR ''0'')
      then Some \<lparr>planes = [plane 5 4 1 4 1, plane 5 4 1 2 1]\<rparr>
      else if format = fourcc (CHR ''N'') (CHR ''V'') (CHR ''3'') (CHR ''0'')
      then Some \<lparr>planes = [plane 5 4 1 4 1, plane 5 2 1 2 1]\<rparr>
      else
        (case WlShmFormat_try_from (drm_to_wayland format) of
           None \<Rightarrow> None
         | Some f \<Rightarrow> map_option (\<lambda>ps. \<lparr>planes = ps\<rparr>) (format_planes format_arms f)))"

section \<open>Facts about the tables\<close>

definition plane_ok :: "PlaneLayout \<Rightarrow> bool" where
  "plane_ok p \<longleftrightarrow> 0 < bpt p \<and> bpt p \<le> 8 \<and> 0 < hsub p \<and> hsub p \<le> 8 \<and> 0 < vsub p \<and> 0 < htex p \<and> 0 < vtex p \<and>
     htex p dvd hsub p \<and> vtex p dvd vsub p"

definition planes_ok :: "PlaneLayout list \<Rightarrow> bool" where
  "planes_ok ps \<longleftrightarrow> ps \<noteq> [] \<and> length ps \<le> 3 \<and> list_all plane_ok ps \<and> hsub (hd ps) = htex (hd ps) \<and> vsub (hd ps) = vtex (hd ps)"

lemmas format_arms_defs = format_arms_def single_plane_arms_def two_plane_arms_def three_plane_arms_def

lemma fourcc_values:
  "fourcc (CHR ''A'') (CHR ''R'') (CHR ''2'') (CHR ''4'') = 0x34325241"
  "fourcc (CHR ''X'') (CHR ''R'') (CHR ''2'') (CHR ''4'') = 0x34325258"
  "fourcc (CHR ''N'') (CHR ''V'') (CHR ''2'') (CHR ''0'') = 0x3032564e"
  "fourcc (CHR ''N'') (CHR ''V'') (CHR ''3'') (CHR ''0'') = 0x3033564e"
  by (simp_all add: fourcc_def u32_from_le_bytes_def of_char_def)

lemma arms_planes_ok: "list_all (\<lambda>(fs, ps). case ps of None \<Rightarrow> True | Some ps \<Rightarrow> planes_ok ps) format_arms"
  by (simp add: format_arms_defs planes_ok_def plane_ok_def)

lemma format_planes_ok:
  "format_planes arms f = Some ps \<Longrightarrow> list_all (\<lambda>(fs, ps). case ps of None \<Rightarrow> True | Some ps \<Rightarrow> planes_ok ps) arms \<Longrightarrow>
   planes_ok ps"
  by (induction arms f rule: format_planes.induct) (auto split: if_splits)

lemma get_shm_format_layout_ok: "get_shm_format_layout fmt = Some l \<Longrightarrow> planes_ok (planes l)"
  by (auto simp: get_shm_format_layout_def split: if_splits option.splits dest: format_planes_ok [OF _ arms_planes_ok])
    (simp_all add: planes_ok_def plane_ok_def)

end
