(* ===== verification/Surface_Damage.thy ===== *)
theory Surface_Damage
  imports Util Surface_Transform Shm_Format
begin

text \<open>
  Damage of a buffer since it was last committed, \<open>src/tracking.rs\<close>: the memory extent of a shared
  memory buffer, the collection of the damage recorded in the history of a surface, and the byte
  intervals of a shared memory pool or of a linear view of a DMABUF that have to be compared with the
  mirror. The history of a surface is a list of batches whose entry 0 is the pending one.
\<close>

section \<open>Batches and shared memory buffers\<close>

record DamageBatch =
  attachment :: BufferAttachment
  damage :: "WlRect list"
  damage_buffer :: "WlRect list"

record ObjWlBufferShm =
  shm_width :: int
  shm_height :: int
  shm_format :: nat
  shm_offset :: int
  shm_stride :: int

definition bind_opt :: "'a option \<Rightarrow> ('a \<Rightarrow> 'b option res) \<Rightarrow> 'b option res" where
  "bind_opt x f = (case x of None \<Rightarrow> Ok None | Some v \<Rightarrow> f v)"

definition plane_extent ::
  "ObjWlBufferShm \<Rightarrow> PlaneLayout \<Rightarrow> nat \<Rightarrow> PlaneLayout \<Rightarrow> nat \<times> nat \<Rightarrow> (nat \<times> nat) option res" where
  "plane_extent buffer p0 ext_stride pl st =
     bind_opt (checked_mul ext_stride (bpt pl)) (\<lambda>m.
     rbind (u32_nat (bpt p0 * hsub pl)) (\<lambda>d.
       let plane_stride = div_ceil m d;
           plane_height = div_ceil (as_u64 (shm_height buffer)) (vsub pl) in
       bind_opt (checked_mul (as_u64 (shm_width buffer)) (bpt pl)) (\<lambda>r.
         let max_row_len = max (snd st) (div_ceil r (hsub pl)) in
         bind_opt (checked_mul plane_height plane_stride) (\<lambda>sz.
         bind_opt (checked_add (fst st) sz) (\<lambda>e. Ok (Some (e, max_row_len)))))))"

fun plane_extents ::
  "ObjWlBufferShm \<Rightarrow> PlaneLayout \<Rightarrow> nat \<Rightarrow> PlaneLayout list \<Rightarrow> nat \<times> nat \<Rightarrow> (nat \<times> nat) option res" where
  "plane_extents buffer p0 ext_stride [] st = Ok (Some st)"
| "plane_extents buffer p0 ext_stride (pl # pls) st =
     rbind (plane_extent buffer p0 ext_stride pl st) (\<lambda>r. bind_opt r (plane_extents buffer p0 ext_stride pls))"

definition extent_for_linear_buffer :: "ObjWlBufferShm \<Rightarrow> FormatLayout \<Rightarrow> (nat \<times> nat) option res" where
  "extent_for_linear_buffer buffer layout =
     rbind (assert_that (shm_offset buffer \<ge> 0)) (\<lambda>_.
       let start = nat (shm_offset buffer) in
     rbind (assert_that (shm_stride buffer \<ge> 0 \<and> shm_width buffer > 0 \<and> shm_height buffer > 0)) (\<lambda>_.
     rbind (assert_that (planes layout \<noteq> [])) (\<lambda>_.
       let p0 = hd (planes layout) in
     bind_opt (checked_mul (as_u64 (shm_stride buffer)) (hsub p0)) (\<lambda>ext_stride.
     rbind (plane_extents buffer p0 ext_stride (planes layout) (start, 0)) (\<lambda>r.
     bind_opt r (\<lambda>(e, max_row_len).
     bind_opt (checked_add start max_row_len) (\<lambda>m. Ok (Some (start, max e m)))))))))"

definition damage_for_entire_buffer :: "ObjWlBufferShm \<Rightarrow> (nat \<times> nat) res" where
  "damage_for_entire_buffer buffer =
     (let max_endpoint = 64 * (USIZE_MAX div 64); whole = (64 * (as_u64 (shm_offset buffer) div 64), max_endpoint) in
      case get_shm_format_layout (shm_format buffer) of
        Some layout \<Rightarrow>
          rbind (extent_for_linear_buffer buffer layout) (\<lambda>r.
            case r of
              Some (start, e) \<Rightarrow> rbind (align (min e max_endpoint) 64) (\<lambda>e'. Ok (64 * (start div 64), e'))
            | None \<Rightarrow> Ok whole)
      | None \<Rightarrow> Ok whole)"

section \<open>Damage since a buffer was last committed\<close>

fun collect_rects :: "('w \<Rightarrow> Rect option res) \<Rightarrow> 'w list \<Rightarrow> Rect list res" where
  "collect_rects f [] = Ok []"
| "collect_rects f (w # ws) =
     rbind (f w) (\<lambda>r. rbind (collect_rects f ws) (\<lambda>rs. Ok (case r of None \<Rightarrow> rs | Some r \<Rightarrow> r # rs)))"

definition buffer_to_current :: "BufferAttachment \<Rightarrow> BufferAttachment \<Rightarrow> WlRect \<Rightarrow> Rect option res" where
  "buffer_to_current att batch_att w =
     rbind (inverse_damage_rect_transform w (att_scale batch_att) (att_transform batch_att) (viewport_src batch_att)
       (viewport_dst batch_att) (fst (buffer_size batch_att)) (snd (buffer_size batch_att))) (\<lambda>s.
     case s of None \<Rightarrow> Ok None | Some s \<Rightarrow> surface_to_current att s)"

definition batch_rects :: "BufferAttachment \<Rightarrow> nat \<Rightarrow> DamageBatch \<Rightarrow> Rect list res" where
  "batch_rects att i batch =
     rbind
       (if i = 0
        then collect_rects (\<lambda>w. clip_wlrect_to_buffer w (fst (buffer_size att)) (snd (buffer_size att))) (damage_buffer batch)
        else collect_rects (buffer_to_current att (attachment batch)) (damage_buffer batch)) (\<lambda>rs.
     rbind (collect_rects (surface_to_current att) (damage batch)) (\<lambda>rs'. Ok (rs @ rs')))"

fun batches_rects :: "BufferAttachment \<Rightarrow> nat \<Rightarrow> DamageBatch list \<Rightarrow> Rect list res" where
  "batches_rects att i [] = Ok []"
| "batches_rects att i (b # bs) =
     rbind (batch_rects att i b) (\<lambda>rs. rbind (batches_rects att (Suc i) bs) (\<lambda>rs'. Ok (rs @ rs')))"

fun position :: "('a \<Rightarrow> bool) \<Rightarrow> 'a list \<Rightarrow> nat option" where
  "position p [] = None"
| "position p (x # xs) = (if p x then Some 0 else map_option Suc (position p xs))"

definition get_damage_rects :: "DamageBatch list \<Rightarrow> BufferAttachment \<Rightarrow> Rect list res" where
  "get_damage_rects damage_history att =
     (let (width, height) = buffer_size att in
      rbind (assert_that (width > 0 \<and> height > 0)) (\<lambda>_.
        let full_damage = \<lparr>x1 = 0, x2 = as_u32 width, y1 = 0, y2 = as_u32 height\<rparr> in
        case position (\<lambda>x. buffer_uid (attachment x) = buffer_uid att) (tl damage_history) of
          None \<Rightarrow> Ok [full_damage]
        | Some first_idx_offset \<Rightarrow>
            let first_idx = first_idx_offset + 1 in
            if attachment (damage_history ! first_idx) \<noteq> att then Ok [full_damage]
            else batches_rects att 0 (take first_idx damage_history)))"

definition get_damage_for_shm ::
  "((Rect \<Rightarrow> nat) \<Rightarrow> Rect list \<Rightarrow> Rect list) \<Rightarrow> ObjWlBufferShm \<Rightarrow> DamageBatch list \<Rightarrow> BufferAttachment \<Rightarrow>
   (nat \<times> nat) list res" where
  "get_damage_for_shm srt shm_info damage_history att =
     (case get_shm_format_layout (shm_format shm_info) of
        None \<Rightarrow> rbind (damage_for_entire_buffer shm_info) (\<lambda>d. Ok [d])
      | Some layout \<Rightarrow>
          (case planes layout of
             [p0] \<Rightarrow>
               if hsub p0 \<noteq> 1 \<or> vsub p0 \<noteq> 1 \<or> htex p0 \<noteq> 1 \<or> vtex p0 \<noteq> 1
               then rbind (damage_for_entire_buffer shm_info) (\<lambda>d. Ok [d])
               else
                 rbind (get_damage_rects damage_history att) (\<lambda>rects.
                 rbind (assert_that (shm_offset shm_info \<ge> 0 \<and> shm_stride shm_info \<ge> 0)) (\<lambda>_.
                   compute_damaged_segments srt
                     \<lparr>align_bits = 6, min_gap = 128, offset = nat (shm_offset shm_info),
                      stride = nat (shm_stride shm_info), bpp = bpt p0\<rparr> rects))
           | _ \<Rightarrow> rbind (damage_for_entire_buffer shm_info) (\<lambda>d. Ok [d])))"

definition get_damage_for_dmabuf ::
  "((Rect \<Rightarrow> nat) \<Rightarrow> Rect list \<Rightarrow> Rect list) \<Rightarrow> nat \<Rightarrow> nat \<Rightarrow> nat \<Rightarrow> nat option \<Rightarrow> DamageBatch list \<Rightarrow> BufferAttachment \<Rightarrow>
   (nat \<times> nat) list res" where
  "get_damage_for_dmabuf srt nom_len width drm_format view_row_stride damage_history att =
     rbind (assert_that (drm_format \<noteq> 1 \<and> drm_format \<noteq> 0)) (\<lambda>_.
       let whole = rbind (align nom_len 64) (\<lambda>e. Ok [(0, e)]) in
       case get_shm_format_layout (drm_to_wayland drm_format) of
         None \<Rightarrow> whole
       | Some layout \<Rightarrow>
           (case planes layout of
              [p0] \<Rightarrow>
                if hsub p0 \<noteq> 1 \<or> vsub p0 \<noteq> 1 \<or> htex p0 \<noteq> 1 \<or> vtex p0 \<noteq> 1 then whole
                else
                  rbind (get_damage_rects damage_history att) (\<lambda>rects.
                  rbind (u32_nat (width * bpt p0)) (\<lambda>packed.
                    compute_damaged_segments srt
                      \<lparr>align_bits = 6, min_gap = 128, offset = 0,
                       stride = (case view_row_stride of Some s \<Rightarrow> s | None \<Rightarrow> packed), bpp = bpt p0\<rparr> rects))
            | _ \<Rightarrow> whole))"

section \<open>What is damaged\<close>

definition pixel_at :: "nat \<Rightarrow> nat \<Rightarrow> point \<Rightarrow> bool" where
  "pixel_at px py q \<longleftrightarrow> real px < fst q \<and> fst q < real px + 1 \<and> real py < snd q \<and> snd q < real py + 1"

text \<open>
  A pixel of the current buffer is damaged by a rectangle of pending buffer damage that contains it; by
  surface damage of the pending or of an earlier batch, if a damaged point of the surface is shown at
  the pixel; and by buffer damage of an earlier batch, if a damaged point of the earlier buffer was
  shown at a point of the surface at which the pixel is now.
\<close>

definition batch_damages :: "BufferAttachment \<Rightarrow> bool \<Rightarrow> DamageBatch \<Rightarrow> nat \<Rightarrow> nat \<Rightarrow> bool" where
  "batch_damages att pending b px py \<longleftrightarrow>
     (\<exists>w\<in>set (damage b). \<exists>p. in_wlrect w p \<and> in_size (surface_size att) p \<and> pixel_at px py (buffer_point att p)) \<or>
     (if pending then \<exists>w\<in>set (damage_buffer b). \<exists>q. in_wlrect w q \<and> pixel_at px py q
      else \<exists>w\<in>set (damage_buffer b). \<exists>p. in_wlrect w (buffer_point (attachment b) p) \<and>
        in_size (buffer_size (attachment b)) (buffer_point (attachment b) p) \<and> in_size (surface_size (attachment b)) p \<and>
        in_size (surface_size att) p \<and> pixel_at px py (buffer_point att p))"

definition pixel_damaged :: "BufferAttachment \<Rightarrow> DamageBatch list \<Rightarrow> nat \<Rightarrow> nat \<Rightarrow> bool" where
  "pixel_damaged att batches px py \<longleftrightarrow> (\<exists>i<length batches. batch_damages att (i = 0) (batches ! i) px py)"

definition pixel_in :: "nat \<Rightarrow> nat \<Rightarrow> Rect list \<Rightarrow> bool" where
  "pixel_in px py rects \<longleftrightarrow> (\<exists>r\<in>set rects. x1 r \<le> px \<and> px < x2 r \<and> y1 r \<le> py \<and> py < y2 r)"

definition batch_ok :: "DamageBatch \<Rightarrow> bool" where
  "batch_ok b \<longleftrightarrow> list_all wlrect_ok (damage b) \<and> list_all wlrect_ok (damage_buffer b) \<and>
     (damage_buffer b = [] \<or> att_ok (attachment b) \<and> divisible (attachment b))"

section \<open>Collecting rectangles\<close>

lemma pixel_at_in_rect: "in_rect R q \<Longrightarrow> pixel_at px py q \<Longrightarrow> x1 R \<le> px \<and> px < x2 R \<and> y1 R \<le> py \<and> py < y2 R"
  unfolding in_rect_def pixel_at_def by linarith

lemma collect_rects_covers:
  assumes "\<forall>w\<in>set ws. \<exists>r. f w = Inr r \<and> (\<forall>R. r = Some R \<longrightarrow> P R) \<and> (\<forall>q. Q w q \<longrightarrow> (\<exists>R. r = Some R \<and> C R q))"
  shows "\<exists>rs. collect_rects f ws = Inr rs \<and> (\<forall>R\<in>set rs. P R) \<and> (\<forall>w\<in>set ws. \<forall>q. Q w q \<longrightarrow> (\<exists>R\<in>set rs. C R q))"
  using assms
proof (induction ws)
  case (Cons w ws)
  then obtain rs where rs: "collect_rects f ws = Inr rs" "\<forall>R\<in>set rs. P R" "\<forall>w\<in>set ws. \<forall>q. Q w q \<longrightarrow> (\<exists>R\<in>set rs. C R q)"
    by auto
  from Cons.prems obtain r where r: "f w = Inr r" "\<forall>R. r = Some R \<longrightarrow> P R" "\<forall>q. Q w q \<longrightarrow> (\<exists>R. r = Some R \<and> C R q)"
    by auto
  show ?case using rs r by (cases r) auto
qed simp

lemma content_point_inside:
  assumes "att_ok att" "divisible att" "in_size (buffer_size att) (buffer_point att p)"
  shows "in_size (content_size (att_scale att) (att_transform att) (buffer_size att)) (content_point att p)"
proof -
  obtain W H where sz: "buffer_size att = (W, H)" by force
  define s where "s = att_scale att"
  have s: "0 < s" using assms by (simp add: att_ok_def s_def)
  have e: "real_of_int (W div int s) * real s = real_of_int W" "real_of_int (H div int s) * real s = real_of_int H"
    using assms(2) by (auto simp: divisible_def sz s_def elim!: dvdE)
  have lt: "x < real_of_int (i div int s)" if "real s * x < real_of_int i" "real_of_int (i div int s) * real s = real_of_int i" for x i
    using that s by (metis mult.commute mult_less_cancel_right_pos of_nat_0_less_iff)
  have pos: "0 < x" if "0 < real s * x" for x using that s by (simp add: zero_less_mult_iff)
  show ?thesis
    using assms(3) e s
    by (cases "att_transform att")
      (auto simp: buffer_point_def in_size_def content_size_def scaled_def sz simp flip: s_def intro: pos lt)
qed

lemma buffer_to_current_covers:
  assumes "att_ok att" "divisible att" "att_ok batt" "divisible batt" "wlrect_ok w"
  shows "\<exists>r. buffer_to_current att batt w = Inr r \<and> (\<forall>R. r = Some R \<longrightarrow> nonempty_in R (buffer_size att)) \<and>
    (\<forall>p. in_wlrect w (buffer_point batt p) \<and> in_size (buffer_size batt) (buffer_point batt p) \<and> in_size (surface_size batt) p \<and>
         in_size (surface_size att) p \<and> in_size (buffer_size att) (buffer_point att p) \<longrightarrow>
       (\<exists>R. r = Some R \<and> in_rect R (buffer_point att p)))"
proof -
  from buffer_to_surface_covers [OF assms(3-5)] obtain r where r:
    "inverse_damage_rect_transform w (att_scale batt) (att_transform batt) (viewport_src batt) (viewport_dst batt)
       (fst (buffer_size batt)) (snd (buffer_size batt)) = Inr r" "\<forall>R. r = Some R \<longrightarrow> wlrect_ok R"
    "\<forall>p. in_wlrect w (buffer_point batt p) \<and> in_size (buffer_size batt) (buffer_point batt p) \<and> in_size (surface_size batt) p \<longrightarrow>
       (\<exists>R. r = Some R \<and> in_wlrect R p)" by (elim exE conjE)
  show ?thesis
  proof (cases r)
    case None
    then show ?thesis using r by (auto simp: buffer_to_current_def simp del: split_paired_All)
  next
    case (Some s)
    then have "wlrect_ok s" using r by simp
    from surface_to_current_covers [OF assms(1) this] obtain r' where "surface_to_current att s = Inr r'"
      "\<forall>R. r' = Some R \<longrightarrow> nonempty_in R (buffer_size att)"
      "\<forall>p. in_wlrect s p \<and> in_size (surface_size att) p \<and>
         in_size (content_size (att_scale att) (att_transform att) (buffer_size att)) (content_point att p) \<longrightarrow>
       (\<exists>R. r' = Some R \<and> in_rect R (buffer_point att p))" by (elim exE conjE)
    then show ?thesis using r Some content_point_inside [OF assms(1,2)]
      by (auto simp: buffer_to_current_def simp del: split_paired_All)
  qed
qed

lemma pixel_at_in_size:
  assumes "pixel_at px py q" "int px < fst sz" "int py < snd sz"
  shows "in_size sz q"
  using assms unfolding pixel_at_def in_size_def by linarith

lemma surface_damage_collected:
  assumes "att_ok att" "divisible att" "list_all wlrect_ok ws"
  shows "\<exists>rs. collect_rects (surface_to_current att) ws = Inr rs \<and> (\<forall>R\<in>set rs. nonempty_in R (buffer_size att)) \<and>
    (\<forall>w\<in>set ws. \<forall>p. in_wlrect w p \<and> in_size (surface_size att) p \<and> in_size (buffer_size att) (buffer_point att p) \<longrightarrow>
      (\<exists>R\<in>set rs. in_rect R (buffer_point att p)))"
proof (rule collect_rects_covers, intro ballI)
  fix w assume "w \<in> set ws"
  then have "wlrect_ok w" using assms(3) by (simp add: list_all_iff)
  from surface_to_current_covers [OF assms(1) this] content_point_inside [OF assms(1,2)]
  show "\<exists>r. surface_to_current att w = Inr r \<and> (\<forall>R. r = Some R \<longrightarrow> nonempty_in R (buffer_size att)) \<and>
    (\<forall>p. in_wlrect w p \<and> in_size (surface_size att) p \<and> in_size (buffer_size att) (buffer_point att p) \<longrightarrow>
      (\<exists>R. r = Some R \<and> in_rect R (buffer_point att p)))" by (elim exE conjE) blast
qed

lemma pending_damage_collected:
  assumes "att_ok att" "list_all wlrect_ok ws"
  shows "\<exists>rs. collect_rects (\<lambda>w. clip_wlrect_to_buffer w (fst (buffer_size att)) (snd (buffer_size att))) ws = Inr rs \<and>
    (\<forall>R\<in>set rs. nonempty_in R (buffer_size att)) \<and>
    (\<forall>w\<in>set ws. \<forall>q. in_wlrect w q \<and> in_size (buffer_size att) q \<longrightarrow> (\<exists>R\<in>set rs. in_rect R q))"
proof (rule collect_rects_covers, intro ballI)
  fix w assume "w \<in> set ws"
  then have "wlrect_ok w" using assms(2) by (simp add: list_all_iff)
  moreover have "size_ok (buffer_size att)" using assms(1) by (simp add: att_ok_def)
  ultimately show "\<exists>r. clip_wlrect_to_buffer w (fst (buffer_size att)) (snd (buffer_size att)) = Inr r \<and>
    (\<forall>R. r = Some R \<longrightarrow> nonempty_in R (buffer_size att)) \<and>
    (\<forall>q. in_wlrect w q \<and> in_size (buffer_size att) q \<longrightarrow> (\<exists>R. r = Some R \<and> in_rect R q))"
    by (rule clip_wlrect_covers)
qed

lemma buffer_damage_collected:
  assumes "att_ok att" "divisible att" "batch_ok b"
  shows "\<exists>rs. collect_rects (buffer_to_current att (attachment b)) (damage_buffer b) = Inr rs \<and>
    (\<forall>R\<in>set rs. nonempty_in R (buffer_size att)) \<and>
    (\<forall>w\<in>set (damage_buffer b). \<forall>p. in_wlrect w (buffer_point (attachment b) p) \<and>
        in_size (buffer_size (attachment b)) (buffer_point (attachment b) p) \<and> in_size (surface_size (attachment b)) p \<and>
        in_size (surface_size att) p \<and> in_size (buffer_size att) (buffer_point att p) \<longrightarrow>
      (\<exists>R\<in>set rs. in_rect R (buffer_point att p)))"
proof (rule collect_rects_covers, intro ballI)
  fix w assume "w \<in> set (damage_buffer b)"
  then have "wlrect_ok w" "att_ok (attachment b)" "divisible (attachment b)"
    using assms(3) by (auto simp: batch_ok_def list_all_iff)
  then show "\<exists>r. buffer_to_current att (attachment b) w = Inr r \<and> (\<forall>R. r = Some R \<longrightarrow> nonempty_in R (buffer_size att)) \<and>
    (\<forall>p. in_wlrect w (buffer_point (attachment b) p) \<and>
        in_size (buffer_size (attachment b)) (buffer_point (attachment b) p) \<and> in_size (surface_size (attachment b)) p \<and>
        in_size (surface_size att) p \<and> in_size (buffer_size att) (buffer_point att p) \<longrightarrow>
      (\<exists>R. r = Some R \<and> in_rect R (buffer_point att p)))"
    using buffer_to_current_covers [OF assms(1,2)] by blast
qed

lemma pixel_inI: "in_rect R q \<Longrightarrow> R \<in> set rs \<Longrightarrow> pixel_at px py q \<Longrightarrow> pixel_in px py rs"
  using pixel_at_in_rect unfolding pixel_in_def by blast

lemma pixel_in_append [simp]: "pixel_in px py (rs @ rs') \<longleftrightarrow> pixel_in px py rs \<or> pixel_in px py rs'"
  by (auto simp: pixel_in_def)

lemma batch_rects_covers:
  assumes att: "att_ok att" "divisible att"
    and b: "list_all wlrect_ok (damage b)" "list_all wlrect_ok (damage_buffer b)" "0 < i \<longrightarrow> batch_ok b"
  shows "\<exists>rs. batch_rects att i b = Inr rs \<and> (\<forall>R\<in>set rs. nonempty_in R (buffer_size att)) \<and>
    (\<forall>px py. batch_damages att (i = 0) b px py \<and> int px < fst (buffer_size att) \<and> int py < snd (buffer_size att) \<longrightarrow> pixel_in px py rs)"
proof -
  from surface_damage_collected [OF att b(1)] obtain rs where rs: "collect_rects (surface_to_current att) (damage b) = Inr rs"
      "\<forall>R\<in>set rs. nonempty_in R (buffer_size att)"
      "\<And>w p. w \<in> set (damage b) \<Longrightarrow> in_wlrect w p \<Longrightarrow> in_size (surface_size att) p \<Longrightarrow> in_size (buffer_size att) (buffer_point att p) \<Longrightarrow>
        \<exists>R\<in>set rs. in_rect R (buffer_point att p)" by blast
  have s: "pixel_in px py rs" if "w \<in> set (damage b)" "in_wlrect w p" "in_size (surface_size att) p" "pixel_at px py (buffer_point att p)"
      "int px < fst (buffer_size att)" "int py < snd (buffer_size att)" for w p px py
    using rs(3) [OF that(1-3) pixel_at_in_size [OF that(4-6)]] that(4) by (auto intro: pixel_inI)
  show ?thesis
  proof (cases "i = 0")
    case True
    from pending_damage_collected [OF att(1) b(2)] obtain rs' where
      rs': "collect_rects (\<lambda>w. clip_wlrect_to_buffer w (fst (buffer_size att)) (snd (buffer_size att))) (damage_buffer b) = Inr rs'"
      "\<forall>R\<in>set rs'. nonempty_in R (buffer_size att)"
      "\<And>w q. w \<in> set (damage_buffer b) \<Longrightarrow> in_wlrect w q \<Longrightarrow> in_size (buffer_size att) q \<Longrightarrow> \<exists>R\<in>set rs'. in_rect R q" by blast
    have "pixel_in px py rs'" if "w \<in> set (damage_buffer b)" "in_wlrect w q" "pixel_at px py q"
        "int px < fst (buffer_size att)" "int py < snd (buffer_size att)" for w q px py
      using rs'(3) [OF that(1,2) pixel_at_in_size [OF that(3-5)]] that(3) by (auto intro: pixel_inI)
    then show ?thesis using rs(1,2) rs'(1,2) s True unfolding batch_damages_def
      by (intro exI [of _ "rs' @ rs"]) (auto simp: batch_rects_def simp del: split_paired_Ex)
  next
    case False
    from buffer_damage_collected [OF att, of b] b(3) False obtain rs' where
      rs': "collect_rects (buffer_to_current att (attachment b)) (damage_buffer b) = Inr rs'"
      "\<forall>R\<in>set rs'. nonempty_in R (buffer_size att)"
      "\<And>w p. w \<in> set (damage_buffer b) \<Longrightarrow> in_wlrect w (buffer_point (attachment b) p) \<Longrightarrow>
        in_size (buffer_size (attachment b)) (buffer_point (attachment b) p) \<Longrightarrow> in_size (surface_size (attachment b)) p \<Longrightarrow>
        in_size (surface_size att) p \<Longrightarrow> in_size (buffer_size att) (buffer_point att p) \<Longrightarrow>
        \<exists>R\<in>set rs'. in_rect R (buffer_point att p)" by blast
    have "pixel_in px py rs'" if "w \<in> set (damage_buffer b)" "in_wlrect w (buffer_point (attachment b) p)"
        "in_size (buffer_size (attachment b)) (buffer_point (attachment b) p)" "in_size (surface_size (attachment b)) p"
        "in_size (surface_size att) p" "pixel_at px py (buffer_point att p)"
        "int px < fst (buffer_size att)" "int py < snd (buffer_size att)" for w p px py
      using rs'(3) [OF that(1-5) pixel_at_in_size [OF that(6-8)]] that(6) by (auto intro: pixel_inI)
    then show ?thesis using rs(1,2) rs'(1,2) s False unfolding batch_damages_def
      by (intro exI [of _ "rs' @ rs"]) (auto simp: batch_rects_def simp del: split_paired_Ex)
  qed
qed

lemma batches_rects_covers:
  assumes att: "att_ok att" "divisible att"
    and bs: "\<forall>j<length bs. list_all wlrect_ok (damage (bs ! j)) \<and> list_all wlrect_ok (damage_buffer (bs ! j)) \<and>
      (0 < i + j \<longrightarrow> batch_ok (bs ! j))"
  shows "\<exists>rs. batches_rects att i bs = Inr rs \<and> (\<forall>R\<in>set rs. nonempty_in R (buffer_size att)) \<and>
    (\<forall>j px py. j < length bs \<and> batch_damages att (i + j = 0) (bs ! j) px py \<and>
       int px < fst (buffer_size att) \<and> int py < snd (buffer_size att) \<longrightarrow> pixel_in px py rs)"
  using bs
proof (induction bs arbitrary: i)
  case (Cons b bs)
  from Cons.prems [rule_format, of 0]
  have "list_all wlrect_ok (damage b)" "list_all wlrect_ok (damage_buffer b)" "0 < i \<longrightarrow> batch_ok b" by simp_all
  from batch_rects_covers [OF att this] obtain rs where rs: "batch_rects att i b = Inr rs"
    "\<forall>R\<in>set rs. nonempty_in R (buffer_size att)"
    "\<forall>px py. batch_damages att (i = 0) b px py \<and> int px < fst (buffer_size att) \<and> int py < snd (buffer_size att) \<longrightarrow> pixel_in px py rs"
    by (elim exE conjE)
  have "\<forall>j<length bs. list_all wlrect_ok (damage (bs ! j)) \<and> list_all wlrect_ok (damage_buffer (bs ! j)) \<and>
      (0 < Suc i + j \<longrightarrow> batch_ok (bs ! j))" using Cons.prems by fastforce
  from Cons.IH [OF this] obtain rs' where rs': "batches_rects att (Suc i) bs = Inr rs'"
    "\<forall>R\<in>set rs'. nonempty_in R (buffer_size att)"
    "\<forall>j px py. j < length bs \<and> batch_damages att (Suc i + j = 0) (bs ! j) px py \<and>
       int px < fst (buffer_size att) \<and> int py < snd (buffer_size att) \<longrightarrow> pixel_in px py rs'"
    by (elim exE conjE)
  have "pixel_in px py (rs @ rs')" if "j < length (b # bs)" "batch_damages att (i + j = 0) ((b # bs) ! j) px py"
      "int px < fst (buffer_size att)" "int py < snd (buffer_size att)" for j px py
    using that rs(3) rs'(3) by (cases j) auto
  then show ?case using rs(1,2) rs'(1,2) by auto
qed simp

lemma position_Some: "position p xs = Some k \<Longrightarrow> k < length xs \<and> p (xs ! k) \<and> (\<forall>j<k. \<not> p (xs ! j))"
proof (induction xs arbitrary: k)
  case (Cons x xs)
  then show ?case by (cases k) (fastforce simp: less_Suc_eq_0_disj split: if_splits)+
qed simp

lemma position_None: "position p xs = None \<longleftrightarrow> (\<forall>x\<in>set xs. \<not> p x)"
  by (induction xs) auto

text \<open>
  What a history records of a buffer: its batches up to the last commit of the buffer with the same
  attachment, or nothing that can be relied on, and then all of the buffer counts as damaged.
\<close>

definition since_last :: "BufferAttachment \<Rightarrow> DamageBatch list \<Rightarrow> DamageBatch list option" where
  "since_last att history =
     (case position (\<lambda>x. buffer_uid (attachment x) = buffer_uid att) (tl history) of
        None \<Rightarrow> None
      | Some k \<Rightarrow> if attachment (history ! Suc k) = att then Some (take (Suc k) history) else None)"

definition needs_update :: "BufferAttachment \<Rightarrow> DamageBatch list \<Rightarrow> nat \<Rightarrow> nat \<Rightarrow> bool" where
  "needs_update att history px py \<longleftrightarrow> int px < fst (buffer_size att) \<and> int py < snd (buffer_size att) \<and>
     (case since_last att history of None \<Rightarrow> True | Some bs \<Rightarrow> pixel_damaged att bs px py)"

definition history_ok :: "DamageBatch list \<Rightarrow> bool" where
  "history_ok history \<longleftrightarrow> history \<noteq> [] \<and> list_all wlrect_ok (damage (hd history)) \<and> list_all wlrect_ok (damage_buffer (hd history)) \<and>
     list_all batch_ok (tl history)"

lemma history_ok_nth:
  assumes "history_ok history" "j < length history"
  shows "list_all wlrect_ok (damage (history ! j)) \<and> list_all wlrect_ok (damage_buffer (history ! j)) \<and> (0 < j \<longrightarrow> batch_ok (history ! j))"
  using assms by (cases history; cases j) (auto simp: history_ok_def batch_ok_def list_all_length)

lemma get_damage_rects_since:
  assumes "size_ok (buffer_size att)"
  shows "get_damage_rects history att =
    (case since_last att history of
       None \<Rightarrow> Inr [\<lparr>x1 = 0, x2 = nat (fst (buffer_size att)), y1 = 0, y2 = nat (snd (buffer_size att))\<rparr>]
     | Some bs \<Rightarrow> batches_rects att 0 bs)"
  using assms by (auto simp: get_damage_rects_def since_last_def size_ok_def pos_i32_def as_u32_ok split: option.splits prod.splits)

lemma get_damage_rects_covers:
  assumes att: "att_ok att" "divisible att" and h: "history_ok history"
  shows "\<exists>rs. get_damage_rects history att = Inr rs \<and> (\<forall>R\<in>set rs. nonempty_in R (buffer_size att)) \<and>
    (\<forall>px py. needs_update att history px py \<longrightarrow> pixel_in px py rs)"
proof (cases "since_last att history")
  case None
  have "size_ok (buffer_size att)" using att by (simp add: att_ok_def)
  then show ?thesis using None
    by (auto simp: get_damage_rects_since needs_update_def nonempty_in_def pixel_in_def size_ok_def pos_i32_def)
next
  case (Some bs)
  then have bs: "j < length bs \<Longrightarrow> j < length history \<and> bs ! j = history ! j" for j
    by (auto simp: since_last_def split: option.splits if_splits)
  have "size_ok (buffer_size att)" using att by (simp add: att_ok_def)
  moreover have "\<forall>j<length bs. list_all wlrect_ok (damage (bs ! j)) \<and> list_all wlrect_ok (damage_buffer (bs ! j)) \<and>
      (0 < 0 + j \<longrightarrow> batch_ok (bs ! j))" using bs history_ok_nth [OF h] by simp
  note batches_rects_covers [OF att this]
  ultimately show ?thesis using Some
    by (auto simp: get_damage_rects_since needs_update_def pixel_damaged_def)
qed

section \<open>Extent of a shared memory buffer\<close>

definition shm_ok :: "ObjWlBufferShm \<Rightarrow> bool" where
  "shm_ok b \<longleftrightarrow> pos_i32 (shm_width b) \<and> pos_i32 (shm_height b) \<and> 0 \<le> shm_offset b \<and> shm_offset b \<le> I32_MAX \<and>
     0 \<le> shm_stride b \<and> shm_stride b \<le> I32_MAX"

lemma bind_opt_simps [simp]: "bind_opt None f = Inr None" "bind_opt (Some v) f = f v"
  by (simp_all add: bind_opt_def)

lemma plane_extent_ok:
  assumes "shm_ok b" "plane_ok p0" "plane_ok pl"
  shows "\<exists>r. plane_extent b p0 es pl st = Inr r \<and>
    (\<forall>e m. r = Some (e, m) \<longrightarrow> fst st \<le> e \<and> e \<le> USIZE_MAX \<and> snd st \<le> m \<and> 0 < m \<and>
       e = fst st + div_ceil (nat (shm_height b)) (vsub pl) * div_ceil (es * bpt pl) (bpt p0 * hsub pl))"
proof -
  have "bpt p0 * hsub pl \<le> 8 * 8" using assms by (intro mult_mono) (auto simp: plane_ok_def)
  then have d: "u32_nat (bpt p0 * hsub pl) = Inr (bpt p0 * hsub pl)" by (simp add: U32_MAX_def)
  have h: "as_u64 (shm_height b) = nat (shm_height b)" "as_u64 (shm_width b) = nat (shm_width b)"
    using assms(1) by (simp_all add: shm_ok_def pos_i32_def as_u64_ok)
  have "0 < nat (shm_width b) * bpt pl" using assms by (simp add: shm_ok_def pos_i32_def plane_ok_def)
  then have "0 < div_ceil (nat (shm_width b) * bpt pl) (hsub pl)"
    using div_ceil_le_iff [of "hsub pl" "nat (shm_width b) * bpt pl" 0] assms(3) by (auto simp: plane_ok_def)
  then show ?thesis
    by (auto simp: plane_extent_def d h checked_mul_def checked_add_def bind_opt_def Let_def)
qed

lemma plane_extents_ok:
  assumes "shm_ok b" "plane_ok p0" "list_all plane_ok pls" "fst st \<le> USIZE_MAX"
  shows "\<exists>r. plane_extents b p0 es pls st = Inr r \<and>
    (\<forall>e m. r = Some (e, m) \<longrightarrow> e \<le> USIZE_MAX \<and> snd st \<le> m \<and> (pls = [] \<or> 0 < m) \<and>
       e = fst st + (\<Sum>pl\<leftarrow>pls. div_ceil (nat (shm_height b)) (vsub pl) * div_ceil (es * bpt pl) (bpt p0 * hsub pl)))"
  using assms(3,4)
proof (induction pls arbitrary: st)
  case (Cons pl pls)
  from plane_extent_ok [OF assms(1,2), of pl es st] Cons.prems obtain r where r: "plane_extent b p0 es pl st = Inr r"
    "\<forall>e m. r = Some (e, m) \<longrightarrow> fst st \<le> e \<and> e \<le> USIZE_MAX \<and> snd st \<le> m \<and> 0 < m \<and>
       e = fst st + div_ceil (nat (shm_height b)) (vsub pl) * div_ceil (es * bpt pl) (bpt p0 * hsub pl)" by auto
  show ?case
  proof (cases r)
    case None
    then show ?thesis using r by simp
  next
    case (Some em)
    obtain e m where em: "em = (e, m)" by force
    with r Some have e: "e \<le> USIZE_MAX" "snd st \<le> m" "0 < m"
      "e = fst st + div_ceil (nat (shm_height b)) (vsub pl) * div_ceil (es * bpt pl) (bpt p0 * hsub pl)" by auto
    from Cons.IH [of "(e, m)"] Cons.prems e(1) obtain r' where r': "plane_extents b p0 es pls (e, m) = Inr r'"
      "\<forall>e' m'. r' = Some (e', m') \<longrightarrow> e' \<le> USIZE_MAX \<and> m \<le> m' \<and>
         e' = e + (\<Sum>pl\<leftarrow>pls. div_ceil (nat (shm_height b)) (vsub pl) * div_ceil (es * bpt pl) (bpt p0 * hsub pl))" by auto
    then show ?thesis using r(1) Some em e by auto
  qed
qed auto

lemma extent_ok:
  assumes b: "shm_ok b" and l: "planes_ok (planes layout)"
  shows "\<exists>r. extent_for_linear_buffer b layout = Inr r \<and>
    (\<forall>s e. r = Some (s, e) \<longrightarrow> s = nat (shm_offset b) \<and> s < e \<and> e \<le> USIZE_MAX \<and>
       s + (\<Sum>pl\<leftarrow>planes layout. div_ceil (nat (shm_height b)) (vsub pl) *
          div_ceil (nat (shm_stride b) * hsub (hd (planes layout)) * bpt pl) (bpt (hd (planes layout)) * hsub pl)) \<le> e)"
proof -
  let ?p0 = "hd (planes layout)" and ?s = "nat (shm_offset b)"
  have ne: "planes layout \<noteq> []" and al: "list_all plane_ok (planes layout)" using l by (simp_all add: planes_ok_def)
  then have p0: "plane_ok ?p0" by (cases "planes layout") simp_all
  have s: "?s \<le> USIZE_MAX" using b by (auto simp: shm_ok_def I32_MAX_def USIZE_MAX_def)
  have u: "as_u64 (shm_stride b) = nat (shm_stride b)" using b by (simp add: shm_ok_def as_u64_ok)
  have pre: "shm_stride b \<ge> 0 \<and> shm_width b > 0 \<and> shm_height b > 0" "shm_offset b \<ge> 0"
    using b by (simp_all add: shm_ok_def pos_i32_def)
  from plane_extents_ok [OF b p0 al, of "(?s, 0)" "nat (shm_stride b) * hsub ?p0"] s obtain r
    where r: "plane_extents b ?p0 (nat (shm_stride b) * hsub ?p0) (planes layout) (?s, 0) = Inr r"
    "\<forall>e m. r = Some (e, m) \<longrightarrow> e \<le> USIZE_MAX \<and> (planes layout = [] \<or> 0 < m) \<and>
       e = ?s + (\<Sum>pl\<leftarrow>planes layout. div_ceil (nat (shm_height b)) (vsub pl) *
          div_ceil (nat (shm_stride b) * hsub ?p0 * bpt pl) (bpt ?p0 * hsub pl))" by auto
  show ?thesis
    using r pre ne s
    by (cases r) (auto simp: extent_for_linear_buffer_def u checked_mul_def checked_add_def bind_opt_def Let_def less_max_iff_disj)
qed

lemma align_upto_max:
  assumes "0 < y" and "x + y \<le> Suc USIZE_MAX"
  shows "align x y = Inr (next_multiple_of x y)"
proof -
  have "y * div_ceil x y \<le> USIZE_MAX"
    using next_multiple_of_less [of y x] assms by (simp add: next_multiple_of_def)
  with assms show ?thesis
    by (simp add: align_def checked_add_def next_multiple_of_def div_ceil_def)
qed

lemma damage_for_entire_buffer_ok:
  assumes b: "shm_ok b"
  shows "\<exists>lo hi. damage_for_entire_buffer b = Inr (lo, hi) \<and> 64 dvd lo \<and> 64 dvd hi \<and> lo < hi \<and> hi \<le> USIZE_MAX \<and>
    lo \<le> nat (shm_offset b) \<and>
    (case get_shm_format_layout (shm_format b) of
       Some layout \<Rightarrow> (case extent_for_linear_buffer b layout of Inr (Some (s, e)) \<Rightarrow> e \<le> hi \<or> USIZE_MAX < hi + 64
         | _ \<Rightarrow> USIZE_MAX < hi + 64)
     | None \<Rightarrow> USIZE_MAX < hi + 64)"
proof -
  define M where "M = 64 * (USIZE_MAX div 64)"
  have M: "M \<le> USIZE_MAX" "USIZE_MAX < M + 64" "64 dvd M" "M + 64 = 2 ^ 64" by (simp_all add: M_def USIZE_MAX_def)
  have u: "as_u64 (shm_offset b) = nat (shm_offset b)" using b by (simp add: shm_ok_def as_u64_ok)
  have o: "nat (shm_offset b) < M" using b by (auto simp: shm_ok_def I32_MAX_def M_def USIZE_MAX_def)
  have lo: "64 * (nat (shm_offset b) div 64) \<le> nat (shm_offset b)" by simp
  have whole: "64 * (nat (shm_offset b) div 64) < M" using lo o by linarith
  have al: "align (min e M) 64 = Inr (next_multiple_of (min e M) 64)" for e
    using M by (intro align_upto_max) (auto simp: USIZE_MAX_def min_def)
  have nm: "min e M \<le> next_multiple_of (min e M) 64" "next_multiple_of (min e M) 64 \<le> M" for e
    using M by (auto intro: next_multiple_of_ge next_multiple_of_le)
  show ?thesis
  proof (cases "get_shm_format_layout (shm_format b)")
    case None
    then show ?thesis using whole M lo by (simp add: damage_for_entire_buffer_def u flip: M_def)
  next
    case (Some layout)
    from extent_ok [OF b get_shm_format_layout_ok [OF Some]] obtain r where r: "extent_for_linear_buffer b layout = Inr r"
      "\<forall>s e. r = Some (s, e) \<longrightarrow> s = nat (shm_offset b) \<and> s < e" by auto
    show ?thesis
    proof (cases r)
      case None
      then show ?thesis using Some r whole M lo by (simp add: damage_for_entire_buffer_def u flip: M_def)
    next
      case (Some se)
      then obtain e where se: "se = (nat (shm_offset b), e)" "nat (shm_offset b) < e" using r by (cases se) auto
      define lo' hi where "lo' = 64 * (nat (shm_offset b) div 64)" and "hi = next_multiple_of (min e M) 64"
      have h: "min e M \<le> hi" "hi \<le> M" "64 dvd hi" "64 dvd lo'" "lo' \<le> nat (shm_offset b)"
        unfolding hi_def lo'_def by (rule nm(1), rule nm(2), rule dvd_next_multiple_of, rule dvd_triv_left, rule lo)
      have "damage_for_entire_buffer b = Inr (lo', hi)"
        using \<open>get_shm_format_layout _ = Some layout\<close> Some r(1) se(1) al [of e]
        by (simp add: damage_for_entire_buffer_def hi_def lo'_def flip: M_def)
      moreover have "lo' < min e M" unfolding min_less_iff_conj using h(5) se(2) o by linarith
      then have "lo' < hi" using h(1) by linarith
      moreover have "e \<le> hi \<or> USIZE_MAX < hi + 64" using h(1) M(2) unfolding min_le_iff_disj by linarith
      moreover have "hi \<le> USIZE_MAX" using h(2) M(1) by linarith
      ultimately show ?thesis using \<open>get_shm_format_layout _ = Some layout\<close> Some r(1) se h(3-5) by simp
    qed
  qed
qed

section \<open>Bytes of a shared memory buffer\<close>

definition simple_plane :: "ObjWlBufferShm \<Rightarrow> PlaneLayout option" where
  "simple_plane b =
     (case get_shm_format_layout (shm_format b) of
        Some layout \<Rightarrow>
          (case planes layout of
             [p0] \<Rightarrow> if hsub p0 = 1 \<and> vsub p0 = 1 \<and> htex p0 = 1 \<and> vtex p0 = 1 then Some p0 else None
           | _ \<Rightarrow> None)
      | None \<Rightarrow> None)"

definition buffer_end :: "ObjWlBufferShm \<Rightarrow> nat" where
  "buffer_end b =
     (let M = 64 * (USIZE_MAX div 64) in
      case get_shm_format_layout (shm_format b) of
        Some layout \<Rightarrow> (case extent_for_linear_buffer b layout of Inr (Some (s, e)) \<Rightarrow> min e M | _ \<Rightarrow> M)
      | None \<Rightarrow> M)"

text \<open>
  The bytes that a commit has to look at: those of every pixel that needs an update, if the format
  has one plane of whole pixels; otherwise all bytes of the buffer.
\<close>

definition byte_needs_update :: "ObjWlBufferShm \<Rightarrow> BufferAttachment \<Rightarrow> DamageBatch list \<Rightarrow> nat \<Rightarrow> bool" where
  "byte_needs_update b att history p \<longleftrightarrow>
     (case simple_plane b of
        Some p0 \<Rightarrow> \<exists>px py k. needs_update att history px py \<and> k < bpt p0 \<and>
          p = nat (shm_offset b) + py * nat (shm_stride b) + px * bpt p0 + k
      | None \<Rightarrow> nat (shm_offset b) \<le> p \<and> p < buffer_end b)"

lemma get_damage_for_shm_eq:
  "get_damage_for_shm srt b history att =
     (case simple_plane b of
        Some p0 \<Rightarrow>
          rbind (get_damage_rects history att) (\<lambda>rects.
          rbind (assert_that (shm_offset b \<ge> 0 \<and> shm_stride b \<ge> 0)) (\<lambda>_.
            compute_damaged_segments srt
              \<lparr>align_bits = 6, min_gap = 128, offset = nat (shm_offset b), stride = nat (shm_stride b), bpp = bpt p0\<rparr> rects))
      | None \<Rightarrow> rbind (damage_for_entire_buffer b) (\<lambda>d. Inr [d]))"
  by (auto simp: get_damage_for_shm_def simple_plane_def split: option.splits list.splits)

lemma simple_plane_ok: "simple_plane b = Some p0 \<Longrightarrow> 0 < bpt p0 \<and> bpt p0 \<le> 8"
  by (auto simp: simple_plane_def planes_ok_def plane_ok_def dest!: get_shm_format_layout_ok
      split: option.splits list.splits if_splits)

lemma entire_buffer_covers:
  assumes "shm_ok b"
  shows "\<exists>d. damage_for_entire_buffer b = Inr d \<and> validate_output [d] 6 128 = Inr () \<and> snd d \<le> USIZE_MAX \<and>
    (\<forall>p. nat (shm_offset b) \<le> p \<and> p < buffer_end b \<longrightarrow> covered p [d])"
proof -
  from damage_for_entire_buffer_ok [OF assms] obtain lo hi where d: "damage_for_entire_buffer b = Inr (lo, hi)"
    "64 dvd lo" "64 dvd hi" "lo < hi" "hi \<le> USIZE_MAX" "lo \<le> nat (shm_offset b)"
    "case get_shm_format_layout (shm_format b) of
       Some layout \<Rightarrow> (case extent_for_linear_buffer b layout of Inr (Some (s, e)) \<Rightarrow> e \<le> hi \<or> USIZE_MAX < hi + 64
         | _ \<Rightarrow> USIZE_MAX < hi + 64)
     | None \<Rightarrow> USIZE_MAX < hi + 64" by (elim exE conjE)
  have M: "64 * (USIZE_MAX div 64) \<le> hi" if "USIZE_MAX < hi + 64"
  proof -
    from d(3) obtain k where k: "hi = 64 * k" by (elim dvdE)
    then show ?thesis using that by (simp add: USIZE_MAX_def)
  qed
  have "buffer_end b \<le> hi"
    using d(7) M by (auto simp: buffer_end_def Let_def min_le_iff_disj split: option.splits sum.splits)
  then have "covered p [(lo, hi)]" if "nat (shm_offset b) \<le> p" "p < buffer_end b" for p
    using that d(6) by (auto simp: covered_def)
  moreover have "validate_output [(lo, hi)] 6 128 = Inr ()"
    using d(2-4) by (simp add: validate_output_def flip: dvd_eq_mod_eq_0)
  ultimately show ?thesis using d(1,5) by auto
qed

lemma shm_segments_cover:
  assumes srt: "sorts_by_key srt" and b: "shm_ok b" and p0: "simple_plane b = Some p0"
    and rs: "\<forall>R\<in>set rs. nonempty_in R (shm_width b, shm_height b)"
  shows "\<exists>out. compute_damaged_segments srt
      \<lparr>align_bits = 6, min_gap = 128, offset = nat (shm_offset b), stride = nat (shm_stride b), bpp = bpt p0\<rparr> rs = Inr out \<and>
    validate_output out 6 128 = Inr () \<and> (\<forall>(lo, hi)\<in>set out. hi \<le> USIZE_MAX) \<and>
    (\<forall>px py k. pixel_in px py rs \<and> k < bpt p0 \<longrightarrow>
      covered (nat (shm_offset b) + py * nat (shm_stride b) + px * bpt p0 + k) out)"
proof -
  define ly where "ly = \<lparr>align_bits = 6, min_gap = 128, offset = nat (shm_offset b), stride = nat (shm_stride b), bpp = bpt p0\<rparr>"
  define W H where "W = nat (shm_width b)" and "H = nat (shm_height b)"
  note bp = simple_plane_ok [OF p0]
  have sm: "nat (shm_offset b) < 2 ^ 31" "nat (shm_stride b) < 2 ^ 31" "W < 2 ^ 31" "H < 2 ^ 31"
    using b by (auto simp: shm_ok_def pos_i32_def I32_MAX_def W_def H_def)
  define B where "B = nat (shm_offset b) + H * nat (shm_stride b) + W * bpt p0"
  have "H * nat (shm_stride b) \<le> 2 ^ 62" using sm by (intro mult_le_i32)
  moreover have "W * bpt p0 \<le> 2 ^ 31 * 8" using sm bp by (intro mult_mono) auto
  ultimately have "B \<le> 2 ^ 31 + 2 ^ 62 + 2 ^ 31 * 8" using sm(1) unfolding B_def by linarith
  then have B: "B + 2 ^ align_bits ly \<le> USIZE_MAX" by (simp add: ly_def USIZE_MAX_def)
  have r: "\<forall>r\<in>set rs. x1 r < x2 r \<and> y1 r < y2 r \<and> y2 r \<le> U32_MAX \<and> offset ly + y2 r * stride ly + x2 r * bpp ly \<le> B"
  proof
    fix r assume "r \<in> set rs"
    then have n: "x1 r < x2 r" "y1 r < y2 r" "x2 r \<le> W" "y2 r \<le> H"
      using rs b by (auto simp: nonempty_in_def W_def H_def le_nat_iff shm_ok_def pos_i32_def)
    then have "y2 r * nat (shm_stride b) + x2 r * bpt p0 \<le> H * nat (shm_stride b) + W * bpt p0"
      by (intro add_mono mult_right_mono) auto
    then show "x1 r < x2 r \<and> y1 r < y2 r \<and> y2 r \<le> U32_MAX \<and> offset ly + y2 r * stride ly + x2 r * bpp ly \<le> B"
      using n sm(4) by (simp add: B_def ly_def U32_MAX_def)
  qed
  from compute_damaged_segments_covers [OF srt _ _ r B] bp obtain out where out: "compute_damaged_segments srt ly rs = Inr out"
    "validate_output out 6 128 = Inr ()" "\<forall>(lo, hi)\<in>set out. hi \<le> next_multiple_of B 64"
    "\<forall>r\<in>set rs. \<forall>y x k. y1 r \<le> y \<and> y < y2 r \<and> x1 r \<le> x \<and> x < x2 r \<and> k < bpt p0 \<longrightarrow>
      covered (nat (shm_offset b) + y * nat (shm_stride b) + x * bpt p0 + k) out"
    by (auto simp: ly_def)
  have "next_multiple_of B 64 \<le> USIZE_MAX" using next_multiple_of_less [of 64 B] B by (simp add: ly_def)
  then have "\<forall>(lo, hi)\<in>set out. hi \<le> USIZE_MAX" using out(3) by fastforce
  then show ?thesis using out(1,2,4) unfolding ly_def pixel_in_def by blast
qed

lemma get_damage_for_shm_rects:
  assumes "simple_plane b = Some p0" and "shm_ok b" and "get_damage_rects history att = Inr rs"
  shows "get_damage_for_shm srt b history att = compute_damaged_segments srt
      \<lparr>align_bits = 6, min_gap = 128, offset = nat (shm_offset b), stride = nat (shm_stride b), bpp = bpt p0\<rparr> rs"
  using assms by (simp add: get_damage_for_shm_eq shm_ok_def)

lemma get_damage_for_shm_covers:
  assumes srt: "sorts_by_key srt" and b: "shm_ok b" and att: "att_ok att" "divisible att" "buffer_size att = (shm_width b, shm_height b)"
    and h: "history_ok history"
  shows "\<exists>out. get_damage_for_shm srt b history att = Inr out \<and> validate_output out 6 128 = Inr () \<and>
    (\<forall>(lo, hi)\<in>set out. hi \<le> USIZE_MAX) \<and> (\<forall>p. byte_needs_update b att history p \<longrightarrow> covered p out)"
proof (cases "simple_plane b")
  case None
  from entire_buffer_covers [OF b] obtain d where "damage_for_entire_buffer b = Inr d" "validate_output [d] 6 128 = Inr ()"
    "snd d \<le> USIZE_MAX" "\<forall>p. nat (shm_offset b) \<le> p \<and> p < buffer_end b \<longrightarrow> covered p [d]" by (elim exE conjE)
  then show ?thesis using None by (auto simp: get_damage_for_shm_eq byte_needs_update_def)
next
  case (Some p0)
  from get_damage_rects_covers [OF att(1,2) h] obtain rs where rs: "get_damage_rects history att = Inr rs"
    "\<forall>R\<in>set rs. nonempty_in R (shm_width b, shm_height b)" "\<forall>px py. needs_update att history px py \<longrightarrow> pixel_in px py rs"
    by (auto simp: att(3))
  from shm_segments_cover [OF srt b Some rs(2), folded get_damage_for_shm_rects [OF Some b rs(1)]]
  show ?thesis using rs(3) Some unfolding byte_needs_update_def by fastforce
qed

section \<open>Properties\<close>

text \<open>
  C9: the damage of a shared memory buffer is complete. For a valid buffer, an attachment with a valid
  viewport and a scale that divides the buffer size, and a history of valid batches,
  \<open>get_damage_for_shm\<close> returns (whatever order the unstable sort leaves equal keys in) a list of
  64-aligned intervals at least 128 bytes apart, and every byte of every pixel that needs an update is
  in one of them. A pixel needs an update if it is damaged in a batch after the last commit of this
  buffer with this attachment, through any combination of viewport, scale and output transform, or if
  there is no such commit; for formats with several planes or subsampling all bytes count.
\<close>

theorem get_damage_for_shm_complete:
  assumes "sorts_by_key srt" and "shm_ok b" and "att_ok att" and "divisible att"
    and "buffer_size att = (shm_width b, shm_height b)" and "history_ok history"
  shows "\<exists>out. get_damage_for_shm srt b history att = Inr out \<and> validate_output out 6 128 = Inr () \<and>
    (\<forall>p. byte_needs_update b att history p \<longrightarrow> covered p out)"
  using get_damage_for_shm_covers [OF assms] by blast

definition ex_shm :: ObjWlBufferShm where
  "ex_shm = \<lparr>shm_width = 20, shm_height = 10, shm_format = 0, shm_offset = 64, shm_stride = 80\<rparr>"

definition ex_history :: "DamageBatch list" where
  "ex_history = [\<lparr>attachment = ex_att, damage = [\<lparr>rx = 5, ry = 8, rwidth = 3, rheight = 1000\<rparr>], damage_buffer = []\<rparr>,
     \<lparr>attachment = ex_att, damage = [], damage_buffer = []\<rparr>]"

lemma layout_Argb8888: "get_shm_format_layout 0 = Some \<lparr>planes = [plane 4 1 1 1 1]\<rparr>"
  by (simp add: get_shm_format_layout_def drm_to_wayland_def fourcc_values WlShmFormat_try_from_def WlShmFormat_table_def
      format_arms_defs)

theorem get_damage_for_shm_complete_witness:
  "\<exists>out. get_damage_for_shm sort_key ex_shm ex_history ex_att = Inr out \<and> validate_output out 6 128 = Inr () \<and>
     covered (64 + 4 * 80 + 10 * 4 + 3) out"
proof -
  have s: "sorts_by_key sort_key" by (simp add: sorts_by_key_def)
  have b: "shm_ok ex_shm" by (simp add: shm_ok_def ex_shm_def pos_i32_def I32_MAX_def)
  have sz: "buffer_size ex_att = (shm_width ex_shm, shm_height ex_shm)" by (simp add: ex_shm_def)
  have h: "history_ok ex_history"
    by (simp add: history_ok_def ex_history_def batch_ok_def wlrect_ok_def is_i32_def pos_i32_def I32_MIN_def I32_MAX_def)
  have sp: "simple_plane ex_shm = Some (plane 4 1 1 1 1)" by (simp add: simple_plane_def ex_shm_def layout_Argb8888)
  have "buffer_point ex_att (6.2, 9.2) = (10 + 2 / 15, 4.9)"
    by (simp add: surface_size_def viewport_size_def content_point_def viewport_map_def content_size_def buffer_point_def scaled_def)
  then have "pixel_at 10 4 (buffer_point ex_att (6.2, 9.2))" by (simp add: pixel_at_def)
  moreover have "in_wlrect \<lparr>rx = 5, ry = 8, rwidth = 3, rheight = 1000\<rparr> (6.2, 9.2)" by (simp add: in_wlrect_def)
  moreover have "in_size (surface_size ex_att) (6.2, 9.2)" by (simp add: surface_size_def viewport_size_def in_size_def)
  ultimately have "batch_damages ex_att True (ex_history ! 0) 10 4"
    by (auto simp: batch_damages_def ex_history_def)
  then have "needs_update ex_att ex_history 10 4"
    by (auto simp: needs_update_def since_last_def ex_history_def pixel_damaged_def)
  then have "byte_needs_update ex_shm ex_att ex_history (64 + 4 * 80 + 10 * 4 + 3)"
    unfolding byte_needs_update_def sp option.case by (intro exI [of _ 10] exI [of _ 4] exI [of _ 3]) (simp add: ex_shm_def)
  with get_damage_for_shm_complete [OF s b ex_att_ok sz h] show ?thesis by blast
qed

end
