(* ===== verification/Surface_Scale.thy ===== *)
theory Surface_Scale
  imports Surface_Damage
begin

text \<open>
  Any buffer scale. The commit handler in \<open>src/tracking.rs\<close> accepts every positive scale: one that does not
  divide the buffer size is only logged. This theory has what the damage functions do for all of them:
  if the scale is at most the buffer size they return well-formed intervals, whatever the scales of
  earlier commits were; if it is larger, a damaged rectangle shown through a viewport becomes an empty one,
  on which \<open>compute_damaged_segments\<close> panics.
\<close>

section \<open>Buffer to surface\<close>

lemma buffer_to_surface_valid:
  assumes att: "att_valid att" and w: "wlrect_ok w"
  shows "\<exists>r. inverse_damage_rect_transform w (att_scale att) (att_transform att) (viewport_src att) (viewport_dst att)
      (fst (buffer_size att)) (snd (buffer_size att)) = Inr r \<and> (\<forall>R. r = Some R \<longrightarrow> wlrect_ok R)"
proof -
  obtain W H where sz: "buffer_size att = (W, H)" by force
  define s t where "s = att_scale att" and "t = att_transform att"
  define ew eh where "ew = nat (if swap_xy t then H else W)" and "eh = nat (if swap_xy t then W else H)"
  have so: "size_ok (W, H)" "0 < s" "view_ok (viewport_src att) (viewport_dst att)" "0 < W" "W \<le> I32_MAX" "0 < H" "H \<le> I32_MAX"
    using att by (simp_all add: att_valid_def sz s_def size_ok_def pos_i32_def)
  from clip_wlrect_covers [OF w so(1)] obtain ob where ob: "clip_wlrect_to_buffer w W H = Inr ob"
    "\<forall>R. ob = Some R \<longrightarrow> nonempty_in R (W, H)" by auto
  note eq = inverse_damage_rect_transform_eq [OF so(1,2) w ob(1,2), of t "viewport_src att" "viewport_dst att", folded ew_def eh_def]
  show ?thesis
  proof (cases ob)
    case None
    then show ?thesis using eq by (simp add: sz s_def t_def)
  next
    case (Some b)
    have b: "x1 b < x2 b" "y1 b < y2 b" "x2 b \<le> (if swap_xy t then eh else ew)" "y2 b \<le> (if swap_xy t then ew else eh)"
      using ob(2) Some so by (auto simp: nonempty_in_def ew_def eh_def)
    have dc: "pos_i32 (int (div_ceil n s))" if "0 < n" "int n \<le> I32_MAX" for n
    proof -
      have "n * 1 \<le> n * s" using so(2) by (intro mult_left_mono) auto
      then have "div_ceil n s \<le> n" "0 < div_ceil n s"
        using so(2) that div_ceil_le_iff [of s n 0] by (simp_all add: div_ceil_le_iff mult.commute)
      then show ?thesis using that by (simp add: pos_i32_def)
    qed
    have "size_ok (int (div_ceil ew s), int (div_ceil eh s))"
      using so by (simp add: size_ok_def dc ew_def eh_def)
    from inverse_viewport_transform_covers [OF unturn_rect_in [OF b(1,2) so(2) b(3,4)] this so(3)]
    show ?thesis using eq Some by (auto simp: sz s_def t_def)
  qed
qed

section \<open>A scale that fits the buffer\<close>

text \<open>The batches that the handlers record: valid rectangles, and a valid attachment once committed.\<close>

definition batch_valid :: "DamageBatch \<Rightarrow> bool" where
  "batch_valid b \<longleftrightarrow> list_all wlrect_ok (damage b) \<and> list_all wlrect_ok (damage_buffer b) \<and>
     (damage_buffer b = [] \<or> att_valid (attachment b))"

definition history_valid :: "DamageBatch list \<Rightarrow> bool" where
  "history_valid history \<longleftrightarrow> history \<noteq> [] \<and> list_all wlrect_ok (damage (hd history)) \<and>
     list_all wlrect_ok (damage_buffer (hd history)) \<and> list_all batch_valid (tl history)"

lemma collect_rects_all:
  assumes "\<forall>w\<in>set ws. \<exists>r. f w = Inr r \<and> (\<forall>R. r = Some R \<longrightarrow> P R)"
  shows "\<exists>rs. collect_rects f ws = Inr rs \<and> (\<forall>R\<in>set rs. P R)"
  using collect_rects_covers [of ws f P "\<lambda>_ _. False" "\<lambda>_ _. True"] assms by auto

text \<open>What is needed of the map from the surface to the current buffer for all rectangles to have a property.\<close>

lemma batch_rects_all:
  assumes sz: "size_ok (buffer_size att)" and cur: "\<And>w. wlrect_ok w \<Longrightarrow> \<exists>r. surface_to_current att w = Inr r \<and> (\<forall>R. r = Some R \<longrightarrow> P R)"
    and ne: "\<And>R. nonempty_in R (buffer_size att) \<Longrightarrow> P R"
    and b: "list_all wlrect_ok (damage b)" "list_all wlrect_ok (damage_buffer b)" "0 < i \<longrightarrow> batch_valid b"
  shows "\<exists>rs. batch_rects att i b = Inr rs \<and> (\<forall>R\<in>set rs. P R) \<and>
    (\<forall>w\<in>set (damage b). \<forall>R. surface_to_current att w = Inr (Some R) \<longrightarrow> R \<in> set rs)"
proof -
  have s: "\<exists>rs. collect_rects (surface_to_current att) ws = Inr rs \<and> (\<forall>R\<in>set rs. P R) \<and>
      (\<forall>w\<in>set ws. \<forall>R. surface_to_current att w = Inr (Some R) \<longrightarrow> R \<in> set rs)" if "list_all wlrect_ok ws" for ws
  proof -
    have "\<forall>w\<in>set ws. \<exists>r. surface_to_current att w = Inr r \<and> (\<forall>R. r = Some R \<longrightarrow> P R) \<and>
        (\<forall>q. surface_to_current att w = Inr (Some q) \<longrightarrow> (\<exists>R. r = Some R \<and> q = R))"
      using cur that unfolding list_all_iff by fastforce
    from collect_rects_covers [OF this] show ?thesis by auto
  qed
  from s [OF b(1)] obtain rs where rs: "collect_rects (surface_to_current att) (damage b) = Inr rs" "\<forall>R\<in>set rs. P R"
    "\<forall>w\<in>set (damage b). \<forall>R. surface_to_current att w = Inr (Some R) \<longrightarrow> R \<in> set rs" by blast
  have "\<exists>rs'. (if i = 0 then collect_rects (\<lambda>w. clip_wlrect_to_buffer w (fst (buffer_size att)) (snd (buffer_size att))) (damage_buffer b)
      else collect_rects (buffer_to_current att (attachment b)) (damage_buffer b)) = Inr rs' \<and> (\<forall>R\<in>set rs'. P R)"
  proof (cases "i = 0")
    case True
    have "\<exists>r. clip_wlrect_to_buffer w (fst (buffer_size att)) (snd (buffer_size att)) = Inr r \<and> (\<forall>R. r = Some R \<longrightarrow> P R)"
      if "wlrect_ok w" for w
    proof -
      from clip_wlrect_covers [OF that sz] obtain r where "clip_wlrect_to_buffer w (fst (buffer_size att)) (snd (buffer_size att)) = Inr r"
        "\<forall>R. r = Some R \<longrightarrow> nonempty_in R (buffer_size att)" by (elim exE conjE)
      then show ?thesis using ne by auto
    qed
    then show ?thesis using True b(2) by (simp add: collect_rects_all list_all_iff)
  next
    case False
    have "\<exists>r. buffer_to_current att (attachment b) w = Inr r \<and> (\<forall>R. r = Some R \<longrightarrow> P R)" if "w \<in> set (damage_buffer b)" for w
    proof -
      have "wlrect_ok w" "att_valid (attachment b)" using b(2,3) False that by (auto simp: list_all_iff batch_valid_def)
      from buffer_to_surface_valid [OF this(2,1)] obtain r where "inverse_damage_rect_transform w (att_scale (attachment b))
          (att_transform (attachment b)) (viewport_src (attachment b)) (viewport_dst (attachment b))
          (fst (buffer_size (attachment b))) (snd (buffer_size (attachment b))) = Inr r" "\<forall>R. r = Some R \<longrightarrow> wlrect_ok R" by blast
      then show ?thesis using cur by (cases r) (simp_all add: buffer_to_current_def)
    qed
    then show ?thesis using False by (simp add: collect_rects_all)
  qed
  then show ?thesis using rs by (auto simp: batch_rects_def)
qed

lemma batches_rects_all:
  assumes sz: "size_ok (buffer_size att)" and cur: "\<And>w. wlrect_ok w \<Longrightarrow> \<exists>r. surface_to_current att w = Inr r \<and> (\<forall>R. r = Some R \<longrightarrow> P R)"
    and ne: "\<And>R. nonempty_in R (buffer_size att) \<Longrightarrow> P R"
    and bs: "\<forall>j<length bs. list_all wlrect_ok (damage (bs ! j)) \<and> list_all wlrect_ok (damage_buffer (bs ! j)) \<and>
      (0 < i + j \<longrightarrow> batch_valid (bs ! j))"
  shows "\<exists>rs. batches_rects att i bs = Inr rs \<and> (\<forall>R\<in>set rs. P R) \<and>
    (\<forall>b\<in>set bs. \<forall>w\<in>set (damage b). \<forall>R. surface_to_current att w = Inr (Some R) \<longrightarrow> R \<in> set rs)"
  using bs
proof (induction bs arbitrary: i)
  case (Cons b bs)
  from Cons.prems [rule_format, of 0]
  have b: "list_all wlrect_ok (damage b)" "list_all wlrect_ok (damage_buffer b)" "0 < i \<longrightarrow> batch_valid b" by simp_all
  have "\<forall>j<length bs. list_all wlrect_ok (damage (bs ! j)) \<and> list_all wlrect_ok (damage_buffer (bs ! j)) \<and>
      (0 < Suc i + j \<longrightarrow> batch_valid (bs ! j))" using Cons.prems by fastforce
  from Cons.IH [OF this] batch_rects_all [OF sz cur ne b] show ?case by fastforce
qed simp

lemma history_valid_nth:
  assumes "history_valid history" "j < length history"
  shows "list_all wlrect_ok (damage (history ! j)) \<and> list_all wlrect_ok (damage_buffer (history ! j)) \<and>
    (0 < j \<longrightarrow> batch_valid (history ! j))"
  using assms by (cases history; cases j) (auto simp: history_valid_def batch_valid_def list_all_length)

lemma get_damage_rects_all:
  assumes sz: "size_ok (buffer_size att)" and cur: "\<And>w. wlrect_ok w \<Longrightarrow> \<exists>r. surface_to_current att w = Inr r \<and> (\<forall>R. r = Some R \<longrightarrow> P R)"
    and ne: "\<And>R. nonempty_in R (buffer_size att) \<Longrightarrow> P R" and h: "history_valid history"
  shows "\<exists>rs. get_damage_rects history att = Inr rs \<and> (\<forall>R\<in>set rs. P R) \<and>
    (\<forall>bs. since_last att history = Some bs \<longrightarrow> (\<forall>b\<in>set bs. \<forall>w\<in>set (damage b). \<forall>R. surface_to_current att w = Inr (Some R) \<longrightarrow> R \<in> set rs))"
proof (cases "since_last att history")
  case None
  have "nonempty_in \<lparr>x1 = 0, x2 = nat (fst (buffer_size att)), y1 = 0, y2 = nat (snd (buffer_size att))\<rparr> (buffer_size att)"
    using sz by (auto simp: nonempty_in_def size_ok_def pos_i32_def)
  then show ?thesis using None sz ne by (simp add: get_damage_rects_since)
next
  case (Some bs)
  then have bs: "j < length bs \<Longrightarrow> j < length history \<and> bs ! j = history ! j" for j
    by (auto simp: since_last_def split: option.splits if_splits)
  have "\<forall>j<length bs. list_all wlrect_ok (damage (bs ! j)) \<and> list_all wlrect_ok (damage_buffer (bs ! j)) \<and>
      (0 < 0 + j \<longrightarrow> batch_valid (bs ! j))" using bs history_valid_nth [OF h] by simp
  from batches_rects_all [OF sz cur ne this] show ?thesis using Some sz by (simp add: get_damage_rects_since)
qed

lemma get_damage_for_shm_fits:
  assumes srt: "sorts_by_key srt" and b: "shm_ok b" and att: "att_ok att" "buffer_size att = (shm_width b, shm_height b)"
    and h: "history_valid history"
  shows "\<exists>out. get_damage_for_shm srt b history att = Inr out \<and> validate_output out 6 128 = Inr () \<and>
    (\<forall>(lo, hi)\<in>set out. hi \<le> USIZE_MAX)"
proof (cases "simple_plane b")
  case None
  then show ?thesis using entire_buffer_covers [OF b] by (auto simp: get_damage_for_shm_eq)
next
  case (Some p0)
  have "\<exists>r. surface_to_current att w = Inr r \<and> (\<forall>R. r = Some R \<longrightarrow> nonempty_in R (buffer_size att))" if "wlrect_ok w" for w
    using surface_to_current_covers [OF att(1) that] by (elim exE conjE) (intro exI conjI)
  note get_damage_rects_all [where P = "\<lambda>R. nonempty_in R (buffer_size att)" and att = att, OF _ this _ h]
  then obtain rs where rs: "get_damage_rects history att = Inr rs" "\<forall>R\<in>set rs. nonempty_in R (shm_width b, shm_height b)"
    using att by (auto simp: att_ok_def)
  from shm_segments_cover [OF srt b Some rs(2), folded get_damage_for_shm_rects [OF Some b rs(1)]]
  show ?thesis by blast
qed

section \<open>A scale larger than the buffer\<close>

text \<open>The viewport transform of a content of which one side is empty.\<close>

lemma scale_axis_zero:
  assumes "0 \<le> v" "v \<le> d" "pos_i32 d"
  shows "scale_floor v 0 d = Inr 0" "scale_ceil v 0 d = Inr 0"
  using assms by (simp_all add: scale_floor_def scale_ceil_def as_u64_ok pos_i32_def as_u64_def [of 0])

lemma scale_axis_weak:
  assumes "0 \<le> v" "v < w" "w \<le> d" "pos_i32 d" "0 \<le> b" "b \<le> I32_MAX"
  shows "\<exists>l h. scale_floor v b d = Inr l \<and> scale_ceil w b d = Inr h \<and> l \<le> h \<and> int h \<le> b"
proof (cases "b = 0")
  case True
  then show ?thesis using assms scale_axis_zero [of v d] scale_axis_zero [of w d] by simp
next
  case False
  then have b: "pos_i32 b" using assms by (simp add: pos_i32_def)
  have l: "nat v < nat w" "nat w \<le> nat d" "0 < nat b" "nat b < 2 ^ 31" "nat d < 2 ^ 31"
    using assms b by (auto simp: pos_i32_def I32_MAX_def)
  from scaled_floor_ceil(3,4) [OF l] scale_axis [OF assms(1-4) b] assms(5) show ?thesis by (auto simp: le_nat_iff)
qed

lemma viewport_size_weak:
  assumes "0 \<le> bw" "bw \<le> I32_MAX" "0 \<le> bh" "bh \<le> I32_MAX" "view_ok src dst"
  shows "size_ok (viewport_size (bw, bh) src dst) \<or> src = None \<and> dst = None \<and> viewport_size (bw, bh) src dst = (bw, bh)"
proof (cases "src = None \<and> dst = None")
  case True
  then show ?thesis by (simp add: viewport_size_def)
next
  case False
  then have "viewport_size (bw, bh) src dst = viewport_size (1, 1) src dst" by (auto simp: viewport_size_def split: option.splits)
  moreover have "size_ok (viewport_size (1, 1) src dst)"
    using viewport_size_ok [OF _ assms(5), of "(1, 1)"] by (simp add: size_ok_def pos_i32_def I32_MAX_def)
  ultimately show ?thesis by simp
qed

text \<open>A rectangle that has a part in common with the area from the origin to a size.\<close>

definition meets :: "WlRect \<Rightarrow> int \<times> int \<Rightarrow> bool" where
  "meets a sz \<longleftrightarrow> rx a < fst sz \<and> 0 < rx a + rwidth a \<and> ry a < snd sz \<and> 0 < ry a + rheight a"

lemma clipped_meets:
  assumes "is_i32 x" "0 < w" "0 < d" "d \<le> I32_MAX" "x < d" "0 < x + w"
  shows "max 0 (min x d) < max 0 (min (i32_saturating_add x w) d)"
  using assms sat_clamp [of x w d] by auto

lemma apply_viewport_transform_weak:
  assumes a: "wlrect_ok a" and b: "0 \<le> bw" "bw \<le> I32_MAX" "0 \<le> bh" "bh \<le> I32_MAX" and v: "view_ok src dst"
  shows "\<exists>r. apply_viewport_transform a (bw, bh) src dst = Inr r \<and> (\<forall>R. r = Some R \<longrightarrow> rect_in R (bw, bh)) \<and>
    (src = None \<and> (\<exists>sz. dst = Some sz \<and> meets a sz) \<longrightarrow> r \<noteq> None)"
proof -
  obtain dw dh where d: "viewport_size (bw, bh) src dst = (dw, dh)" by force
  have dp: "0 \<le> dw" "0 \<le> dh" "dw \<le> I32_MAX" "dh \<le> I32_MAX"
    using viewport_size_weak [OF b v] b d by (auto simp: size_ok_def pos_i32_def)
  have w: "is_i32 (rx a)" "is_i32 (ry a)" "0 \<le> rwidth a" "0 \<le> rheight a" using a by (simp_all add: wlrect_ok_def pos_i32_def)
  define u1 u2 where "u1 = max 0 (min (rx a) dw)" and "u2 = max 0 (min (i32_saturating_add (rx a) (rwidth a)) dw)"
  define v1 v2 where "v1 = max 0 (min (ry a) dh)" and "v2 = max 0 (min (i32_saturating_add (ry a) (rheight a)) dh)"
  have uv: "0 \<le> u1" "u2 \<le> dw" "0 \<le> v1" "v2 \<le> dh" using dp by (auto simp: u1_def u2_def v1_def v2_def)
  show ?thesis
  proof (cases "u2 \<le> u1 \<or> v2 \<le> v1")
    case True
    moreover have "\<not> meets a sz" if "src = None" "dst = Some sz" for sz
    proof -
      have "sz = (dw, dh)" "0 < dw" "0 < dh" using d that v by (auto simp: viewport_size_def view_ok_def size_ok_def pos_i32_def)
      then show ?thesis using True clipped_meets [of "rx a" "rwidth a" dw] clipped_meets [of "ry a" "rheight a" dh] a dp
        by (auto simp: meets_def wlrect_ok_def pos_i32_def u1_def u2_def v1_def v2_def)
    qed
    moreover have "apply_viewport_transform a (bw, bh) src dst = Inr None" using True w dp
      by (simp add: apply_viewport_transform_def d flip: u1_def u2_def v1_def v2_def)
    ultimately show ?thesis by blast
  next
    case False
    then have lt: "u1 < u2" "v1 < v2" and pos: "pos_i32 dw" "pos_i32 dh" using uv dp by (auto simp: pos_i32_def)
    show ?thesis
    proof (cases src)
      case None
      from scale_axis_weak [OF uv(1) lt(1) uv(2) pos(1) b(1,2)] scale_axis_weak [OF uv(3) lt(2) uv(4) pos(2) b(3,4)]
      obtain l h l' h' where "scale_floor u1 bw dw = Inr l" "scale_ceil u2 bw dw = Inr h" "l \<le> h" "int h \<le> bw"
        "scale_floor v1 bh dh = Inr l'" "scale_ceil v2 bh dh = Inr h'" "l' \<le> h'" "int h' \<le> bh" by blast
      then show ?thesis using w dp lt
        by (simp add: apply_viewport_transform_def None d [unfolded None] rect_in_def flip: u1_def u2_def v1_def v2_def)
    next
      case (Some s)
      obtain sx sy sw sh where s: "src = Some (sx, sy, sw, sh)" using Some by (cases s) auto
      have sp: "0 \<le> sx" "sx \<le> I32_MAX" "0 \<le> sy" "sy \<le> I32_MAX" "pos_i32 sw" "pos_i32 sh" "0 < sw" "0 < sh"
        using v by (simp_all add: view_ok_def pos_i32_def s)
      have u: "as_u32 bw = nat bw" "as_u32 bh = nat bh" using b by (simp_all add: as_u32_ok)
      define fx where "fx = min ((nat u1 * nat sw div nat dw + nat sx) div 256) (nat bw)"
      define cx where "cx = min (div_ceil (div_ceil (nat u2 * nat sw) (nat dw) + nat sx) 256) (nat bw)"
      define fy where "fy = min ((nat v1 * nat sh div nat dh + nat sy) div 256) (nat bh)"
      define cy where "cy = min (div_ceil (div_ceil (nat v2 * nat sh) (nat dh) + nat sy) 256) (nat bh)"
      have "apply_viewport_transform a (bw, bh) src dst =
          Inr (if fx \<ge> cx \<or> fy \<ge> cy then None else Some \<lparr>x1 = fx, x2 = cx, y1 = fy, y2 = cy\<rparr>)"
        using w dp lt sp source_axis [OF uv(1) lt(1) uv(2) pos(1) sp(5,1,2)] source_axis [OF uv(3) lt(2) uv(4) pos(2) sp(6,3,4)]
        by (simp add: apply_viewport_transform_def s d [unfolded s] u fx_def cx_def fy_def cy_def Let_def
            flip: u1_def u2_def v1_def v2_def)
      moreover have "cx \<le> nat bw" "cy \<le> nat bh" by (simp_all add: cx_def cy_def)
      ultimately show ?thesis using b(1,3) s by (simp add: rect_in_def le_nat_iff)
    qed
  qed
qed

lemma turn_rect_weak:
  assumes "x1 b \<le> x2 b" "y1 b \<le> y2 b" "x2 b * s \<le> ew" "y2 b * s \<le> eh"
  shows "rect_in (turn_rect s t ew eh b) (if swap_xy t then (int eh, int ew) else (int ew, int eh))"
    and "x1 b = x2 b \<or> y1 b = y2 b \<Longrightarrow> x1 (turn_rect s t ew eh b) = x2 (turn_rect s t ew eh b) \<or> y1 (turn_rect s t ew eh b) = y2 (turn_rect s t ew eh b)"
proof -
  define l h m n where "l = x1 b * s" and "h = x2 b * s" and "m = y1 b * s" and "n = y2 b * s"
  have "l \<le> h" "m \<le> n" "h \<le> ew" "n \<le> eh" using assms by (simp_all add: l_def h_def m_def n_def)
  then show "rect_in (turn_rect s t ew eh b) (if swap_xy t then (int eh, int ew) else (int ew, int eh))"
    by (cases t) (auto simp: turn_rect_def rect_in_def simp flip: l_def h_def m_def n_def)
  show "x1 b = x2 b \<or> y1 b = y2 b \<Longrightarrow> x1 (turn_rect s t ew eh b) = x2 (turn_rect s t ew eh b) \<or> y1 (turn_rect s t ew eh b) = y2 (turn_rect s t ew eh b)"
    by (cases t) (auto simp: turn_rect_def)
qed

lemma content_size_valid:
  assumes "att_valid att" and "content_size (att_scale att) (att_transform att) (buffer_size att) = (cw, ch)"
  shows "0 \<le> cw" "cw \<le> I32_MAX" "0 \<le> ch" "ch \<le> I32_MAX"
proof -
  have "0 \<le> i div int (att_scale att) \<and> i div int (att_scale att) \<le> I32_MAX" if "pos_i32 i" for i
    using that assms zdiv_mono2 [of i 1 "int (att_scale att)"] by (auto simp: att_valid_def pos_i32_def pos_imp_zdiv_nonneg_iff)
  then show "0 \<le> cw" "cw \<le> I32_MAX" "0 \<le> ch" "ch \<le> I32_MAX"
    using assms by (auto simp: att_valid_def size_ok_def content_size_def Let_def split: if_splits)
qed

definition oversized :: "BufferAttachment \<Rightarrow> bool" where
  "oversized att \<longleftrightarrow> fst (buffer_size att) < int (att_scale att) \<or> snd (buffer_size att) < int (att_scale att)"

lemma att_valid_cases: "att_valid att \<Longrightarrow> \<not> oversized att \<Longrightarrow> att_ok att"
  by (simp add: att_valid_def att_ok_def oversized_def)

lemma oversized_content:
  assumes "att_valid att" and "oversized att" and "rect_in b (content_size (att_scale att) (att_transform att) (buffer_size att))"
  shows "x1 b = x2 b \<or> y1 b = y2 b"
  using assms by (auto simp: oversized_def att_valid_def size_ok_def pos_i32_def content_size_def rect_in_def Let_def split: if_splits)

lemma surface_to_current_valid:
  assumes "att_valid att" "wlrect_ok w"
  shows "\<exists>r. surface_to_current att w = Inr r \<and> (\<forall>R. r = Some R \<longrightarrow> rect_in R (buffer_size att)) \<and>
    (oversized att \<longrightarrow> (\<forall>R. r = Some R \<longrightarrow> x1 R = x2 R \<or> y1 R = y2 R)) \<and>
    (viewport_src att = None \<and> (\<exists>sz. viewport_dst att = Some sz \<and> meets w sz) \<longrightarrow> r \<noteq> None)"
proof -
  let ?c = "content_size (att_scale att) (att_transform att) (buffer_size att)"
  obtain bw bh cw ch where sz: "buffer_size att = (bw, bh)" and c: "?c = (cw, ch)" by (metis surj_pair)
  have p: "0 < bw" "0 < bh" "view_ok (viewport_src att) (viewport_dst att)"
    using assms by (simp_all add: att_valid_def sz size_ok_def pos_i32_def)
  from apply_viewport_transform_weak [OF assms(2) content_size_valid [OF assms(1) c] p(3), folded c]
  obtain ob where ob: "apply_viewport_transform w ?c (viewport_src att) (viewport_dst att) = Inr ob"
      "\<forall>R. ob = Some R \<longrightarrow> rect_in R ?c"
      "viewport_src att = None \<and> (\<exists>sz. viewport_dst att = Some sz \<and> meets w sz) \<longrightarrow> ob \<noteq> None" by blast
  note eq = apply_damage_rect_transform_eq [OF assms(1) ob(1,2)]
  show ?thesis
  proof (cases ob)
    case None
    then show ?thesis using eq(1) ob(3) by simp
  next
    case (Some b)
    from eq(2) [OF Some, unfolded sz fst_conv snd_conv]
    have k: "x2 b * att_scale att \<le> nat (if swap_xy (att_transform att) then bh else bw)"
      "y2 b * att_scale att \<le> nat (if swap_xy (att_transform att) then bw else bh)" by blast+
    have n: "x1 b \<le> x2 b" "y1 b \<le> y2 b" using ob(2) Some by (simp_all add: rect_in_def)
    have "oversized att \<Longrightarrow> x1 b = x2 b \<or> y1 b = y2 b" using oversized_content [OF assms(1)] ob(2) Some by blast
    then show ?thesis using eq(1) turn_rect_weak [OF n k, of "att_transform att"] p Some
      by (cases "swap_xy (att_transform att)") (simp_all add: sz)
  qed
qed

text \<open>Whatever the scale, intervals that are returned at all are well formed.\<close>

lemma compute_damaged_segments_Inr:
  assumes "compute_damaged_segments srt ly rs = Inr out" and "R \<in> set rs"
  shows "x1 R < x2 R \<and> y1 R < y2 R"
  using assms by (auto simp: compute_damaged_segments_def res_simps assert_that_def list_all_iff split: if_splits)

lemma surface_to_current_in:
  "att_valid att \<Longrightarrow> wlrect_ok w \<Longrightarrow> \<exists>r. surface_to_current att w = Inr r \<and> (\<forall>R. r = Some R \<longrightarrow> rect_in R (buffer_size att))"
  using surface_to_current_valid by blast

lemma get_damage_for_shm_valid:
  assumes srt: "sorts_by_key srt" and b: "shm_ok b" and att: "att_valid att" "buffer_size att = (shm_width b, shm_height b)"
    and h: "history_valid history" and res: "get_damage_for_shm srt b history att = Inr out"
  shows "validate_output out 6 128 = Inr () \<and> (\<forall>(lo, hi)\<in>set out. hi \<le> USIZE_MAX)"
proof (cases "simple_plane b")
  case None
  then show ?thesis using entire_buffer_covers [OF b] res by (auto simp: get_damage_for_shm_eq)
next
  case (Some p0)
  have "size_ok (buffer_size att)" using att(1) by (simp add: att_valid_def)
  from get_damage_rects_all [OF this surface_to_current_in [OF att(1)] _ h] obtain rs
    where rs: "get_damage_rects history att = Inr rs" "\<forall>R\<in>set rs. rect_in R (buffer_size att)"
    by (auto simp: nonempty_in_rect_in)
  note eq = get_damage_for_shm_rects [OF Some b rs(1), of srt]
  have "\<forall>R\<in>set rs. nonempty_in R (shm_width b, shm_height b)"
    using rs(2) compute_damaged_segments_Inr [OF res [unfolded eq]] by (simp add: nonempty_in_rect_in att(2))
  from shm_segments_cover [OF srt b Some this, folded eq] show ?thesis using res by auto
qed

text \<open>
  A buffer with a scale larger than itself, shown through a viewport with a destination and without a
  source: any surface damage inside the destination since the last commit is a panic.
\<close>

lemma get_damage_for_shm_oversized:
  assumes b: "shm_ok b" "simple_plane b \<noteq> None" and att: "att_valid att" "oversized att" and h: "history_valid history"
    and v: "viewport_src att = None" "viewport_dst att = Some sz"
    and d: "since_last att history = Some bs" "t \<in> set bs" "w \<in> set (damage t)" "meets w sz"
  shows "get_damage_for_shm srt b history att = Inl Panic"
proof -
  obtain p0 where p0: "simple_plane b = Some p0" using b(2) by auto
  have "size_ok (buffer_size att)" using att(1) by (simp add: att_valid_def)
  from get_damage_rects_all [OF this surface_to_current_in [OF att(1)] _ h] obtain rs
    where rs: "get_damage_rects history att = Inr rs"
      "\<And>R. surface_to_current att w = Inr (Some R) \<Longrightarrow> R \<in> set rs"
    using d by (auto simp: nonempty_in_rect_in)
  have "wlrect_ok w"
  proof -
    obtain j where "j < length history" "t = history ! j"
      using d(1,2) by (auto simp: since_last_def in_set_conv_nth split: option.splits if_splits)
    then show ?thesis using history_valid_nth [OF h] d(3) by (simp add: list_all_iff)
  qed
  from surface_to_current_valid [OF att(1) this] v d(4) att(2) obtain R where "surface_to_current att w = Inr (Some R)"
    "x1 R = x2 R \<or> y1 R = y2 R" by auto
  then have "\<not> list_all (\<lambda>r. x1 r < x2 r \<and> y1 r < y2 r) rs" "rs \<noteq> []"
    using rs(2) [of R] unfolding list_all_iff by (metis less_irrefl, force)
  then show ?thesis using get_damage_for_shm_rects [OF p0 b(1) rs(1), of srt] simple_plane_ok [OF p0]
    by (simp add: compute_damaged_segments_def assert_that_def)
qed

end
