(* ===== verification/Surface_State.thy ===== *)
theory Surface_State
  imports Surface_Scale
begin

text \<open>
  Surfaces, viewports and shared memory buffers as the request handlers of \<open>process_way_msg\<close> in
  \<open>src/tracking.rs\<close> change them, on the application side. A handler is modelled after its message is
  parsed and before the message is copied to the other side; it takes the object tables and returns
  the updated ones or the error that ends the connection. Shadow file descriptors are shared by
  reference in the code, and are here entries of a table under their remote id.
\<close>

section \<open>State\<close>

record ObjWlSurface =
  attached_buffer_id :: "nat option"
  damage_history :: "DamageBatch list"
  acquire_pt :: "(nat \<times> nat) option"
  release_pt :: "(nat \<times> nat) option"
  viewport_id :: "nat option"

record ObjWlBuffer =
  buf_sfd :: nat
  shm_info :: "ObjWlBufferShm option"
  unique_id :: nat

datatype WpExtra =
    ExtraNone
  | WlSurface ObjWlSurface
  | WlBuffer ObjWlBuffer
  | WlShmPool nat
  | WpViewport "nat option"

datatype Damage = Everything | Intervals "(nat \<times> nat) list"

record ShadowFdFile =
  file_size :: nat
  file_damage :: Damage

record ShadowFdDmabuf =
  dm_nom_len :: nat
  dm_width :: nat
  dm_height :: nat
  dm_format :: nat
  dm_row_stride :: "nat option"
  dm_damage :: Damage
  using_implicit_sync :: bool
  acquires :: "(nat \<times> nat) list"
  releases :: "nat \<times> nat \<Rightarrow> nat option"

datatype ShadowFdVariant =
    File ShadowFdFile
  | Pipe
  | Dmabuf ShadowFdDmabuf
  | Timeline "(nat \<times> nat) list"

record Globals =
  objects :: "nat \<Rightarrow> WpExtra option"
  sfds :: "nat \<Rightarrow> ShadowFdVariant option"
  max_buffer_uid :: nat

section \<open>Handlers\<close>

definition insert_new_object :: "Globals \<Rightarrow> nat \<Rightarrow> WpExtra \<Rightarrow> Globals res" where
  "insert_new_object glob oid obj =
     (if objects glob oid \<noteq> None then fail ''object with same id already exists''
      else Ok (glob\<lparr>objects := (objects glob)(oid \<mapsto> obj)\<rparr>))"

definition delete_id :: "Globals \<Rightarrow> nat \<Rightarrow> Globals res" where
  "delete_id glob oid =
     (if oid = 1 then fail ''Tried to delete wl_display object''
      else Ok (glob\<lparr>objects := (objects glob)(oid := None)\<rparr>))"

definition get_surface :: "Globals \<Rightarrow> nat \<Rightarrow> ObjWlSurface res" where
  "get_surface glob oid =
     (case objects glob oid of
        None \<Rightarrow> panic
      | Some (WlSurface s) \<Rightarrow> Ok s
      | Some _ \<Rightarrow> fail ''Surface object has invalid extra type'')"

definition put_surface :: "Globals \<Rightarrow> nat \<Rightarrow> ObjWlSurface \<Rightarrow> Globals" where
  "put_surface glob oid s = glob\<lparr>objects := (objects glob)(oid \<mapsto> WlSurface s)\<rparr>"

definition upd_pending :: "(DamageBatch \<Rightarrow> DamageBatch) \<Rightarrow> ObjWlSurface \<Rightarrow> ObjWlSurface" where
  "upd_pending f s = s\<lparr>damage_history := (damage_history s)[0 := f (damage_history s ! 0)]\<rparr>"

definition initial_attachment :: BufferAttachment where
  "initial_attachment = \<lparr>att_scale = 1, att_transform = Normal, viewport_src = None, viewport_dst = None,
     buffer_uid = 0, buffer_size = (0, 0)\<rparr>"

definition create_surface :: "Globals \<Rightarrow> nat \<Rightarrow> Globals res" where
  "create_surface glob surf_id =
     (let d = \<lparr>attachment = initial_attachment, damage = [], damage_buffer = []\<rparr> in
      insert_new_object glob surf_id
        (WlSurface \<lparr>attached_buffer_id = None, damage_history = [d, d, d, d, d, d, d],
           acquire_pt = None, release_pt = None, viewport_id = None\<rparr>))"

definition surface_destroy :: "Globals \<Rightarrow> nat \<Rightarrow> Globals res" where
  "surface_destroy glob oid =
     rbind (get_surface glob oid) (\<lambda>surf.
       let tmp = viewport_id surf; glob = put_surface glob oid (surf\<lparr>viewport_id := None\<rparr>) in
       case tmp of
         None \<Rightarrow> Ok glob
       | Some vp_id \<Rightarrow>
           (case objects glob vp_id of
              None \<Rightarrow> Ok glob
            | Some (WpViewport v) \<Rightarrow> Ok (glob\<lparr>objects := (objects glob)(vp_id \<mapsto> WpViewport None)\<rparr>)
            | Some _ \<Rightarrow> fail ''Viewport object has invalid extra type''))"

definition surface_attach :: "Globals \<Rightarrow> nat \<Rightarrow> nat \<Rightarrow> Globals res" where
  "surface_attach glob oid buf_id =
     (case objects glob oid of
        None \<Rightarrow> fail ''Attaching to nonexistant object''
      | Some (WlSurface x) \<Rightarrow>
          Ok (put_surface glob oid (x\<lparr>attached_buffer_id := if buf_id \<noteq> 0 then Some buf_id else None\<rparr>))
      | Some _ \<Rightarrow> fail ''Surface object has invalid extra type'')"

definition set_buffer_scale :: "Globals \<Rightarrow> nat \<Rightarrow> int \<Rightarrow> Globals res" where
  "set_buffer_scale glob oid s =
     (if s \<le> 0 then fail ''wl_surface.set_buffer_scale used nonpositive scale''
      else
        rbind (get_surface glob oid) (\<lambda>surf.
          Ok (put_surface glob oid
            (upd_pending (\<lambda>b. b\<lparr>attachment := (attachment b)\<lparr>att_scale := as_u32 s\<rparr>\<rparr>) surf))))"

definition transform_try_from :: "nat \<Rightarrow> WlOutputTransform option" where
  "transform_try_from v =
     map_of [(0, Normal), (1, Item90), (2, Item180), (3, Item270), (4, Flipped), (5, Flipped90), (6, Flipped180), (7, Flipped270)] v"

definition set_buffer_transform :: "Globals \<Rightarrow> nat \<Rightarrow> int \<Rightarrow> Globals res" where
  "set_buffer_transform glob oid t =
     rbind (get_surface glob oid) (\<lambda>surf.
       if t < 0 then fail ''Buffer transform value should be nonnegative''
       else
         rbind (ok_or (transform_try_from (as_u32 t)) (Err ''Not a valid transform type'')) (\<lambda>tr.
           Ok (put_surface glob oid
             (upd_pending (\<lambda>b. b\<lparr>attachment := (attachment b)\<lparr>att_transform := tr\<rparr>\<rparr>) surf))))"

definition surface_damage :: "Globals \<Rightarrow> nat \<Rightarrow> WlRect \<Rightarrow> Globals res" where
  "surface_damage glob oid r =
     rbind (get_surface glob oid) (\<lambda>surf.
       if rwidth r \<le> 0 \<or> rheight r \<le> 0 then Ok glob
       else Ok (put_surface glob oid (upd_pending (\<lambda>b. b\<lparr>damage := damage b @ [r]\<rparr>) surf)))"

definition surface_damage_buffer :: "Globals \<Rightarrow> nat \<Rightarrow> WlRect \<Rightarrow> Globals res" where
  "surface_damage_buffer glob oid r =
     rbind (get_surface glob oid) (\<lambda>surf.
       if rwidth r \<le> 0 \<or> rheight r \<le> 0 then Ok glob
       else Ok (put_surface glob oid (upd_pending (\<lambda>b. b\<lparr>damage_buffer := damage_buffer b @ [r]\<rparr>) surf)))"

definition get_viewport :: "Globals \<Rightarrow> nat \<Rightarrow> nat \<Rightarrow> Globals res" where
  "get_viewport glob new_id surface = insert_new_object glob new_id (WpViewport (Some surface))"

definition with_viewport :: "Globals \<Rightarrow> nat \<Rightarrow> (nat option \<Rightarrow> Globals res) \<Rightarrow> Globals res" where
  "with_viewport glob oid f =
     (case objects glob oid of
        None \<Rightarrow> panic
      | Some (WpViewport v) \<Rightarrow> f v
      | Some _ \<Rightarrow> fail ''Viewport object has invalid extra type'')"

definition upd_viewport_surface :: "Globals \<Rightarrow> nat option \<Rightarrow> (ObjWlSurface \<Rightarrow> ObjWlSurface) \<Rightarrow> Globals res" where
  "upd_viewport_surface glob v f =
     (case v of
        None \<Rightarrow> Ok glob
      | Some surf_id \<Rightarrow>
          (case objects glob surf_id of
             None \<Rightarrow> Ok glob
           | Some _ \<Rightarrow> rbind (get_surface glob surf_id) (\<lambda>s. Ok (put_surface glob surf_id (f s)))))"

definition viewport_destroy :: "Globals \<Rightarrow> nat \<Rightarrow> Globals res" where
  "viewport_destroy glob oid =
     with_viewport glob oid (\<lambda>v.
       upd_viewport_surface (glob\<lparr>objects := (objects glob)(oid \<mapsto> WpViewport None)\<rparr>) v
         (\<lambda>s. (upd_pending (\<lambda>b. b\<lparr>attachment := (attachment b)\<lparr>viewport_src := None, viewport_dst := None\<rparr>\<rparr>) s)
            \<lparr>viewport_id := None\<rparr>))"

definition set_destination :: "Globals \<Rightarrow> nat \<Rightarrow> int \<Rightarrow> int \<Rightarrow> Globals res" where
  "set_destination glob oid w h =
     rbind (if w = - 1 \<and> h = - 1 then Ok None
            else if w \<le> 0 \<or> h \<le> 0 then fail ''invalid wp_viewport destination''
            else Ok (Some (w, h))) (\<lambda>destination.
     with_viewport glob oid (\<lambda>v.
       upd_viewport_surface glob v
         (upd_pending (\<lambda>b. b\<lparr>attachment := (attachment b)\<lparr>viewport_dst := destination\<rparr>\<rparr>))))"

definition set_source :: "Globals \<Rightarrow> nat \<Rightarrow> int \<Rightarrow> int \<Rightarrow> int \<Rightarrow> int \<Rightarrow> Globals res" where
  "set_source glob oid x y w h =
     rbind (if x = - 256 \<and> y = - 256 \<and> w = - 256 \<and> h = - 256 then Ok None
            else if x < 0 \<or> y < 0 \<or> w \<le> 0 \<or> h \<le> 0 then fail ''invalid wp_viewport source''
            else Ok (Some (x, y, w, h))) (\<lambda>source.
     with_viewport glob oid (\<lambda>v.
       upd_viewport_surface glob v
         (upd_pending (\<lambda>b. b\<lparr>attachment := (attachment b)\<lparr>viewport_src := source\<rparr>\<rparr>))))"

definition create_buffer ::
  "Globals \<Rightarrow> nat \<Rightarrow> nat \<Rightarrow> int \<Rightarrow> int \<Rightarrow> int \<Rightarrow> int \<Rightarrow> nat \<Rightarrow> Globals res" where
  "create_buffer glob pool_id buffer_id off width height strd format =
     (if width \<le> 0 \<or> height \<le> 0 then fail ''wl_shm buffer width, height should be positive''
      else if off < 0 then fail ''wl_shm buffer offsets must be nonnegative''
      else if strd < 0 then fail ''wl_shm stride should be nonnegative''
      else
        let info = \<lparr>shm_width = max width 0, shm_height = max height 0, shm_format = format, shm_offset = off, shm_stride = strd\<rparr> in
        (case objects glob pool_id of
           Some (WlShmPool sfd) \<Rightarrow>
             (case sfds glob sfd of
                Some (File f) \<Rightarrow>
                  rbind
                    (case get_shm_format_layout format of
                       Some layout \<Rightarrow>
                         rbind (extent_for_linear_buffer info layout) (\<lambda>ext.
                           Ok (case ext of Some (s, e) \<Rightarrow> file_size f < e | None \<Rightarrow> True))
                     | None \<Rightarrow> Ok False) (\<lambda>too_small.
                  if too_small then fail ''wl_shm_pool is too small to contain provided wl_buffer''
                  else
                    rbind (insert_new_object glob buffer_id
                      (WlBuffer \<lparr>buf_sfd = sfd, shm_info = Some info, unique_id = max_buffer_uid glob\<rparr>)) (\<lambda>glob.
                    rbind (usize_add (max_buffer_uid glob) 1) (\<lambda>u. Ok (glob\<lparr>max_buffer_uid := u\<rparr>))))
              | _ \<Rightarrow> panic)
         | _ \<Rightarrow> fail ''wl_shm_pool object has invalid extra type''))"

section \<open>Commit\<close>

definition swap_entries :: "nat \<Rightarrow> nat \<Rightarrow> 'a list \<Rightarrow> 'a list" where
  "swap_entries i j xs = xs[i := xs ! j, j := xs ! i]"

definition rotate_history :: "DamageBatch list \<Rightarrow> DamageBatch \<Rightarrow> DamageBatch list" where
  "rotate_history h fresh =
     swap_entries 0 1 (swap_entries 1 2 (swap_entries 2 3 (swap_entries 3 4 (swap_entries 4 5 (swap_entries 5 6 (h[6 := fresh]))))))"

definition check_rem :: "int \<Rightarrow> int \<Rightarrow> unit res" where
  "check_rem a b = assert_that (b \<noteq> 0 \<and> \<not> (a = I32_MIN \<and> b = - 1))"

definition union_into :: "Damage \<Rightarrow> (nat \<times> nat) list res \<Rightarrow> Damage res" where
  "union_into d new =
     (case d of
        Everything \<Rightarrow> Ok Everything
      | Intervals old \<Rightarrow> rbind new (\<lambda>dmg. rbind (union_damage old dmg 128) (\<lambda>u. Ok (Intervals u))))"

definition commit_points ::
  "(nat \<times> nat) option \<Rightarrow> (nat \<times> nat) option \<Rightarrow> nat \<Rightarrow> ShadowFdDmabuf \<Rightarrow> (nat \<Rightarrow> ShadowFdVariant option) \<Rightarrow>
   (nat \<Rightarrow> ShadowFdVariant option) res" where
  "commit_points acq_pt rel_pt sfd y store =
     (let y = (if acq_pt = None then y\<lparr>using_implicit_sync := True\<rparr> else y);
          y = (case acq_pt of Some a \<Rightarrow> y\<lparr>acquires := acquires y @ [a]\<rparr> | None \<Rightarrow> y) in
      case rel_pt of
        None \<Rightarrow> Ok (store(sfd \<mapsto> Dmabuf y))
      | Some (pt, timeline) \<Rightarrow>
          (case store timeline of
             Some (Timeline rels) \<Rightarrow>
               Ok (store(timeline \<mapsto> Timeline (rels @ [(pt, sfd)]),
                        sfd \<mapsto> Dmabuf (y\<lparr>releases := (releases y)((timeline, pt) \<mapsto> timeline)\<rparr>)))
           | _ \<Rightarrow> panic))"

definition buffer_dims :: "(nat \<Rightarrow> ShadowFdVariant option) \<Rightarrow> ObjWlBuffer \<Rightarrow> (int \<times> int) res" where
  "buffer_dims store buf_data =
     (case store (buf_sfd buf_data) of
        Some (File f) \<Rightarrow>
          (case shm_info buf_data of
             None \<Rightarrow> fail ''Expected shm info for wl_buffer with File-type ShadowFd''
           | Some si \<Rightarrow> Ok (shm_width si, shm_height si))
      | Some (Dmabuf y) \<Rightarrow>
          rbind (assert_that (int (dm_width y) \<le> I32_MAX \<and> int (dm_height y) \<le> I32_MAX)) (\<lambda>_.
            Ok (int (dm_width y), int (dm_height y)))
      | _ \<Rightarrow> fail ''Expected buffer shadowfd to be of file type'')"

definition commit_buffer ::
  "((Rect \<Rightarrow> nat) \<Rightarrow> Rect list \<Rightarrow> Rect list) \<Rightarrow> (nat \<Rightarrow> ShadowFdVariant option) \<Rightarrow> ObjWlSurface \<Rightarrow>
   (nat \<times> nat) option \<Rightarrow> (nat \<times> nat) option \<Rightarrow> ObjWlBuffer \<Rightarrow>
   (BufferAttachment \<times> (nat \<Rightarrow> ShadowFdVariant option)) res" where
  "commit_buffer srt store x acq_pt rel_pt buf_data =
     rbind (buffer_dims store buf_data) (\<lambda>size.
       let cur = (attachment (damage_history x ! 0))\<lparr>buffer_uid := unique_id buf_data, buffer_size := size\<rparr> in
     rbind (check_rem (fst size) (as_i32 (att_scale cur))) (\<lambda>_.
     rbind (if as_i32 (att_scale cur) dvd fst size then check_rem (snd size) (as_i32 (att_scale cur)) else Ok ()) (\<lambda>_.
       case store (buf_sfd buf_data) of
         Some (File f) \<Rightarrow>
           (case shm_info buf_data of
              None \<Rightarrow> panic
            | Some si \<Rightarrow>
                rbind (union_into (file_damage f) (get_damage_for_shm srt si (damage_history x) cur)) (\<lambda>d.
                  Ok (cur, store(buf_sfd buf_data \<mapsto> File (f\<lparr>file_damage := d\<rparr>)))))
       | Some (Dmabuf y) \<Rightarrow>
           rbind (union_into (dm_damage y)
             (get_damage_for_dmabuf srt (dm_nom_len y) (dm_width y) (dm_format y) (dm_row_stride y) (damage_history x) cur)) (\<lambda>d.
           rbind (commit_points acq_pt rel_pt (buf_sfd buf_data) (y\<lparr>dm_damage := d\<rparr>) store) (\<lambda>store'. Ok (cur, store')))
       | _ \<Rightarrow> panic)))"

definition committed_history :: "DamageBatch list \<Rightarrow> BufferAttachment \<Rightarrow> DamageBatch list" where
  "committed_history h cur =
     rotate_history (h[0 := (h ! 0)\<lparr>attachment := cur\<rparr>]) \<lparr>attachment = cur, damage = [], damage_buffer = []\<rparr>"

definition wiped_history :: "BufferAttachment \<Rightarrow> DamageBatch list" where
  "wiped_history cur =
     replicate 7 \<lparr>attachment = cur\<lparr>buffer_uid := 0, buffer_size := (0, 0)\<rparr>, damage = [], damage_buffer = []\<rparr>"

definition surface_commit ::
  "((Rect \<Rightarrow> nat) \<Rightarrow> Rect list \<Rightarrow> Rect list) \<Rightarrow> Globals \<Rightarrow> nat \<Rightarrow> Globals res" where
  "surface_commit srt glob oid =
     rbind (get_surface glob oid) (\<lambda>x.
       if (acquire_pt x \<noteq> None) \<noteq> (release_pt x \<noteq> None) then fail ''Acquire/release points must both be set''
       else
         let acq_pt = acquire_pt x; rel_pt = release_pt x; x = x\<lparr>acquire_pt := None, release_pt := None\<rparr>;
             wiped = Ok (put_surface glob oid (x\<lparr>damage_history := wiped_history (attachment (damage_history x ! 0))\<rparr>)) in
         case attached_buffer_id x of
           None \<Rightarrow> wiped
         | Some buf_id \<Rightarrow>
             (case (if buf_id = oid then Some (WlSurface x) else objects glob buf_id) of
                Some (WlBuffer buf_data) \<Rightarrow>
                  rbind (commit_buffer srt (sfds glob) x acq_pt rel_pt buf_data) (\<lambda>(cur, store).
                    Ok (put_surface (glob\<lparr>sfds := store\<rparr>) oid
                      (x\<lparr>damage_history := committed_history (damage_history x) cur\<rparr>)))
              | _ \<Rightarrow> wiped))"

section \<open>Reachable states\<close>

text \<open>
  The log of a surface is the unbounded list of the batches committed since the surface last had no
  buffer, the latest first. It is not part of the program: the history of the surface is a window of
  six entries of it.
\<close>

type_synonym logs = "nat \<Rightarrow> DamageBatch list"

definition commit_target :: "Globals \<Rightarrow> nat \<Rightarrow> ObjWlBuffer option" where
  "commit_target g i =
     (case objects g i of
        Some (WlSurface x) \<Rightarrow>
          (case attached_buffer_id x of
             Some b \<Rightarrow> (case objects g b of Some (WlBuffer bd) \<Rightarrow> Some bd | _ \<Rightarrow> None)
           | None \<Rightarrow> None)
      | _ \<Rightarrow> None)"

definition current_attachment :: "ObjWlSurface \<Rightarrow> ObjWlBuffer \<Rightarrow> int \<times> int \<Rightarrow> BufferAttachment" where
  "current_attachment x bd dims = (attachment (damage_history x ! 0))\<lparr>buffer_uid := unique_id bd, buffer_size := dims\<rparr>"

fun damage_ok :: "Damage \<Rightarrow> bool" where
  "damage_ok Everything = True"
| "damage_ok (Intervals l) = (validate_output l 6 128 = Inr () \<and> list_all (\<lambda>(lo, hi). hi \<le> USIZE_MAX) l)"

fun damage_covers :: "Damage \<Rightarrow> nat \<Rightarrow> bool" where
  "damage_covers Everything p = True"
| "damage_covers (Intervals l) p = covered p l"

fun sfd_ok :: "ShadowFdVariant \<Rightarrow> bool" where
  "sfd_ok (File f) = damage_ok (file_damage f)"
| "sfd_ok (Dmabuf y) = (0 < dm_width y \<and> 0 < dm_height y)"
| "sfd_ok _ = True"

text \<open>
  A step is a request of the client that the handler accepts; nothing else is required of a request (in
  particular a commit may have any scale, also one that the protocol forbids). The last four rules are the
  rest of the proxy: it adds objects of other types, sets the timeline points of a surface, and creates,
  changes or sends shadow file descriptors.
\<close>

inductive step :: "((Rect \<Rightarrow> nat) \<Rightarrow> Rect list \<Rightarrow> Rect list) \<Rightarrow> Globals \<times> logs \<Rightarrow> Globals \<times> logs \<Rightarrow> bool" for srt where
  create_surface: "create_surface g i = Inr g' \<Longrightarrow> step srt (g, lg) (g', lg(i := []))"
| surface_destroy: "surface_destroy g i = Inr g' \<Longrightarrow> step srt (g, lg) (g', lg)"
| attach: "surface_attach g i b = Inr g' \<Longrightarrow> step srt (g, lg) (g', lg)"
| scale: "is_i32 s \<Longrightarrow> set_buffer_scale g i s = Inr g' \<Longrightarrow> step srt (g, lg) (g', lg)"
| transform: "set_buffer_transform g i t = Inr g' \<Longrightarrow> step srt (g, lg) (g', lg)"
| damage: "is_i32 (rx r) \<Longrightarrow> is_i32 (ry r) \<Longrightarrow> is_i32 (rwidth r) \<Longrightarrow> is_i32 (rheight r) \<Longrightarrow>
    surface_damage g i r = Inr g' \<Longrightarrow> step srt (g, lg) (g', lg)"
| damage_buffer: "is_i32 (rx r) \<Longrightarrow> is_i32 (ry r) \<Longrightarrow> is_i32 (rwidth r) \<Longrightarrow> is_i32 (rheight r) \<Longrightarrow>
    surface_damage_buffer g i r = Inr g' \<Longrightarrow> step srt (g, lg) (g', lg)"
| get_viewport: "get_viewport g v i = Inr g' \<Longrightarrow> step srt (g, lg) (g', lg)"
| viewport_destroy: "viewport_destroy g v = Inr g' \<Longrightarrow> step srt (g, lg) (g', lg)"
| destination: "is_i32 w \<Longrightarrow> is_i32 h \<Longrightarrow> set_destination g v w h = Inr g' \<Longrightarrow> step srt (g, lg) (g', lg)"
| source: "is_i32 x \<Longrightarrow> is_i32 y \<Longrightarrow> is_i32 w \<Longrightarrow> is_i32 h \<Longrightarrow> set_source g v x y w h = Inr g' \<Longrightarrow> step srt (g, lg) (g', lg)"
| buffer: "is_i32 off \<Longrightarrow> is_i32 w \<Longrightarrow> is_i32 h \<Longrightarrow> is_i32 st \<Longrightarrow> create_buffer g p b off w h st fmt = Inr g' \<Longrightarrow>
    step srt (g, lg) (g', lg)"
| delete: "delete_id g i = Inr g' \<Longrightarrow> step srt (g, lg) (g', lg)"
| commit_null: "commit_target g i = None \<Longrightarrow> surface_commit srt g i = Inr g' \<Longrightarrow> step srt (g, lg) (g', lg(i := []))"
| commit: "objects g i = Some (WlSurface x) \<Longrightarrow> commit_target g i = Some bd \<Longrightarrow> buffer_dims (sfds g) bd = Inr dims \<Longrightarrow>
    cur = current_attachment x bd dims \<Longrightarrow> surface_commit srt g i = Inr g' \<Longrightarrow>
    step srt (g, lg) (g', lg(i := (damage_history x ! 0)\<lparr>attachment := cur\<rparr> # lg i))"
| other_object: "insert_new_object g i ExtraNone = Inr g' \<Longrightarrow> step srt (g, lg) (g', lg)"
| pool: "insert_new_object g i (WlShmPool r) = Inr g' \<Longrightarrow> step srt (g, lg) (g', lg)"
| points: "objects g i = Some (WlSurface x) \<Longrightarrow> step srt (g, lg) (put_surface g i (x\<lparr>acquire_pt := a, release_pt := r\<rparr>), lg)"
| sfd: "sfd_ok v \<Longrightarrow> step srt (g, lg) (g\<lparr>sfds := (sfds g)(r \<mapsto> v)\<rparr>, lg)"

definition initial :: Globals where
  "initial = \<lparr>objects = [1 \<mapsto> ExtraNone], sfds = (\<lambda>_. None), max_buffer_uid = 1\<rparr>"

inductive reachable :: "((Rect \<Rightarrow> nat) \<Rightarrow> Rect list \<Rightarrow> Rect list) \<Rightarrow> Globals \<Rightarrow> logs \<Rightarrow> bool" for srt where
  init: "reachable srt initial (\<lambda>_. [])"
| step: "reachable srt g lg \<Longrightarrow> step srt (g, lg) (g', lg') \<Longrightarrow> reachable srt g' lg'"

section \<open>The invariant\<close>

definition pending_ok :: "DamageBatch \<Rightarrow> bool" where
  "pending_ok b \<longleftrightarrow> 0 < att_scale (attachment b) \<and> int (att_scale (attachment b)) \<le> I32_MAX \<and>
     view_ok (viewport_src (attachment b)) (viewport_dst (attachment b)) \<and>
     list_all wlrect_ok (damage b) \<and> list_all wlrect_ok (damage_buffer b)"

definition window :: "DamageBatch list \<Rightarrow> DamageBatch list \<Rightarrow> bool" where
  "window h l \<longleftrightarrow> (\<exists>f. buffer_size (attachment f) = (0, 0) \<and> damage f = [] \<and> damage_buffer f = [] \<and>
     tl h = take 6 (l @ replicate 6 f))"

definition committed_ok :: "DamageBatch \<Rightarrow> bool" where
  "committed_ok b \<longleftrightarrow> att_valid (attachment b) \<and> list_all wlrect_ok (damage b) \<and> list_all wlrect_ok (damage_buffer b)"

definition surface_inv :: "ObjWlSurface \<Rightarrow> DamageBatch list \<Rightarrow> bool" where
  "surface_inv x l \<longleftrightarrow> length (damage_history x) = 7 \<and> pending_ok (damage_history x ! 0) \<and> window (damage_history x) l \<and>
     list_all committed_ok l \<and> viewport_id x = None"

definition state_inv :: "Globals \<Rightarrow> logs \<Rightarrow> bool" where
  "state_inv g lg \<longleftrightarrow>
     (\<forall>i x. objects g i = Some (WlSurface x) \<longrightarrow> surface_inv x (lg i)) \<and>
     (\<forall>i b si. objects g i = Some (WlBuffer b) \<longrightarrow> shm_info b = Some si \<longrightarrow> shm_ok si) \<and>
     (\<forall>r v. sfds g r = Some v \<longrightarrow> sfd_ok v)"

lemma upd_pending_inv:
  assumes "surface_inv x l" "pending_ok (f (damage_history x ! 0))"
  shows "surface_inv (upd_pending f x) l"
  using assms by (cases "damage_history x") (auto simp: surface_inv_def upd_pending_def window_def)

lemma rotate_history_eq: "length h = 7 \<Longrightarrow> rotate_history h fresh = fresh # take 6 h"
  by (auto simp: rotate_history_def swap_entries_def numeral_eq_Suc length_Suc_conv)

lemma state_inv_put: "state_inv g lg \<Longrightarrow> surface_inv x (lg i) \<Longrightarrow> state_inv (put_surface g i x) lg"
  by (auto simp: state_inv_def put_surface_def)

lemma get_surface_eq: "get_surface g i = Inr x \<longleftrightarrow> objects g i = Some (WlSurface x)"
  by (auto simp: get_surface_def split: option.splits WpExtra.splits)

lemma state_inv_surface: "state_inv g lg \<Longrightarrow> objects g i = Some (WlSurface x) \<Longrightarrow> surface_inv x (lg i)"
  by (simp add: state_inv_def)

lemma state_inv_insert:
  assumes "state_inv g lg" "insert_new_object g i obj = Inr g'"
    and "\<forall>x. obj = WlSurface x \<longrightarrow> surface_inv x (lg i)" "\<forall>b si. obj = WlBuffer b \<longrightarrow> shm_info b = Some si \<longrightarrow> shm_ok si"
  shows "state_inv g' lg"
  using assms by (auto simp: insert_new_object_def state_inv_def split: if_splits)

lemma state_inv_upd_pending:
  assumes "state_inv g lg" "objects g i = Some (WlSurface x)" "pending_ok (damage_history x ! 0) \<Longrightarrow> pending_ok (f (damage_history x ! 0))"
  shows "state_inv (put_surface g i (upd_pending f x)) lg"
  using assms by (intro state_inv_put upd_pending_inv) (auto dest: state_inv_surface simp: surface_inv_def)

lemma state_inv_upd_viewport:
  assumes "state_inv g lg" "upd_viewport_surface g v f = Inr g'" "\<And>x l. surface_inv x l \<Longrightarrow> surface_inv (f x) l"
  shows "state_inv g' lg"
  using assms
  by (auto simp: upd_viewport_surface_def res_simps get_surface_eq split: option.splits intro!: state_inv_put dest: state_inv_surface)

lemma with_viewport_eq: "with_viewport g v f = Inr g' \<longleftrightarrow> (\<exists>s. objects g v = Some (WpViewport s) \<and> f s = Inr g')"
  by (auto simp: with_viewport_def split: option.splits WpExtra.splits)

lemma rect_ok: "is_i32 (rx r) \<Longrightarrow> is_i32 (ry r) \<Longrightarrow> is_i32 (rwidth r) \<Longrightarrow> is_i32 (rheight r) \<Longrightarrow>
    0 < rwidth r \<Longrightarrow> 0 < rheight r \<Longrightarrow> wlrect_ok r"
  by (simp add: wlrect_ok_def is_i32_def pos_i32_def)

lemma replicate_6: "replicate 6 d = [d, d, d, d, d, d]"
  by (simp add: numeral_eq_Suc)

lemma create_surface_inv:
  assumes "state_inv g lg" "create_surface g i = Inr g'"
  shows "state_inv g' (lg(i := []))"
proof -
  have "objects g i = None" using assms(2) by (auto simp: create_surface_def insert_new_object_def Let_def split: if_splits)
  then have "state_inv g (lg(i := []))" using assms(1) by (auto simp: state_inv_def)
  from state_inv_insert [OF this assms(2) [unfolded create_surface_def Let_def]] show ?thesis
    by (auto simp: surface_inv_def pending_ok_def window_def initial_attachment_def view_ok_def I32_MAX_def replicate_6)
qed

lemma surface_destroy_inv:
  assumes "state_inv g lg" "surface_destroy g i = Inr g'"
  shows "state_inv g' lg"
proof -
  from assms obtain x where x: "objects g i = Some (WlSurface x)" by (auto simp: surface_destroy_def res_simps get_surface_eq)
  then have inv: "surface_inv x (lg i)" using assms(1) by (rule state_inv_surface [rotated])
  then have "viewport_id x = None" "surface_inv (x\<lparr>viewport_id := None\<rparr>) (lg i)" by (simp_all add: surface_inv_def)
  moreover from this have "g' = put_surface g i (x\<lparr>viewport_id := None\<rparr>)" using assms(2) x by (simp add: surface_destroy_def get_surface_def)
  ultimately show ?thesis using state_inv_put [OF assms(1)] by simp
qed

lemma set_buffer_scale_inv:
  assumes "state_inv g lg" "is_i32 s" "set_buffer_scale g i s = Inr g'"
  shows "state_inv g' lg"
  using assms
  by (auto simp: set_buffer_scale_def res_simps get_surface_eq pending_ok_def is_i32_def as_u32_ok split: if_splits
      intro!: state_inv_upd_pending)

lemma set_buffer_transform_inv:
  assumes "state_inv g lg" "set_buffer_transform g i t = Inr g'"
  shows "state_inv g' lg"
  using assms
  by (auto simp: set_buffer_transform_def res_simps get_surface_eq pending_ok_def split: if_splits
      intro!: state_inv_upd_pending)

lemma surface_attach_inv:
  assumes "state_inv g lg" "surface_attach g i b = Inr g'"
  shows "state_inv g' lg"
proof -
  from assms(2) obtain x where x: "objects g i = Some (WlSurface x)"
    and g': "g' = put_surface g i (x\<lparr>attached_buffer_id := if b \<noteq> 0 then Some b else None\<rparr>)"
    by (auto simp: surface_attach_def split: option.splits WpExtra.splits)
  show ?thesis using state_inv_surface [OF assms(1) x] unfolding g'
    by (intro state_inv_put assms(1)) (auto simp: surface_inv_def)
qed

lemma surface_damage_inv:
  assumes "state_inv g lg" "is_i32 (rx r)" "is_i32 (ry r)" "is_i32 (rwidth r)" "is_i32 (rheight r)" "surface_damage g i r = Inr g'"
  shows "state_inv g' lg"
  using assms rect_ok [OF assms(2-5)]
  by (auto simp: surface_damage_def res_simps get_surface_eq pending_ok_def split: if_splits intro!: state_inv_upd_pending)

lemma surface_damage_buffer_inv:
  assumes "state_inv g lg" "is_i32 (rx r)" "is_i32 (ry r)" "is_i32 (rwidth r)" "is_i32 (rheight r)" "surface_damage_buffer g i r = Inr g'"
  shows "state_inv g' lg"
  using assms rect_ok [OF assms(2-5)]
  by (auto simp: surface_damage_buffer_def res_simps get_surface_eq pending_ok_def split: if_splits intro!: state_inv_upd_pending)

lemma viewport_destroy_inv:
  assumes "state_inv g lg" "viewport_destroy g v = Inr g'"
  shows "state_inv g' lg"
proof -
  define f where "f = (\<lambda>s. (upd_pending (\<lambda>b. b\<lparr>attachment := (attachment b)\<lparr>viewport_src := None, viewport_dst := None\<rparr>\<rparr>) s)
    \<lparr>viewport_id := None\<rparr>)"
  have keep: "surface_inv (f x) l" if "surface_inv x l" for x l
  proof -
    have "surface_inv (upd_pending (\<lambda>b. b\<lparr>attachment := (attachment b)\<lparr>viewport_src := None, viewport_dst := None\<rparr>\<rparr>) x) l"
      using that by (intro upd_pending_inv) (auto simp: surface_inv_def pending_ok_def view_ok_def)
    then show ?thesis by (simp add: surface_inv_def f_def)
  qed
  from assms(2) obtain s where s: "objects g v = Some (WpViewport s)"
      "upd_viewport_surface (g\<lparr>objects := (objects g)(v \<mapsto> WpViewport None)\<rparr>) s f = Inr g'"
    by (auto simp: viewport_destroy_def with_viewport_eq f_def)
  have "state_inv (g\<lparr>objects := (objects g)(v \<mapsto> WpViewport None)\<rparr>) lg" using assms(1) s(1) by (auto simp: state_inv_def)
  then show ?thesis using s(2) keep by (rule state_inv_upd_viewport)
qed

lemma set_destination_inv:
  assumes "state_inv g lg" "is_i32 w" "is_i32 h" "set_destination g v w h = Inr g'"
  shows "state_inv g' lg"
proof -
  from assms(4) obtain d s where d: "d = None \<and> w = - 1 \<or> d = Some (w, h) \<and> 0 < w \<and> 0 < h"
    and s: "upd_viewport_surface g s (upd_pending (\<lambda>b. b\<lparr>attachment := (attachment b)\<lparr>viewport_dst := d\<rparr>\<rparr>)) = Inr g'"
    by (auto simp: set_destination_def res_simps with_viewport_eq split: if_splits)
  show ?thesis
  proof (rule state_inv_upd_viewport [OF assms(1) s])
    fix x l assume x: "surface_inv x l"
    show "surface_inv (upd_pending (\<lambda>b. b\<lparr>attachment := (attachment b)\<lparr>viewport_dst := d\<rparr>\<rparr>) x) l"
      using x d assms(2,3)
      by (intro upd_pending_inv) (auto simp: surface_inv_def pending_ok_def view_ok_def size_ok_def pos_i32_def is_i32_def)
  qed
qed

lemma set_source_inv:
  assumes "state_inv g lg" "is_i32 x" "is_i32 y" "is_i32 w" "is_i32 h" "set_source g v x y w h = Inr g'"
  shows "state_inv g' lg"
proof -
  from assms(6) obtain d s where d: "d = None \<or> d = Some (x, y, w, h) \<and> 0 \<le> x \<and> 0 \<le> y \<and> 0 < w \<and> 0 < h"
    and s: "upd_viewport_surface g s (upd_pending (\<lambda>b. b\<lparr>attachment := (attachment b)\<lparr>viewport_src := d\<rparr>\<rparr>)) = Inr g'"
    by (auto simp: set_source_def res_simps with_viewport_eq split: if_splits)
  show ?thesis
  proof (rule state_inv_upd_viewport [OF assms(1) s])
    fix x' l assume x: "surface_inv x' l"
    show "surface_inv (upd_pending (\<lambda>b. b\<lparr>attachment := (attachment b)\<lparr>viewport_src := d\<rparr>\<rparr>) x') l"
      using x d assms(2-5)
      by (intro upd_pending_inv) (auto simp: surface_inv_def pending_ok_def view_ok_def pos_i32_def is_i32_def)
  qed
qed

lemma create_buffer_inv:
  assumes "state_inv g lg" "is_i32 off" "is_i32 w" "is_i32 h" "is_i32 st" "create_buffer g p b off w h st fmt = Inr g'"
  shows "state_inv g' lg"
proof -
  let ?info = "\<lparr>shm_width = max w 0, shm_height = max h 0, shm_format = fmt, shm_offset = off, shm_stride = st\<rparr>"
  from assms(6) obtain sfd g1 u where pos: "0 < w" "0 < h" "0 \<le> off" "0 \<le> st"
    and g1: "insert_new_object g b (WlBuffer \<lparr>buf_sfd = sfd, shm_info = Some ?info, unique_id = max_buffer_uid g\<rparr>) = Inr g1"
    and g': "g' = g1\<lparr>max_buffer_uid := u\<rparr>"
    by (auto simp: create_buffer_def Let_def res_simps split: if_splits option.splits WpExtra.splits ShadowFdVariant.splits)
  have "shm_ok ?info" using pos assms(2-5) by (auto simp: shm_ok_def pos_i32_def is_i32_def)
  then have "state_inv g1 lg" by (intro state_inv_insert [OF assms(1) g1]) auto
  then show ?thesis by (simp add: g' state_inv_def)
qed

section \<open>Commit\<close>

lemma committed_history_eq:
  assumes "length h = 7"
  shows "committed_history h cur = \<lparr>attachment = cur, damage = [], damage_buffer = []\<rparr> # (h ! 0)\<lparr>attachment := cur\<rparr> # take 5 (tl h)"
proof -
  obtain b t where h: "h = b # t" using assms by (cases h) auto
  show ?thesis using assms by (simp add: committed_history_def rotate_history_eq h take_Cons')
qed

lemma window_commit:
  assumes "length h = 7" "window h l"
  shows "window (committed_history h cur) ((h ! 0)\<lparr>attachment := cur\<rparr> # l)"
  using assms by (auto simp: committed_history_eq window_def take_Cons' min_def)

lemma att_okI:
  assumes "size_ok (buffer_size a)" "view_ok (viewport_src a) (viewport_dst a)" "0 < att_scale a" "divisible a"
  shows "att_ok a"
  using assms by (auto simp: att_ok_def size_ok_def pos_i32_def divisible_def intro: zdvd_imp_le)

lemma buffer_dims_ok:
  assumes "buffer_dims store bd = Inr dims" "\<forall>r v. store r = Some v \<longrightarrow> sfd_ok v" "\<forall>si. shm_info bd = Some si \<longrightarrow> shm_ok si"
  shows "size_ok dims"
  using assms
  by (fastforce simp: buffer_dims_def size_ok_def pos_i32_def shm_ok_def split: option.splits ShadowFdVariant.splits if_splits)

lemma current_attachment_valid:
  "pending_ok (damage_history x ! 0) \<Longrightarrow> size_ok dims \<Longrightarrow> att_valid (current_attachment x bd dims)"
  by (simp add: current_attachment_def pending_ok_def att_valid_def)

lemma commit_surface_inv:
  assumes "surface_inv x l" "att_valid cur" "cur = current_attachment x bd dims"
  shows "surface_inv (x\<lparr>acquire_pt := None, release_pt := None, damage_history := committed_history (damage_history x) cur\<rparr>)
    ((damage_history x ! 0)\<lparr>attachment := cur\<rparr> # l)"
  using assms window_commit [of "damage_history x" l cur]
  by (auto simp: surface_inv_def committed_history_eq pending_ok_def committed_ok_def current_attachment_def)

lemma wiped_surface_inv:
  assumes "surface_inv x l"
  shows "surface_inv (x\<lparr>acquire_pt := None, release_pt := None, damage_history := wiped_history (attachment (damage_history x ! 0))\<rparr>) []"
proof -
  have r: "replicate 7 (d :: DamageBatch) = d # replicate 6 d" for d by (simp add: numeral_eq_Suc)
  show ?thesis using assms by (auto simp: surface_inv_def wiped_history_def r pending_ok_def window_def)
qed

lemma union_into_ok:
  assumes "damage_ok d" "\<exists>out. new = Inr out \<and> validate_output out 6 128 = Inr () \<and> (\<forall>(lo, hi)\<in>set out. hi \<le> USIZE_MAX) \<and> (\<forall>p. P p \<longrightarrow> covered p out)"
  shows "\<exists>d'. union_into d new = Inr d' \<and> damage_ok d' \<and> (\<forall>p. damage_covers d p \<or> P p \<longrightarrow> damage_covers d' p)"
proof (cases d)
  case (Intervals l)
  from assms(2) obtain out where out: "new = Inr out" "validate_output out 6 128 = Inr ()" "\<forall>(lo, hi)\<in>set out. hi \<le> USIZE_MAX"
    "\<forall>p. P p \<longrightarrow> covered p out" by (elim exE conjE)
  have "\<forall>(lo, hi)\<in>set l \<union> set out. hi \<le> USIZE_MAX" using out(3) assms(1) Intervals by (auto simp: list_all_iff)
  from union_damage_covers [OF _ out(2) _ this] assms(1) Intervals obtain u where
    "union_damage l out 128 = Inr u" "validate_output u 6 128 = Inr ()" "\<forall>(lo, hi)\<in>set u. hi \<le> USIZE_MAX"
    "\<forall>p. covered p l \<or> covered p out \<longrightarrow> covered p u" by auto
  then show ?thesis using out(1,4) Intervals by (auto simp: union_into_def list_all_iff)
qed (auto simp: union_into_def)

lemma union_into_Inr:
  assumes "damage_ok d" "union_into d new = Inr d'"
    and "\<And>out. new = Inr out \<Longrightarrow> validate_output out 6 128 = Inr () \<and> (\<forall>(lo, hi)\<in>set out. hi \<le> USIZE_MAX)"
  shows "damage_ok d'"
proof (cases new)
  case (Inl e)
  then show ?thesis using assms(1,2) by (cases d) (auto simp: union_into_def)
next
  case (Inr out)
  from union_into_ok [OF assms(1), of new "\<lambda>_. False"] assms(3) [OF Inr] assms(2) Inr show ?thesis by auto
qed

text \<open>The scales of the latest six batches with buffer damage divide the sizes of their buffers.\<close>

definition log_divisible :: "DamageBatch list \<Rightarrow> bool" where
  "log_divisible l \<longleftrightarrow> (\<forall>b\<in>set (take 6 l). damage_buffer b \<noteq> [] \<longrightarrow> divisible (attachment b))"

lemma surface_inv_tl:
  assumes "surface_inv x l" and "b \<in> set (tl (damage_history x))"
  shows "b \<in> set (take 6 l) \<and> committed_ok b \<or> damage b = [] \<and> damage_buffer b = []"
proof -
  from assms(1) obtain f where f: "damage f = []" "damage_buffer f = []" "tl (damage_history x) = take 6 (l @ replicate 6 f)"
    by (auto simp: surface_inv_def window_def)
  from assms(2) have "b \<in> set (take 6 l) \<or> b = f" by (auto simp: f(3) dest: in_set_takeD)
  then show ?thesis using assms(1) f(1,2) by (auto simp: surface_inv_def list_all_iff dest: in_set_takeD)
qed

lemma surface_inv_hd:
  assumes "surface_inv x l"
  shows "damage_history x \<noteq> []" "pending_ok (hd (damage_history x))"
  using assms by (cases "damage_history x"; simp add: surface_inv_def)+

lemma surface_inv_history_valid:
  assumes "surface_inv x l"
  shows "history_valid (damage_history x)"
  using surface_inv_hd [OF assms] surface_inv_tl [OF assms]
  by (fastforce simp: history_valid_def pending_ok_def list_all_iff batch_valid_def committed_ok_def)

lemma surface_inv_history_ok:
  assumes "surface_inv x l" and "log_divisible l"
  shows "history_ok (damage_history x)"
proof -
  have "batch_ok b" if "b \<in> set (tl (damage_history x))" for b
    using surface_inv_tl [OF assms(1) that] assms(2)
    by (auto simp: log_divisible_def batch_ok_def committed_ok_def att_valid_def intro: att_okI)
  then show ?thesis using surface_inv_hd [OF assms(1)] by (auto simp: history_ok_def pending_ok_def list_all_iff)
qed

lemma check_rem_ok: "0 < b \<Longrightarrow> check_rem a b = Inr ()"
  by (simp add: check_rem_def)

lemma commit_buffer_file_eq:
  assumes "surface_inv x l" and "store (buf_sfd bd) = Some (File f)" and "shm_info bd = Some si"
    and cur: "cur = current_attachment x bd (shm_width si, shm_height si)"
  shows "commit_buffer srt store x a r bd =
    rbind (union_into (file_damage f) (get_damage_for_shm srt si (damage_history x) cur)) (\<lambda>d.
      Inr (cur, store(buf_sfd bd \<mapsto> File (f\<lparr>file_damage := d\<rparr>))))"
proof -
  have "as_i32 (att_scale cur) = int (att_scale cur)" "0 < att_scale cur"
    using assms(1) by (simp_all add: cur current_attachment_def surface_inv_def pending_ok_def as_i32_ok)
  then show ?thesis using assms
    by (simp add: commit_buffer_def buffer_dims_def check_rem_ok Let_def current_attachment_def)
qed

lemma commit_buffer_file:
  assumes srt: "sorts_by_key srt" and x: "surface_inv x l" and f: "store (buf_sfd bd) = Some (File f)" "damage_ok (file_damage f)"
    and si: "shm_info bd = Some si" "shm_ok si" and cur: "cur = current_attachment x bd (shm_width si, shm_height si)" "\<not> oversized cur"
  shows "\<exists>d. commit_buffer srt store x a r bd = Inr (cur, store(buf_sfd bd \<mapsto> File (f\<lparr>file_damage := d\<rparr>))) \<and> damage_ok d \<and>
    (\<forall>p. damage_covers (file_damage f) p \<or> divisible cur \<and> log_divisible l \<and> byte_needs_update si cur (damage_history x) p \<longrightarrow>
      damage_covers d p)"
proof -
  have "pending_ok (damage_history x ! 0)" "size_ok (shm_width si, shm_height si)"
    using x si(2) by (simp_all add: surface_inv_def shm_ok_def size_ok_def)
  then have ao: "att_ok cur" using current_attachment_valid cur by (simp add: att_valid_cases)
  have sz: "buffer_size cur = (shm_width si, shm_height si)" by (simp add: cur current_attachment_def)
  have "\<exists>out. get_damage_for_shm srt si (damage_history x) cur = Inr out \<and> validate_output out 6 128 = Inr () \<and>
    (\<forall>(lo, hi)\<in>set out. hi \<le> USIZE_MAX) \<and>
    (\<forall>p. divisible cur \<and> log_divisible l \<and> byte_needs_update si cur (damage_history x) p \<longrightarrow> covered p out)"
  proof (cases "divisible cur \<and> log_divisible l")
    case True
    with get_damage_for_shm_covers [OF srt si(2) ao _ sz surface_inv_history_ok [OF x]] show ?thesis by simp
  next
    case False
    with get_damage_for_shm_fits [OF srt si(2) ao sz surface_inv_history_valid [OF x]] show ?thesis by auto
  qed
  from union_into_ok [OF f(2) this] show ?thesis
    using commit_buffer_file_eq [where store = store and bd = bd, OF x f(1) si(1) cur(1)] by auto
qed

lemma surface_commit_buffer:
  assumes "objects g i = Some (WlSurface x)" "commit_target g i = Some bd" "(acquire_pt x \<noteq> None) = (release_pt x \<noteq> None)"
  shows "surface_commit srt g i =
    rbind (commit_buffer srt (sfds g) (x\<lparr>acquire_pt := None, release_pt := None\<rparr>) (acquire_pt x) (release_pt x) bd) (\<lambda>(cur, store).
      Inr (put_surface (g\<lparr>sfds := store\<rparr>) i
        (x\<lparr>acquire_pt := None, release_pt := None, damage_history := committed_history (damage_history x) cur\<rparr>)))"
  using assms
  by (auto simp: surface_commit_def get_surface_def commit_target_def Let_def split: option.splits WpExtra.splits)

lemma surface_commit_null:
  assumes "objects g i = Some (WlSurface x)" "commit_target g i = None" "surface_commit srt g i = Inr g'"
  shows "g' = put_surface g i (x\<lparr>acquire_pt := None, release_pt := None, damage_history := wiped_history (attachment (damage_history x ! 0))\<rparr>)"
  using assms
  by (auto simp: surface_commit_def get_surface_def commit_target_def Let_def split: option.splits WpExtra.splits if_splits)

lemma commit_points_sfds:
  assumes "commit_points a r sfd y store = Inr store'" "\<forall>r v. store r = Some v \<longrightarrow> sfd_ok v" "0 < dm_width y" "0 < dm_height y"
  shows "\<forall>r v. store' r = Some v \<longrightarrow> sfd_ok v"
  using assms by (auto simp: commit_points_def Let_def split: option.splits ShadowFdVariant.splits if_splits)

lemma commit_buffer_sfds:
  assumes srt: "sorts_by_key srt" and x: "surface_inv x l" and st: "\<forall>r v. store r = Some v \<longrightarrow> sfd_ok v"
    and si: "\<forall>si. shm_info bd = Some si \<longrightarrow> shm_ok si" and dims: "buffer_dims store bd = Inr dims"
    and res: "commit_buffer srt store x a r bd = Inr (cur, store')"
  shows "cur = current_attachment x bd dims \<and> (\<forall>r v. store' r = Some v \<longrightarrow> sfd_ok v)"
proof (cases "store (buf_sfd bd)")
  case None
  then show ?thesis using dims by (simp add: buffer_dims_def)
next
  case (Some v)
  show ?thesis
  proof (cases v)
    case (File f)
    with Some dims obtain s where s: "shm_info bd = Some s" "dims = (shm_width s, shm_height s)"
      by (auto simp: buffer_dims_def split: option.splits)
    have d: "damage_ok (file_damage f)" using st Some File by fastforce
    have so: "shm_ok s" using si s(1) by blast
    let ?cur = "current_attachment x bd dims"
    have av: "att_valid ?cur" using x so current_attachment_valid s(2) by (simp add: surface_inv_def shm_ok_def size_ok_def)
    have "buffer_size ?cur = (shm_width s, shm_height s)" using s(2) by (simp add: current_attachment_def)
    note ok = get_damage_for_shm_valid [OF srt so av this surface_inv_history_valid [OF x]]
    from res commit_buffer_file_eq [where store = store and bd = bd, OF x Some [unfolded File] s(1) refl] s(2) obtain d'
      where d': "union_into (file_damage f) (get_damage_for_shm srt s (damage_history x) ?cur) = Inr d'"
        "cur = ?cur" "store' = store(buf_sfd bd \<mapsto> File (f\<lparr>file_damage := d'\<rparr>))" by (auto simp: res_simps)
    show ?thesis using union_into_Inr [OF d d'(1) ok] d'(2,3) st by (auto split: if_splits)
  next
    case (Dmabuf y)
    have "0 < dm_width y" "0 < dm_height y" using st Some Dmabuf by fastforce+
    moreover obtain d where "cur = current_attachment x bd dims" "commit_points a r (buf_sfd bd) (y\<lparr>dm_damage := d\<rparr>) store = Inr store'"
      using res dims Some Dmabuf by (auto simp: commit_buffer_def Let_def res_simps current_attachment_def)
    ultimately show ?thesis using commit_points_sfds [of a r "buf_sfd bd" _ store store'] st by simp
  qed (use dims Some in \<open>simp_all add: buffer_dims_def\<close>)
qed

lemma commit_inv:
  assumes srt: "sorts_by_key srt" and inv: "state_inv g lg" and x: "objects g i = Some (WlSurface x)"
    and bd: "commit_target g i = Some bd" and dims: "buffer_dims (sfds g) bd = Inr dims"
    and cur: "cur = current_attachment x bd dims" and res: "surface_commit srt g i = Inr g'"
  shows "state_inv g' (lg(i := (damage_history x ! 0)\<lparr>attachment := cur\<rparr> # lg i))"
proof -
  note sx = state_inv_surface [OF inv x]
  have st: "\<forall>r v. sfds g r = Some v \<longrightarrow> sfd_ok v" using inv by (simp add: state_inv_def)
  have si: "\<forall>si. shm_info bd = Some si \<longrightarrow> shm_ok si"
    using inv bd by (auto simp: state_inv_def commit_target_def split: option.splits WpExtra.splits)
  have pts: "(acquire_pt x \<noteq> None) = (release_pt x \<noteq> None)"
    using res x by (auto simp: surface_commit_def get_surface_def split: if_splits)
  let ?x = "x\<lparr>acquire_pt := None, release_pt := None\<rparr>"
  have sx': "surface_inv ?x (lg i)" using sx by (simp add: surface_inv_def)
  have ca: "current_attachment ?x bd dims = cur" by (simp add: current_attachment_def cur)
  from res obtain cur' store where c: "commit_buffer srt (sfds g) ?x (acquire_pt x) (release_pt x) bd = Inr (cur', store)"
    and g': "g' = put_surface (g\<lparr>sfds := store\<rparr>) i (x\<lparr>acquire_pt := None, release_pt := None, damage_history := committed_history (damage_history x) cur'\<rparr>)"
    unfolding surface_commit_buffer [OF x bd pts] by (auto simp: res_simps)
  have k: "cur' = cur" "\<forall>r v. store r = Some v \<longrightarrow> sfd_ok v"
    using commit_buffer_sfds [OF srt sx' st si dims c] by (simp_all add: ca)
  have "att_valid cur" using current_attachment_valid [of x dims bd] sx buffer_dims_ok [OF dims st si] cur by (simp add: surface_inv_def)
  from commit_surface_inv [OF sx this cur] show ?thesis
    using inv k(2) by (auto simp: g' k(1) state_inv_def put_surface_def)
qed

lemma commit_null_inv:
  assumes "state_inv g lg" "commit_target g i = None" "surface_commit srt g i = Inr g'"
  shows "state_inv g' (lg(i := []))"
proof -
  from assms(3) obtain x where x: "objects g i = Some (WlSurface x)"
    by (auto simp: surface_commit_def res_simps get_surface_eq)
  from wiped_surface_inv [OF state_inv_surface [OF assms(1) x]] show ?thesis
    using assms(1) by (auto simp: surface_commit_null [OF x assms(2,3)] state_inv_def put_surface_def)
qed

lemma get_viewport_inv: "state_inv g lg \<Longrightarrow> get_viewport g v i = Inr g' \<Longrightarrow> state_inv g' lg"
  unfolding get_viewport_def by (erule state_inv_insert) auto

lemma delete_id_inv: "state_inv g lg \<Longrightarrow> delete_id g i = Inr g' \<Longrightarrow> state_inv g' lg"
  by (auto simp: delete_id_def state_inv_def split: if_splits)

lemma points_inv:
  assumes "state_inv g lg" "objects g i = Some (WlSurface x)"
  shows "state_inv (put_surface g i (x\<lparr>acquire_pt := a, release_pt := r\<rparr>)) lg"
  using state_inv_surface [OF assms] by (intro state_inv_put assms(1)) (simp add: surface_inv_def)

lemma sfd_inv: "state_inv g lg \<Longrightarrow> sfd_ok v \<Longrightarrow> state_inv (g\<lparr>sfds := (sfds g)(r \<mapsto> v)\<rparr>) lg"
  by (auto simp: state_inv_def)

lemma step_inv:
  assumes "step srt (g, lg) (g', lg')" "sorts_by_key srt" "state_inv g lg"
  shows "state_inv g' lg'"
  using assms(1)
proof cases
  case (other_object i)
  then show ?thesis using state_inv_insert [OF assms(3) other_object(2)] by simp
next
  case (pool i r)
  then show ?thesis using state_inv_insert [OF assms(3) pool(2)] by simp
next
  case (commit i x bd dims cur)
  then show ?thesis using commit_inv [OF assms(2,3) commit(2-6)] by simp
next
  case (create_surface i)
  then show ?thesis using create_surface_inv [OF assms(3)] by simp
next
  case (commit_null i)
  then show ?thesis using commit_null_inv [OF assms(3)] by simp
next
  case (points i x a r)
  then show ?thesis using points_inv [OF assms(3)] by simp
next
  case (sfd v r)
  then show ?thesis using sfd_inv [OF assms(3)] by simp
qed (use assms(3) in \<open>blast intro: surface_destroy_inv set_buffer_scale_inv set_buffer_transform_inv surface_attach_inv
    surface_damage_inv surface_damage_buffer_inv viewport_destroy_inv set_destination_inv set_source_inv create_buffer_inv
    get_viewport_inv delete_id_inv\<close>)+

lemma reachable_inv:
  assumes "reachable srt g lg" "sorts_by_key srt"
  shows "state_inv g lg"
  using assms(1)
proof induction
  case init
  show ?case by (simp add: initial_def state_inv_def)
next
  case (step g lg g' lg')
  show ?case using step_inv [OF step(2) assms(2) step(3)] .
qed

section \<open>The window and the log\<close>

lemma position_append: "position p xs = Some k \<Longrightarrow> position p (xs @ ys) = Some k"
  by (induction xs arbitrary: k) (auto split: if_splits)

lemma position_prefix: "position p (xs @ ys) = Some k \<Longrightarrow> k < length xs \<Longrightarrow> position p xs = Some k"
proof (induction xs arbitrary: k)
  case (Cons x xs)
  then show ?case by (cases k) (auto split: if_splits)
qed simp

lemma position_take: "position p (take n xs) = Some k \<Longrightarrow> position p xs = Some k"
  using position_append [of p "take n xs" k "drop n xs"] by simp

lemma since_last_window:
  assumes "window (b # h) l" "size_ok (buffer_size att)" "since_last att (b # h) = Some bs"
  shows "since_last att (b # l) = Some bs"
proof -
  from assms(1) obtain f where f: "buffer_size (attachment f) = (0, 0)" "h = take 6 (l @ replicate 6 f)"
    by (auto simp: window_def)
  from assms(3) obtain k where k: "position (\<lambda>x. buffer_uid (attachment x) = buffer_uid att) h = Some k"
      "attachment (h ! k) = att" "bs = take (Suc k) (b # h)"
    by (auto simp: since_last_def split: option.splits if_splits)
  have k6: "k < length h" using position_Some [OF k(1)] by simp
  then have "k < 6" by (simp add: f(2))
  then have hk: "h ! k = (l @ replicate 6 f) ! k" by (simp add: f(2) del: take_append)
  have kl: "k < length l"
  proof (rule ccontr)
    assume "\<not> k < length l"
    then have "h ! k = f" using \<open>k < 6\<close> hk by (simp add: nth_append)
    then show False using f(1) k(2) assms(2) by (auto simp: size_ok_def pos_i32_def)
  qed
  have "position (\<lambda>x. buffer_uid (attachment x) = buffer_uid att) l = Some k"
    using position_prefix [OF position_take [OF k(1) [unfolded f(2)]] kl] .
  moreover have "l ! k = h ! k" using hk kl by (simp add: nth_append)
  moreover have "take k l = take k h" using \<open>k < 6\<close> kl by (simp add: f(2))
  ultimately show ?thesis using k(2,3) by (simp add: since_last_def)
qed

lemma needs_update_window:
  assumes "window (b # h) l" "size_ok (buffer_size att)" "needs_update att (b # l) px py"
  shows "needs_update att (b # h) px py"
  using assms since_last_window [OF assms(1,2)] by (cases "since_last att (b # h)") (auto simp: needs_update_def)

lemma byte_needs_update_window:
  assumes "window (b # h) l" "size_ok (buffer_size att)" "byte_needs_update si att (b # l) p"
  shows "byte_needs_update si att (b # h) p"
  using assms needs_update_window [OF assms(1,2)] unfolding byte_needs_update_def by (cases "simple_plane si") auto

lemma simple_extent:
  assumes "shm_ok b" "simple_plane b = Some p0" "get_shm_format_layout (shm_format b) = Some layout"
    and "extent_for_linear_buffer b layout = Inr (Some (s, e))"
  shows "s = nat (shm_offset b)" "s + nat (shm_height b) * nat (shm_stride b) \<le> e"
proof -
  from assms(2,3) have l: "planes layout = [p0]" "hsub p0 = 1" "vsub p0 = 1"
    by (auto simp: simple_plane_def split: list.splits if_splits)
  have "0 < bpt p0" using simple_plane_ok [OF assms(2)] by simp
  then show "s = nat (shm_offset b)" "s + nat (shm_height b) * nat (shm_stride b) \<le> e"
    using extent_ok [OF assms(1) get_shm_format_layout_ok [OF assms(3)]] assms(4) l
    by (auto simp: div_ceil_mult [of 1, simplified])
qed

lemma surface_commit_file:
  assumes "reachable srt g lg" and "sorts_by_key srt"
    and "objects g i = Some (WlSurface x)" and "commit_target g i = Some bd"
    and "sfds g (buf_sfd bd) = Some (File f)" and "shm_info bd = Some si"
    and "cur = current_attachment x bd (shm_width si, shm_height si)" and "\<not> oversized cur"
    and "(acquire_pt x \<noteq> None) = (release_pt x \<noteq> None)"
  shows "\<exists>g' d. surface_commit srt g i = Inr g' \<and> sfds g' = (sfds g)(buf_sfd bd \<mapsto> File (f\<lparr>file_damage := d\<rparr>)) \<and> damage_ok d \<and>
    (\<forall>p. damage_covers (file_damage f) p \<longrightarrow> damage_covers d p) \<and>
    (divisible cur \<and> log_divisible (lg i) \<longrightarrow>
      (\<forall>p. byte_needs_update si cur (damage_history x ! 0 # lg i) p \<longrightarrow> damage_covers d p))"
proof -
  have inv: "state_inv g lg" using assms(1,2) by (rule reachable_inv)
  note sx = state_inv_surface [OF inv assms(3)]
  let ?x = "x\<lparr>acquire_pt := None, release_pt := None\<rparr>"
  have sx': "surface_inv ?x (lg i)" using sx by (simp add: surface_inv_def)
  have so: "shm_ok si" using inv assms(4,6) by (auto simp: state_inv_def commit_target_def split: option.splits WpExtra.splits)
  have fo: "damage_ok (file_damage f)" using inv assms(5) by (fastforce simp: state_inv_def)
  have cur: "cur = current_attachment ?x bd (shm_width si, shm_height si)" using assms(7) by (simp add: current_attachment_def)
  from commit_buffer_file [where store = "sfds g" and bd = bd, OF assms(2) sx' assms(5) fo assms(6) so cur assms(8), where a = "acquire_pt x" and r = "release_pt x"]
  obtain d where d: "commit_buffer srt (sfds g) ?x (acquire_pt x) (release_pt x) bd = Inr (cur, (sfds g)(buf_sfd bd \<mapsto> File (f\<lparr>file_damage := d\<rparr>)))"
    "\<forall>p. damage_covers (file_damage f) p \<or> divisible cur \<and> log_divisible (lg i) \<and> byte_needs_update si cur (damage_history x) p \<longrightarrow>
      damage_covers d p" "damage_ok d" by auto
  obtain b h where h: "damage_history x = b # h" using sx by (cases "damage_history x") (auto simp: surface_inv_def)
  have "window (b # h) (lg i)" "size_ok (buffer_size cur)"
    using sx so h by (simp_all add: surface_inv_def assms(7) current_attachment_def shm_ok_def size_ok_def)
  note byte_needs_update_window [OF this]
  then have "divisible cur \<and> log_divisible (lg i) \<longrightarrow> (\<forall>p. byte_needs_update si cur (damage_history x ! 0 # lg i) p \<longrightarrow> damage_covers d p)"
    using d(2) by (simp add: h)
  then show ?thesis using d surface_commit_buffer [OF assms(3,4,9), of srt] by (auto simp: put_surface_def intro!: exI [of _ d])
qed

lemma commit_not_oversized:
  assumes "reachable srt g lg" and "sorts_by_key srt" and "commit_target g i = Some bd" and "shm_info bd = Some si"
    and "cur = current_attachment x bd (shm_width si, shm_height si)" and "divisible cur"
  shows "\<not> oversized cur"
proof -
  have "shm_ok si"
    using reachable_inv [OF assms(1,2)] assms(3,4) by (auto simp: state_inv_def commit_target_def split: option.splits WpExtra.splits)
  then have "0 < shm_width si" "0 < shm_height si" by (simp_all add: shm_ok_def pos_i32_def)
  then show ?thesis using assms(6) by (auto simp: oversized_def divisible_def assms(5) current_attachment_def dest!: zdvd_imp_le)
qed


section \<open>Properties\<close>

text \<open>
  C4: a commit records all damage. In every state that the handlers can reach, commits with any scale
  included, take a surface with a shared memory buffer whose pending scale is at most the width and the
  height of the buffer and of which both timeline points are set or none. Then the commit succeeds, and the damage
  recorded for the pool afterwards covers what it covered before. If moreover the scale divides the buffer
  size, as the protocol demands (the handler only logs it otherwise), and the same holds of those of the
  latest six batches that have buffer damage, it covers every byte that needs an update with respect
  to the complete, unbounded log of batches committed to the surface. The program keeps only the last
  six of them.
\<close>

theorem commit_tracks_damage:
  assumes "reachable srt g lg" and "sorts_by_key srt"
    and "objects g i = Some (WlSurface x)" and "commit_target g i = Some bd"
    and "sfds g (buf_sfd bd) = Some (File f)" and "shm_info bd = Some si"
    and "cur = current_attachment x bd (shm_width si, shm_height si)" and "\<not> oversized cur"
    and "(acquire_pt x \<noteq> None) = (release_pt x \<noteq> None)"
  shows "\<exists>g' d. surface_commit srt g i = Inr g' \<and> sfds g' = (sfds g)(buf_sfd bd \<mapsto> File (f\<lparr>file_damage := d\<rparr>)) \<and>
    (\<forall>p. damage_covers (file_damage f) p \<longrightarrow> damage_covers d p) \<and>
    (divisible cur \<and> log_divisible (lg i) \<longrightarrow>
      (\<forall>p. byte_needs_update si cur (damage_history x ! 0 # lg i) p \<longrightarrow> damage_covers d p))"
  using surface_commit_file [OF assms] by blast

text \<open>
  A client that creates a pool of 1000 bytes, a 20 by 10 buffer in it at offset 64 and a surface, sets
  scale 2 and attaches the buffer.
\<close>

definition ex_info :: ObjWlBufferShm where
  "ex_info = \<lparr>shm_width = 20, shm_height = 10, shm_format = 0, shm_offset = 64, shm_stride = 80\<rparr>"

definition ex_buffer :: ObjWlBuffer where
  "ex_buffer = \<lparr>buf_sfd = 5, shm_info = Some ex_info, unique_id = 1\<rparr>"

definition ex_batch :: "nat \<Rightarrow> DamageBatch" where
  "ex_batch s = \<lparr>attachment = initial_attachment\<lparr>att_scale := s\<rparr>, damage = [], damage_buffer = []\<rparr>"

definition ex_surface :: "nat option \<Rightarrow> nat \<Rightarrow> ObjWlSurface" where
  "ex_surface b s = \<lparr>attached_buffer_id = b, damage_history = ex_batch s # replicate 6 (ex_batch 1),
     acquire_pt = None, release_pt = None, viewport_id = None\<rparr>"

definition ex_file :: ShadowFdFile where
  "ex_file = \<lparr>file_size = 1000, file_damage = Intervals []\<rparr>"

definition ex_state :: "(nat \<Rightarrow> WpExtra option) \<Rightarrow> nat \<Rightarrow> Globals" where
  "ex_state obs u = \<lparr>objects = obs, sfds = [5 \<mapsto> File ex_file], max_buffer_uid = u\<rparr>"

lemma ex_extent: "extent_for_linear_buffer ex_info \<lparr>planes = [plane 4 1 1 1 1]\<rparr> = Inr (Some (64, 864))"
  by (simp add: extent_for_linear_buffer_def plane_extent_def ex_info_def bind_opt_def checked_mul_def checked_add_def
      as_u64_def machine_bounds u32_nat_def div_ceil_def)

lemma ex_trace:
  "step srt (initial, lg) (ex_state [1 \<mapsto> ExtraNone] 1, lg)"
  "step srt (ex_state [1 \<mapsto> ExtraNone] 1, lg) (ex_state [1 \<mapsto> ExtraNone, 2 \<mapsto> WlShmPool 5] 1, lg)"
  "step srt (ex_state [1 \<mapsto> ExtraNone, 2 \<mapsto> WlShmPool 5] 1, lg)
     (ex_state [1 \<mapsto> ExtraNone, 2 \<mapsto> WlShmPool 5, 3 \<mapsto> WlBuffer ex_buffer] 2, lg)"
  "step srt (ex_state [1 \<mapsto> ExtraNone, 2 \<mapsto> WlShmPool 5, 3 \<mapsto> WlBuffer ex_buffer] 2, lg)
     (ex_state [1 \<mapsto> ExtraNone, 2 \<mapsto> WlShmPool 5, 3 \<mapsto> WlBuffer ex_buffer, 4 \<mapsto> WlSurface (ex_surface None 1)] 2, lg(4 := []))"
  "step srt (ex_state [1 \<mapsto> ExtraNone, 2 \<mapsto> WlShmPool 5, 3 \<mapsto> WlBuffer ex_buffer, 4 \<mapsto> WlSurface (ex_surface None 1)] 2, lg)
     (ex_state [1 \<mapsto> ExtraNone, 2 \<mapsto> WlShmPool 5, 3 \<mapsto> WlBuffer ex_buffer, 4 \<mapsto> WlSurface (ex_surface None 2)] 2, lg)"
  "step srt (ex_state [1 \<mapsto> ExtraNone, 2 \<mapsto> WlShmPool 5, 3 \<mapsto> WlBuffer ex_buffer, 4 \<mapsto> WlSurface (ex_surface None 2)] 2, lg)
     (ex_state [1 \<mapsto> ExtraNone, 2 \<mapsto> WlShmPool 5, 3 \<mapsto> WlBuffer ex_buffer, 4 \<mapsto> WlSurface (ex_surface (Some 3) 2)] 2, lg)"
proof -
  show "step srt (initial, lg) (ex_state [1 \<mapsto> ExtraNone] 1, lg)"
    using step.sfd [of "File ex_file" srt initial lg 5]
    by (simp add: initial_def ex_state_def ex_file_def validate_output_def)
  show "step srt (ex_state [1 \<mapsto> ExtraNone] 1, lg) (ex_state [1 \<mapsto> ExtraNone, 2 \<mapsto> WlShmPool 5] 1, lg)"
    by (rule step.pool [of _ 2 5]) (simp add: insert_new_object_def ex_state_def)
  show "step srt (ex_state [1 \<mapsto> ExtraNone, 2 \<mapsto> WlShmPool 5] 1, lg)
     (ex_state [1 \<mapsto> ExtraNone, 2 \<mapsto> WlShmPool 5, 3 \<mapsto> WlBuffer ex_buffer] 2, lg)"
    by (rule step.buffer [of 64 20 10 80 _ 2 3 0])
      (simp_all add: is_i32_def machine_bounds create_buffer_def ex_state_def layout_Argb8888 ex_extent [unfolded ex_info_def]
        ex_file_def insert_new_object_def ex_buffer_def ex_info_def usize_add_def usize_def Let_def del: One_nat_def)
  show "step srt (ex_state [1 \<mapsto> ExtraNone, 2 \<mapsto> WlShmPool 5, 3 \<mapsto> WlBuffer ex_buffer] 2, lg)
     (ex_state [1 \<mapsto> ExtraNone, 2 \<mapsto> WlShmPool 5, 3 \<mapsto> WlBuffer ex_buffer, 4 \<mapsto> WlSurface (ex_surface None 1)] 2, lg(4 := []))"
    by (rule step.create_surface)
      (simp add: create_surface_def insert_new_object_def ex_state_def ex_surface_def replicate_6 ex_batch_def initial_attachment_def Let_def)
  show "step srt (ex_state [1 \<mapsto> ExtraNone, 2 \<mapsto> WlShmPool 5, 3 \<mapsto> WlBuffer ex_buffer, 4 \<mapsto> WlSurface (ex_surface None 1)] 2, lg)
     (ex_state [1 \<mapsto> ExtraNone, 2 \<mapsto> WlShmPool 5, 3 \<mapsto> WlBuffer ex_buffer, 4 \<mapsto> WlSurface (ex_surface None 2)] 2, lg)"
    by (rule step.scale [of 2 _ 4])
      (simp_all add: is_i32_def machine_bounds set_buffer_scale_def get_surface_def ex_state_def put_surface_def upd_pending_def
        ex_surface_def ex_batch_def as_u32_def initial_attachment_def)
  show "step srt (ex_state [1 \<mapsto> ExtraNone, 2 \<mapsto> WlShmPool 5, 3 \<mapsto> WlBuffer ex_buffer, 4 \<mapsto> WlSurface (ex_surface None 2)] 2, lg)
     (ex_state [1 \<mapsto> ExtraNone, 2 \<mapsto> WlShmPool 5, 3 \<mapsto> WlBuffer ex_buffer, 4 \<mapsto> WlSurface (ex_surface (Some 3) 2)] 2, lg)"
    by (rule step.attach [of _ 4 3]) (simp add: surface_attach_def ex_state_def put_surface_def ex_surface_def)
qed

definition ex_ready :: Globals where
  "ex_ready = ex_state [1 \<mapsto> ExtraNone, 2 \<mapsto> WlShmPool 5, 3 \<mapsto> WlBuffer ex_buffer, 4 \<mapsto> WlSurface (ex_surface (Some 3) 2)] 2"

lemma ex_reachable: "reachable srt ex_ready (\<lambda>_. [])"
proof -
  note t = ex_trace [where lg = "\<lambda>_. []"]
  have "(\<lambda>_. [])(4 := []) = (\<lambda>_::nat. [])" by auto
  note t4 = t(4) [unfolded this]
  show ?thesis unfolding ex_ready_def
    by (rule reachable.step [OF reachable.step [OF reachable.step [OF reachable.step [OF reachable.step
          [OF reachable.step [OF reachable.init t(1)] t(2)] t(3)] t4] t(5)] t(6)])
qed

abbreviation ex_target :: ObjWlSurface where
  "ex_target \<equiv> ex_surface (Some 3) 2"

abbreviation ex_current :: BufferAttachment where
  "ex_current \<equiv> current_attachment ex_target ex_buffer (shm_width ex_info, shm_height ex_info)"

lemma ex_commit:
  shows "sorts_by_key sort_key" and "objects ex_ready 4 = Some (WlSurface ex_target)"
    and "commit_target ex_ready 4 = Some ex_buffer" and "sfds ex_ready (buf_sfd ex_buffer) = Some (File ex_file)"
    and "shm_info ex_buffer = Some ex_info" and "\<not> oversized ex_current"
    and "(acquire_pt ex_target \<noteq> None) = (release_pt ex_target \<noteq> None)"
  by (simp_all add: sorts_by_key_def ex_ready_def ex_state_def ex_buffer_def ex_info_def ex_surface_def commit_target_def
      oversized_def current_attachment_def ex_batch_def initial_attachment_def)

lemma ex_divisible: "divisible ex_current \<and> log_divisible []"
  by (simp add: divisible_def log_divisible_def current_attachment_def ex_info_def ex_surface_def ex_batch_def initial_attachment_def)

lemma ex_needs_update: "byte_needs_update ex_info ex_current [damage_history ex_target ! 0] (64 + 9 * 80 + 19 * 4 + 3)"
proof -
  have sp: "simple_plane ex_info = Some (plane 4 1 1 1 1)" by (simp add: simple_plane_def ex_info_def layout_Argb8888)
  have "needs_update ex_current [damage_history ex_target ! 0] 19 9"
    by (simp add: needs_update_def since_last_def current_attachment_def ex_info_def)
  then show ?thesis
    unfolding byte_needs_update_def sp option.case by (intro exI [of _ 19] exI [of _ 9] exI [of _ 3]) (simp add: ex_info_def)
qed

theorem commit_tracks_damage_witness:
  "\<exists>g' d. surface_commit sort_key ex_ready 4 = Inr g' \<and> sfds g' = [5 \<mapsto> File (ex_file\<lparr>file_damage := d\<rparr>)] \<and>
     damage_covers d (64 + 9 * 80 + 19 * 4 + 3)"
  using commit_tracks_damage [OF ex_reachable ex_commit(1-5) refl ex_commit(6,7)] ex_divisible ex_needs_update
  by (auto simp: ex_ready_def ex_state_def ex_buffer_def)

text \<open>
  C8: the history of a surface is a faithful window of its log. In every reachable state the history
  of every surface has seven entries; entries 1 to 6 are the latest six batches of the log, padded with
  batches that have no damage and no buffer; and whatever the client requested, the pending batch and every
  batch of the log have a positive scale, a valid viewport and only nonempty rectangles, and the buffer of
  a committed batch has a positive size. Nothing is claimed of the scale in relation to the size, which the
  handlers do not check.
\<close>

theorem surface_history_window:
  assumes "reachable srt g lg" and "sorts_by_key srt" and "objects g i = Some (WlSurface x)"
  shows "length (damage_history x) = 7 \<and> pending_ok (damage_history x ! 0) \<and> list_all committed_ok (lg i) \<and>
    (\<exists>f. buffer_size (attachment f) = (0, 0) \<and> damage f = [] \<and> damage_buffer f = [] \<and>
       tl (damage_history x) = take 6 (lg i @ replicate 6 f))"
  using state_inv_surface [OF reachable_inv [OF assms(1,2)] assms(3)] by (simp add: surface_inv_def window_def)

lemma surface_commit_surface: "surface_commit srt g i = Inr g' \<Longrightarrow> \<exists>x. objects g' i = Some (WlSurface x)"
  by (auto simp: surface_commit_def put_surface_def Let_def res_simps split: if_splits option.splits WpExtra.splits)

theorem surface_history_window_witness:
  "\<exists>g' x. surface_commit sort_key ex_ready 4 = Inr g' \<and> objects g' 4 = Some (WlSurface x) \<and>
     length (damage_history x) = 7 \<and> damage_history x ! 1 = (ex_batch 2)\<lparr>attachment := ex_current\<rparr> \<and>
     committed_ok (damage_history x ! 1)"
proof -
  obtain g' where c: "surface_commit sort_key ex_ready 4 = Inr g'"
    using surface_commit_file [OF ex_reachable ex_commit(1-5) refl ex_commit(6,7)] by blast
  then obtain x where x: "objects g' 4 = Some (WlSurface x)" using surface_commit_surface by blast
  let ?b = "(damage_history ex_target ! 0)\<lparr>attachment := ex_current\<rparr>"
  have "buffer_dims (sfds ex_ready) ex_buffer = Inr (shm_width ex_info, shm_height ex_info)"
    by (simp add: buffer_dims_def ex_commit(4,5))
  note step.commit [OF ex_commit(2,3) this refl c, of "\<lambda>_. []"]
  from surface_history_window [OF reachable.step [OF ex_reachable this] ex_commit(1) x] obtain f where
    h: "length (damage_history x) = 7" "committed_ok ?b" "tl (damage_history x) = take 6 ([?b] @ replicate 6 f)"
    by auto
  then have "damage_history x ! 1 = ?b" by (cases "damage_history x") auto
  moreover have "damage_history ex_target ! 0 = ex_batch 2" by (simp add: ex_surface_def)
  ultimately show ?thesis using c x h(1,2) by simp
qed

text \<open>
  C30: accepted buffers lie in their pool. When \<open>create_buffer\<close> accepts a buffer of a format with one
  plane of whole pixels, whose rows do not overlap, every byte of every pixel is at an offset below
  the size of the pool file.
\<close>

theorem create_buffer_in_bounds:
  assumes "create_buffer g pool b off w h st fmt = Inr g'" and "objects g pool = Some (WlShmPool r)"
    and "sfds g r = Some (File f)" and "is_i32 off" and "is_i32 w" and "is_i32 h" and "is_i32 st"
    and "get_shm_format_layout fmt = Some \<lparr>planes = [plane n 1 1 1 1]\<rparr>" and "w * int n \<le> st"
    and "int px < w" and "int py < h" and "k < n"
  shows "nat off + py * nat st + px * n + k < file_size f"
proof -
  let ?info = "\<lparr>shm_width = w, shm_height = h, shm_format = fmt, shm_offset = off, shm_stride = st\<rparr>"
  from assms(1-3,8) have pos: "0 < w" "0 < h" "0 \<le> off" "0 \<le> st"
    by (auto simp: create_buffer_def split: if_splits)
  then have so: "shm_ok ?info" using assms(4-7) by (simp add: shm_ok_def pos_i32_def is_i32_def)
  have sp: "simple_plane ?info = Some (plane n 1 1 1 1)" using assms(8) by (simp add: simple_plane_def)
  from assms(1-3,8) pos obtain s e where e: "extent_for_linear_buffer ?info \<lparr>planes = [plane n 1 1 1 1]\<rparr> = Inr (Some (s, e))" "e \<le> file_size f"
    by (auto simp: create_buffer_def Let_def res_simps max_def split: if_splits option.splits)
  note x = simple_extent [OF so sp _ e(1)]
  have "px * n + k < Suc px * n" using assms(12) by simp
  also have "\<dots> \<le> nat w * n" using assms(10) by (intro mult_right_mono) auto
  also have "\<dots> \<le> nat st" using assms(9) pos by (metis nat_int nat_mono nat_mult_distrib order_less_imp_le)
  finally have "py * nat st + (px * n + k) < Suc py * nat st" by simp
  also have "\<dots> \<le> nat h * nat st" using assms(11) by (intro mult_right_mono) auto
  finally show ?thesis using x assms(8) e(2) by simp
qed

theorem create_buffer_in_bounds_witness:
  "\<exists>g'. create_buffer (ex_state [1 \<mapsto> ExtraNone, 2 \<mapsto> WlShmPool 5] 1) 2 3 64 20 10 80 0 = Inr g' \<and>
     nat 64 + 9 * nat 80 + 19 * 4 + 3 < file_size ex_file"
proof -
  let ?g = "ex_state [1 \<mapsto> ExtraNone, 2 \<mapsto> WlShmPool 5] 1"
  have c: "create_buffer ?g 2 3 64 20 10 80 0 = Inr (ex_state [1 \<mapsto> ExtraNone, 2 \<mapsto> WlShmPool 5, 3 \<mapsto> WlBuffer ex_buffer] 2)"
    by (simp add: machine_bounds create_buffer_def ex_state_def layout_Argb8888 ex_extent [unfolded ex_info_def]
        ex_file_def insert_new_object_def ex_buffer_def ex_info_def usize_add_def usize_def Let_def del: One_nat_def)
  have "nat 64 + 9 * nat 80 + 19 * 4 + 3 < file_size ex_file"
    by (rule create_buffer_in_bounds [OF c]) (simp_all add: ex_state_def is_i32_def machine_bounds layout_Argb8888)
  with c show ?thesis by blast
qed

text \<open>
  C35: a destroyed surface stays linked to its viewport. The link from a surface to its viewport is
  never set by \<open>get_viewport\<close>, so in every reachable state it is empty; destroying the surface leaves
  the viewport pointing to the identifier of the surface, which the client may use for a new object.
\<close>

theorem destroyed_surface_stays_linked:
  assumes "reachable srt g lg" and "sorts_by_key srt" and "objects g i = Some (WlSurface x)"
    and "objects g v = Some (WpViewport (Some i))"
  shows "viewport_id x = None \<and> (\<exists>g'. surface_destroy g i = Inr g' \<and> objects g' v = Some (WpViewport (Some i)))"
  using state_inv_surface [OF reachable_inv [OF assms(1,2)] assms(3)] assms(3,4)
  by (auto simp: surface_inv_def surface_destroy_def get_surface_def put_surface_def)

theorem destroyed_surface_stays_linked_witness:
  "\<exists>g g'. get_viewport ex_ready 6 4 = Inr g \<and> surface_destroy g 4 = Inr g' \<and> objects g' 6 = Some (WpViewport (Some 4))"
proof -
  let ?g = "ex_ready\<lparr>objects := (objects ex_ready)(6 \<mapsto> WpViewport (Some 4))\<rparr>"
  have g: "get_viewport ex_ready 6 4 = Inr ?g" by (simp add: get_viewport_def insert_new_object_def ex_ready_def ex_state_def)
  then have "reachable sort_key ?g (\<lambda>_. [])" by (intro reachable.step [OF ex_reachable] step.get_viewport)
  from destroyed_surface_stays_linked [OF this, of 4 "ex_surface (Some 3) 2" 6]
  have "\<exists>g'. surface_destroy ?g 4 = Inr g' \<and> objects g' 6 = Some (WpViewport (Some 4))"
    by (simp add: sorts_by_key_def ex_ready_def ex_state_def)
  with g show ?thesis by blast
qed



















lemma layout_P210: "get_shm_format_layout 0x30313250 = Some \<lparr>planes = [plane 2 1 1 1 1, plane 4 2 2 1 1]\<rparr>"
  by (simp add: get_shm_format_layout_def drm_to_wayland_def fourcc_values WlShmFormat_try_from_def WlShmFormat_table_def
      format_arms_defs)

lemma extent_two_planes:
  assumes "shm_ok b" and "2 * nat (shm_width b) \<le> nat (shm_stride b)" and "v = 1 \<or> v = 2"
  shows "extent_for_linear_buffer b \<lparr>planes = [plane 2 1 1 1 1, plane 4 2 v 1 1]\<rparr> =
    Inr (Some (nat (shm_offset b), nat (shm_offset b) + nat (shm_height b) * nat (shm_stride b) +
      div_ceil (nat (shm_height b)) v * nat (shm_stride b)))"
proof -
  define o' w h s c where "o' = nat (shm_offset b)" and "w = nat (shm_width b)" and "h = nat (shm_height b)" and "s = nat (shm_stride b)"
    and "c = div_ceil h v"
  have p: "0 < w" "0 < h" "o' < 2 ^ 31" "w < 2 ^ 31" "h < 2 ^ 31" "s < 2 ^ 31" "2 * w \<le> s"
    using assms by (auto simp: o'_def w_def h_def s_def shm_ok_def pos_i32_def I32_MAX_def)
  have u: "as_u64 (shm_stride b) = s" "as_u64 (shm_height b) = h" "as_u64 (shm_width b) = w"
    using assms(1) by (simp_all add: shm_ok_def pos_i32_def as_u64_ok w_def h_def s_def)
  have c: "c \<le> h" using assms(3) by (auto simp: c_def div_ceil_le_iff)
  have hs: "h * s \<le> 2 ^ 62" "c * s \<le> 2 ^ 62" using mult_le_i32 [OF p(5,6)] mult_le_i32 [OF le_less_trans [OF c p(5)] p(6)] by blast+
  have d: "div_ceil (s * 2) 2 = s" "div_ceil (s * 4) 4 = s" "div_ceil (w * 4) 2 = 2 * w" "div_ceil h (Suc 0) = h"
      "div_ceil (w * 2) (Suc 0) = w * 2"
    by (simp_all add: div_ceil_def)
  have pre: "shm_offset b \<ge> 0" "shm_stride b \<ge> 0 \<and> shm_width b > 0 \<and> shm_height b > 0"
    using assms(1) by (simp_all add: shm_ok_def pos_i32_def)
  have "s \<le> h * s" using p by simp
  then have "o' + 2 * w \<le> o' + h * s + c * s" using p(7) by linarith
  then have m: "max (o' + h * s + c * s) (o' + 2 * w) = o' + h * s + c * s" "max (o' + h * s + c * s) (o' + w * 2) = o' + h * s + c * s"
    by (simp_all add: mult.commute)
  show ?thesis
    using pre p hs m
    by (simp add: extent_for_linear_buffer_def plane_extent_def u d checked_mul_def checked_add_def USIZE_MAX_def U32_MAX_def
        Let_def flip: o'_def w_def h_def s_def c_def)
qed

text \<open>
  C31: the pool check of \<open>create_buffer\<close> is too weak for the format P210. The protocol describes it as two
  planes of 16 bit samples, the second with both chroma samples subsampled 2 by 1 (\<open>wayland.xml\<close>); the table of formats has it
  subsampled 2 by 2. A buffer of at least two rows in a pool with room for the planes of the table, but not for
  those of the protocol, is accepted, and its second plane ends behind the pool.
\<close>

theorem p210_pool_too_small:
  assumes "objects g pool = Some (WlShmPool r)" and "sfds g r = Some (File f)" and "objects g b = None" and "max_buffer_uid g < USIZE_MAX"
    and "info = \<lparr>shm_width = w, shm_height = h, shm_format = 0x30313250, shm_offset = off, shm_stride = st\<rparr>"
    and "shm_ok info" and "2 * w \<le> st"
    and "nat off + nat h * nat st + div_ceil (nat h) 2 * nat st \<le> file_size f" and "file_size f < nat off + nat h * nat st + nat h * nat st"
  shows "\<exists>g' s e. create_buffer g pool b off w h st 0x30313250 = Inr g' \<and>
    extent_for_linear_buffer info \<lparr>planes = [plane 2 1 1 1 1, plane 4 2 1 1 1]\<rparr> = Inr (Some (s, e)) \<and> file_size f < e"
proof -
  have pos: "0 < w" "0 < h" "0 \<le> off" "0 \<le> st" using assms(6) by (simp_all add: assms(5) shm_ok_def pos_i32_def)
  have "2 * nat (shm_width info) \<le> nat (shm_stride info)" using assms(7) pos by (simp add: assms(5))
  note e = extent_two_planes [OF assms(6) this]
  have "create_buffer g pool b off w h st 0x30313250 = Inr (g\<lparr>objects := (objects g)(b \<mapsto>
      WlBuffer \<lparr>buf_sfd = r, shm_info = Some info, unique_id = max_buffer_uid g\<rparr>), max_buffer_uid := Suc (max_buffer_uid g)\<rparr>)"
    using assms(1-4,8) pos e [of 2]
    by (simp add: create_buffer_def layout_P210 assms(5) max_def Let_def insert_new_object_def usize_add_def usize_def)
  moreover have "div_ceil (nat h) (Suc 0) = nat h" by (simp add: div_ceil_def)
  then have "extent_for_linear_buffer info \<lparr>planes = [plane 2 1 1 1 1, plane 4 2 1 1 1]\<rparr> =
      Inr (Some (nat off, nat off + nat h * nat st + nat h * nat st))"
    using e [of 1] by (simp add: assms(5))
  ultimately show ?thesis using assms(9) by blast
qed

theorem p210_pool_too_small_witness:
  "\<exists>g' s e. create_buffer (ex_state [1 \<mapsto> ExtraNone, 2 \<mapsto> WlShmPool 5] 1) 2 3 0 20 14 40 0x30313250 = Inr g' \<and>
     extent_for_linear_buffer \<lparr>shm_width = 20, shm_height = 14, shm_format = 0x30313250, shm_offset = 0, shm_stride = 40\<rparr>
       \<lparr>planes = [plane 2 1 1 1 1, plane 4 2 1 1 1]\<rparr> = Inr (Some (s, e)) \<and> file_size ex_file < e"
  by (rule p210_pool_too_small)
    (simp_all add: ex_state_def ex_file_def shm_ok_def pos_i32_def I32_MAX_def USIZE_MAX_def div_ceil_def)

end
