(* ===== verification/File_Replication.thy ===== *)
theory File_Replication
  imports Diff_Messages Surface_State
begin

text \<open>
  Replication of a shared memory file, \<open>collect_updates\<close> of \<open>src/mainloop.rs\<close> for \<open>ShadowFdVariant::File\<close>
  and \<open>construct_fill_transfers\<close>: creation and extension messages, the whole contents of a read-only file,
  and one diff task for each part of the damage of a file that can change. The theorems compose the
  damage tracking of commits, the partition of damage, the diff tasks, their messages, and the receiving
  side: afterwards the remote file equals the local one.
\<close>

section \<open>Definitions\<close>

text \<open>
  A shadow file descriptor with its id; the file and its mirror are kept apart, since the tasks share them.
\<close>

record FileShadowFd = ShadowFdFile +
  remote_bufsize :: nat
  readonly :: bool
  remote_id :: int
  only_here :: bool

text \<open>The outgoing messages, the number of messages that tasks will still send, and the queue of tasks.\<close>

record TransferQueue =
  other_messages :: "bytes list"
  expected_recvd_msgs :: nat
  construct_queue :: "DiffTask list"

definition push_msg :: "bytes \<Rightarrow> TransferQueue \<Rightarrow> TransferQueue" where
  "push_msg msg q = q\<lparr>other_messages := other_messages q @ [msg]\<rparr>"

definition fill_compress :: "compress_lib \<Rightarrow> Compression \<Rightarrow> bytes \<Rightarrow> bytes res" where
  "fill_compress lib compression data =
     (case compression of
        NoCompression \<Rightarrow> Ok data
      | Lz4 lvl \<Rightarrow> rbind (assert_that (lz4_alloc lib)) (\<lambda>_. lz4_compress_to_vec lib data lvl 0 0)
      | Zstd lvl \<Rightarrow> rbind (assert_that (zstd_alloc_c lib)) (\<lambda>_. zstd_compress_to_vec lib data lvl 0 0))"

text \<open>One shard: the header, the compressed bytes from \<open>start\<close> to \<open>e\<close>, and the padding.\<close>

definition push_fill ::
  "compress_lib \<Rightarrow> int \<Rightarrow> bytes \<Rightarrow> Compression \<Rightarrow> nat \<Rightarrow> nat \<Rightarrow> TransferQueue \<Rightarrow> TransferQueue res" where
  "push_fill lib rid fd compression start e q =
     rbind (usize_sub e start) (\<lambda>space.
     rbind (copy_from_mapping space fd start) (\<lambda>data.
     rbind (fill_compress lib compression data) (\<lambda>compressed.
     rbind (build_wmsg_header BufferFill (16 + length compressed)) (\<lambda>h.
     let header = cat4x4 (u32_to_le_bytes h) (i32_to_le_bytes rid)
                    (u32_to_le_bytes (word_of_nat start)) (u32_to_le_bytes (word_of_nat e)) in
     rbind (align4 (length compressed)) (\<lambda>al.
     rbind (usize_sub al (length compressed)) (\<lambda>pad.
     let q = push_msg compressed (push_msg header q) in
     Ok (if pad > 0 then push_msg (replicate pad 0) q else q)))))))"

function fill_shards ::
  "compress_lib \<Rightarrow> int \<Rightarrow> nat \<Rightarrow> bytes \<Rightarrow> Compression \<Rightarrow> nat \<Rightarrow> nat \<Rightarrow> TransferQueue \<Rightarrow> TransferQueue res" where
  "fill_shards lib rid bufsize fd compression nshards i q =
     (if i < nshards then
        rbind (split_interval 0 (as_u32_nat (bufsize div 64)) nshards i) (\<lambda>a.
        rbind (u32_nat (64 * a)) (\<lambda>start.
        rbind (split_interval 0 (as_u32_nat (bufsize div 64)) nshards (i + 1)) (\<lambda>b.
        rbind (u32_nat (64 * b)) (\<lambda>e.
        rbind (if i = nshards - 1 then u32_nat (e + as_u32_nat (bufsize mod 64)) else Ok e) (\<lambda>e.
        rbind (push_fill lib rid fd compression start e q) (\<lambda>q.
        fill_shards lib rid bufsize fd compression nshards (i + 1) q))))))
      else Ok q)"
  by pat_completeness auto
termination by (relation "measure (\<lambda>(lib, r, bs, fd, c, ns, i, q). ns - i)") auto

declare fill_shards.simps [simp del]

definition construct_fill_transfers ::
  "compress_lib \<Rightarrow> int \<Rightarrow> nat \<Rightarrow> bytes \<Rightarrow> TransferQueue \<Rightarrow> Compression \<Rightarrow> TransferQueue res" where
  "construct_fill_transfers lib rid bufsize fd q compression =
     rbind (ceildiv (as_u32_nat (bufsize div 64)) (DIFF_CHUNKSIZE div 64)) (\<lambda>nshards.
     let nshards = (if nshards = 0 \<and> bufsize mod 64 > 0 then 1 else nshards) in
     fill_shards lib rid bufsize fd compression nshards 0 q)"

text \<open>The creation and extension messages have the same shape.\<close>

definition file_msg :: "WmsgType \<Rightarrow> int \<Rightarrow> nat \<Rightarrow> bytes res" where
  "file_msg typ rid sz =
     rbind (build_wmsg_header typ 12) (\<lambda>h.
     Ok (cat3x4 (u32_to_le_bytes h) (i32_to_le_bytes rid) (u32_to_le_bytes (word_of_nat sz))))"

text \<open>The task for one part of the damage.\<close>

definition part_task :: "int \<Rightarrow> Compression \<Rightarrow> (nat \<times> nat) list \<Rightarrow> nat \<Rightarrow> DiffTask" where
  "part_task rid compression ivs trail =
     \<lparr>dt_rid = rid, dt_compression = compression,
      dt_region = (if ivs \<noteq> [] then Some (fst (hd ivs), snd (last ivs)) else None),
      dt_intervals = ivs, dt_trailing = trail\<rparr>"

fun push_tasks ::
  "int \<Rightarrow> Compression \<Rightarrow> nat \<Rightarrow> nat \<Rightarrow> nat \<Rightarrow> (nat \<times> nat) list list \<Rightarrow> TransferQueue \<Rightarrow> TransferQueue res" where
  "push_tasks rid compression trail_len nparts i [] q = Ok q"
| "push_tasks rid compression trail_len nparts i (part # parts) q =
     rbind (if i = nparts - 1 then assert_that (length part + trail_len > 0) else assert_that (part \<noteq> [])) (\<lambda>_.
     let t = part_task rid compression part (if i = nparts - 1 \<and> trail_len > 0 then as_u32_nat trail_len else 0) in
     rbind (usize_add (expected_recvd_msgs q) 1) (\<lambda>k.
     push_tasks rid compression trail_len nparts (i + 1) parts
       (q\<lparr>expected_recvd_msgs := k, construct_queue := construct_queue q @ [t]\<rparr>)))"

definition collect_file_updates ::
  "compress_lib \<Rightarrow> FileShadowFd \<Rightarrow> bytes \<Rightarrow> TransferQueue \<Rightarrow> Compression \<Rightarrow> (FileShadowFd \<times> TransferQueue) res" where
  "collect_file_updates lib sfd fd q compression =
     (let first_visit = only_here sfd in
      rbind (if only_here sfd
        then rbind (file_msg OpenFile (remote_id sfd) (file_size sfd)) (\<lambda>msg.
          Ok (sfd\<lparr>remote_bufsize := file_size sfd, only_here := False\<rparr>, push_msg msg q))
        else Ok (sfd, q)) (\<lambda>(sfd, q).
      rbind (if remote_bufsize sfd < file_size sfd
        then rbind (assert_that (\<not> readonly sfd)) (\<lambda>_.
          rbind (file_msg ExtendFile (remote_id sfd) (file_size sfd)) (\<lambda>msg.
          Ok (sfd\<lparr>remote_bufsize := file_size sfd\<rparr>, push_msg msg q)))
        else Ok (sfd, q)) (\<lambda>(sfd, q).
      if readonly sfd
      then (if \<not> first_visit then Ok (sfd, q)
        else rbind (construct_fill_transfers lib (remote_id sfd) (file_size sfd) fd q compression) (\<lambda>q.
          Ok (sfd, q)))
      else
        rbind (align (file_size sfd) 64) (\<lambda>e.
        let damaged_intervals = (case file_damage sfd of Everything \<Rightarrow> [(0, e)] | Intervals x \<Rightarrow> x) in
        if damaged_intervals = [] then Ok (sfd, q)
        else
          rbind (split_damage damaged_intervals (file_size sfd)) (\<lambda>(trail_len, parts).
          rbind (push_tasks (remote_id sfd) compression trail_len (length parts) 0 parts q) (\<lambda>q.
          Ok (sfd\<lparr>file_damage := Intervals []\<rparr>, q)))))))"

section \<open>The tasks\<close>

text \<open>The tasks pushed for the parts: the last one has the tail.\<close>

definition part_tasks :: "int \<Rightarrow> Compression \<Rightarrow> nat \<Rightarrow> (nat \<times> nat) list list \<Rightarrow> DiffTask list" where
  "part_tasks rid compression trail parts =
     map (\<lambda>i. part_task rid compression (parts ! i) (if i = length parts - 1 then trail else 0)) [0..<length parts]"

lemma part_tasks_Nil [simp]: "part_tasks rid compression trail [] = []"
  by (simp add: part_tasks_def)

lemma push_tasks_eq:
  assumes "(\<forall>part\<in>set parts. part \<noteq> []) \<or> parts = [[]] \<and> 0 < trail \<and> i + 1 = n" and "i + length parts = n"
    and "trail \<le> U32_MAX" and "expected_recvd_msgs q + length parts \<le> USIZE_MAX"
  shows "push_tasks rid compression trail n i parts q =
    Ok (q\<lparr>expected_recvd_msgs := expected_recvd_msgs q + length parts,
          construct_queue := construct_queue q @ part_tasks rid compression trail parts\<rparr>)"
  using assms
proof (induction parts arbitrary: i q)
  case Nil
  then show ?case by (simp add: part_tasks_def)
next
  case (Cons part parts)
  let ?q = "q\<lparr>expected_recvd_msgs := Suc (expected_recvd_msgs q),
    construct_queue := construct_queue q @ [part_task rid compression part (if i = n - 1 then trail else 0)]\<rparr>"
  have g: "(if i = n - 1 then assert_that (length part + trail > 0) else assert_that (part \<noteq> [])) = Ok ()"
    using Cons.prems(1,2) by auto
  have ih: "push_tasks rid compression trail n (i + 1) parts ?q =
      Ok (?q\<lparr>expected_recvd_msgs := expected_recvd_msgs ?q + length parts,
             construct_queue := construct_queue ?q @ part_tasks rid compression trail parts\<rparr>)"
    using Cons.prems by (intro Cons.IH) auto
  have idx: "i = n - 1 \<longleftrightarrow> parts = []" using Cons.prems(2) by auto
  have "part_tasks rid compression trail (part # parts) =
      part_task rid compression part (if parts = [] then trail else 0) # part_tasks rid compression trail parts"
    unfolding part_tasks_def
    by (simp add: upt_conv_Cons map_Suc_upt [symmetric] del: upt_Suc map_Suc_upt)
  then show ?case using g ih Cons.prems(3,4) idx
    by (cases "parts = []") (auto simp: usize_add_def usize_def as_u32_nat_id)
qed

lemma part_tasks_ok:
  assumes "\<forall>part\<in>set parts. intervals_ok part \<and> length (bytes_of (last_chunk n) part) \<le> DIFF_CHUNKSIZE"
    and "list_all (list_all (piece_ok (last_chunk n))) parts" and "trail = 0 \<or> trail = n mod 64"
    and "t \<in> set (part_tasks rid compression trail parts)"
  shows "task_ok n t \<and> dt_rid t = rid \<and> dt_compression t = compression"
  using assms by (auto simp: part_tasks_def part_task_def task_ok_def list_all_length all_set_conv_all_nth)

lemma in_part_tasks:
  assumes "\<exists>part\<in>set parts. touched part i"
  shows "\<exists>t\<in>set (part_tasks rid compression trail parts). in_task n t i"
proof -
  from assms obtain k where "k < length parts" "touched (parts ! k) i" by (auto simp: in_set_conv_nth)
  then show ?thesis by (auto simp: part_tasks_def part_task_def in_task_def intro!: bexI [of _ k])
qed

lemma in_last_task:
  assumes "parts \<noteq> []" and "0 < trail" and "n - trail \<le> i"
  shows "\<exists>t\<in>set (part_tasks rid compression trail parts). in_task n t i"
  using assms by (auto simp: part_tasks_def part_task_def in_task_def intro!: bexI [of _ "length parts - 1"])

lemma bytes_of_touched: "i \<in> set (bytes_of fc ivs) \<longleftrightarrow> touched ivs i \<and> i < fc"
  by (induction ivs) (auto simp: touched_def)

lemma touched_concat: "touched (concat parts) i \<longleftrightarrow> (\<exists>part\<in>set parts. touched part i)"
  by (auto simp: touched_def)

text \<open>Every damaged byte of the file is in some task.\<close>

lemma tasks_cover:
  assumes "bytes_of (last_chunk n) (concat parts) = bytes_of (last_chunk n) ivs"
    and "trail = (if tail_damaged ivs n then n mod 64 else 0)" and "tail_damaged ivs n \<longrightarrow> parts \<noteq> []"
    and "touched ivs i" and "i < n"
  shows "\<exists>t\<in>set (part_tasks rid compression trail parts). in_task n t i"
proof (cases "i < last_chunk n")
  case True
  then have "touched (concat parts) i" using assms(1,4) bytes_of_touched by metis
  then show ?thesis using in_part_tasks by (auto simp: touched_concat)
next
  case False
  have "tail_damaged ivs n" using assms(4,5) False by (auto simp: tail_damaged_def touched_def intro: le_less_trans)
  moreover have "0 < n mod 64" using False assms(5) last_chunk_le(4) [of n] by linarith
  ultimately show ?thesis using assms(2,3) False last_chunk_le(3) [of n] by (intro in_last_task) auto
qed

section \<open>Exchange of a list of tasks\<close>

text \<open>The tasks run in order on one side, and the messages are decompressed and applied in this order on the other.\<close>

fun exchange_all ::
  "compress_lib \<Rightarrow> DiffTask list \<Rightarrow> ShadowFdFileCore \<times> ThreadCache \<Rightarrow> ShadowFdFileCore \<times> ThreadCacheComp \<Rightarrow>
   ((ShadowFdFileCore \<times> ThreadCache) \<times> (ShadowFdFileCore \<times> ThreadCacheComp)) res" where
  "exchange_all lib [] S R = Ok (S, R)"
| "exchange_all lib (task # tasks) S R = rbind (exchange lib task S R) (\<lambda>(S, R). exchange_all lib tasks S R)"

lemma exchange_all_ok:
  assumes "\<forall>t\<in>set tasks. task_ok n t \<and> is_i32 (dt_rid t) \<and> codec_ok lib (dt_compression t)"
    and "in_step (fst S) (fst R) old" and "length old = n" and "mapping (fst S) = fd" and "length fd = n" and "n + 8 \<le> U32_MAX"
  shows "\<exists>S' R'. exchange_all lib tasks S R = Ok (S', R') \<and> mapping (fst S') = fd \<and>
    in_step (fst S') (fst R') (merge fd old (\<lambda>i. \<exists>t\<in>set tasks. in_task n t i))"
  using assms(1-4)
proof (induction tasks arbitrary: S R old)
  case Nil
  then show ?case using merge_eq_old [of old "\<lambda>_. False" fd] by simp
next
  case (Cons t ts)
  obtain S' R' where 1: "exchange lib t S R = Ok (S', R')" "mapping (fst S') = fd"
      "in_step (fst S') (fst R') (merge fd old (in_task n t))"
    using exchange_ok [of n t S R old lib] Cons.prems assms(5,6) by auto
  from Cons.IH [OF _ this(3) _ this(2)] Cons.prems obtain S'' R'' where
    "exchange_all lib ts S' R' = Ok (S'', R'')" "mapping (fst S'') = fd"
    "in_step (fst S'') (fst R'') (merge fd (merge fd old (in_task n t)) (\<lambda>i. \<exists>t\<in>set ts. in_task n t i))" by auto
  then show ?case using 1(1) by (auto simp: merge_merge intro: back_subst [of "in_step _ _"] merge_cong)
qed

section \<open>Collecting the updates of a file\<close>

definition damage_list :: "nat \<Rightarrow> Damage \<Rightarrow> (nat \<times> nat) list" where
  "damage_list n d = (case d of Everything \<Rightarrow> [(0, next_multiple_of n 64)] | Intervals x \<Rightarrow> x)"

lemma damage_list_ok:
  assumes "damage_ok d" and "0 < n"
  shows "intervals_ok (damage_list n d)"
proof (cases d)
  case Everything
  have "0 < next_multiple_of n 64" "64 dvd next_multiple_of n 64"
    using assms(2) next_multiple_of_ge [of 64 n] by simp_all
  then show ?thesis by (simp add: damage_list_def Everything)
next
  case (Intervals x)
  then have "valid_ivs 6 128 x" using validate_output_iff [of x 6 128] assms(1) by (auto simp: list_all_iff)
  then show ?thesis using Intervals
    by (auto simp: damage_list_def valid_ivs_def intervals_ok_def elim: sorted_wrt_mono_rel [rotated])
qed

text \<open>The message that announces a new file, or the new size of a file that has grown.\<close>

definition announce :: "FileShadowFd \<Rightarrow> bytes list" where
  "announce sfd =
     (let m = (\<lambda>t. cat3x4 (u32_to_le_bytes (word_of_nat (12 * 2 ^ 5 + wmsg_code t))) (i32_to_le_bytes (remote_id sfd))
                (u32_to_le_bytes (word_of_nat (file_size sfd))))
      in if only_here sfd then [m OpenFile] else if remote_bufsize sfd < file_size sfd then [m ExtendFile] else [])"

text \<open>What is left of the queue and of the file when \<open>tasks\<close> have been queued for it.\<close>

definition queued :: "FileShadowFd \<Rightarrow> TransferQueue \<Rightarrow> DiffTask list \<Rightarrow> FileShadowFd \<times> TransferQueue" where
  "queued sfd q tasks =
     (sfd\<lparr>remote_bufsize := (if only_here sfd then file_size sfd else max (remote_bufsize sfd) (file_size sfd)),
          only_here := False, file_damage := Intervals []\<rparr>,
      q\<lparr>other_messages := other_messages q @ announce sfd, expected_recvd_msgs := expected_recvd_msgs q + length tasks,
        construct_queue := construct_queue q @ tasks\<rparr>)"

lemma collect_changes:
  assumes ro: "\<not> readonly sfd" and n: "file_size sfd = n" "n + 8 \<le> U32_MAX" and d: "damage_list n (file_damage sfd) = ivs"
    and parts: "split_damage ivs n = Ok (trail, parts)" "(\<forall>part\<in>set parts. part \<noteq> []) \<or> parts = [[]] \<and> 0 < trail"
    and b: "trail < 64" "expected_recvd_msgs q + length parts \<le> USIZE_MAX" and e: "ivs = [] \<longrightarrow> parts = []"
  shows "collect_file_updates lib sfd fd q compression = Ok (queued sfd q (part_tasks (remote_id sfd) compression trail parts))"
proof -
  have a: "align n 64 = Ok (next_multiple_of n 64)" using n(2) by (intro align_ok) (simp_all add: U32_MAX_def USIZE_MAX_def)
  have d': "(case file_damage sfd of Everything \<Rightarrow> [(0, next_multiple_of n 64)] | Intervals x \<Rightarrow> x) = ivs"
    using d by (simp add: damage_list_def)
  have p: "push_tasks (remote_id sfd) compression trail (length parts) 0 parts q' =
      Ok (q'\<lparr>expected_recvd_msgs := expected_recvd_msgs q' + length parts,
             construct_queue := construct_queue q' @ part_tasks (remote_id sfd) compression trail parts\<rparr>)"
    if "expected_recvd_msgs q' = expected_recvd_msgs q" for q'
    using parts(2) b that by (intro push_tasks_eq) (auto simp: U32_MAX_def)
  have l: "length (part_tasks (remote_id sfd) compression trail parts) = length parts" by (simp add: part_tasks_def)
  have emp: "file_damage sfd = Intervals []" if "ivs = []" using d that by (auto simp: damage_list_def split: Damage.splits)
  show ?thesis
    using ro n a d' p parts(1) l e emp
    by (cases "only_here sfd"; cases "remote_bufsize sfd < n"; cases "ivs = []")
      (simp_all add: collect_file_updates_def file_msg_def build_wmsg_header_ok push_msg_def queued_def announce_def Let_def
        max_def)
qed

section \<open>Replication\<close>

text \<open>
  A file that can be replicated: both mirrors and the remote file hold \<open>old\<close>, the local file holds \<open>fd\<close>.
\<close>

definition replica ::
  "compress_lib \<Rightarrow> Compression \<Rightarrow> FileShadowFd \<Rightarrow> TransferQueue \<Rightarrow> ShadowFdFileCore \<Rightarrow> ShadowFdFileCore \<Rightarrow> bytes \<Rightarrow> bool" where
  "replica lib compression sfd q core rcore old \<longleftrightarrow>
     \<not> readonly sfd \<and> damage_ok (file_damage sfd) \<and> is_i32 (remote_id sfd) \<and> codec_ok lib compression \<and>
     0 < file_size sfd \<and> file_size sfd + 8 \<le> U32_MAX \<and> expected_recvd_msgs q + 2 ^ 15 \<le> USIZE_MAX \<and>
     length (mapping core) = file_size sfd \<and> length old = file_size sfd \<and> in_step core rcore old"

lemma touched_covers:
  assumes "damage_covers d i" and "i < n"
  shows "touched (damage_list n d) i"
  using assms next_multiple_of_ge [of 64 n]
  by (cases d) (auto simp: damage_list_def touched_def covered_def)

text \<open>Collecting the updates queues tasks that have every damaged byte.\<close>

lemma collect_tasks:
  assumes sfd: "\<not> readonly sfd" "damage_ok (file_damage sfd)"
    and n: "0 < file_size sfd" "file_size sfd + 8 \<le> U32_MAX" "expected_recvd_msgs q + 2 ^ 15 \<le> USIZE_MAX"
  obtains tasks where "collect_file_updates lib sfd fd q compression = Ok (queued sfd q tasks)"
    and "\<forall>t\<in>set tasks. task_ok (file_size sfd) t \<and> dt_rid t = remote_id sfd \<and> dt_compression t = compression"
    and "\<forall>i<file_size sfd. damage_covers (file_damage sfd) i \<longrightarrow> (\<exists>t\<in>set tasks. in_task (file_size sfd) t i)"
proof -
  let ?n = "file_size sfd" and ?d = "damage_list (file_size sfd) (file_damage sfd)"
  have iv: "intervals_ok ?d" using sfd(2) n(1) by (rule damage_list_ok)
  have nu: "?n \<le> U32_MAX" using n(2) by simp
  obtain trail parts where p: "split_damage ?d ?n = Ok (trail, parts)"
      "bytes_of (last_chunk ?n) (concat parts) = bytes_of (last_chunk ?n) ?d"
      "trail = (if tail_damaged ?d ?n then ?n mod 64 else 0)" "list_all (list_all (piece_ok (last_chunk ?n))) parts"
      "\<forall>part\<in>set parts. intervals_ok part \<and> length (bytes_of (last_chunk ?n) part) \<le> DIFF_CHUNKSIZE"
      "(\<forall>part\<in>set parts. part \<noteq> []) \<or> parts = [[]] \<and> 0 < trail"
      "tail_damaged ?d ?n \<longrightarrow> parts \<noteq> []" "length parts < 2 ^ 15"
    by (rule split_damage_ok [OF iv nu])
  let ?ts = "part_tasks (remote_id sfd) compression trail parts"
  have e: "?d = [] \<longrightarrow> parts = []" using p(1) by (auto simp: split_damage_def u32_nat_def)
  have "trail < 64" "expected_recvd_msgs q + length parts \<le> USIZE_MAX" using p(3,8) n(3) by auto
  note col = collect_changes [OF sfd(1) refl n(2) refl p(1,6) this e, of lib fd compression]
  have "task_ok ?n t \<and> dt_rid t = remote_id sfd \<and> dt_compression t = compression" if "t \<in> set ?ts" for t
    using part_tasks_ok [OF p(5,4) _ that] p(3) by (auto split: if_splits)
  then show ?thesis using that [OF col] tasks_cover [OF p(2,3,7) touched_covers] by blast
qed

text \<open>
  Exchanged, the tasks leave both sides in step: every damaged byte has the value it has in the file,
  every other byte this value or the old one.
\<close>

lemma merged_bytes:
  assumes "\<forall>i<n. P i \<longrightarrow> Q i" and "length old = n" and "i < n"
  shows "merge fd old Q ! i = fd ! i \<or> merge fd old Q ! i = old ! i \<and> \<not> P i"
  using assms by auto

lemma merge_all:
  assumes "\<forall>i<n. P i \<longrightarrow> Q i" and "length old = n" and "length fd = n" and "\<forall>i<n. fd ! i \<noteq> old ! i \<longrightarrow> P i"
  shows "merge fd old Q = fd"
  using assms by (intro nth_equalityI) auto

section \<open>Properties\<close>

text \<open>
  C2: what a client commits reaches the other side. Take any state that the handlers can reach and a surface
  with a shared memory buffer, of which both timeline points are set or none, whose scale divides the buffer
  size, as do those of the latest six batches with buffer damage (what the protocol demands, and the handler does not
  enforce). Take a file whose mirrors on both sides and whose remote copy hold the same bytes, such that
  the file differs from them only where damage is recorded already or where the commit needs an update. Then
  the commit succeeds; collecting the updates of the file with the damage that the commit recorded returns,
  resets the damage and queues diff tasks; and when these have run and their messages, compressed in any of
  the three ways, have been decompressed and applied in order, the remote file and both mirrors are equal to
  the local file.
\<close>

theorem commit_then_replicate:
  assumes "reachable srt g lg" and "sorts_by_key srt"
    and "objects g i = Some (WlSurface x)" and "commit_target g i = Some bd"
    and "sfds g (buf_sfd bd) = Some (File f)" and "shm_info bd = Some si"
    and "cur = current_attachment x bd (shm_width si, shm_height si)" and "divisible cur" and "log_divisible (lg i)"
    and "(acquire_pt x \<noteq> None) = (release_pt x \<noteq> None)"
    and "ShadowFdFile.truncate sfd = f" and "replica lib compression sfd q (fst S) (fst R) old"
    and "\<forall>p<file_size sfd. mapping (fst S) ! p \<noteq> old ! p \<longrightarrow>
      damage_covers (file_damage sfd) p \<or> byte_needs_update si cur (damage_history x ! 0 # lg i) p"
  shows "\<exists>g' d tasks S' R'. surface_commit srt g i = Inr g' \<and>
    sfds g' = (sfds g)(buf_sfd bd \<mapsto> File (f\<lparr>file_damage := d\<rparr>)) \<and>
    collect_file_updates lib (sfd\<lparr>file_damage := d\<rparr>) (mapping (fst S)) q compression =
      Ok (queued (sfd\<lparr>file_damage := d\<rparr>) q tasks) \<and>
    exchange_all lib tasks S R = Ok (S', R') \<and> mapping (fst S') = mapping (fst S) \<and>
    in_step (fst S') (fst R') (mapping (fst S))"
proof -
  obtain g' d where c: "surface_commit srt g i = Inr g'" "sfds g' = (sfds g)(buf_sfd bd \<mapsto> File (f\<lparr>file_damage := d\<rparr>))"
      "damage_ok d" "\<forall>p. damage_covers (file_damage f) p \<longrightarrow> damage_covers d p"
      "\<forall>p. byte_needs_update si cur (damage_history x ! 0 # lg i) p \<longrightarrow> damage_covers d p"
    using surface_commit_file [OF assms(1-7) _ assms(10)] commit_not_oversized [OF assms(1,2,4,6-8)] assms(8,9) by blast
  let ?sfd = "sfd\<lparr>file_damage := d\<rparr>"
  have f: "file_damage f = file_damage sfd" using assms(11) by (auto simp: ShadowFdFile.defs)
  have sz: "file_size ?sfd = file_size sfd" "file_damage ?sfd = d" "remote_id ?sfd = remote_id sfd" by simp_all
  have r: "\<not> readonly ?sfd" "damage_ok (file_damage ?sfd)" "0 < file_size ?sfd" "file_size ?sfd + 8 \<le> U32_MAX"
      "expected_recvd_msgs q + 2 ^ 15 \<le> USIZE_MAX"
    using assms(12) c(3) by (simp_all add: replica_def)
  obtain tasks where u: "collect_file_updates lib ?sfd (mapping (fst S)) q compression = Ok (queued ?sfd q tasks)"
      "\<forall>t\<in>set tasks. task_ok (file_size sfd) t \<and> dt_rid t = remote_id sfd \<and> dt_compression t = compression"
      "\<forall>i<file_size sfd. damage_covers d i \<longrightarrow> (\<exists>t\<in>set tasks. in_task (file_size sfd) t i)"
    by (rule collect_tasks [OF r, unfolded sz])
  then obtain S' R' where x: "exchange_all lib tasks S R = Ok (S', R')" "mapping (fst S') = mapping (fst S)"
      "in_step (fst S') (fst R') (merge (mapping (fst S)) old (\<lambda>i. \<exists>t\<in>set tasks. in_task (file_size sfd) t i))"
    using exchange_all_ok [of tasks "file_size sfd" lib S R old "mapping (fst S)"] assms(12) by (auto simp: replica_def)
  have "\<forall>p<file_size sfd. mapping (fst S) ! p \<noteq> old ! p \<longrightarrow> damage_covers d p" using assms(13) c(4,5) f by metis
  from merge_all [OF u(3) _ _ this] x assms(12) have "in_step (fst S') (fst R') (mapping (fst S))" by (simp add: replica_def)
  then show ?thesis using c(1,2) u(1) x(1,2) by blast
qed

text \<open>A pair of libraries that store their input.\<close>

definition ex_lib :: compress_lib where
  "ex_lib = \<lparr>LZ4_compressBound = (\<lambda>n. int (n + n div 255 + 16)), LZ4_compress_fast = (\<lambda>src _ _. src),
     LZ4_compress_HC = (\<lambda>src _ _. src), LZ4_decompress_safe = (\<lambda>src n. if length src \<le> n then Some src else None),
     ZSTD_compressBound = (\<lambda>n. n + n div 256 + 64), ZSTD_set_level = (\<lambda>_. True),
     ZSTD_compress2 = (\<lambda>_ src n. if length src \<le> n then Some src else None),
     ZSTD_decompressDCtx = (\<lambda>src n. if length src \<le> n then Some src else None),
     lz4_alloc = True, zstd_alloc_c = True, zstd_alloc_d = True\<rparr>"

lemma ex_lib_ok: "codec_ok ex_lib (Lz4 l)" "codec_ok ex_lib (Zstd 3)"
  by (simp_all add: codec_ok_def lz4_ok_def zstd_ok_def ex_lib_def)

definition ex_core :: "bytes \<Rightarrow> ShadowFdFileCore" where
  "ex_core bs = \<lparr>mem_mirror = \<lparr>backing = Mmap (replicate (length bs) 0), region_size = length bs, ranges = []\<rparr>, mapping = bs\<rparr>"

lemma ex_core_in_step: "length bs \<le> ISIZE_MAX \<Longrightarrow> k = length bs \<Longrightarrow> in_step (ex_core bs) (ex_core (replicate k 0)) (replicate k 0)"
  by (simp add: in_step_def idle_mirror_def mirror_inv_def ex_core_def)

definition ex_sfd :: FileShadowFd where
  "ex_sfd = ShadowFdFile.extend ex_file (FileShadowFd.fields 1000 False 7 False)"

definition ex_queue :: TransferQueue where
  "ex_queue = \<lparr>other_messages = [], expected_recvd_msgs = 0, construct_queue = []\<rparr>"

abbreviation ex_bytes :: bytes where
  "ex_bytes \<equiv> (replicate 1000 0)[863 := 7]"

abbreviation ex_contexts :: ThreadCacheComp where
  "ex_contexts \<equiv> \<lparr>lz4_c = False, zstd_c = False, zstd_d = False\<rparr>"

lemma ex_replica: "replica ex_lib (Lz4 0) ex_sfd ex_queue (ex_core ex_bytes) (ex_core (replicate 1000 0)) (replicate 1000 0)"
  using ex_lib_ok ex_core_in_step [of ex_bytes 1000]
  by (simp add: replica_def ex_sfd_def ex_queue_def ex_file_def ShadowFdFile.defs FileShadowFd.defs is_i32_def I32_MIN_def
      I32_MAX_def U32_MAX_def USIZE_MAX_def ISIZE_MAX_def ex_core_def validate_output_def)

theorem commit_then_replicate_witness:
  "\<exists>g' d tasks S' R'. surface_commit sort_key ex_ready 4 = Inr g' \<and>
     collect_file_updates ex_lib (ex_sfd\<lparr>file_damage := d\<rparr>) ex_bytes ex_queue (Lz4 0) =
       Ok (queued (ex_sfd\<lparr>file_damage := d\<rparr>) ex_queue tasks) \<and>
     exchange_all ex_lib tasks (ex_core ex_bytes, \<lparr>large = [], cache_comp = ex_contexts\<rparr>) (ex_core (replicate 1000 0), ex_contexts) =
       Ok (S', R') \<and> mapping (fst R') = ex_bytes"
proof -
  have "ShadowFdFile.truncate ex_sfd = ex_file" by (simp add: ex_sfd_def ex_file_def ShadowFdFile.defs FileShadowFd.defs)
  note t = commit_then_replicate [OF ex_reachable ex_commit(1-5) refl conjunct1 [OF ex_divisible] conjunct2 [OF ex_divisible] ex_commit(7) this,
      where S = "(ex_core ex_bytes, \<lparr>large = [], cache_comp = ex_contexts\<rparr>)" and R = "(ex_core (replicate 1000 0), ex_contexts)",
      unfolded fst_conv, OF ex_replica]
  have "mapping (ex_core ex_bytes) ! p \<noteq> replicate 1000 0 ! p \<longrightarrow> damage_covers (file_damage ex_sfd) p \<or>
      byte_needs_update ex_info ex_current [damage_history ex_target ! 0] p" if "p < file_size ex_sfd" for p
    using ex_needs_update that
    by (cases "p = 863") (simp_all add: ex_core_def ex_sfd_def ex_file_def ShadowFdFile.defs FileShadowFd.defs)
  then show ?thesis using t by (fastforce simp: ex_core_def in_step_def)
qed

end
