(* ===== verification/File_Messages.thy ===== *)
theory File_Messages
  imports File_Replication
begin

text \<open>
  The two ends of a shared memory file in \<open>src/mainloop.rs\<close> and \<open>src/tracking.rs\<close>: \<open>translate_shm_fd\<close> makes
  the \<open>ShadowFd\<close> of a file that a client shares, the handler of \<open>wl_shm_pool.resize\<close> grows it, and
  \<open>process_sfd_msg\<close> creates, extends and updates the copy on the other side from the messages that
  \<open>collect_updates\<close> and the tasks send.

  The kernel's part is explicit: \<open>granted\<close> says whether system calls succeed, \<open>contents\<close> is what the mapped
  file holds, and \<open>excl\<close> whether the caller has the only reference to the mirror and the mapping.
\<close>

section \<open>Definitions\<close>

record SharedFile = FileShadowFd +
  core :: ShadowFdFileCore
  pending_apply_tasks :: nat

datatype ShadowFd = FileFd SharedFile | NotFile

text \<open>The state of a side: the \<open>ShadowFd\<close>s by id, those not yet injected, and the decompression tasks with their targets.\<close>

record Side =
  sfd_map :: "int \<Rightarrow> ShadowFd option"
  fresh :: "int set"
  max_local_id :: int
  decompress_queue :: "(int \<times> DecompTask) list"

definition allocate_rid :: "int \<Rightarrow> (int \<times> int) res" where
  "allocate_rid v =
     (let nxt = v + sgn v in
      if is_i32 nxt then Ok (v, nxt) else panic)"

definition ExternalMapping_new :: "bool \<Rightarrow> bytes \<Rightarrow> nat \<Rightarrow> bytes res" where
  "ExternalMapping_new granted contents sz =
     (if sz = 0 then Ok []
      else if sz > ISIZE_MAX then fail ''Failed to mmap {} bytes, region too large''
      else if \<not> granted then fail ''Failed to mmap {}''
      else Ok (take sz contents))"

definition translate_shm_fd ::
  "bool \<Rightarrow> bytes \<Rightarrow> nat \<Rightarrow> Side \<Rightarrow> bool \<Rightarrow> bool \<Rightarrow> bool \<Rightarrow> (int \<times> Side) res" where
  "translate_shm_fd granted contents size_lb st default_damage readonce local_only =
     rbind (allocate_rid (max_local_id st)) (\<lambda>(rid, nxt).
     rbind (ExternalMapping_new granted contents size_lb) (\<lambda>m.
     let mir_size = (if readonce then 0 else size_lb) in
     rbind (Mirror_new granted mir_size (\<not> readonce)) (\<lambda>mir.
     let sfd = \<lparr>file_size = size_lb,
                file_damage = (if default_damage then Everything else Intervals []),
                remote_bufsize = 0, readonly = readonce, remote_id = rid, only_here = \<not> local_only,
                core = \<lparr>mem_mirror = mir, mapping = m\<rparr>, pending_apply_tasks = 0\<rparr> in
     Ok (rid, st\<lparr>sfd_map := (sfd_map st)(rid \<mapsto> FileFd sfd), max_local_id := nxt\<rparr>))))"

definition update_core_for_new_size ::
  "bool \<Rightarrow> bool \<Rightarrow> bytes \<Rightarrow> nat \<Rightarrow> ShadowFdFileCore \<Rightarrow> ShadowFdFileCore res" where
  "update_core_for_new_size granted excl contents sz c =
     rbind (ExternalMapping_new granted contents sz) (\<lambda>m.
     if \<not> excl then fail ''ExtendFile invoked without exclusive access to ShadowFd''
     else
       rbind (assert_that (sz \<ge> mirror_len (mem_mirror c))) (\<lambda>_.
       rbind (Mirror.extend granted (mem_mirror c) sz) (\<lambda>mir. Ok \<lparr>mem_mirror = mir, mapping = m\<rparr>)))"

text \<open>The handler of \<open>wl_shm_pool.resize\<close> on the side of the application, for the pool's file.\<close>

definition shm_pool_resize :: "bool \<Rightarrow> bool \<Rightarrow> bytes \<Rightarrow> int \<Rightarrow> SharedFile \<Rightarrow> SharedFile res" where
  "shm_pool_resize granted excl contents sz y =
     (if sz < 0 then fail ''Invalid buffer size: {}''
      else if nat sz < file_size y then fail ''Invalid decrease in size ({} -> {}) for wl_shm_pool::resize''
      else
        rbind (update_core_for_new_size granted excl contents (nat sz) (core y)) (\<lambda>c.
        Ok (y\<lparr>file_size := nat sz, core := c\<rparr>)))"

section \<open>Messages to a file\<close>

definition get_sfd :: "Side \<Rightarrow> int \<Rightarrow> ShadowFd option" where
  "get_sfd st rid = sfd_map st rid"

definition process_open_file :: "bool \<Rightarrow> bytes \<Rightarrow> int \<Rightarrow> Side \<Rightarrow> Side res" where
  "process_open_file granted msg rid st =
     rbind (slice_res msg 8 12) (\<lambda>b.
     let sz = i32_from_le_bytes b in
     if \<not> granted then fail ''Failed to create memfd: {:?}''
     else if sz < 0 then fail ''Failed to resize memfd: {:?}''
     else
       rbind (Mirror_new granted (nat sz) True) (\<lambda>mir.
       rbind (ExternalMapping_new granted (replicate (nat sz) 0) (nat sz)) (\<lambda>m.
       let sfd = \<lparr>file_size = nat sz, file_damage = Intervals [], remote_bufsize = nat sz, readonly = False,
                  remote_id = rid, only_here = False, core = \<lparr>mem_mirror = mir, mapping = m\<rparr>,
                  pending_apply_tasks = 0\<rparr> in
       Ok (st\<lparr>sfd_map := (sfd_map st)(rid \<mapsto> FileFd sfd), fresh := insert rid (fresh st)\<rparr>))))"

text \<open>Extending the file appends zeros to what it holds, which is what the old mapping shows.\<close>

definition process_extend_file :: "bool \<Rightarrow> bool \<Rightarrow> bytes \<Rightarrow> int \<Rightarrow> Side \<Rightarrow> Side res" where
  "process_extend_file granted excl msg rid st =
     rbind (slice_res msg 8 12) (\<lambda>b.
     let sz = i32_from_le_bytes b in
     if sz < 0 then fail ''Invalid size: {}''
     else
       let new_size = nat sz in
       case get_sfd st rid of
         None \<Rightarrow> fail ''RID does not exist''
       | Some NotFile \<Rightarrow> fail ''Applying ExtendFile to non-File ShadowFd''
       | Some (FileFd y) \<Rightarrow>
           if file_size y > new_size then fail ''ExtendFile would shrink size''
           else if file_size y = new_size then Ok st
           else if readonly y then fail ''Tried to apply ExtendFile to read-only file''
           else if \<not> granted then fail ''Failed to resize file: {:?}''
           else
             let contents = mapping (core y) @ replicate (new_size - length (mapping (core y))) 0 in
             rbind (update_core_for_new_size granted excl contents new_size (core y)) (\<lambda>c.
             Ok (st\<lparr>sfd_map := (sfd_map st)(rid \<mapsto>
               FileFd (y\<lparr>file_size := new_size, remote_bufsize := new_size, core := c\<rparr>))\<rparr>)))"

definition queue_decomp :: "Compression \<Rightarrow> bytes \<Rightarrow> int \<Rightarrow> SharedFile \<Rightarrow> Side \<Rightarrow> Side res" where
  "queue_decomp compression view rid y st =
     rbind (usize_add (pending_apply_tasks y) 1) (\<lambda>k.
     let t = \<lparr>dc_sequence = None, msg_view = view, dc_file_size = file_size y, dc_compression = compression,
              dc_target = DecompFile (readonly y)\<rparr> in
     Ok (st\<lparr>sfd_map := (sfd_map st)(rid \<mapsto> FileFd (y\<lparr>pending_apply_tasks := k\<rparr>)),
            decompress_queue := decompress_queue st @ [(rid, t)]\<rparr>))"

definition process_file_diff :: "Compression \<Rightarrow> bytes \<Rightarrow> int \<Rightarrow> Side \<Rightarrow> Side res" where
  "process_file_diff compression view rid st =
     (case get_sfd st rid of
        None \<Rightarrow> fail ''RID not in map''
      | Some NotFile \<Rightarrow> fail ''Applying BufferDiff to non-File ShadowFd''
      | Some (FileFd y) \<Rightarrow>
          if readonly y then fail ''Applying BufferDiff to readonly ShadowFd''
          else queue_decomp compression view rid y st)"

definition process_file_fill :: "Compression \<Rightarrow> bytes \<Rightarrow> int \<Rightarrow> Side \<Rightarrow> Side res" where
  "process_file_fill compression view rid st =
     (case get_sfd st rid of
        None \<Rightarrow> fail ''RID not in map''
      | Some NotFile \<Rightarrow> fail ''Applying BufferFill to non-File ShadowFd''
      | Some (FileFd y) \<Rightarrow> queue_decomp compression view rid y st)"

text \<open>The arms of \<open>process_sfd_msg\<close> for the four types of messages to files; the other types concern other \<open>ShadowFd\<close>s.\<close>

definition process_sfd_msg :: "bool \<Rightarrow> bool \<Rightarrow> Compression \<Rightarrow> WmsgType \<Rightarrow> nat \<Rightarrow> bytes \<Rightarrow> Side \<Rightarrow> Side res" where
  "process_sfd_msg granted excl compression typ len view st =
     rbind (slice_res view 0 len) (\<lambda>msg.
     if length msg < 8 then fail ''message to shadowfd is too short, {} bytes''
     else
       rbind (slice_res msg 4 8) (\<lambda>b.
       let rid = i32_from_le_bytes b in
       if typ = OpenFile then process_open_file granted msg rid st
       else if typ = ExtendFile then process_extend_file granted excl msg rid st
       else if typ = BufferDiff then process_file_diff compression view rid st
       else if typ = BufferFill then process_file_fill compression view rid st
       else panic))"

section \<open>The work on a message\<close>

text \<open>
  The decompression tasks, run one after the other: the task decompresses its message, the result is
  applied to its target, and the main thread notes that it is done.
\<close>

fun run_decomps :: "compress_lib \<Rightarrow> (int \<times> DecompTask) list \<Rightarrow> Side \<Rightarrow> ThreadCacheComp \<Rightarrow> (Side \<times> ThreadCacheComp) res" where
  "run_decomps lib [] st cache = Ok (st, cache)"
| "run_decomps lib ((rid, t) # ts) st cache =
     rbind (run_decomp_task lib (t\<lparr>dc_sequence := Some 0\<rparr>) cache) (\<lambda>(a, cache).
     case get_sfd st rid of
       Some (FileFd y) \<Rightarrow>
         rbind (run_apply_task a (core y)) (\<lambda>(_, c).
         rbind (usize_sub (pending_apply_tasks y) 1) (\<lambda>k.
         run_decomps lib ts (st\<lparr>sfd_map := (sfd_map st)(rid \<mapsto> FileFd (y\<lparr>core := c, pending_apply_tasks := k\<rparr>))\<rparr>) cache))
     | _ \<Rightarrow> panic)"

definition deliver :: "compress_lib \<Rightarrow> Compression \<Rightarrow> bytes \<Rightarrow> Side \<Rightarrow> ThreadCacheComp \<Rightarrow> (Side \<times> ThreadCacheComp) res" where
  "deliver lib compression msg st cache =
     rbind (msg_u32 msg 0) (\<lambda>header.
     rbind (ok_or (parse_wmsg_header header) Panic) (\<lambda>(len, typ).
     rbind (process_sfd_msg True True compression typ len msg st) (\<lambda>st.
     run_decomps lib (decompress_queue st) (st\<lparr>decompress_queue := []\<rparr>) cache)))"

fun deliver_all :: "compress_lib \<Rightarrow> Compression \<Rightarrow> bytes list \<Rightarrow> Side \<Rightarrow> ThreadCacheComp \<Rightarrow> (Side \<times> ThreadCacheComp) res" where
  "deliver_all lib compression [] st cache = Ok (st, cache)"
| "deliver_all lib compression (msg # msgs) st cache =
     rbind (deliver lib compression msg st cache) (\<lambda>(st, cache). deliver_all lib compression msgs st cache)"

section \<open>Delivery of a message\<close>

definition size_header :: "WmsgType \<Rightarrow> u32" where
  "size_header t = word_of_nat (12 * 2 ^ 5 + wmsg_code t)"

definition size_msg :: "WmsgType \<Rightarrow> int \<Rightarrow> nat \<Rightarrow> bytes" where
  "size_msg t rid n = cat3x4 (u32_to_le_bytes (size_header t)) (i32_to_le_bytes rid) (u32_to_le_bytes (word_of_nat n))"

lemma size_msg_fields:
  assumes "is_i32 rid" and "n < 2 ^ 31"
  shows "length (size_msg t rid n) = 12" and "msg_u32 (size_msg t rid n) 0 = Ok (size_header t)"
    and "i32_from_le_bytes (sub_slice (size_msg t rid n) 4 8) = rid"
    and "i32_from_le_bytes (sub_slice (size_msg t rid n) 8 12) = int n"
proof -
  let ?a = "u32_to_le_bytes (size_header t)" and ?b = "i32_to_le_bytes rid" and ?c = "u32_to_le_bytes (word_of_nat n)"
  have m: "size_msg t rid n = ?a @ ?b @ ?c" by (simp add: size_msg_def cat3x4_append)
  show l: "length (size_msg t rid n) = 12" by (simp add: m)
  have "sub_slice (size_msg t rid n) 0 4 = ?a" using sub_slice_append [of "[]" ?a "?b @ ?c"] by (simp add: m)
  then show "msg_u32 (size_msg t rid n) 0 = Ok (size_header t)"
    using l by (simp add: msg_u32_def slice_res_def)
  have "sub_slice (size_msg t rid n) 4 8 = ?b" using sub_slice_append [of ?a ?b ?c] by (simp add: m)
  then show "i32_from_le_bytes (sub_slice (size_msg t rid n) 4 8) = rid" using assms(1) by simp
  have "sub_slice (size_msg t rid n) 8 12 = ?c" using sub_slice_append [of "?a @ ?b" ?c "[]"] by (simp add: m)
  moreover have "i32_from_le_bytes ?c = int n"
    using assms(2) i32_from_to_le_bytes [of "int n"] by (simp add: i32_to_le_bytes_def is_i32_def I32_MIN_def I32_MAX_def)
  ultimately show "i32_from_le_bytes (sub_slice (size_msg t rid n) 8 12) = int n" by simp
qed

text \<open>A side that has nothing left to do for its copy of a file.\<close>

definition holds :: "Side \<Rightarrow> int \<Rightarrow> bytes \<Rightarrow> bool" where
  "holds st rid bs \<longleftrightarrow> decompress_queue st = [] \<and>
     (\<exists>y. sfd_map st rid = Some (FileFd y) \<and> \<not> readonly y \<and> pending_apply_tasks y = 0 \<and> file_size y = length bs \<and>
        mapping (core y) = bs \<and> idle_mirror (mem_mirror (core y)) bs)"

lemma deliver_size_msg:
  assumes "is_i32 rid" and "n < 2 ^ 31" and "t = OpenFile \<or> t = ExtendFile"
  shows "deliver lib compression (size_msg t rid n) st cache =
    rbind (if t = OpenFile then process_open_file True (size_msg t rid n) rid st
           else process_extend_file True True (size_msg t rid n) rid st)
      (\<lambda>st. run_decomps lib (decompress_queue st) (st\<lparr>decompress_queue := []\<rparr>) cache)"
proof -
  note f = size_msg_fields [OF assms(1,2)]
  have p: "parse_wmsg_header (size_header t) = Some (12, t)" unfolding size_header_def by (rule parse_header_word) simp
  have all: "sub_slice (size_msg t rid n) 0 12 = size_msg t rid n" for t using f(1) [of t] by (simp add: sub_slice_def)
  show ?thesis unfolding deliver_def process_sfd_msg_def f(2) Let_def
    using assms(3) by (auto simp: p ok_or_def all f(1) f(3))
qed

lemma deliver_open:
  assumes "is_i32 rid" and "n < 2 ^ 31" and "decompress_queue st = []"
  shows "\<exists>st'. deliver lib compression (size_msg OpenFile rid n) st cache = Ok (st', cache) \<and> holds st' rid (replicate n 0)"
proof -
  have "Mirror_new True n True = Ok \<lparr>backing = Mmap (replicate n 0), region_size = n, ranges = []\<rparr>"
      "ExternalMapping_new True (replicate n 0) n = Ok (replicate n 0)"
    using assms(2) by (auto simp: Mirror_new_def do_mmap_def ExternalMapping_new_def ISIZE_MAX_def)
  then show ?thesis unfolding deliver_size_msg [OF assms(1,2) disjI1 [OF refl]]
    using assms(2,3)
    by (simp add: process_open_file_def size_msg_fields(1,4) [OF assms(1,2)] Let_def holds_def idle_mirror_def mirror_inv_def
        ISIZE_MAX_def)
qed

lemma update_core_ok:
  assumes "idle_mirror (mem_mirror c) bs" and "length bs \<le> n" and "n < 2 ^ 31" and "length contents = n"
  shows "\<exists>c'. update_core_for_new_size True True contents n c = Ok c' \<and> mapping c' = contents \<and>
    idle_mirror (mem_mirror c') (bs @ replicate (n - length bs) 0)"
proof -
  have m: "mirror_inv (mem_mirror c)" "ranges (mem_mirror c) = []" "region_size (mem_mirror c) = length bs" "mbytes (mem_mirror c) = bs"
    using assms(1) by (auto simp: idle_mirror_def mirror_inv_def)
  have "\<exists>m'. Mirror.extend True (mem_mirror c) n = Ok m'"
    using m assms(2,3)
    by (cases "backing (mem_mirror c)") (auto simp: Mirror.extend_def ISIZE_MAX_def do_mmap_def do_mremap_def
        AlignedArray_new_def next_multiple_of_def div_ceil_def Let_def write_at_res_def)
  then obtain m' where e: "Mirror.extend True (mem_mirror c) n = Ok m'" by blast
  have "ExternalMapping_new True contents n = Ok contents" using assms(3,4) by (auto simp: ExternalMapping_new_def ISIZE_MAX_def)
  then show ?thesis using e extend_contents [OF m(1) e] m assms(2)
    by (auto simp: update_core_for_new_size_def mirror_len_def idle_mirror_def)
qed

lemma deliver_extend:
  assumes "is_i32 rid" and "n < 2 ^ 31" and "holds st rid bs" and "length bs \<le> n"
  shows "\<exists>st'. deliver lib compression (size_msg ExtendFile rid n) st cache = Ok (st', cache) \<and>
    holds st' rid (bs @ replicate (n - length bs) 0)"
proof -
  obtain y where y: "sfd_map st rid = Some (FileFd y)" "\<not> readonly y" "pending_apply_tasks y = 0" "file_size y = length bs"
      "mapping (core y) = bs" "idle_mirror (mem_mirror (core y)) bs" "decompress_queue st = []"
    using assms(3) by (auto simp: holds_def)
  have "length (bs @ replicate (n - length bs) 0) = n" using assms(4) by simp
  note u = update_core_ok [OF y(6) assms(4,2) this]
  show ?thesis unfolding deliver_size_msg [OF assms(1,2) disjI2 [OF refl]]
    using u y assms(3,4)
    by (auto simp: process_extend_file_def size_msg_fields(1,4) [OF assms(1,2)] get_sfd_def Let_def holds_def)
qed

lemma deliver_buffer:
  assumes h: "build_wmsg_header typ (16 + length body) = Ok h" "16 + length body < 2 ^ 27" "typ = BufferDiff \<or> typ = BufferFill"
    and m: "msg = buffer_header rid h a b @ body @ pad" "a \<le> U32_MAX" "b \<le> U32_MAX" "is_i32 rid"
    and y: "sfd_map st rid = Some (FileFd y)" "decompress_queue st = []" "\<not> readonly y" "pending_apply_tasks y = 0"
    and run: "run_decomp_task lib (recv_task compression (file_size y) (DecompFile False) 0 msg) cache = Ok (t, cache')"
      "run_apply_task t (core y) = Ok (out, c)"
  shows "deliver lib compression msg st cache = Ok (st\<lparr>sfd_map := (sfd_map st)(rid \<mapsto> FileFd (y\<lparr>core := c\<rparr>))\<rparr>, cache')"
proof -
  have p: "parse_wmsg_header h = Some (16 + length body, typ)"
    using parse_header_word [OF h(2), of "typ"] build_wmsg_header_ok [OF h(2), of "typ"] h(1) by simp
  have l: "16 + length body \<le> length msg" using m(1) by simp
  note f = msg_fields [OF m]
  have r: "i32_from_le_bytes (sub_slice (sub_slice msg 0 (16 + length body)) 4 8) = rid"
    using f(2) l by (simp add: sub_slice_def drop_take min_def)
  have "process_sfd_msg True True compression typ (16 + length body) msg st = queue_decomp compression msg rid y st"
    using l r h(3) y(1,3) by (auto simp: process_sfd_msg_def process_file_diff_def process_file_fill_def get_sfd_def)
  then show ?thesis using y run f(1) p
    by (simp add: deliver_def ok_or_def queue_decomp_def get_sfd_def usize_add_def usize_def usize_sub_def
        USIZE_MAX_def recv_task_def) (cases st; cases y; simp)
qed

lemma deliver_diff:
  assumes "carries lib task msg sgs t" and "is_i32 (dt_rid task)"
    and "sfd_map st (dt_rid task) = Some (FileFd y)" and "decompress_queue st = []" and "\<not> readonly y" and "pending_apply_tasks y = 0"
    and "run_decomp_task lib (recv_task (dt_compression task) (file_size y) (DecompFile False) 0 msg) cache = Ok (a, cache')"
    and "run_apply_task a (core y) = Ok (out, c)"
  shows "deliver lib (dt_compression task) msg st cache =
    Ok (st\<lparr>sfd_map := (sfd_map st)(dt_rid task \<mapsto> FileFd (y\<lparr>core := c\<rparr>))\<rparr>, cache')"
proof -
  obtain h body k where c: "build_wmsg_header BufferDiff (16 + length body) = Ok h" "16 + length body < 2 ^ 27"
      "msg = buffer_header (dt_rid task) h (length (enc_segs sgs)) (length t) @ body @ replicate k 0"
      "length (enc_segs sgs @ t) \<le> U32_MAX"
    using assms(1) unfolding carries_def by blast
  then have "length (enc_segs sgs) \<le> U32_MAX" "length t \<le> U32_MAX" by simp_all
  from deliver_buffer [OF c(1,2) disjI1 [OF refl] c(3) this assms(2-8)] show ?thesis .
qed

end
