(* ===== verification/File_Link.thy ===== *)
theory File_Link
  imports File_Messages
begin

text \<open>
  A shared memory file over its life. The two ends of \<open>File_Messages\<close> are run together: the client
  creates the file, writes to it, commits damage, and resizes it, in any order and any number of times, and
  at any of these times the main loop collects the updates and sends them to the other side. The theorem
  says what the other side then has.
\<close>

section \<open>Sending\<close>

text \<open>Run a task and deliver its message, unless it is empty.\<close>

definition send_task ::
  "compress_lib \<Rightarrow> DiffTask \<Rightarrow> ShadowFdFileCore \<Rightarrow> ThreadCache \<Rightarrow> Side \<Rightarrow> ThreadCacheComp \<Rightarrow>
   (ShadowFdFileCore \<times> ThreadCache \<times> Side \<times> ThreadCacheComp) res" where
  "send_task lib task c cache st rcache =
     rbind (run_diff_task lib task c cache) (\<lambda>(msg, c, cache).
     if msg = [] then Ok (c, cache, st, rcache)
     else rbind (deliver lib (dt_compression task) msg st rcache) (\<lambda>(st, rcache). Ok (c, cache, st, rcache)))"

fun send_tasks ::
  "compress_lib \<Rightarrow> DiffTask list \<Rightarrow> ShadowFdFileCore \<Rightarrow> ThreadCache \<Rightarrow> Side \<Rightarrow> ThreadCacheComp \<Rightarrow>
   (ShadowFdFileCore \<times> ThreadCache \<times> Side \<times> ThreadCacheComp) res" where
  "send_tasks lib [] c cache st rcache = Ok (c, cache, st, rcache)"
| "send_tasks lib (task # tasks) c cache st rcache =
     rbind (send_task lib task c cache st rcache) (\<lambda>(c, cache, st, rcache). send_tasks lib tasks c cache st rcache)"

text \<open>The state of both ends; \<open>unreported\<close> has the bytes that the client changed and has not committed as damaged.\<close>

record Link =
  app :: SharedFile
  app_cache :: ThreadCache
  peer :: Side
  peer_cache :: ThreadCacheComp
  unreported :: "nat set"

definition no_messages :: TransferQueue where
  "no_messages = \<lparr>other_messages = [], expected_recvd_msgs = 0, construct_queue = []\<rparr>"

definition sync_link :: "compress_lib \<Rightarrow> Compression \<Rightarrow> Link \<Rightarrow> Link res" where
  "sync_link lib compression L =
     (let y = app L in
      rbind (collect_file_updates lib (FileShadowFd.truncate y) (mapping (core y)) no_messages compression) (\<lambda>(sfd, q).
      rbind (deliver_all lib compression (other_messages q) (peer L) (peer_cache L)) (\<lambda>(st, rcache).
      rbind (send_tasks lib (construct_queue q) (core y) (app_cache L) st rcache) (\<lambda>(c, cache, st, rcache).
      Ok (L\<lparr>app := FileShadowFd.extend sfd (SharedFile.fields c (pending_apply_tasks y)),
            app_cache := cache, peer := st, peer_cache := rcache\<rparr>)))))"

text \<open>The life of a file.\<close>

inductive linked :: "compress_lib \<Rightarrow> Compression \<Rightarrow> Link \<Rightarrow> bool" for lib compression where
  create: "translate_shm_fd True contents n st False False False = Ok (rid, st') \<Longrightarrow> sfd_map st' rid = Some (FileFd y) \<Longrightarrow>
    is_i32 (max_local_id st) \<Longrightarrow> 0 < n \<Longrightarrow> int n \<le> I32_MAX \<Longrightarrow> n \<le> length contents \<Longrightarrow> decompress_queue p = [] \<Longrightarrow>
    linked lib compression \<lparr>app = y, app_cache = ca, peer = p, peer_cache = rc, unreported = {i. i < n \<and> contents ! i \<noteq> 0}\<rparr>"
| client_write: "linked lib compression L \<Longrightarrow> y = app L \<Longrightarrow> length fd = file_size y \<Longrightarrow>
    linked lib compression (L\<lparr>app := y\<lparr>core := (core y)\<lparr>mapping := fd\<rparr>\<rparr>,
      unreported := unreported L \<union> {i. i < length fd \<and> fd ! i \<noteq> mapping (core y) ! i}\<rparr>)"
| report: "linked lib compression L \<Longrightarrow> y = app L \<Longrightarrow> damage_ok d \<Longrightarrow>
    \<forall>i. damage_covers (file_damage y) i \<longrightarrow> damage_covers d i \<Longrightarrow>
    linked lib compression (L\<lparr>app := y\<lparr>file_damage := d\<rparr>, unreported := {i \<in> unreported L. \<not> damage_covers d i}\<rparr>)"
| resize: "linked lib compression L \<Longrightarrow> y = app L \<Longrightarrow> is_i32 sz \<Longrightarrow> nat sz = file_size y + length ext \<Longrightarrow>
    shm_pool_resize True True (mapping (core y) @ ext) sz y = Ok y' \<Longrightarrow>
    linked lib compression (L\<lparr>app := y',
      unreported := unreported L \<union> {i. file_size y \<le> i \<and> i < nat sz \<and> ext ! (i - file_size y) \<noteq> 0}\<rparr>)"
| sync: "linked lib compression L \<Longrightarrow> sync_link lib compression L = Ok L' \<Longrightarrow> linked lib compression L'"

section \<open>Invariant\<close>

text \<open>The copies agree on \<open>old\<close>, as far as the other side knows the file, and differ from the file where an update is due.\<close>

definition copies :: "SharedFile \<Rightarrow> Side \<Rightarrow> bytes \<Rightarrow> bool" where
  "copies y st old \<longleftrightarrow> length old = file_size y \<and> idle_mirror (mem_mirror (core y)) old \<and>
     (if only_here y then old = replicate (file_size y) 0
      else remote_bufsize y \<le> file_size y \<and> holds st (remote_id y) (take (remote_bufsize y) old) \<and>
        drop (remote_bufsize y) old = replicate (file_size y - remote_bufsize y) 0)"

definition link_inv :: "Link \<Rightarrow> bool" where
  "link_inv L \<longleftrightarrow> \<not> readonly (app L) \<and> damage_ok (file_damage (app L)) \<and> is_i32 (remote_id (app L)) \<and>
     0 < file_size (app L) \<and> file_size (app L) < 2 ^ 31 \<and> length (mapping (core (app L))) = file_size (app L) \<and>
     decompress_queue (peer L) = [] \<and>
     (\<exists>old. copies (app L) (peer L) old \<and>
       (\<forall>i<file_size (app L). mapping (core (app L)) ! i \<noteq> old ! i \<longrightarrow>
          damage_covers (file_damage (app L)) i \<or> i \<in> unreported L))"

lemma send_task_ok:
  assumes task: "task_ok n task" "is_i32 (dt_rid task)" and m: "idle_mirror (mem_mirror c) old" "length old = n" "length (mapping c) = n"
    and b: "n + 8 \<le> U32_MAX" and codec: "codec_ok lib (dt_compression task)" and st: "holds st (dt_rid task) old"
  defines "new \<equiv> merge (mapping c) old (in_task n task)"
  shows "\<exists>c' cache' st' rcache'. send_task lib task c cache st rcache = Ok (c', cache', st', rcache') \<and>
    mapping c' = mapping c \<and> idle_mirror (mem_mirror c') new \<and> holds st' (dt_rid task) new"
proof -
  obtain y where y: "sfd_map st (dt_rid task) = Some (FileFd y)" "\<not> readonly y" "pending_apply_tasks y = 0" "file_size y = length old"
      "mapping (core y) = old" "idle_mirror (mem_mirror (core y)) old" "decompress_queue st = []"
    using st by (auto simp: holds_def)
  have "in_step (fst (c, cache)) (fst (core y, rcache)) old" using m(1) y by (simp add: in_step_def)
  from exchange_ok [OF task this m(2) _ b codec] m(3) obtain S' R' where x: "exchange lib task (c, cache) (core y, rcache) = Ok (S', R')"
      "mapping (fst S') = mapping c" "in_step (fst S') (fst R') new" unfolding new_def by auto
  obtain sgs t msg c' cache' where r: "run_diff_task lib task c cache = Ok (msg, c', cache')"
      "if sgs = [] \<and> t = [] then msg = [] else carries lib task msg sgs t"
    using task_message [OF task(1) m b codec, of cache] unfolding diffs_to_def by blast
  show ?thesis
  proof (cases "msg = []")
    case True
    then show ?thesis using x r(1) y by (auto simp: exchange_def send_task_def in_step_def holds_def)
  next
    case False
    then have c: "carries lib task msg sgs t" using r(2) by (auto split: if_splits)
    from x(1) r(1) False y(5) obtain a rc' out k where d:
        "run_decomp_task lib (recv_task (dt_compression task) (length old) (DecompFile False) 0 msg) rcache = Ok (a, rc')"
        "run_apply_task a (core y) = Ok (out, k)" "S' = (c', cache')" "R' = (k, rc')"
      by (auto simp: exchange_def rbind_eq_Inr_iff)
    have "length new = length old" by (simp add: new_def)
    then show ?thesis using deliver_diff [OF c task(2) y(1,7,2,3) _ d(2)] d x r(1) False y
      by (simp add: send_task_def in_step_def holds_def)
  qed
qed

lemma send_tasks_ok:
  assumes "\<forall>t\<in>set tasks. task_ok n t \<and> dt_rid t = rid \<and> dt_compression t = compression"
    and "idle_mirror (mem_mirror c) old" and "length old = n" and "mapping c = fd" and "holds st rid old"
    and "is_i32 rid" and "codec_ok lib compression" and "length fd = n" and "n + 8 \<le> U32_MAX"
  shows "\<exists>c' cache' st' rcache'. send_tasks lib tasks c cache st rcache = Ok (c', cache', st', rcache') \<and> mapping c' = fd \<and>
    idle_mirror (mem_mirror c') (merge fd old (\<lambda>i. \<exists>t\<in>set tasks. in_task n t i)) \<and>
    holds st' rid (merge fd old (\<lambda>i. \<exists>t\<in>set tasks. in_task n t i))"
  using assms(1-5)
proof (induction tasks arbitrary: c cache st rcache old)
  case Nil
  then show ?case using merge_eq_old [of old "\<lambda>_. False" fd] by simp
next
  case (Cons t ts)
  have t: "task_ok n t" "is_i32 (dt_rid t)" "length (mapping c) = n" "codec_ok lib (dt_compression t)" "holds st (dt_rid t) old"
      "dt_rid t = rid"
    using Cons.prems assms(6-8) by simp_all
  obtain c' ca' st' rc' where 1: "send_task lib t c cache st rcache = Ok (c', ca', st', rc')" "mapping c' = fd"
      "idle_mirror (mem_mirror c') (merge fd old (in_task n t))" "holds st' rid (merge fd old (in_task n t))"
    using send_task_ok [OF t(1,2) Cons.prems(2,3) t(3) assms(9) t(4,5), of cache rcache, unfolded t(6) Cons.prems(4)] by blast
  have "\<forall>t\<in>set ts. task_ok n t \<and> dt_rid t = rid \<and> dt_compression t = compression"
      "length (merge fd old (in_task n t)) = n" using Cons.prems(1,3) by simp_all
  from Cons.IH [OF this(1) 1(3) this(2) 1(2,4), of ca' rc'] obtain c'' ca'' st'' rc'' where
    "send_tasks lib ts c' ca' st' rc' = Ok (c'', ca'', st'', rc'')" "mapping c'' = fd"
    "idle_mirror (mem_mirror c'') (merge fd (merge fd old (in_task n t)) (\<lambda>i. \<exists>t\<in>set ts. in_task n t i))"
    "holds st'' rid (merge fd (merge fd old (in_task n t)) (\<lambda>i. \<exists>t\<in>set ts. in_task n t i))" by blast
  moreover have "merge fd (merge fd old (in_task n t)) (\<lambda>i. \<exists>t\<in>set ts. in_task n t i) =
      merge fd old (\<lambda>i. \<exists>t\<in>set (t # ts). in_task n t i)"
    by (simp add: merge_merge)
  ultimately show ?case using 1(1) by simp
qed

text \<open>The message that announces the file, or its new size, brings the other side up to the size of the file.\<close>

lemma announce_ok:
  assumes "copies y st old" and "decompress_queue st = []" and "is_i32 (remote_id y)" and "file_size y < 2 ^ 31"
  shows "\<exists>st'. deliver_all lib compression (announce (FileShadowFd.truncate y)) st rcache = Ok (st', rcache) \<and>
    holds st' (remote_id y) old"
proof -
  let ?rid = "remote_id y" and ?n = "file_size y" and ?m = "remote_bufsize y"
  have a: "announce (FileShadowFd.truncate y) =
      (if only_here y then [size_msg OpenFile ?rid ?n] else if ?m < ?n then [size_msg ExtendFile ?rid ?n] else [])"
    by (simp add: announce_def FileShadowFd.defs size_msg_def size_header_def)
  show ?thesis
  proof (cases "only_here y")
    case True
    then show ?thesis unfolding a
      using deliver_open [OF assms(3,4,2), of lib compression rcache] assms(1) by (auto simp: copies_def)
  next
    case False
    then have h: "holds st ?rid (take ?m old)" "drop ?m old = replicate (?n - ?m) 0" "?m \<le> ?n" "length old = ?n"
      using assms(1) by (simp_all add: copies_def)
    have "take ?m old @ replicate (?n - ?m) 0 = old" using h(2) append_take_drop_id [of ?m old] by simp
    moreover have "length (take ?m old) = ?m" using h(3,4) by simp
    ultimately show ?thesis unfolding a
      using False h deliver_extend [OF assms(3,4) h(1), of lib compression rcache] by (auto simp: not_less)
  qed
qed

lemma sync_ok:
  assumes inv: "link_inv L" and codec: "codec_ok lib compression"
  shows "\<exists>L' new. sync_link lib compression L = Ok L' \<and> mapping (core (app L')) = mapping (core (app L)) \<and>
    file_size (app L') = file_size (app L) \<and> remote_id (app L') = remote_id (app L) \<and> readonly (app L') = readonly (app L) \<and>
    remote_bufsize (app L') = file_size (app L) \<and> \<not> only_here (app L') \<and> file_damage (app L') = Intervals [] \<and>
    unreported L' = unreported L \<and> idle_mirror (mem_mirror (core (app L'))) new \<and> holds (peer L') (remote_id (app L)) new \<and>
    length new = file_size (app L) \<and>
    (\<forall>i<file_size (app L). i \<notin> unreported L \<longrightarrow> new ! i = mapping (core (app L)) ! i)"
proof -
  let ?y = "app L" and ?s = "FileShadowFd.truncate (app L)" and ?n = "file_size (app L)" and ?fd = "mapping (core (app L))"
  obtain old where i: "\<not> readonly ?y" "damage_ok (file_damage ?y)" "is_i32 (remote_id ?y)" "0 < ?n" "?n < 2 ^ 31"
      "length ?fd = ?n" "decompress_queue (peer L) = []" "copies ?y (peer L) old"
      "\<forall>i<?n. ?fd ! i \<noteq> old ! i \<longrightarrow> damage_covers (file_damage ?y) i \<or> i \<in> unreported L"
    using inv by (auto simp: link_inv_def)
  have s: "\<not> readonly ?s" "damage_ok (file_damage ?s)" "0 < file_size ?s" "file_size ?s + 8 \<le> U32_MAX"
      "expected_recvd_msgs no_messages + 2 ^ 15 \<le> USIZE_MAX"
    using i(1,2,4,5) by (simp_all add: FileShadowFd.defs no_messages_def U32_MAX_def USIZE_MAX_def)
  have t: "file_size ?s = ?n" "file_damage ?s = file_damage ?y" "remote_id ?s = remote_id ?y" by (simp_all add: FileShadowFd.defs)
  obtain tasks where u: "collect_file_updates lib ?s ?fd no_messages compression = Ok (queued ?s no_messages tasks)"
      "\<forall>t\<in>set tasks. task_ok ?n t \<and> dt_rid t = remote_id ?y \<and> dt_compression t = compression"
      "\<forall>i<?n. damage_covers (file_damage ?y) i \<longrightarrow> (\<exists>t\<in>set tasks. in_task ?n t i)"
    by (rule collect_tasks [OF s, unfolded t])
  obtain st where a: "deliver_all lib compression (announce ?s) (peer L) (peer_cache L) = Ok (st, peer_cache L)"
      "holds st (remote_id ?y) old"
    using announce_ok [OF i(8,7,3,5)] by blast
  let ?new = "merge ?fd old (\<lambda>i. \<exists>t\<in>set tasks. in_task ?n t i)"
  have o: "idle_mirror (mem_mirror (core ?y)) old" "length old = ?n" using i(8) by (simp_all add: copies_def)
  obtain c ca st' rc where x: "send_tasks lib tasks (core ?y) (app_cache L) st (peer_cache L) = Ok (c, ca, st', rc)"
      "mapping c = ?fd" "idle_mirror (mem_mirror c) ?new" "holds st' (remote_id ?y) ?new"
    using send_tasks_ok [OF u(2) o refl a(2) i(3) codec i(6), of "app_cache L" "peer_cache L"] s(4) by (auto simp: t)
  have "?new ! k = ?fd ! k" if "k < ?n" "k \<notin> unreported L" for k
    using merged_bytes [OF u(3) o(2) that(1), of ?fd] i(9) that by metis
  moreover have "max (remote_bufsize ?y) ?n = ?n" if "\<not> only_here ?y" using i(8) that by (auto simp: copies_def)
  moreover define s' where "s' = fst (queued ?s no_messages tasks)"
  moreover define L' where "L' = L\<lparr>app := FileShadowFd.extend s' (SharedFile.fields c (pending_apply_tasks ?y)),
    app_cache := ca, peer := st', peer_cache := rc\<rparr>"
  moreover have "sync_link lib compression L = Ok L'"
    using u(1) a(1) x(1) by (simp add: sync_link_def L'_def s'_def queued_def no_messages_def Let_def)
  ultimately show ?thesis using x(2-4) o(2)
    by (intro exI [of _ L'] exI [of _ ?new]) (auto simp: queued_def FileShadowFd.defs SharedFile.defs)
qed

lemma create_inv:
  assumes "translate_shm_fd True contents n st False False False = Ok (rid, st')" and "sfd_map st' rid = Some (FileFd y)"
    and "is_i32 (max_local_id st)" and "0 < n" and "int n \<le> I32_MAX" and "n \<le> length contents" and "decompress_queue p = []"
  shows "link_inv \<lparr>app = y, app_cache = ca, peer = p, peer_cache = rc, unreported = {i. i < n \<and> contents ! i \<noteq> 0}\<rparr>"
proof -
  obtain mir where m: "Mirror_new True n True = Ok mir" and rid: "rid = max_local_id st"
    and y: "y = \<lparr>file_size = n, file_damage = Intervals [], remote_bufsize = 0, readonly = False, remote_id = rid, only_here = True,
       core = \<lparr>mem_mirror = mir, mapping = take n contents\<rparr>, pending_apply_tasks = 0\<rparr>"
    using assms(1,2,4) by (auto simp: translate_shm_fd_def rbind_eq_Inr_iff allocate_rid_def ExternalMapping_new_def Let_def
        split: if_splits)
  have "idle_mirror mir (replicate n 0)"
    using m assms(4) by (auto simp: idle_mirror_def mirror_inv_def Mirror_new_def do_mmap_def split: if_splits)
  then show ?thesis using assms(3-7)
    by (auto simp: link_inv_def copies_def y rid I32_MAX_def validate_output_def intro!: exI [of _ "replicate n 0"])
qed

lemma link_invI:
  assumes "\<not> readonly (app L)" "damage_ok (file_damage (app L))" "is_i32 (remote_id (app L))" "0 < file_size (app L)"
    "file_size (app L) < 2 ^ 31" "length (mapping (core (app L))) = file_size (app L)" "decompress_queue (peer L) = []"
    "copies (app L) (peer L) old"
    "\<And>i. i < file_size (app L) \<Longrightarrow> mapping (core (app L)) ! i \<noteq> old ! i \<Longrightarrow>
       damage_covers (file_damage (app L)) i \<or> i \<in> unreported L"
  shows "link_inv L"
  using assms unfolding link_inv_def by blast

lemma link_invE:
  assumes "link_inv L"
  obtains old where "\<not> readonly (app L)" "damage_ok (file_damage (app L))" "is_i32 (remote_id (app L))" "0 < file_size (app L)"
    "file_size (app L) < 2 ^ 31" "length (mapping (core (app L))) = file_size (app L)" "decompress_queue (peer L) = []"
    "copies (app L) (peer L) old"
    "\<And>i. i < file_size (app L) \<Longrightarrow> mapping (core (app L)) ! i \<noteq> old ! i \<Longrightarrow>
       damage_covers (file_damage (app L)) i \<or> i \<in> unreported L"
  using assms unfolding link_inv_def by blast

lemma copies_cong:
  "copies y st old \<Longrightarrow> file_size y' = file_size y \<Longrightarrow> mem_mirror (core y') = mem_mirror (core y) \<Longrightarrow> only_here y' = only_here y \<Longrightarrow>
   remote_bufsize y' = remote_bufsize y \<Longrightarrow> remote_id y' = remote_id y \<Longrightarrow> copies y' st old"
  by (simp add: copies_def)

lemma resize_inv:
  assumes "link_inv L" and "is_i32 sz" and "nat sz = file_size (app L) + length ext"
    and "shm_pool_resize True True (mapping (core (app L)) @ ext) sz (app L) = Ok y'"
  shows "link_inv (L\<lparr>app := y', unreported := unreported L \<union>
    {i. file_size (app L) \<le> i \<and> i < nat sz \<and> ext ! (i - file_size (app L)) \<noteq> 0}\<rparr>)"
proof -
  let ?y = "app L" and ?n = "file_size (app L)" and ?fd = "mapping (core (app L))"
  obtain old where i: "\<not> readonly ?y" "damage_ok (file_damage ?y)" "is_i32 (remote_id ?y)" "0 < ?n" "?n < 2 ^ 31"
      "length ?fd = ?n" "decompress_queue (peer L) = []" "copies ?y (peer L) old"
      "\<forall>i<?n. ?fd ! i \<noteq> old ! i \<longrightarrow> damage_covers (file_damage ?y) i \<or> i \<in> unreported L"
    using assms(1) by (auto simp: link_inv_def)
  have sz: "nat sz < 2 ^ 31" "?n \<le> nat sz" "length (?fd @ ext) = nat sz"
    using assms(2,3) i(6) by (auto simp: is_i32_def I32_MAX_def)
  have o: "idle_mirror (mem_mirror (core ?y)) old" "length old = ?n" using i(8) by (simp_all add: copies_def)
  let ?old = "old @ replicate (nat sz - ?n) 0"
  obtain c where c: "y' = ?y\<lparr>file_size := nat sz, core := c\<rparr>" "mapping c = ?fd @ ext" "idle_mirror (mem_mirror c) ?old"
    using update_core_ok [OF o(1) _ sz(1,3)] sz(2) o(2) assms(4)
    by (auto simp: shm_pool_resize_def split: if_splits)
  have "copies y' (peer L) ?old"
    using i(8) o(2) c(1,3) sz(2) by (auto simp: copies_def replicate_add [symmetric])
  moreover have "damage_covers (file_damage ?y) k \<or> k \<in> unreported L \<or> ?n \<le> k \<and> ext ! (k - ?n) \<noteq> 0"
    if "k < nat sz" "(?fd @ ext) ! k \<noteq> ?old ! k" for k
    using that i(6,9) o(2) by (cases "k < ?n") (auto simp: nth_append)
  ultimately show ?thesis using i(1-7) sz c(1,2) by (intro link_invI [where old = ?old]) (simp_all, blast?)
qed

lemma sync_inv:
  assumes "link_inv L" and "codec_ok lib compression" and "sync_link lib compression L = Ok L'"
  shows "link_inv L'"
proof -
  obtain new where n: "mapping (core (app L')) = mapping (core (app L))" "file_size (app L') = file_size (app L)"
      "remote_id (app L') = remote_id (app L)" "readonly (app L') = readonly (app L)" "remote_bufsize (app L') = file_size (app L)"
      "\<not> only_here (app L')" "file_damage (app L') = Intervals []" "unreported L' = unreported L"
      "idle_mirror (mem_mirror (core (app L'))) new" "holds (peer L') (remote_id (app L)) new" "length new = file_size (app L)"
      "\<forall>i<file_size (app L). i \<notin> unreported L \<longrightarrow> new ! i = mapping (core (app L)) ! i"
    using sync_ok [OF assms(1,2)] assms(3) by auto
  have c: "copies (app L') (peer L') new" using n by (simp add: copies_def)
  from assms(1) show ?thesis
  proof (rule link_invE)
    fix old
    assume "\<not> readonly (app L)" "is_i32 (remote_id (app L))" "0 < file_size (app L)" "file_size (app L) < 2 ^ 31"
      "length (mapping (core (app L))) = file_size (app L)"
    then show ?thesis using n by (intro link_invI [OF _ _ _ _ _ _ _ c]) (auto simp: holds_def validate_output_def)
  qed
qed

lemma linked_inv:
  assumes "linked lib compression L" and "codec_ok lib compression"
  shows "link_inv L"
  using assms(1)
proof induction
  case (create contents n st rid st' y p ca rc)
  then show ?case by (intro create_inv)
next
  case (client_write L y fd)
  from client_write.IH show ?case
  proof (rule link_invE)
    fix old
    assume i: "\<not> readonly (app L)" "damage_ok (file_damage (app L))" "is_i32 (remote_id (app L))" "0 < file_size (app L)"
      "file_size (app L) < 2 ^ 31" "decompress_queue (peer L) = []" and c: "copies (app L) (peer L) old"
      and d: "\<And>i. i < file_size (app L) \<Longrightarrow> mapping (core (app L)) ! i \<noteq> old ! i \<Longrightarrow>
        damage_covers (file_damage (app L)) i \<or> i \<in> unreported L"
    have "copies (y\<lparr>core := (core y)\<lparr>mapping := fd\<rparr>\<rparr>) (peer L) old" using c client_write.hyps(2) by (auto intro: copies_cong)
    moreover have "damage_covers (file_damage y) k \<or> k \<in> unreported L \<or> fd ! k \<noteq> mapping (core y) ! k"
      if "k < file_size y" "fd ! k \<noteq> old ! k" for k using d [of k] that client_write.hyps(2) by auto
    ultimately show ?thesis using i client_write.hyps(2,3) by (intro link_invI [where old = old]) auto
  qed
next
  case (report L y d)
  from report.IH show ?case
  proof (rule link_invE)
    fix old
    assume i: "\<not> readonly (app L)" "is_i32 (remote_id (app L))" "0 < file_size (app L)"
      "file_size (app L) < 2 ^ 31" "decompress_queue (peer L) = []" "length (mapping (core (app L))) = file_size (app L)"
      "copies (app L) (peer L) old"
      "\<And>i. i < file_size (app L) \<Longrightarrow> mapping (core (app L)) ! i \<noteq> old ! i \<Longrightarrow>
        damage_covers (file_damage (app L)) i \<or> i \<in> unreported L"
    then show ?thesis using report.hyps(2-4) by (intro link_invI [where old = old]) (auto intro: copies_cong)
  qed
next
  case (resize L y sz ext y')
  then show ?case using resize_inv [of L sz ext y'] by simp
next
  case (sync L L')
  show ?case using sync.IH assms(2) sync.hyps(2) by (rule sync_inv)
qed

section \<open>Properties\<close>

text \<open>
  C1: the other side catches up. Whatever a client has done with a shared memory file since it created
  it (written to it, committed damage, resized the pool, with updates sent at any of these times), sending
  the updates succeeds: no assertion fails, no message is refused, all tasks run. Afterwards the other
  side has a file of the same size with the same bytes, except perhaps where the client changed bytes and has
  not committed damage for them; nothing is left to send, and the client and the main loop can go on from
  there. The compression libraries are assumed to do what their documentation says.
\<close>

theorem linked_file_syncs:
  assumes "linked lib compression L" and "codec_ok lib compression"
  shows "\<exists>L' r. sync_link lib compression L = Ok L' \<and> linked lib compression L' \<and>
    sfd_map (peer L') (remote_id (app L)) = Some (FileFd r) \<and> length (mapping (core r)) = length (mapping (core (app L))) \<and>
    (\<forall>i<length (mapping (core (app L))). mapping (core r) ! i = mapping (core (app L)) ! i \<or> i \<in> unreported L) \<and>
    file_damage (app L') = Intervals [] \<and> pending_apply_tasks r = 0 \<and> decompress_queue (peer L') = []"
proof -
  have inv: "link_inv L" using assms by (rule linked_inv)
  then have "length (mapping (core (app L))) = file_size (app L)" by (simp add: link_inv_def)
  moreover obtain L' new where s: "sync_link lib compression L = Ok L'" "file_damage (app L') = Intervals []"
      "holds (peer L') (remote_id (app L)) new" "length new = file_size (app L)"
      "\<forall>i<file_size (app L). i \<notin> unreported L \<longrightarrow> new ! i = mapping (core (app L)) ! i"
    using sync_ok [OF inv assms(2)] by blast
  moreover have "linked lib compression L'" using linked.sync [OF assms(1) s(1)] .
  ultimately show ?thesis unfolding holds_def by auto
qed

text \<open>A client that shares a file of five bytes, the first three of them for the pool, and commits all of it as damaged.\<close>

definition ex_side :: "int \<Rightarrow> Side" where
  "ex_side k = \<lparr>sfd_map = Map.empty, fresh = {}, max_local_id = k, decompress_queue = []\<rparr>"

definition ex_shared :: SharedFile where
  "ex_shared = \<lparr>file_size = 3, file_damage = Intervals [], remote_bufsize = 0, readonly = False, remote_id = 1, only_here = True,
     core = \<lparr>mem_mirror = \<lparr>backing = Mmap [0, 0, 0], region_size = 3, ranges = []\<rparr>, mapping = [7, 8, 9]\<rparr>, pending_apply_tasks = 0\<rparr>"

definition ex_link :: Link where
  "ex_link = \<lparr>app = ex_shared\<lparr>file_damage := Everything\<rparr>, app_cache = \<lparr>large = [], cache_comp = ex_contexts\<rparr>,
     peer = ex_side (- 1), peer_cache = ex_contexts, unreported = {}\<rparr>"

lemma ex_linked: "linked ex_lib (Lz4 0) ex_link"
proof -
  let ?st = "(ex_side 1)\<lparr>sfd_map := [1 \<mapsto> FileFd ex_shared], max_local_id := 2\<rparr>"
  have "translate_shm_fd True [7, 8, 9, 10, 11] 3 (ex_side 1) False False False = Ok (1, ?st)"
    by (simp add: translate_shm_fd_def allocate_rid_def ex_side_def ex_shared_def ExternalMapping_new_def Mirror_new_def do_mmap_def
        is_i32_def I32_MIN_def I32_MAX_def ISIZE_MAX_def numeral_3_eq_3)
  from linked.create [OF this, of ex_shared "ex_side (- 1)" ex_lib "Lz4 0" "\<lparr>large = [], cache_comp = ex_contexts\<rparr>" ex_contexts]
  have "linked ex_lib (Lz4 0) (ex_link\<lparr>app := ex_shared, unreported := {i. i < 3 \<and> [7, 8, 9, 10, 11 :: u8] ! i \<noteq> 0}\<rparr>)"
    by (simp add: ex_side_def ex_link_def is_i32_def I32_MIN_def I32_MAX_def)
  from linked.report [OF this refl, of Everything] show ?thesis by (simp add: ex_link_def)
qed

theorem linked_file_syncs_witness:
  "\<exists>L' r. sync_link ex_lib (Lz4 0) ex_link = Ok L' \<and> sfd_map (peer L') 1 = Some (FileFd r) \<and> mapping (core r) = [7, 8, 9]"
proof -
  have x: "unreported ex_link = {}" "mapping (core (app ex_link)) = [7, 8, 9]" "remote_id (app ex_link) = 1"
    by (simp_all add: ex_link_def ex_shared_def)
  from linked_file_syncs [OF ex_linked ex_lib_ok(1), unfolded x] obtain L' r where
    l: "sync_link ex_lib (Lz4 0) ex_link = Ok L'" "sfd_map (peer L') 1 = Some (FileFd r)"
      "length (mapping (core r)) = length [7, 8, 9 :: u8]"
      "\<forall>i<length [7, 8, 9 :: u8]. mapping (core r) ! i = [7, 8, 9] ! i \<or> i \<in> {}"
    by blast
  have "mapping (core r) = [7, 8, 9]" by (rule nth_equalityI [OF l(3)]) (use l(3,4) in auto)
  then show ?thesis using l(1,2) by blast
qed

end
