(* ===== verification/File_Fill.thy ===== *)
theory File_Fill
  imports File_Messages
begin

text \<open>
  Files that are sent once: what \<open>construct_fill_transfers\<close> sends for a read-only file (a keymap, a table of
  formats) gives the other side a file with the same contents.
\<close>

section \<open>One shard\<close>

lemma fill_compress_ok:
  assumes "codec_ok lib compression" and "length data \<le> 0x70000000"
  obtains out where "fill_compress lib compression data = Ok out" and "length out \<le> length data + length data div 255 + 64"
    and "\<And>c. \<exists>c'. decomp_into_vec lib compression c out (length data) = Ok (data, c')"
proof -
  define fc :: ThreadCacheComp where "fc = \<lparr>lz4_c = False, zstd_c = False, zstd_d = False\<rparr>"
  obtain out cache' where o: "comp_into_vec lib compression fc data 0 0 = Ok (replicate 0 0 @ out @ replicate 0 0, cache')"
      "length out \<le> length data + length data div 255 + 64" "\<And>c. \<exists>c'. decomp_into_vec lib compression c out (length data) = Ok (data, c')"
    by (rule comp_into_vec_shape [OF assms(1,2), of 0 0 fc]) simp_all
  have "fill_compress lib compression data = Ok out"
    using o(1) by (cases compression) (auto simp: fill_compress_def comp_into_vec_def get_lz4_cctx_def get_zstd_cctx_def fc_def
        rbind_eq_Inr_iff split: if_splits)
  then show ?thesis using that o(2,3) by blast
qed

text \<open>The messages for the bytes from \<open>a\<close> to \<open>b\<close>, as they follow each other in the channel.\<close>

definition fill_msg :: "compress_lib \<Rightarrow> Compression \<Rightarrow> int \<Rightarrow> bytes \<Rightarrow> nat \<Rightarrow> nat \<Rightarrow> bytes \<Rightarrow> bool" where
  "fill_msg lib compression rid fd a b msg \<longleftrightarrow>
     (\<exists>h body k. build_wmsg_header BufferFill (16 + length body) = Ok h \<and> 16 + length body < 2 ^ 27 \<and>
        msg = buffer_header rid h a b @ body @ replicate k 0 \<and> length msg = next_multiple_of (16 + length body) 4 \<and>
        (\<forall>c. \<exists>c'. decomp_into_vec lib compression c body (b - a) = Ok (sub_slice fd a b, c')))"

lemma push_fill_ok:
  assumes "codec_ok lib compression" and "a < b" and "b \<le> length fd" and "b - a \<le> 0x100000"
  shows "\<exists>q' ms. push_fill lib rid fd compression a b q = Ok q' \<and> q' = q\<lparr>other_messages := other_messages q @ ms\<rparr> \<and>
    fill_msg lib compression rid fd a b (concat ms)"
proof -
  let ?d = "sub_slice fd a b"
  have l: "length ?d = b - a" using assms(2,3) by simp
  obtain out where o: "fill_compress lib compression ?d = Ok out" "length out \<le> (b - a) + (b - a) div 255 + 64"
      "\<And>c. \<exists>c'. decomp_into_vec lib compression c out (b - a) = Ok (?d, c')"
    using fill_compress_ok [OF assms(1), of ?d] assms(4) unfolding l by auto
  have "(b - a) div 255 \<le> 0x100000 div 255" using assms(4) by (rule div_le_mono)
  then have s: "16 + length out < 2 ^ 27" using o(2) assms(4) by simp
  then obtain h where h: "build_wmsg_header BufferFill (16 + length out) = Ok h" using build_wmsg_header_ok by blast
  let ?k = "next_multiple_of (length out) 4 - length out" and ?h = "buffer_header rid h a b"
  have al: "align4 (length out) = Ok (next_multiple_of (length out) 4)" using s by (intro align4_ok) (simp add: USIZE_MAX_def)
  have "push_fill lib rid fd compression a b q =
      Ok (q\<lparr>other_messages := other_messages q @ [?h, out] @ (if 0 < ?k then [replicate ?k 0] else [])\<rparr>)"
    using assms(2,3) o(1) h al next_multiple_4(4) [of "length out"]
    by (auto simp: push_fill_def usize_sub_def copy_from_mapping_def Let_def push_msg_def buffer_header_def cat4x4_append)
  moreover have "concat ([?h, out] @ (if 0 < ?k then [replicate ?k 0] else [])) = ?h @ out @ replicate ?k 0" by auto
  moreover have "length (?h @ out @ replicate ?k 0) = next_multiple_of (16 + length out) 4"
    using next_multiple_4(1,4) [of "length out"] by simp
  ultimately show ?thesis unfolding fill_msg_def using h s o(3) by metis
qed

text \<open>Delivered, they replace these bytes on the other side.\<close>

lemma deliver_fill:
  assumes "fill_msg lib compression rid fd a b msg" and "a < b" and "b \<le> length fd" and "length fd < 2 ^ 31" and "is_i32 rid"
    and "holds st rid bs" and "length bs = length fd"
  shows "\<exists>st' cache'. deliver lib compression msg st cache = Ok (st', cache') \<and> holds st' rid (write_at bs a (sub_slice fd a b))"
proof -
  let ?d = "sub_slice fd a b"
  obtain h body k where m: "build_wmsg_header BufferFill (16 + length body) = Ok h" "16 + length body < 2 ^ 27"
      "msg = buffer_header rid h a b @ body @ replicate k 0"
      "\<forall>c. \<exists>c'. decomp_into_vec lib compression c body (b - a) = Ok (?d, c')"
    using assms(1) unfolding fill_msg_def by blast
  obtain y where y: "sfd_map st rid = Some (FileFd y)" "\<not> readonly y" "pending_apply_tasks y = 0" "file_size y = length bs"
      "mapping (core y) = bs" "idle_mirror (mem_mirror (core y)) bs" "decompress_queue st = []"
    using assms(6) by (auto simp: holds_def)
  have u: "a \<le> U32_MAX" "b \<le> U32_MAX" using assms(2-4) by (simp_all add: U32_MAX_def)
  note f = msg_fields [OF m(3) u assms(5)]
  have p: "parse_wmsg_header h = Some (16 + length body, BufferFill)"
    using parse_header_word [OF m(2), of BufferFill] build_wmsg_header_ok [OF m(2), of BufferFill] m(1) by simp
  obtain v w z where v: "msg_u32 msg 8 = Ok v" "unat v = a" "msg_u32 msg 12 = Ok w" "unat w = b"
      "slice_res msg 4 8 = Ok z" "i32_from_le_bytes z = rid"
    using f(2-4) by (auto simp: rbind_eq_Inr_iff)
  let ?t = "\<lparr>ap_sequence = 0, ap_remote_id = rid, ap_data = ?d, is_diff_type = False, ap_ntrailing = 0,
    ap_target = DecompFile False, region_start = a, region_end = b\<rparr>"
  obtain c' where "decomp_into_vec lib compression cache body (b - a) = Ok (?d, c')" using m(4) by blast
  then have r: "run_decomp_task lib (recv_task compression (file_size y) (DecompFile False) 0 msg) cache = Ok (?t, c')"
    using f(1,5) p v assms(2)
    by (simp add: run_decomp_task_def decomp_fill_def recv_task_def ok_or_def Let_def)
  have l: "length ?d = b - a" "b \<le> length bs" using assms(2,3,7) by simp_all
  have "(\<lambda>data. rbind (assert_that (length data = length ?d)) (\<lambda>_. Ok ((), ?d))) (sub_slice bs a b) = Ok ((), ?d)"
    using l assms(2) by simp
  from with_range_ok [where f = "\<lambda>data. rbind (assert_that (length data = length ?d)) (\<lambda>_. Ok ((), ?d))"
      and err = "''Failed to acquire mirror range {}..{} when applying''", OF y(6) assms(2) l(2) this l(1)]
  obtain mir where "run_apply_task ?t (core y) =
      Ok (ApplyDone rid, \<lparr>mem_mirror = mir, mapping = write_at bs a ?d\<rparr>)" "idle_mirror mir (write_at bs a ?d)"
    using l assms(2) y(5) by (auto simp: run_apply_task_def run_apply_shm_def copy_onto_mapping_def)
  with deliver_buffer [OF m(1,2) disjI2 [OF refl] m(3) u assms(5) y(1,7,2,3) r this(1)] y l assms(2) show ?thesis
    by (auto simp: holds_def length_write_at)
qed

section \<open>All shards\<close>

text \<open>A message with its padding, as the channel carries it.\<close>

definition framed :: "bytes \<Rightarrow> bool" where
  "framed msg \<longleftrightarrow> (\<exists>h len t. msg_u32 msg 0 = Ok h \<and> parse_wmsg_header h = Some (len, t) \<and> length msg = next_multiple_of len 4)"

lemma fill_msg_framed:
  assumes "fill_msg lib compression rid fd a b msg"
  shows "framed msg"
proof -
  obtain h body k where m: "build_wmsg_header BufferFill (16 + length body) = Ok h" "16 + length body < 2 ^ 27"
      "msg = buffer_header rid h a b @ body @ replicate k 0" "length msg = next_multiple_of (16 + length body) 4"
    using assms unfolding fill_msg_def by blast
  have "sub_slice msg 0 4 = u32_to_le_bytes h" using m(3) by (simp add: sub_slice_def buffer_header_def)
  then have "msg_u32 msg 0 = Ok h" using m(3) by (simp add: msg_u32_def)
  moreover have "parse_wmsg_header h = Some (16 + length body, BufferFill)"
    using parse_header_word [OF m(2), of BufferFill] build_wmsg_header_ok [OF m(2), of BufferFill] m(1) by simp
  ultimately show ?thesis using m(4) by (auto simp: framed_def)
qed

definition fill_cut :: "nat \<Rightarrow> nat \<Rightarrow> nat \<Rightarrow> nat" where
  "fill_cut n ns i = (if i = ns then n else part_cut ns (n div 64) i)"

lemma fill_cut_le:
  assumes "j \<le> ns" and "0 < ns"
  shows "64 * (j * (n div 64) div ns) \<le> 64 * (n div 64)" and "64 * (n div 64) \<le> n" and "fill_cut n ns j \<le> n"
proof -
  have "j * (n div 64) div ns \<le> ns * (n div 64) div ns" using assms(1) by (intro div_le_mono) simp
  then show a: "64 * (j * (n div 64) div ns) \<le> 64 * (n div 64)" using assms(2) by simp
  show b: "64 * (n div 64) \<le> n" by simp
  show "fill_cut n ns j \<le> n" unfolding fill_cut_def part_cut_def using order_trans [OF a b] by simp
qed

lemma fill_shards_ok:
  assumes "codec_ok lib compression" and "length fd = n" and "n < 2 ^ 31" and "is_i32 rid" and "0 < ns" and "ns < 2 ^ 15"
    and step: "\<And>i. i < ns \<Longrightarrow> fill_cut n ns i < fill_cut n ns (i + 1) \<and> fill_cut n ns (i + 1) - fill_cut n ns i \<le> 0x100000"
    and "i \<le> ns" and "holds st rid (take (fill_cut n ns i) fd @ drop (fill_cut n ns i) bs)" and "length bs = n"
  shows "\<exists>ms msgs st' cache'. fill_shards lib rid n fd compression ns i q = Ok (q\<lparr>other_messages := other_messages q @ ms\<rparr>) \<and>
    concat msgs = concat ms \<and> list_all framed msgs \<and>
    deliver_all lib compression msgs st cache = Ok (st', cache') \<and> holds st' rid fd"
  using assms(8,9)
proof (induction "ns - i" arbitrary: i q st cache)
  case 0
  then have "i = ns" by simp
  then have "holds st rid fd" using 0(3) assms(2,10) by (simp add: fill_cut_def)
  moreover have "fill_shards lib rid n fd compression ns i q = Ok (q\<lparr>other_messages := other_messages q @ []\<rparr>)"
    using \<open>i = ns\<close> by (subst fill_shards.simps) simp
  ultimately show ?case by (intro exI [of _ "[]"]) simp
next
  case (Suc k)
  let ?c = "fill_cut n ns" and ?N = "n div 64"
  have i: "i < ns" using Suc.hyps(2) by simp
  have N: "as_u32_nat ?N = ?N" using assms(3) by (intro as_u32_nat_id) (simp add: U32_MAX_def)
  have si: "split_interval 0 ?N ns j = Ok (j * ?N div ns)" if "j \<le> ns" for j
    using split_interval_ok [of 0 ?N ns j] assms(3,5,6) that by (simp add: U32_MAX_def)
  note le = fill_cut_le [OF _ assms(5), where n = n]
  have "fill_shards lib rid n fd compression ns i q =
      rbind (push_fill lib rid fd compression (?c i) (?c (i + 1)) q) (fill_shards lib rid n fd compression ns (i + 1))"
  proof -
    have j: "u32_nat (64 * (j * ?N div ns)) = Ok (64 * (j * ?N div ns))" if "j \<le> ns" for j
      using le(1) [OF that] le(2) [OF that] assms(3) by (simp add: u32_nat_def U32_MAX_def)
    have e: "(if i = ns - 1 then u32_nat (64 * ((i + 1) * ?N div ns) + as_u32_nat (n mod 64)) else Ok (64 * ((i + 1) * ?N div ns))) =
        Ok (?c (i + 1))"
    proof (cases "i = ns - 1")
      case True
      then have "(i + 1) * ?N div ns = ?N" "i + 1 = ns" using i by simp_all
      then show ?thesis using True assms(3) by (simp add: fill_cut_def u32_nat_def as_u32_nat_id U32_MAX_def)
    next
      case False
      then show ?thesis using i by (auto simp: fill_cut_def part_cut_def)
    qed
    have ci: "64 * (i * ?N div ns) = ?c i" using i by (simp add: fill_cut_def part_cut_def)
    moreover have "i \<le> ns" "i + 1 \<le> ns" using i by simp_all
    moreover have "u32_nat (?c i) = Ok (?c i)" using j [of i] ci i by simp
    ultimately show ?thesis
      by (subst fill_shards.simps) (simp only: i if_True N si j e rbind_Inr)
  qed
  moreover obtain ms1 where 1: "push_fill lib rid fd compression (?c i) (?c (i + 1)) q = Ok (q\<lparr>other_messages := other_messages q @ ms1\<rparr>)"
      "fill_msg lib compression rid fd (?c i) (?c (i + 1)) (concat ms1)"
    using push_fill_ok [OF assms(1), of "?c i" "?c (i + 1)" fd rid q] step [OF i] le(3) [of "i + 1"] i assms(2) by auto
  have ab: "?c i < ?c (i + 1)" "?c (i + 1) \<le> length fd" using step [OF i] le(3) [of "i + 1"] i assms(2) by simp_all
  obtain st1 cache1 where d: "deliver lib compression (concat ms1) st cache = Ok (st1, cache1)"
      "holds st1 rid (write_at (take (?c i) fd @ drop (?c i) bs) (?c i) (sub_slice fd (?c i) (?c (i + 1))))"
    using deliver_fill [OF 1(2) ab _ assms(4) Suc.prems(2), of cache] ab assms(2,3,10) by auto
  have "write_at (take (?c i) fd @ drop (?c i) bs) (?c i) (sub_slice fd (?c i) (?c (i + 1))) =
      take (?c (i + 1)) fd @ drop (?c (i + 1)) bs"
    using ab assms(2,10) take_add [of "?c i" "?c (i + 1) - ?c i" fd] by (simp add: write_at_def sub_slice_def)
  with d(2) have h: "holds st1 rid (take (?c (i + 1)) fd @ drop (?c (i + 1)) bs)" by simp
  have "k = ns - (i + 1)" "i + 1 \<le> ns" using Suc.hyps(2) by simp_all
  from Suc.hyps(1) [OF this h, of "q\<lparr>other_messages := other_messages q @ ms1\<rparr>" cache1] obtain ms msgs st' cache' where
    2: "fill_shards lib rid n fd compression ns (i + 1) (q\<lparr>other_messages := other_messages q @ ms1\<rparr>) =
        Ok (q\<lparr>other_messages := (other_messages q @ ms1) @ ms\<rparr>)"
      "concat msgs = concat ms" "list_all framed msgs" "deliver_all lib compression msgs st1 cache1 = Ok (st', cache')" "holds st' rid fd"
    by auto
  ultimately show ?case using 1 d(1) fill_msg_framed [OF 1(2)]
    by (intro exI [of _ "ms1 @ ms"] exI [of _ "concat ms1 # msgs"]) simp
qed

lemma fill_cut_step:
  assumes "0 < ns" and "ns \<le> n div 64" and "n div 64 \<le> ns * 4096" and "i < ns"
  shows "fill_cut n ns i < fill_cut n ns (i + 1) \<and> fill_cut n ns (i + 1) - fill_cut n ns i \<le> 0x100000"
proof -
  note p = part_cut_step [OF assms(1-3), of i]
  have "part_cut ns (n div 64) (i + 1) \<le> fill_cut n ns (i + 1)" "fill_cut n ns (i + 1) \<le> part_cut ns (n div 64) (i + 1) + 63"
  proof -
    have "part_cut ns (n div 64) ns = n - n mod 64" using assms(1) by (simp add: part_cut_def minus_mod_eq_mult_div)
    moreover have "n - n mod 64 \<le> n" "n \<le> (n - n mod 64) + 63" using mod_less_divisor [of 64 n] by linarith+
    ultimately show "part_cut ns (n div 64) (i + 1) \<le> fill_cut n ns (i + 1)"
        "fill_cut n ns (i + 1) \<le> part_cut ns (n div 64) (i + 1) + 63"
      by (auto simp: fill_cut_def simp del: Suc_eq_plus1 [symmetric])
  qed
  moreover have "fill_cut n ns i = part_cut ns (n div 64) i" using assms(4) by (simp add: fill_cut_def)
  ultimately show ?thesis using p by linarith
qed

lemma construct_fill_ok:
  assumes "codec_ok lib compression" and "length fd = n" and "n < 2 ^ 31" and "is_i32 rid" and "holds st rid bs" and "length bs = n"
  shows "\<exists>ms msgs st' cache'. construct_fill_transfers lib rid n fd q compression = Ok (q\<lparr>other_messages := other_messages q @ ms\<rparr>) \<and>
    concat msgs = concat ms \<and> list_all framed msgs \<and>
    deliver_all lib compression msgs st cache = Ok (st', cache') \<and> holds st' rid fd"
proof -
  let ?N = "n div 64"
  have N: "as_u32_nat ?N = ?N" "64 * ?N \<le> U32_MAX" using assms(3) by (simp_all add: as_u32_nat_id U32_MAX_def)
  have h: "holds st rid (take (fill_cut n ns 0) fd @ drop (fill_cut n ns 0) bs)" if "0 < ns" for ns
    using assms(5) that by (simp add: fill_cut_def part_cut_def)
  show ?thesis
  proof (cases "?N = 0")
    case True
    then have n: "n < 64" "n mod 64 = n" by (simp_all add: div_eq_0_iff)
    show ?thesis
    proof (cases "n = 0")
      case True
      then show ?thesis using assms(2,5,6)
        by (intro exI [of _ "[]"]) (simp add: construct_fill_transfers_def as_u32_nat_def ceildiv_def div_ceil_def DIFF_CHUNKSIZE_def fill_shards.simps)
    next
      case False
      have "construct_fill_transfers lib rid n fd q compression = fill_shards lib rid n fd compression 1 0 q"
        using False True n(2) by (simp add: construct_fill_transfers_def as_u32_nat_def ceildiv_def div_ceil_def DIFF_CHUNKSIZE_def)
      moreover have "fill_cut n 1 i < fill_cut n 1 (i + 1) \<and> fill_cut n 1 (i + 1) - fill_cut n 1 i \<le> 0x100000" if "i < 1" for i
        using that False n(1) by (simp add: fill_cut_def part_cut_def)
      ultimately show ?thesis using fill_shards_ok [OF assms(1-4) _ _ _ _ h assms(6), of 1 q cache] by simp
    qed
  next
    case False
    then obtain ns where ns: "ceildiv ?N (DIFF_CHUNKSIZE div 64) = Ok ns" "0 < ns" "ns < 2 ^ 15" "ns \<le> ?N" "?N \<le> ns * 4096"
      using shard_count [of ?N] N(2) by blast
    then have "construct_fill_transfers lib rid n fd q compression = fill_shards lib rid n fd compression ns 0 q"
      by (simp add: construct_fill_transfers_def N(1))
    then show ?thesis
      using fill_shards_ok [OF assms(1-4) ns(2,3) fill_cut_step [OF ns(2,4,5)] _ h [OF ns(2)] assms(6), of q cache] by simp
  qed
qed

section \<open>Properties\<close>

text \<open>
  C29: a read-only file is copied. On its first visit \<open>collect_updates\<close> announces the file and sends all its
  bytes; the messages, which are padded to multiples of four bytes and say how long they are, make the other
  side create a file that has exactly the contents of the local one. This holds for every size that the
  protocol can announce, also 0, and for each of the three ways to compress.
\<close>

theorem readonly_file_copied:
  assumes "readonly sfd" and "only_here sfd" and "file_size sfd = length fd" and "length fd < 2 ^ 31" and "is_i32 (remote_id sfd)"
    and "codec_ok lib compression" and "decompress_queue st = []"
  shows "\<exists>sfd' q' msgs st' cache' r. collect_file_updates lib sfd fd q compression = Ok (sfd', q') \<and> \<not> only_here sfd' \<and>
    concat (other_messages q') = concat (other_messages q) @ concat msgs \<and> list_all framed msgs \<and>
    deliver_all lib compression msgs st cache = Ok (st', cache') \<and>
    sfd_map st' (remote_id sfd) = Some (FileFd r) \<and> mapping (core r) = fd"
proof -
  let ?rid = "remote_id sfd" and ?n = "length fd" and ?o = "size_msg OpenFile (remote_id sfd) (length fd)"
  obtain st1 where o: "deliver lib compression ?o st cache = Ok (st1, cache)" "holds st1 ?rid (replicate ?n 0)"
    using deliver_open [OF assms(5,4,7)] by blast
  obtain ms msgs st' cache' where f: "construct_fill_transfers lib ?rid ?n fd (push_msg ?o q) compression =
      Ok (push_msg ?o q\<lparr>other_messages := other_messages (push_msg ?o q) @ ms\<rparr>)" "concat msgs = concat ms" "list_all framed msgs"
      "deliver_all lib compression msgs st1 cache = Ok (st', cache')" "holds st' ?rid fd"
    using construct_fill_ok [OF assms(6) refl assms(4,5) o(2)] by force
  have "file_msg OpenFile ?rid ?n = Ok ?o" by (simp add: file_msg_def build_wmsg_header_ok size_msg_def size_header_def)
  then have "collect_file_updates lib sfd fd q compression =
      Ok (sfd\<lparr>remote_bufsize := ?n, only_here := False\<rparr>, push_msg ?o q\<lparr>other_messages := other_messages (push_msg ?o q) @ ms\<rparr>)"
    using assms(1-3) f(1) by (simp add: collect_file_updates_def Let_def)
  moreover have "framed ?o"
    using size_msg_fields(1,2) [OF assms(5,4), of OpenFile] parse_header_word [of 12 OpenFile]
    by (auto simp: framed_def size_header_def next_multiple_of_def div_ceil_def)
  ultimately show ?thesis using o(1) f(2-5)
    by (auto simp: push_msg_def holds_def intro!: exI [of _ "?o # msgs"])
qed

theorem readonly_file_copied_witness:
  "\<exists>msgs st' cache' r. deliver_all ex_lib (Lz4 0) msgs \<lparr>sfd_map = Map.empty, fresh = {}, max_local_id = 1, decompress_queue = []\<rparr>
       ex_contexts = Ok (st', cache') \<and> sfd_map st' (- 1) = Some (FileFd r) \<and> mapping (core r) = [1, 2, 3]"
proof -
  let ?s = "\<lparr>file_size = 3, file_damage = Everything, remote_bufsize = 0, readonly = True, remote_id = - 1, only_here = True\<rparr>"
  show ?thesis
    using readonly_file_copied [of ?s "[1, 2, 3]" ex_lib "Lz4 0"
        "\<lparr>sfd_map = Map.empty, fresh = {}, max_local_id = 1, decompress_queue = []\<rparr>" ex_queue ex_contexts] ex_lib_ok(1) [of 0]
    by (simp add: is_i32_def I32_MIN_def I32_MAX_def) blast
qed

end
