(* ===== verification/Task_Effects.thy ===== *)
theory Task_Effects
  imports Diff_Messages
begin

text \<open>
  What applying a message changes. An apply task overwrites some bytes of its region with fixed values, in
  the file and in the mirror; what it writes does not depend on what they held. Two tasks with disjoint
  regions can therefore run in either order.
\<close>

section \<open>Overlays\<close>

text \<open>\<open>over W s xs\<close> overwrites the list \<open>xs\<close>, whose first element has position \<open>s\<close>, by the values of \<open>W\<close>.\<close>

definition over :: "(nat \<Rightarrow> 'a option) \<Rightarrow> nat \<Rightarrow> 'a list \<Rightarrow> 'a list" where
  "over W s xs = map (\<lambda>i. case W (s + i) of None \<Rightarrow> xs ! i | Some b \<Rightarrow> b) [0..<length xs]"

definition chunk :: "nat \<Rightarrow> 'a list \<Rightarrow> nat \<Rightarrow> 'a option" where
  "chunk p ys i = (if p \<le> i \<and> i < p + length ys then Some (ys ! (i - p)) else None)"

lemma length_over [simp]: "length (over W s xs) = length xs"
  by (simp add: over_def)

lemma nth_over [simp]: "i < length xs \<Longrightarrow> over W s xs ! i = (case W (s + i) of None \<Rightarrow> xs ! i | Some b \<Rightarrow> b)"
  by (auto simp: over_def split: option.splits)

lemma over_over: "over V s (over W s xs) = over (W ++ V) s xs"
  by (rule nth_equalityI) (auto simp: map_add_def split: option.splits)

lemma over_empty [simp]: "over Map.empty s xs = xs"
  by (rule nth_equalityI) simp_all

lemma dom_chunk: "dom (chunk p ys) = {p..<p + length ys}"
  by (auto simp: chunk_def dom_def)

lemma write_at_over: "a + length ys \<le> length xs \<Longrightarrow> write_at xs a ys = over (chunk (s + a) ys) s xs"
  by (rule nth_equalityI) (auto simp: nth_write_at chunk_def)

lemma over_slice:
  assumes "a \<le> b" and "b \<le> length xs" and "dom W \<subseteq> {a..<b}"
  shows "write_at xs a (over W a (sub_slice xs a b)) = over W 0 xs"
proof (rule nth_equalityI)
  show "length (write_at xs a (over W a (sub_slice xs a b))) = length (over W 0 xs)" using assms(1,2) by simp
  fix i assume "i < length (write_at xs a (over W a (sub_slice xs a b)))"
  then have i: "i < length xs" using assms(1,2) by simp
  have "W i = None" if "i < a \<or> b \<le> i" using assms(3) that by (auto simp: dom_def)
  moreover have "sub_slice xs a b ! (i - a) = xs ! i" if "a \<le> i" "i < b"
    using nth_slice [OF assms(1,2), of "i - a"] diff_less_mono [OF that(2,1)] that(1) by simp
  ultimately show "write_at xs a (over W a (sub_slice xs a b)) ! i = over W 0 xs ! i"
    using i assms(1,2) by (cases "a \<le> i \<and> i < b") (auto simp: nth_write_at split: option.splits)
qed

section \<open>Diffs\<close>

text \<open>The segment at a position of a diff, for a file and a range of the mirror of the given lengths.\<close>

definition segment_at :: "bytes \<Rightarrow> nat \<Rightarrow> nat \<Rightarrow> nat \<Rightarrow> nat \<Rightarrow> nat \<Rightarrow> nat \<Rightarrow> nat \<Rightarrow> bytes \<Rightarrow> bool" where
  "segment_at diff nblocks ms pos lf lm start e bs \<longleftrightarrow>
     read_u32_at diff pos = Ok start \<and> read_u32_at diff (pos + 4) = Ok e \<and> start < e \<and>
     pos + 8 + 4 * (e - start) \<le> length diff \<and> bs = sub_slice diff (pos + 8) (pos + 8 + 4 * (e - start)) \<and>
     ms \<le> 4 * start \<and> 4 * e \<le> ms + lm \<and> 4 * e \<le> lf"

lemma segment_at_length: "segment_at diff nblocks ms pos lf lm start e bs \<Longrightarrow> length bs = 4 * (e - start)"
  by (simp add: segment_at_def)

lemma mirror_write_iff:
  assumes "start < e" and "length bs = 4 * (e - start)"
  shows "mirror_write mir ms start e bs = Ok mir' \<longleftrightarrow> ms \<le> 4 * start \<and> 4 * e \<le> ms + length mir \<and> mir' = write_at mir (4 * start - ms) bs"
proof -
  have "start * 4 - ms \<le> e * 4 - ms" using assms(1) by simp
  then show ?thesis
    using assms(1) by (auto simp: mirror_write_def usize_sub_def slice_res_def mult.commute)
qed

lemma slice_res_iff: "a \<le> b \<Longrightarrow> slice_res xs a b = Ok ys \<longleftrightarrow> b \<le> length xs \<and> ys = sub_slice xs a b"
  by (auto simp: slice_res_def)

lemma apply_loop_segment:
  assumes "apply_loop diff nblocks buf_end ms pos fd mir = Ok r" and "pos < 4 * nblocks"
  obtains start e bs where "segment_at diff nblocks ms pos (length fd) (length mir) start e bs" and "e \<le> buf_end"
    and "pos + 8 + 4 * (e - start) \<le> 4 * nblocks"
proof -
  note u = assms(1) [unfolded apply_loop.simps [of diff nblocks buf_end ms pos] if_P [OF assms(2)] Let_def]
  obtain start e where r: "read_u32_at diff pos = Ok start" "read_u32_at diff (pos + 4) = Ok e"
    using u by (auto simp: rbind_eq_Inr_iff)
  have g: "start < e" "e \<le> buf_end" "pos + 8 + 4 * (e - start) \<le> 4 * nblocks" using u r by (auto split: if_splits)
  let ?q = "pos + 8 + 4 * (e - start)"
  have "\<exists>bs mir1 fd1. slice_res diff (pos + 8) ?q = Ok bs \<and> mirror_write mir ms start e bs = Ok mir1 \<and>
      write_at_res fd (4 * start) (concat (map u32_to_le_bytes (words_of bs))) = Ok fd1"
    using u r g by (auto simp: rbind_eq_Inr_iff)
  then obtain bs mir1 fd1 where b: "slice_res diff (pos + 8) ?q = Ok bs" "mirror_write mir ms start e bs = Ok mir1"
      "write_at_res fd (4 * start) (concat (map u32_to_le_bytes (words_of bs))) = Ok fd1" by blast
  then have l: "?q \<le> length diff" "bs = sub_slice diff (pos + 8) ?q" by (simp_all add: slice_res_iff)
  then have lb: "length bs = 4 * (e - start)" by simp
  moreover have "concat (map u32_to_le_bytes (words_of bs)) = bs" using lb by (intro words_of_bytes) simp
  ultimately have "4 * start + 4 * (e - start) \<le> length fd" using b(3) by (auto simp: write_at_res_def split: if_splits)
  then have "4 * e \<le> length fd" using g(1) by linarith
  then show ?thesis using that [of start e bs] r g l b(2) mirror_write_iff [OF g(1) lb] by (auto simp: segment_at_def)
qed

lemma apply_loop_next:
  assumes "segment_at diff nblocks ms pos (length fd) (length mir) start e bs" and "e \<le> buf_end"
    and "pos + 8 + 4 * (e - start) \<le> 4 * nblocks"
  shows "apply_loop diff nblocks buf_end ms pos fd mir =
    apply_loop diff nblocks buf_end ms (pos + 8 + 4 * (e - start)) (write_at fd (4 * start) bs) (write_at mir (4 * start - ms) bs)"
proof -
  have s: "read_u32_at diff pos = Ok start" "read_u32_at diff (pos + 4) = Ok e" "start < e" "pos + 8 + 4 * (e - start) \<le> length diff"
      "bs = sub_slice diff (pos + 8) (pos + 8 + 4 * (e - start))" "ms \<le> 4 * start" "4 * e \<le> ms + length mir" "4 * e \<le> length fd"
    using assms(1) by (simp_all add: segment_at_def)
  have l: "length bs = 4 * (e - start)" using assms(1) by (rule segment_at_length)
  then have w: "concat (map u32_to_le_bytes (words_of bs)) = bs" by (intro words_of_bytes) simp
  have m: "mirror_write mir ms start e bs = Ok (write_at mir (4 * start - ms) bs)" using mirror_write_iff [OF s(3) l] s(6,7) by simp
  have "4 * start + length bs \<le> length fd" using l s(3,8) by linarith
  then have f: "write_at_res fd (4 * start) bs = Ok (write_at fd (4 * start) bs)" by simp
  have p: "pos < 4 * nblocks" "slice_res diff (pos + 8) (pos + 8 + 4 * (e - start)) = Ok bs" using assms(3) s(4,5) by simp_all
  have g: "\<not> (e \<le> start \<or> e > buf_end \<or> pos + 8 + 4 * (e - start) > 4 * nblocks)" using s(3) assms(2,3) by simp
  show ?thesis
    by (subst apply_loop.simps) (simp only: p(1) if_True s(1,2) rbind_Inr if_not_P [OF g] Let_def p(2) m w f mult.commute [of _ 4])
qed

lemma apply_loop_over:
  assumes "apply_loop diff nblocks buf_end ms pos fd mir = Ok r"
  shows "\<exists>W. dom W \<subseteq> {ms..<ms + length mir} \<and>
    (\<forall>fd2 mir2. length fd2 = length fd \<longrightarrow> length mir2 = length mir \<longrightarrow>
       apply_loop diff nblocks buf_end ms pos fd2 mir2 = Ok (over W 0 fd2, over W ms mir2))"
  using assms
proof (induction "4 * nblocks - pos" arbitrary: pos fd mir rule: less_induct)
  case less
  show ?case
  proof (cases "pos < 4 * nblocks")
    case False
    then show ?thesis by (intro exI [of _ Map.empty]) (simp add: apply_loop.simps)
  next
    case True
    obtain start e bs where s: "segment_at diff nblocks ms pos (length fd) (length mir) start e bs" "e \<le> buf_end"
        "pos + 8 + 4 * (e - start) \<le> 4 * nblocks"
      using apply_loop_segment [OF less.prems True] by blast
    let ?q = "pos + 8 + 4 * (e - start)" and ?C = "chunk (4 * start) bs"
    have b: "ms \<le> 4 * start" "4 * start + length bs \<le> ms + length mir" "4 * start + length bs \<le> length fd"
      using s(1) segment_at_length [OF s(1)] by (auto simp: segment_at_def)
    have w: "write_at fd2 (4 * start) bs = over ?C 0 fd2" "write_at mir2 (4 * start - ms) bs = over ?C ms mir2"
      if "length fd2 = length fd" "length mir2 = length mir" for fd2 mir2
      using write_at_over [of "4 * start" bs fd2 0] write_at_over [of "4 * start - ms" bs mir2 ms] that b by simp_all
    have "apply_loop diff nblocks buf_end ms ?q (over ?C 0 fd) (over ?C ms mir) = Ok r"
      using apply_loop_next [OF s] less.prems w [of fd mir] by simp
    moreover have "4 * nblocks - ?q < 4 * nblocks - pos" using True by linarith
    ultimately obtain W where W: "dom W \<subseteq> {ms..<ms + length mir}"
        "\<forall>fd2 mir2. length fd2 = length fd \<longrightarrow> length mir2 = length mir \<longrightarrow>
          apply_loop diff nblocks buf_end ms ?q fd2 mir2 = Ok (over W 0 fd2, over W ms mir2)"
      using less.hyps [of ?q "over ?C 0 fd" "over ?C ms mir"] unfolding length_over by blast
    have "apply_loop diff nblocks buf_end ms pos fd2 mir2 = Ok (over (?C ++ W) 0 fd2, over (?C ++ W) ms mir2)"
      if "length fd2 = length fd" "length mir2 = length mir" for fd2 mir2
      using apply_loop_next [of diff nblocks ms pos fd2 mir2 start e bs buf_end] s that w [OF that] W(2) by (simp add: over_over)
    moreover have "dom (?C ++ W) \<subseteq> {ms..<ms + length mir}" using W(1) b by (auto simp: dom_chunk)
    ultimately show ?thesis by blast
  qed
qed

lemma length_words: "length (get_u32 fd) = length fd div 4"
  by (simp add: get_u32_def length_words_of)

lemma apply_diff_over:
  assumes "apply_diff diff nt fd ms mir = Ok r"
  shows "\<exists>W. dom W \<subseteq> {ms..<ms + length mir} \<and>
    (\<forall>fd2 mir2. length fd2 = length fd \<longrightarrow> length mir2 = length mir \<longrightarrow>
       apply_diff diff nt fd2 ms mir2 = Ok (over W 0 fd2, over W ms mir2))"
proof -
  let ?nb = "(length diff - nt) div 4" and ?be = "length fd div 4"
  have g: "nt \<le> length diff" "(length diff - nt) mod 4 = 0"
    using assms by (auto simp: apply_diff_def usize_sub_def assert_that_def split: if_splits)
  have u: "apply_diff diff nt fd2 ms mir2 = rbind (apply_loop diff ?nb ?be ms 0 fd2 mir2) (\<lambda>(fd, mirror).
       if nt > 0 then
         rbind (usize_sub (length fd) nt) (\<lambda>offset.
         rbind (slice_res diff (?nb * 4) (?nb * 4 + nt)) (\<lambda>bs.
         rbind (write_at_res fd offset bs) (\<lambda>fd.
         rbind (usize_sub offset ms) (\<lambda>moff.
         rbind (write_at_res mirror moff bs) (\<lambda>mirror. Ok (fd, mirror))))))
       else Ok (fd, mirror))" if "length fd2 = length fd" for fd2 mir2
    using g that by (simp add: apply_diff_def usize_sub_def length_words Let_def)
  obtain r1 where "apply_loop diff ?nb ?be ms 0 fd mir = Ok r1" using assms u [OF refl, of mir] by (auto simp: rbind_eq_Inr_iff)
  from apply_loop_over [OF this] obtain W where W: "dom W \<subseteq> {ms..<ms + length mir}"
      "\<forall>fd2 mir2. length fd2 = length fd \<longrightarrow> length mir2 = length mir \<longrightarrow>
        apply_loop diff ?nb ?be ms 0 fd2 mir2 = Ok (over W 0 fd2, over W ms mir2)" by blast
  show ?thesis
  proof (cases "nt = 0")
    case True
    then show ?thesis using W u by (intro exI [of _ W]) simp
  next
    case False
    let ?o = "length fd - nt" and ?bs = "sub_slice diff (?nb * 4) (?nb * 4 + nt)"
    have nb: "?nb * 4 + nt = length diff" using g by auto
    then have bs: "slice_res diff (?nb * 4) (?nb * 4 + nt) = Ok ?bs" "length ?bs = nt" by simp_all
    have t: "nt \<le> length fd" "ms \<le> ?o" "?o - ms + nt \<le> length mir"
      using assms u [OF refl, of mir] W(2) False bs
      by (auto simp: rbind_eq_Inr_iff usize_sub_def write_at_res_def split: if_splits)
    let ?C = "chunk ?o ?bs"
    have "apply_diff diff nt fd2 ms mir2 = Ok (over (W ++ ?C) 0 fd2, over (W ++ ?C) ms mir2)"
      if "length fd2 = length fd" "length mir2 = length mir" for fd2 mir2
    proof -
      have "write_at (over W 0 fd2) ?o ?bs = over ?C 0 (over W 0 fd2)" "write_at (over W ms mir2) (?o - ms) ?bs = over ?C ms (over W ms mir2)"
        using write_at_over [of ?o ?bs "over W 0 fd2" 0] write_at_over [of "?o - ms" ?bs "over W ms mir2" ms] that t bs(2) by simp_all
      then show ?thesis using u [OF that(1), of mir2] W(2) that False t bs by (simp add: usize_sub_def over_over)
    qed
    moreover have "dom (W ++ ?C) \<subseteq> {ms..<ms + length mir}" using W(1) t bs(2) by (auto simp: dom_chunk)
    ultimately show ?thesis by blast
  qed
qed

section \<open>Apply tasks\<close>

lemma backing_put_put [simp]:
  "mbytes (backing_put st bs) = bs" "backing_put st (mbytes st) = st" "backing_put (backing_put st bs) bs' = backing_put st bs'"
  by (cases st; cases "backing st"; simp add: backing_put_def)+

lemma idle_backing_put: "idle_mirror st bs \<Longrightarrow> length bs' = length bs \<Longrightarrow> idle_mirror (backing_put st bs') bs'"
  by (cases "backing st") (auto simp: idle_mirror_def mirror_inv_def backing_put_def)

lemma with_range_idle:
  assumes "idle_mirror st bs"
  shows "with_range st (a, b) err f = Ok (v, st') \<longleftrightarrow>
    a < b \<and> b \<le> length bs \<and> (\<exists>d. f (sub_slice bs a b) = Ok (v, d) \<and> length d \<le> b - a \<and> st' = backing_put st (write_at bs a d))"
proof -
  have st: "mirror_inv st" "ranges st = []" "mbytes st = bs" "region_size st = length bs"
    using assms by (auto simp: idle_mirror_def mirror_inv_def)
  have d: "drop_range (backing_put (st\<lparr>ranges := [(a, b)]\<rparr>) x) \<lparr>span = (a, b)\<rparr> = backing_put st x" for x
    using st(2) by (cases st; cases "backing st") (simp_all add: drop_range_def backing_put_def)
  from st(1) show ?thesis
  proof (cases rule: get_mut_range_cases [where x = "(a, b)"])
    case refused
    then show ?thesis using st(2) by (auto simp: with_range_def ok_or_def)
  next
    case outside
    then show ?thesis using st(4) by (auto simp: with_range_def ok_or_def)
  next
    case granted
    then have "get_mut_range st (a, b) = Ok (Some \<lparr>span = (a, b)\<rparr>, st\<lparr>ranges := [(a, b)]\<rparr>)" "a < b" "b \<le> length bs"
      using st(2,4) by (auto simp: List.insert_def)
    then show ?thesis using st(3) d
      by (auto simp: with_range_def ok_or_def range_read_def range_write_def rbind_eq_Inr_iff assert_that_def split: if_splits)
  qed
qed

definition task_region :: "ApplyTask \<Rightarrow> nat set" where
  "task_region t = {region_start t..<region_end t}"

text \<open>A task for a file, as the decompression makes it.\<close>

definition file_task :: "ApplyTask \<Rightarrow> bool" where
  "file_task t \<longleftrightarrow> (\<exists>s. ap_target t = DecompFile s) \<and>
     (is_diff_type t \<or> region_start t < region_end t \<and> length (ap_data t) = region_end t - region_start t)"

definition overlaid :: "ShadowFdFileCore \<Rightarrow> (nat \<Rightarrow> u8 option) \<Rightarrow> (nat \<Rightarrow> u8 option) \<Rightarrow> ShadowFdFileCore" where
  "overlaid c W V = \<lparr>mem_mirror = backing_put (mem_mirror c) (over V 0 (mbytes (mem_mirror c))), mapping = over W 0 (mapping c)\<rparr>"

definition idle_core :: "ShadowFdFileCore \<Rightarrow> bool" where
  "idle_core c \<longleftrightarrow> idle_mirror (mem_mirror c) (mbytes (mem_mirror c))"

definition same_size :: "ShadowFdFileCore \<Rightarrow> ShadowFdFileCore \<Rightarrow> bool" where
  "same_size c d \<longleftrightarrow> length (mapping c) = length (mapping d) \<and> length (mbytes (mem_mirror c)) = length (mbytes (mem_mirror d))"

lemma overlaid_simps [simp]:
  "idle_core c \<Longrightarrow> idle_core (overlaid c W V)" "same_size (overlaid c W V) d = same_size c d" "same_size d (overlaid c W V) = same_size d c"
  by (simp_all add: idle_core_def overlaid_def same_size_def idle_backing_put)

lemma overlaid_overlaid: "overlaid (overlaid c W V) W' V' = overlaid c (W ++ W') (V ++ V')"
  by (simp add: overlaid_def over_over)

lemma task_effect:
  assumes "file_task t" and "idle_core c" and "run_apply_task t c = Ok (out, c')"
  shows "\<exists>W V. dom W \<subseteq> task_region t \<and> dom V \<subseteq> task_region t \<and>
    (\<forall>d. idle_core d \<longrightarrow> same_size d c \<longrightarrow> run_apply_task t d = Ok (out, overlaid d W V))"
proof -
  let ?a = "region_start t" and ?b = "region_end t" and ?bs = "mbytes (mem_mirror c)"
  obtain skip where tg: "ap_target t = DecompFile skip" using assms(1) by (auto simp: file_task_def)
  have idle: "idle_mirror (mem_mirror c) ?bs" using assms(2) by (simp add: idle_core_def)
  have out: "out = ApplyDone (ap_remote_id t)"
    using assms(3) tg by (auto simp: run_apply_task_def run_apply_shm_def rbind_eq_Inr_iff split: if_splits)
  show ?thesis
  proof (cases "is_diff_type t")
    case True
    obtain r m where x: "with_range (mem_mirror c) (?a, ?b) ''Failed to acquire mirror range {}..{} when applying''
        (\<lambda>data. apply_diff (ap_data t) (ap_ntrailing t) (mapping c) ?a data) = Ok (r, m)"
      using assms(3) True tg by (auto simp: run_apply_task_def run_apply_shm_def rbind_eq_Inr_iff)
    obtain d where ab: "?a < ?b" "?b \<le> length ?bs"
        and "apply_diff (ap_data t) (ap_ntrailing t) (mapping c) ?a (sub_slice ?bs ?a ?b) = Ok (r, d)"
      using with_range_idle [OF idle, THEN iffD1, OF x] by blast
    from apply_diff_over [OF this(3)] ab obtain W where W: "dom W \<subseteq> {?a..<?b}"
        "\<forall>fd2 mir2. length fd2 = length (mapping c) \<longrightarrow> length mir2 = ?b - ?a \<longrightarrow>
          apply_diff (ap_data t) (ap_ntrailing t) fd2 ?a mir2 = Ok (over W 0 fd2, over W ?a mir2)" by auto
    have "run_apply_task t e = Ok (out, overlaid e W W)" if "idle_core e" "same_size e c" for e
    proof -
      let ?e = "mbytes (mem_mirror e)"
      have l: "?b \<le> length ?e" "length (mapping e) = length (mapping c)" using that(2) ab by (simp_all add: same_size_def)
      have "with_range (mem_mirror e) (?a, ?b) ''Failed to acquire mirror range {}..{} when applying''
          (\<lambda>data. apply_diff (ap_data t) (ap_ntrailing t) (mapping e) ?a data) =
          Ok (over W 0 (mapping e), backing_put (mem_mirror e) (write_at ?e ?a (over W ?a (sub_slice ?e ?a ?b))))"
        using that(1) W(2) l ab(1) by (subst with_range_idle [of _ ?e]) (auto simp: idle_core_def)
      then show ?thesis using True tg out over_slice [of ?a ?b ?e W] ab(1) l W(1)
        by (simp add: run_apply_task_def run_apply_shm_def overlaid_def)
    qed
    then show ?thesis using W(1) by (auto simp: task_region_def)
  next
    case False
    then have l: "?a < ?b" "length (ap_data t) = ?b - ?a" using assms(1) by (auto simp: file_task_def)
    let ?W = "chunk ?a (ap_data t)"
    have fd: "?b \<le> length (mapping c)" and mi: "\<not> skip \<Longrightarrow> ?b \<le> length ?bs"
      using assms(3) False tg l
      by (auto simp: run_apply_task_def run_apply_shm_def copy_onto_mapping_def write_at_res_def rbind_eq_Inr_iff
          split: if_splits dest: with_range_idle [OF idle, THEN iffD1])
    have "run_apply_task t e = Ok (out, overlaid e ?W (if skip then Map.empty else ?W))" if "idle_core e" "same_size e c" for e
    proof -
      let ?e = "mbytes (mem_mirror e)"
      have s: "length (mapping e) = length (mapping c)" "length ?e = length ?bs" using that(2) by (simp_all add: same_size_def)
      have w: "write_at (mapping e) ?a (ap_data t) = over ?W 0 (mapping e)"
          "\<not> skip \<Longrightarrow> write_at ?e ?a (ap_data t) = over ?W 0 ?e"
        using write_at_over [of ?a "ap_data t" _ 0] fd mi s l by auto
      have "with_range (mem_mirror e) (?a, ?b) ''Failed to acquire mirror range {}..{} when applying'' (\<lambda>data.
          rbind (assert_that (length data = length (ap_data t))) (\<lambda>_. Ok ((), ap_data t))) =
          Ok ((), backing_put (mem_mirror e) (write_at ?e ?a (ap_data t)))" if "\<not> skip"
        using \<open>idle_core e\<close> mi that s l by (subst with_range_idle [of _ ?e]) (auto simp: idle_core_def)
      then show ?thesis using False tg out w fd s l
        by (auto simp: run_apply_task_def run_apply_shm_def copy_onto_mapping_def overlaid_def)
    qed
    then show ?thesis using l by (intro exI [of _ ?W] exI [of _ "if skip then Map.empty else ?W"]) (auto simp: task_region_def dom_chunk)
  qed
qed

lemma tasks_swap:
  assumes "file_task t" and "file_task u" and "task_region t \<inter> task_region u = {}" and "idle_core c"
    and "run_apply_task t c = Ok (o1, c1)" and "run_apply_task u c1 = Ok (o2, c2)"
  shows "\<exists>c1'. run_apply_task u c = Ok (o2, c1') \<and> run_apply_task t c1' = Ok (o1, c2)"
proof -
  have refl: "same_size c c" by (simp add: same_size_def)
  obtain W V where t: "dom W \<subseteq> task_region t" "dom V \<subseteq> task_region t"
      "\<forall>d. idle_core d \<longrightarrow> same_size d c \<longrightarrow> run_apply_task t d = Ok (o1, overlaid d W V)"
    using task_effect [OF assms(1,4,5)] by blast
  have c1: "c1 = overlaid c W V" using t(3) assms(4,5) refl by simp
  then have i: "idle_core c1" "\<And>d. same_size d c1 = same_size d c" using assms(4) by simp_all
  obtain W' V' where u: "dom W' \<subseteq> task_region u" "dom V' \<subseteq> task_region u"
      "\<forall>d. idle_core d \<longrightarrow> same_size d c \<longrightarrow> run_apply_task u d = Ok (o2, overlaid d W' V')"
    using task_effect [OF assms(2) i(1) assms(6)] i(2) by auto
  have "c2 = overlaid c1 W' V'" using u(3) i assms(6) refl c1 by simp
  moreover have "W ++ W' = W' ++ W" "V ++ V' = V' ++ V" using t(1,2) u(1,2) assms(3) by (blast intro: map_add_comm)+
  ultimately show ?thesis using t(3) u(3) assms(4) refl c1 by (simp add: overlaid_overlaid)
qed

end
