(* ===== verification/Spec2Isabelle.thy ===== *)
theory Spec2Isabelle
  imports Read_Buffer Diff_Returns Protocol_Lookup Protocol_Messages Timestamps File_Link File_Fill Task_Effects
begin

text \<open>
  Verification of waypipe, a proxy for Wayland clients. Waypipe runs once beside the client and once beside
  the compositor; the two processes exchange messages over a channel. Wayland messages are parsed and, where
  they refer to file descriptors, rewritten; the contents of shared memory files are replicated: each side
  keeps a mirror of the file, the sender compares the damaged parts of the file with its mirror, sends the
  difference, and the receiver applies it to its own file and mirror.

  \<^bold>\<open>Conventions.\<close> \<open>Waypipe_Prelude\<close> has the result type \<open>'a res\<close>: \<open>Ok x\<close>, or a failure, which is an error value of the
  source (\<open>Err\<close>), a panic (assertions, arithmetic overflow, out of range indexing) or undefined behaviour.
  \<open>usize\<close> and \<open>u64\<close> are natural numbers with the bound \<open>USIZE_MAX\<close> checked by \<open>usize\<close>, \<open>u32\<close> values are words
  where the wire is concerned and otherwise natural numbers checked by \<open>u32_nat\<close>; \<open>i32\<close> are integers with
  \<open>is_i32\<close>. Every \<open>+\<close>, \<open>-\<close> and \<open>*\<close> of the source that could overflow is a checked operation that panics, as in a
  build with overflow checks. Loops are recursive functions with a termination proof; the construction of
  diffs is a \<open>partial_function (option)\<close>, and \<open>Diff_Returns\<close> shows that it returns on all inputs.

  \<^bold>\<open>The wire.\<close> \<open>Wayland_Wire\<close> models \<open>src/wayland.rs\<close>: headers and the seven kinds of arguments; a locale for
  an argument kind that is written, measured and parsed, and one for sequences of arguments.
  \<open>Protocol_Tables\<close> has the interface tables of \<open>src/wayland_gen.rs\<close>, \<open>Protocol_Lookup\<close> the lookup of an
  interface by name (a binary search), \<open>Protocol_Codec\<close> and \<open>Protocol_Messages\<close> the writers and parsers of 48 messages.
  Round trips, totality of the parsers on arbitrary bytes, and agreement of the parsers with the tables.
  \<open>Util\<close> and \<open>Shm_Format\<close> model the parts of \<open>src/util.rs\<close>: alignment, packing, \<open>split_interval\<close>, the channel
  header, pixel formats and their plane layouts.

  \<^bold>\<open>The channel.\<close> \<open>Read_Buffer\<close> models \<open>src/read.rs\<close>: chunks that are shared by the views of messages, the
  \<open>readv\<close> of data into two chunks, the extraction of messages. However the stream is cut into reads, the
  messages come out as they were sent, views are disjoint, no read overwrites data that is in use.

  \<^bold>\<open>Damage.\<close> \<open>Damage\<close> models \<open>src/damage.rs\<close>: damaged rectangles to sorted, aligned intervals of bytes, and the union
  of such lists. \<open>Surface_Transform\<close>, \<open>Surface_Damage\<close>, \<open>Surface_Scale\<close> and \<open>Surface_State\<close> model the part of \<open>src/tracking.rs\<close> that
  follows surfaces: scale, output transform and viewport, in both directions; the history of
  damage that a surface keeps; the handlers of the requests (one definition each, as state transformers of
  the objects and file descriptors), as an inductive step relation with the invariants of the reachable
  states. The reachable states include commits with any buffer scale, as \<open>wl_surface.commit\<close> only logs a scale that
  does not divide the buffer size. A commit with a scale up to the buffer size succeeds, and records every byte that
  needs an update if the scales divide the sizes; a larger scale can make it panic (\<open>Surface_Scale\<close> has the
  collection of damage for all scales). \<open>Timestamps\<close> has the translation of times between
  the clocks of the two machines.

  \<^bold>\<open>Diffs.\<close> \<open>Mirror\<close> models \<open>src/mirror.rs\<close>, with the ranges that are borrowed and the runs of requests, releases and extensions;
  \<open>Diff_Kernel\<close> the functions of
  \<open>src/kernel.rs\<close> that make, apply and measure diffs; \<open>Diff_Segments\<close>, \<open>Diff_Roundtrip\<close> and \<open>Diff_Returns\<close> show that
  applying a diff to the old contents gives the new contents, for both iterators (a locale that both
  interpret), which bytes a diff spans, and what becomes of a truncated diff.

  \<^bold>\<open>Replication.\<close> \<open>Compress\<close> models \<open>src/compress.rs\<close>, with the libraries LZ4 and Zstd as a parameter of which
  \<open>codec_ok\<close> collects the documented behaviour. \<open>Split_Damage\<close> cuts damage into tasks, \<open>Buffer_Tasks\<close> has the
  tasks that workers run (diff, decompress, apply), \<open>Diff_Messages\<close> shows that a diff task, its message and
  its application keep both sides in step. \<open>File_Replication\<close> models \<open>collect_updates\<close> of \<open>src/mainloop.rs\<close> for
  files and composes commit, partition, tasks and application. \<open>File_Messages\<close> models how a file is shared, resized,
  and created, extended and updated by messages (\<open>process_sfd_msg\<close>), \<open>File_Link\<close> runs the two ends of a file
  together over its whole life, \<open>File_Fill\<close> treats files that are sent once. \<open>Task_Effects\<close> shows that apply
  tasks with disjoint regions can run in either order.

  \<^bold>\<open>Parameters.\<close> The compression libraries, the unstable sort (any function that sorts by key), whether the
  kernel grants memory and system calls, what a file descriptor holds, the clocks, and how many bytes a read
  returns are arguments. File sizes are below \<open>2 ^ 31\<close>, as the channel protocol has them in \<open>i32\<close> fields.

  \<^bold>\<open>Not modelled.\<close> Vulkan, gbm and video (\<open>src/dmabuf.rs\<close>, \<open>src/gbm.rs\<close>, \<open>src/video.rs\<close>, the shaders) are calls of
  foreign functions on GPU memory. \<open>src/main.rs\<close>, \<open>src/bench.rs\<close>, \<open>src/secctx.rs\<close>, \<open>src/platform.rs\<close> and \<open>src/stub.rs\<close>
  start processes, parse options, measure times or wrap system calls. Of \<open>src/mainloop.rs\<close> the poll loop, pipes, DMABUFs
  and timelines, of \<open>src/tracking.rs\<close> the handlers that only copy or drop messages, dmabuf feedback and
  screen capture, and of \<open>src/kernel.rs\<close> the AVX2 variant of the comparison are left out. The application side
  of \<open>wl_surface.commit\<close> is modelled; on the display side it waits for tasks. Memory that another process changes
  while it is compared is a snapshot here.
\<close>

end
